(* ===== verification/Prelude.thy ===== *)
theory Prelude
  imports Main "HOL-Library.Word" "HOL-Library.Sublist"
begin

text \<open>
  What the components share: Rust's \<open>Result\<close>, the string operations of the standard
  library that the sources use (\<open>strip_prefix\<close>, \<open>split_once\<close>, \<open>split\<close>,
  \<open>position\<close>), saturating arithmetic, and the collections of simplification rules the
  component theories extend.

  A Rust \<open>String\<close> or \<open>&str\<close> is a \<^typ>\<open>string\<close>, the list of its UTF-8 bytes, so
  \<^term>\<open>length\<close> is Rust's \<open>len\<close>.
\<close>

section \<open>Rule collections\<close>

named_theorems rust_simps \<open>evaluation of the standard library functions used by the model\<close>
named_theorems perm_simps \<open>the permission layer's decision tables\<close>
named_theorems loop_simps \<open>frame facts of the agent loop's phases\<close>

section \<open>Result\<close>

datatype ('a, 'e) result = Ok 'a | Err 'e

primrec is_ok :: "('a, 'e) result \<Rightarrow> bool" where
  "is_ok (Ok _) = True"
| "is_ok (Err _) = False"

primrec map_ok :: "('a \<Rightarrow> 'b) \<Rightarrow> ('a, 'e) result \<Rightarrow> ('b, 'e) result" where
  "map_ok f (Ok x) = Ok (f x)"
| "map_ok f (Err e) = Err e"

primrec map_err :: "('e \<Rightarrow> 'f) \<Rightarrow> ('a, 'e) result \<Rightarrow> ('a, 'f) result" where
  "map_err f (Ok x) = Ok x"
| "map_err f (Err e) = Err (f e)"

lemma is_ok_iff: "is_ok r \<longleftrightarrow> (\<exists>x. r = Ok x)"
  by (cases r) auto

lemma map_ok_eq_Ok [simp]: "map_ok f r = Ok y \<longleftrightarrow> (\<exists>x. r = Ok x \<and> y = f x)"
  by (cases r) auto

lemma map_ok_eq_Err [simp]: "map_ok f r = Err e \<longleftrightarrow> r = Err e"
  by (cases r) auto

lemma map_err_eq_Ok [simp]: "map_err f r = Ok y \<longleftrightarrow> r = Ok y"
  by (cases r) auto

lemma map_err_eq_Err [simp]: "map_err f r = Err e \<longleftrightarrow> (\<exists>x. r = Err x \<and> e = f x)"
  by (cases r) auto

primrec unwrap_or :: "'a \<Rightarrow> 'a option \<Rightarrow> 'a" where
  "unwrap_or d None = d"
| "unwrap_or d (Some x) = x"

text \<open>\<open>a.or(b)\<close> on options.\<close>

primrec or_opt :: "'a option \<Rightarrow> 'a option \<Rightarrow> 'a option" where
  "or_opt None b = b"
| "or_opt (Some x) b = Some x"

section \<open>Saturating arithmetic\<close>

type_synonym u8 = "8 word"
type_synonym u32 = "32 word"

definition u32_max :: nat where
  "u32_max = 4294967295"

text \<open>\<open>u32::try_from(n).unwrap_or(u32::MAX)\<close>, read as a number.\<close>

definition sat_u32 :: "nat \<Rightarrow> nat" where
  "sat_u32 n = min n u32_max"

lemma sat_u32_le [simp]: "sat_u32 n \<le> n" "sat_u32 n \<le> u32_max"
  by (auto simp: sat_u32_def)

lemma sat_u32_mono: "m \<le> n \<Longrightarrow> sat_u32 m \<le> sat_u32 n"
  by (auto simp: sat_u32_def)

section \<open>Slices and strings\<close>

text \<open>\<open>s.strip_prefix(p)\<close>: the pattern is the first argument here.\<close>

fun strip_prefix :: "'a list \<Rightarrow> 'a list \<Rightarrow> 'a list option" where
  "strip_prefix [] s = Some s"
| "strip_prefix (p # ps) [] = None"
| "strip_prefix (p # ps) (c # s) = (if p = c then strip_prefix ps s else None)"

definition starts_with :: "'a list \<Rightarrow> 'a list \<Rightarrow> bool" where
  "starts_with p s = (strip_prefix p s \<noteq> None)"

definition strip_suffix :: "'a list \<Rightarrow> 'a list \<Rightarrow> 'a list option" where
  "strip_suffix p s = map_option rev (strip_prefix (rev p) (rev s))"

text \<open>\<open>s.split_once(c)\<close>: the text before and after the first \<open>c\<close>.\<close>

fun split_once :: "'a \<Rightarrow> 'a list \<Rightarrow> ('a list \<times> 'a list) option" where
  "split_once c [] = None"
| "split_once c (x # s) =
     (if x = c then Some ([], s) else map_option (\<lambda>(a, b). (x # a, b)) (split_once c s))"

text \<open>\<open>s.split(c)\<close>: at least one piece, none of which holds \<open>c\<close>.\<close>

fun split_on :: "'a \<Rightarrow> 'a list \<Rightarrow> 'a list list" where
  "split_on c [] = [[]]"
| "split_on c (x # s) =
     (if x = c then [] # split_on c s
      else (case split_on c s of [] \<Rightarrow> [[x]] | p # ps \<Rightarrow> (x # p) # ps))"

text \<open>\<open>xs.iter().position(p)\<close>.\<close>

fun position :: "('a \<Rightarrow> bool) \<Rightarrow> 'a list \<Rightarrow> nat option" where
  "position p [] = None"
| "position p (x # xs) = (if p x then Some 0 else map_option Suc (position p xs))"

text \<open>\<open>parts.join(sep)\<close>.\<close>

fun join :: "'a list \<Rightarrow> 'a list list \<Rightarrow> 'a list" where
  "join sep [] = []"
| "join sep [p] = p"
| "join sep (p # q # ps) = p @ sep @ join sep (q # ps)"

text \<open>\<open>iter().find_map(f)\<close>\<close>

fun find_map :: "('a \<Rightarrow> 'b option) \<Rightarrow> 'a list \<Rightarrow> 'b option" where
  "find_map f [] = None"
| "find_map f (x # xs) = (case f x of Some y \<Rightarrow> Some y | None \<Rightarrow> find_map f xs)"

text \<open>
  \<open>str::trim\<close>: the UTF-8 encodings of the characters with the \<open>White_Space\<close>
  property are dropped at both ends.
\<close>

definition white_space :: "string list" where
  "white_space =
     map (\<lambda>n. [char_of (n :: nat)]) [9, 10, 11, 12, 13, 32] @
     [[CHR 0xC2, CHR 0x85], [CHR 0xC2, CHR 0xA0], [CHR 0xE1, CHR 0x9A, CHR 0x80]] @
     map (\<lambda>n. [CHR 0xE2, CHR 0x80, char_of n])
       ([128, 129, 130, 131, 132, 133, 134, 135, 136, 137, 138, 168, 169, 175] :: nat list) @
     [[CHR 0xE2, CHR 0x81, CHR 0x9F], [CHR 0xE3, CHR 0x80, CHR 0x80]]"

function trim_with :: "'a list list \<Rightarrow> 'a list \<Rightarrow> 'a list" where
  "trim_with ws s =
     (case find_map (\<lambda>w. if w = [] then None else strip_prefix w s) ws of
        None \<Rightarrow> s
      | Some r \<Rightarrow> trim_with ws r)"
  by pat_completeness auto

definition trim_start :: "string \<Rightarrow> string" where
  "trim_start s = trim_with white_space s"

definition trim_end :: "string \<Rightarrow> string" where
  "trim_end s = rev (trim_with (map rev white_space) (rev s))"

definition trim :: "string \<Rightarrow> string" where
  "trim s = trim_end (trim_start s)"

lemma strip_prefix_Some: "strip_prefix p s = Some r \<longleftrightarrow> s = p @ r"
  by (induction p s rule: strip_prefix.induct) auto

lemma find_map_Some: "find_map f xs = Some y \<Longrightarrow> \<exists>x \<in> set xs. f x = Some y"
  by (induction xs) (auto split: option.splits)

termination trim_with
  by (relation "measure (\<lambda>(ws, s). length s)")
     (auto dest!: find_map_Some simp: strip_prefix_Some split: if_splits)

declare trim_with.simps [simp del]

lemma strip_prefix_append [simp]: "strip_prefix p (p @ r) = Some r"
  by (simp add: strip_prefix_Some)

lemma starts_with_iff: "starts_with p s \<longleftrightarrow> (\<exists>r. s = p @ r)"
  by (auto simp: starts_with_def strip_prefix_Some)

lemma starts_with_prefix: "starts_with p s \<longleftrightarrow> prefix p s"
  by (simp add: starts_with_iff prefix_def)

lemma strip_suffix_Some: "strip_suffix p s = Some r \<longleftrightarrow> s = r @ p"
proof -
  have "strip_suffix p s = Some r \<longleftrightarrow> rev s = rev p @ rev r"
    by (auto simp: strip_suffix_def strip_prefix_Some)
  also have "\<dots> \<longleftrightarrow> s = r @ p"
    by (metis rev_append rev_is_rev_conv)
  finally show ?thesis .
qed

lemma split_once_Some: "split_once c s = Some (a, b) \<longleftrightarrow> s = a @ c # b \<and> c \<notin> set a"
proof (induction s arbitrary: a)
  case (Cons x s)
  show ?case
    by (cases a) (auto simp: Cons.IH)
qed simp

lemma split_once_None: "split_once c s = None \<longleftrightarrow> c \<notin> set s"
  by (induction s) auto

lemma split_on_neq_Nil [simp]: "split_on c s \<noteq> []"
  by (induction s) (auto split: list.splits)

lemma split_on_no_sep: "c \<notin> set s \<Longrightarrow> split_on c s = [s]"
  by (induction s) auto

lemma join_split_on: "join [c] (split_on c s) = s"
proof (induction s)
  case (Cons x s)
  show ?case
  proof (cases "x = c")
    case True
    then show ?thesis using Cons by (cases "split_on c s") auto
  next
    case False
    obtain p ps where "split_on c s = p # ps" by (cases "split_on c s") auto
    then show ?thesis using Cons False by (cases ps) auto
  qed
qed simp

lemma split_on_piece: "p \<in> set (split_on c s) \<Longrightarrow> c \<notin> set p"
  by (induction s arbitrary: p) (auto split: if_splits list.splits)

lemma position_Some:
  "position p xs = Some i \<longleftrightarrow> i < length xs \<and> p (xs ! i) \<and> (\<forall>j < i. \<not> p (xs ! j))"
proof (induction xs arbitrary: i)
  case (Cons x xs)
  show ?case
    by (cases i) (auto simp: Cons.IH less_Suc_eq_0_disj)
qed simp

lemma position_None: "position p xs = None \<longleftrightarrow> (\<forall>x \<in> set xs. \<not> p x)"
  by (induction xs) auto

section \<open>Characters\<close>

text \<open>A byte starts a character unless it is a UTF-8 continuation byte.\<close>

definition is_continuation :: "char \<Rightarrow> bool" where
  "is_continuation c \<longleftrightarrow> (let b = (of_char c :: nat) in 128 \<le> b \<and> b < 192)"

definition is_char_boundary :: "string \<Rightarrow> nat \<Rightarrow> bool" where
  "is_char_boundary s i \<longleftrightarrow>
     i = 0 \<or> i = length s \<or> (i < length s \<and> (let b = (of_char (s ! i) :: nat) in b < 128 \<or> 192 \<le> b))"

text \<open>\<open>s.chars()\<close>, each character as its bytes.\<close>

function utf8_chars :: "string \<Rightarrow> string list" where
  "utf8_chars [] = []"
| "utf8_chars (c # s) = (c # takeWhile is_continuation s) # utf8_chars (dropWhile is_continuation s)"
  by pat_completeness auto

termination utf8_chars
  by (relation "measure length") (auto simp: le_imp_less_Suc length_dropWhile_le)

definition char_count :: "string \<Rightarrow> nat" where
  "char_count s = length (utf8_chars s)"

lemma concat_utf8_chars [simp]: "concat (utf8_chars s) = s"
  by (induction s rule: utf8_chars.induct) simp_all

lemma utf8_chars_neq_Nil: "c \<in> set (utf8_chars s) \<Longrightarrow> c \<noteq> []"
  by (induction s rule: utf8_chars.induct) auto

lemma length_le_concat: "(\<And>x. x \<in> set xs \<Longrightarrow> x \<noteq> []) \<Longrightarrow> length xs \<le> length (concat xs)"
proof (induction xs)
  case (Cons x xs)
  have "1 \<le> length x" using Cons.prems by (cases x) auto
  moreover have "length xs \<le> length (concat xs)" using Cons by simp
  ultimately show ?case unfolding concat.simps length_append list.size by linarith
qed simp

lemma char_count_le_length: "char_count s \<le> length s"
  unfolding char_count_def
  using length_le_concat [of "utf8_chars s"] utf8_chars_neq_Nil by simp

definition ellipsis :: string where
  "ellipsis = [CHR 0xE2, CHR 0x80, CHR 0xA6]"

definition em_dash :: string where
  "em_dash = [CHR 0xE2, CHR 0x80, CHR 0x94]"

definition nl :: string where
  "nl = [CHR 0x0A]"

section \<open>Searching for an element\<close>

lemma map_filter_append: "List.map_filter f (xs @ ys) = List.map_filter f xs @ List.map_filter f ys"
  by (simp add: List.map_filter_def)

lemma find_append: "find p (xs @ ys) = (case find p xs of None \<Rightarrow> find p ys | Some x \<Rightarrow> Some x)"
  by (induction xs) auto

lemma find_SomeD: "find p xs = Some x \<Longrightarrow> x \<in> set xs \<and> p x"
  by (auto simp: find_Some_iff)

lemma find_None_filter: "find p xs = None \<longleftrightarrow> filter p xs = []"
  by (auto simp: find_None_iff filter_empty_conv)

end
