(* ===== verification/Json.thy ===== *)
theory Json
  imports Prelude
begin

text \<open>
  The JSON values (\<open>serde_json::Value\<close>) that tool inputs, schemas and settings are made
  of, with the accessors the sources use on them. An object is the list of its members, keys
  unique; a number is kept as its text. Parsing and printing belong to the \<open>serde_json\<close>
  package: the definitions that need them take them as arguments.
\<close>

datatype json =
    JNull
  | JBool bool
  | JNumber string
  | JString string
  | JArray "json list"
  | JObject "(string \<times> json) list"

text \<open>\<open>Value::get\<close> with a string key.\<close>

fun json_get :: "json \<Rightarrow> string \<Rightarrow> json option" where
  "json_get (JObject ms) k = map_of ms k"
| "json_get _ k = None"

fun json_as_str :: "json \<Rightarrow> string option" where
  "json_as_str (JString s) = Some s"
| "json_as_str _ = None"

fun json_as_array :: "json \<Rightarrow> json list option" where
  "json_as_array (JArray xs) = Some xs"
| "json_as_array _ = None"

fun json_as_object :: "json \<Rightarrow> (string \<times> json) list option" where
  "json_as_object (JObject ms) = Some ms"
| "json_as_object _ = None"

text \<open>\<open>v.get(key).and_then(|v| v.as_str())\<close>\<close>

definition json_get_str :: "json \<Rightarrow> string \<Rightarrow> string option" where
  "json_get_str v k = Option.bind (json_get v k) json_as_str"

lemma json_get_str_JObject [simp]:
  "json_get_str (JObject ms) k = Option.bind (map_of ms k) json_as_str"
  by (simp add: json_get_str_def)

section \<open>Decimal numerals\<close>

text \<open>What \<open>format!("{n}")\<close> prints for an unsigned integer.\<close>

fun nat_str :: "nat \<Rightarrow> string" where
  "nat_str n =
     (if n < 10 then [char_of (48 + n)] else nat_str (n div 10) @ [char_of (48 + n mod 10)])"

declare nat_str.simps [simp del]

lemma nat_str_neq_Nil [simp]: "nat_str n \<noteq> []"
  by (subst nat_str.simps) simp

end
