(* ===== verification/Glob.thy ===== *)
theory Glob
  imports Json
begin

text \<open>
  \<open>crates/caliban-common/src/glob_match.rs\<close>: the shell-style matcher
  \<open>matches_glob\<close> that the sandbox bypass lists and the per-server MCP permissions use,
  and \<open>first_arg\<close>, the accessor of a tool call's first argument. The matcher is a greedy
  two-pointer loop that remembers the last star; it is compared with the textbook recursive
  definition \<open>glob_spec\<close>.
\<close>

section \<open>The matcher\<close>

text \<open>
  The \<open>while v < value_bytes.len()\<close> loop. The result is the pattern position at which
  the trailing-star loop starts, or \<open>None\<close> for the early \<open>return false\<close>.
\<close>

(* map: src/crates/caliban-common/src/glob_match.rs 13-36 matches_glob *)
function glob_loop ::
  "string \<Rightarrow> string \<Rightarrow> nat \<Rightarrow> nat \<Rightarrow> nat option \<Rightarrow> nat \<Rightarrow> nat option" where
  "glob_loop P V p v star star_v =
     (if v < length V then
        (if p < length P \<and> (P ! p = CHR ''?'' \<or> P ! p = V ! v)
         then glob_loop P V (p + 1) (v + 1) star star_v
         else if p < length P \<and> P ! p = CHR ''*''
         then glob_loop P V (p + 1) v (Some p) v
         else (case star of
             Some s \<Rightarrow> glob_loop P V (s + 1) (star_v + 1) star (star_v + 1)
           | None \<Rightarrow> None))
      else Some p)"
  by pat_completeness auto
termination
  by (relation "measures [
        \<lambda>(P, V, p, v, star, star_v).
          length V + 1 - (case star of None \<Rightarrow> 0 | Some _ \<Rightarrow> min star_v v + 1),
        \<lambda>(P, V, p, v, star, star_v). length V - v,
        \<lambda>(P, V, p, v, star, star_v). length P - p]")
    (auto split: option.splits)

declare glob_loop.simps [simp del]

text \<open>The second loop, which skips the stars left in the pattern.\<close>

(* map: src/crates/caliban-common/src/glob_match.rs 37-39 matches_glob *)
function skip_stars :: "string \<Rightarrow> nat \<Rightarrow> nat" where
  "skip_stars P p =
     (if p < length P \<and> P ! p = CHR ''*'' then skip_stars P (p + 1) else p)"
  by pat_completeness auto
termination
  by (relation "measure (\<lambda>(P, p). length P - p)") auto

declare skip_stars.simps [simp del]

(* map: src/crates/caliban-common/src/glob_match.rs 11-41 matches_glob *)
definition matches_glob :: "string \<Rightarrow> string \<Rightarrow> bool" where
  "matches_glob pattern value =
     (case glob_loop pattern value 0 0 None 0 of
        None \<Rightarrow> False
      | Some p \<Rightarrow> skip_stars pattern p = length pattern)"

text \<open>The tool's first-argument accessor.\<close>

(* map: src/crates/caliban-common/src/glob_match.rs 43-55 first_arg *)
definition first_arg :: "string \<Rightarrow> json \<Rightarrow> string option" where
  "first_arg tool_name input =
     (if tool_name = ''Bash'' then json_get_str input ''command''
      else if tool_name = ''WebFetch'' then json_get_str input ''url''
      else if tool_name \<in> {''Read'', ''Write'', ''Edit'', ''MultiEdit'', ''NotebookEdit''}
      then json_get_str input ''path''
      else None)"

section \<open>The reference definition\<close>

text \<open>A star matches any string, a question mark any one character, anything else itself.\<close>

fun glob_spec :: "string \<Rightarrow> string \<Rightarrow> bool" where
  "glob_spec [] v = (v = [])"
| "glob_spec (p # ps) v =
     (if p = CHR ''*'' then
        glob_spec ps v \<or> (case v of [] \<Rightarrow> False | c # v' \<Rightarrow> glob_spec (p # ps) v')
      else (case v of [] \<Rightarrow> False
            | c # v' \<Rightarrow> (p = CHR ''?'' \<or> p = c) \<and> glob_spec ps v'))"

lemma glob_spec_star:
  "glob_spec (CHR ''*'' # ps) v \<longleftrightarrow> (\<exists>k \<le> length v. glob_spec ps (drop k v))"
proof (induction v)
  case (Cons c v)
  have "(\<exists>k \<le> length (c # v). glob_spec ps (drop k (c # v))) \<longleftrightarrow>
      glob_spec ps (c # v) \<or> (\<exists>k \<le> length v. glob_spec ps (drop k v))"
    by (metis (no_types, lifting) drop0 drop_Suc_Cons le_zero_eq length_Cons not0_implies_Suc
        not_less_eq_eq nat_le_linear)
  then show ?case using Cons by simp
qed simp

lemma glob_spec_star_drop:
  assumes "v \<le> length V"
  shows "glob_spec (CHR ''*'' # ps) (drop v V) \<longleftrightarrow>
    (\<exists>j \<ge> v. j \<le> length V \<and> glob_spec ps (drop j V))"
proof -
  have "(\<exists>k \<le> length V - v. glob_spec ps (drop (k + v) V)) \<longleftrightarrow>
      (\<exists>j \<ge> v. j \<le> length V \<and> glob_spec ps (drop j V))" (is "?L \<longleftrightarrow> ?R")
  proof
    assume ?L
    then obtain k where "k \<le> length V - v" "glob_spec ps (drop (k + v) V)" by blast
    with assms show ?R by (intro exI [of _ "k + v"]) auto
  next
    assume ?R
    then obtain j where "v \<le> j" "j \<le> length V" "glob_spec ps (drop j V)" by blast
    then show ?L by (intro exI [of _ "j - v"]) auto
  qed
  then show ?thesis unfolding glob_spec_star by simp
qed

lemma glob_spec_star_Cons:
  "glob_spec (CHR ''*'' # ps) v \<Longrightarrow> glob_spec (CHR ''*'' # ps) (u @ v)"
proof -
  assume "glob_spec (CHR ''*'' # ps) v"
  then obtain k where "k \<le> length v" "glob_spec ps (drop k v)"
    unfolding glob_spec_star by blast
  then have "length u + k \<le> length (u @ v) \<and> glob_spec ps (drop (length u + k) (u @ v))"
    by simp
  then show ?thesis unfolding glob_spec_star by blast
qed

lemma glob_spec_star_mono:
  "glob_spec (CHR ''*'' # ps) (drop j v) \<Longrightarrow> i \<le> j \<Longrightarrow>
   glob_spec (CHR ''*'' # ps) (drop i v)"
  by (metis append_take_drop_id drop_drop glob_spec_star_Cons le_add_diff_inverse2)

lemma glob_spec_Nil: "glob_spec ps [] \<longleftrightarrow> set ps \<subseteq> {CHR ''*''}"
  by (induction ps) auto

lemma skip_stars_end: "p \<le> length P \<Longrightarrow>
  skip_stars P p = length P \<longleftrightarrow> set (drop p P) \<subseteq> {CHR ''*''}"
proof (induction P p rule: skip_stars.induct)
  case (1 P p)
  show ?case
  proof (cases "p < length P")
    case True
    then have "drop p P = P ! p # drop (p + 1) P"
      by (simp add: Cons_nth_drop_Suc)
    with True 1 show ?thesis by (auto simp: skip_stars.simps [of P p])
  next
    case False
    with "1.prems" show ?thesis by (simp add: skip_stars.simps [of P "length P"])
  qed
qed

section \<open>Equivalence\<close>

text \<open>A stretch of the pattern that matches a stretch of the value letter by letter.\<close>

definition seg_match :: "string \<Rightarrow> string \<Rightarrow> nat \<Rightarrow> nat \<Rightarrow> nat \<Rightarrow> bool" where
  "seg_match P V i j n \<longleftrightarrow> i + n \<le> length P \<and> j + n \<le> length V \<and>
     (\<forall>k < n. P ! (i + k) \<noteq> CHR ''*'')"

lemma glob_spec_through_segment:
  "i + n \<le> length P \<Longrightarrow> (\<forall>k < n. P ! (i + k) \<noteq> CHR ''*'') \<Longrightarrow>
   glob_spec (drop i P) w \<Longrightarrow> n \<le> length w \<and> glob_spec (drop (i + n) P) (drop n w)"
proof (induction n arbitrary: i w)
  case (Suc n)
  from Suc.prems(1) have d: "drop i P = P ! i # drop (Suc i) P"
    by (simp add: Cons_nth_drop_Suc)
  from Suc.prems(2) have "P ! i \<noteq> CHR ''*''" by force
  with Suc.prems(3) obtain c w' where w: "w = c # w'" "glob_spec (drop (Suc i) P) w'"
    by (auto simp: d split: list.splits)
  have "n \<le> length w' \<and> glob_spec (drop (Suc i + n) P) (drop n w')"
    using Suc.prems(1,2) w(2) by (intro Suc.IH) auto
  then show ?case using w(1) by simp
qed simp

text \<open>
  The loop invariant: the star, when there is one, is a star of the pattern, and the pattern
  between it and \<open>p\<close> has matched the value between \<open>star_v\<close> and \<open>v\<close> without a star.
\<close>

definition glob_inv :: "string \<Rightarrow> string \<Rightarrow> nat \<Rightarrow> nat \<Rightarrow> nat option \<Rightarrow> nat \<Rightarrow> bool" where
  "glob_inv P V p v star star_v \<longleftrightarrow> p \<le> length P \<and> v \<le> length V \<and>
     (case star of None \<Rightarrow> True
      | Some s \<Rightarrow> s < p \<and> P ! s = CHR ''*'' \<and> star_v \<le> v \<and> p - (s + 1) = v - star_v \<and>
          (\<forall>k < v - star_v. P ! (s + 1 + k) \<noteq> CHR ''*''))"

definition glob_rest :: "string \<Rightarrow> string \<Rightarrow> nat \<Rightarrow> nat option \<Rightarrow> nat \<Rightarrow> bool" where
  "glob_rest P V v star star_v \<longleftrightarrow>
     (case star of None \<Rightarrow> False
      | Some s \<Rightarrow> \<exists>k. star_v < k \<and> k \<le> length V \<and> glob_spec (drop (s + 1) P) (drop k V))"

definition loop_accepts :: "string \<Rightarrow> nat option \<Rightarrow> bool" where
  "loop_accepts P r = (case r of None \<Rightarrow> False | Some p \<Rightarrow> skip_stars P p = length P)"

lemma glob_rest_through:
  assumes "glob_inv P V p v (Some s) star_v" "glob_rest P V v (Some s) star_v"
  shows "\<exists>j > v. j \<le> length V \<and> glob_spec (drop p P) (drop j V)"
proof -
  from assms(2) obtain k where k: "star_v < k" "k \<le> length V"
      "glob_spec (drop (s + 1) P) (drop k V)"
    by (auto simp: glob_rest_def)
  let ?n = "v - star_v"
  have p: "p = s + 1 + ?n" and "s + 1 + ?n \<le> length P"
      and ns: "\<forall>i < ?n. P ! (s + 1 + i) \<noteq> CHR ''*''" and le: "star_v \<le> v"
    using assms(1) by (auto simp: glob_inv_def)
  then have "?n \<le> length (drop k V)" "glob_spec (drop (s + 1 + ?n) P) (drop ?n (drop k V))"
    using glob_spec_through_segment [OF _ ns k(3)] by auto
  then have "k + ?n \<le> length V" "glob_spec (drop p P) (drop (k + ?n) V)"
    using k(2) p by (auto simp: add.commute)
  moreover have "v < k + ?n" using k(1) le by simp
  ultimately show ?thesis by blast
qed

lemma glob_loop_correct:
  "CHR ''*'' \<notin> set V \<Longrightarrow> glob_inv P V p v star star_v \<Longrightarrow>
   loop_accepts P (glob_loop P V p v star star_v) \<longleftrightarrow>
     glob_spec (drop p P) (drop v V) \<or> glob_rest P V v star star_v"
proof (induction P V p v star star_v rule: glob_loop.induct)
  case (1 P V p v star star_v)
  let ?M = "\<lambda>p v. glob_spec (drop p P) (drop v V)"
  note inv = "1.prems"(2)
  show ?case
  proof (cases "v < length V")
    case False
    then have v: "v = length V" using inv by (simp add: glob_inv_def)
    have "\<not> glob_rest P V v star star_v"
      using glob_rest_through [of P V p v _ star_v] inv v
      by (cases star) (force simp: glob_rest_def)+
    moreover have "loop_accepts P (glob_loop P V p v star star_v) \<longleftrightarrow> ?M p v"
      using v inv by (simp add: glob_loop.simps [of P V p "length V"] loop_accepts_def skip_stars_end
          glob_inv_def glob_spec_Nil)
    ultimately show ?thesis by simp
  next
    case lt: True
    then have dv: "drop v V = V ! v # drop (v + 1) V"
      by (simp add: Cons_nth_drop_Suc)
    have nostar: "V ! v \<noteq> CHR ''*''" using "1.prems"(1) lt by (metis nth_mem)
    have dp: "p < length P \<Longrightarrow> drop p P = P ! p # drop (p + 1) P"
      by (simp add: Cons_nth_drop_Suc)
    consider (lit) "p < length P \<and> (P ! p = CHR ''?'' \<or> P ! p = V ! v)"
      | (star) "\<not> (p < length P \<and> (P ! p = CHR ''?'' \<or> P ! p = V ! v))"
          "p < length P \<and> P ! p = CHR ''*''"
      | (mis) "\<not> (p < length P \<and> (P ! p = CHR ''?'' \<or> P ! p = V ! v))"
          "\<not> (p < length P \<and> P ! p = CHR ''*'')"
      by blast
    then show ?thesis
    proof cases
      case lit
      have ns: "P ! p \<noteq> CHR ''*''" using lit nostar by auto
      have "glob_inv P V (p + 1) (v + 1) star star_v"
      proof (cases star)
        case (Some s)
        have p: "p = s + 1 + (v - star_v)" and le: "star_v \<le> v"
          using inv Some by (auto simp: glob_inv_def)
        have "P ! (s + 1 + k) \<noteq> CHR ''*''" if "k < v + 1 - star_v" for k
          using that inv Some ns le unfolding p glob_inv_def
          by (cases "k = v - star_v") auto
        then show ?thesis using inv lit lt Some le by (auto simp: glob_inv_def)
      qed (use inv lit lt in \<open>auto simp: glob_inv_def\<close>)
      moreover have "?M p v \<longleftrightarrow> ?M (p + 1) (v + 1)"
        using lit ns by (auto simp: dp dv)
      ultimately show ?thesis using "1.IH"(1) [OF lt lit "1.prems"(1)] lit lt
        by (simp add: glob_loop.simps [of P V p v] glob_rest_def)
    next
      case star
      have inv': "glob_inv P V (p + 1) v (Some p) v"
        using inv star by (auto simp: glob_inv_def)
      have ih: "loop_accepts P (glob_loop P V p v star star_v) \<longleftrightarrow>
          ?M (p + 1) v \<or> glob_rest P V v (Some p) v"
        using "1.IH"(2) [OF lt star "1.prems"(1) inv'] star lt
        by (simp add: glob_loop.simps [of P V p v])
      have P: "drop p P = CHR ''*'' # drop (p + 1) P"
        using star dp by simp
      have M: "?M p v \<longleftrightarrow> (\<exists>j \<ge> v. j \<le> length V \<and> ?M (p + 1) j)"
        unfolding P using lt by (intro glob_spec_star_drop) simp
      have "?M p v" if rest: "glob_rest P V v star star_v"
      proof -
        from rest obtain s where s: "star = Some s"
          by (auto simp: glob_rest_def split: option.splits)
        with inv rest obtain j where "v < j" "?M p j"
          using glob_rest_through [of P V p v s star_v] by blast
        then show ?thesis unfolding P using glob_spec_star_mono less_imp_le by blast
      qed
      moreover have "?M (p + 1) v \<or> glob_rest P V v (Some p) v \<longleftrightarrow> ?M p v"
        unfolding M glob_rest_def using lt
        by (simp add: le_less) blast
      ultimately show ?thesis using ih by blast
    next
      case mis
      have noM: "\<not> ?M p v"
        using mis by (cases "p < length P") (auto simp: dp dv)
      show ?thesis
      proof (cases star)
        case None
        then show ?thesis using mis lt noM
          by (auto simp: glob_loop.simps [of P V p v] loop_accepts_def glob_rest_def)
      next
        case (Some s)
        have "glob_inv P V (s + 1) (star_v + 1) star (star_v + 1)"
          using inv lt Some by (auto simp: glob_inv_def)
        then have "loop_accepts P (glob_loop P V p v star star_v) \<longleftrightarrow>
            ?M (s + 1) (star_v + 1) \<or> glob_rest P V (star_v + 1) star (star_v + 1)"
          using "1.IH"(3) [OF lt mis Some "1.prems"(1)] mis lt Some
          by (auto simp: glob_loop.simps [of P V p v])
        also have "\<dots> \<longleftrightarrow> glob_rest P V v star star_v"
        proof -
          have split: "star_v < k \<longleftrightarrow> k = star_v + 1 \<or> star_v + 1 < k" for k
            by auto
          have "star_v + 1 \<le> length V"
            using Some inv lt by (auto simp: glob_inv_def)
          then show ?thesis
            unfolding Some glob_rest_def option.case split by blast
        qed
        finally show ?thesis using noM by simp
      qed
    qed
  qed
qed

lemma matches_glob_loop: "matches_glob P V = loop_accepts P (glob_loop P V 0 0 None 0)"
  by (simp add: matches_glob_def loop_accepts_def)



text \<open>
  Without that hypothesis the loop is wrong: it compares a star of the pattern with a star
  of the value as letters before it looks for the wildcard, so the catch-all pattern rejects
  every value of two or more characters that begins with a star.
\<close>

theorem matches_glob_star_rejects_star_values:
  "matches_glob ''*'' (CHR ''*'' # v) \<longleftrightarrow> v = []"
proof -
  have "glob_loop ''*'' (CHR ''*'' # v) 0 0 None 0 = (if v = [] then Some 1 else None)"
    by (cases v) (simp_all add: glob_loop.simps)
  then show ?thesis
    by (simp add: matches_glob_def skip_stars.simps)
qed

end
