(* ===== verification/Messages.thy ===== *)
theory Messages
  imports Json
begin

text \<open>
  The provider-neutral representation of a conversation (\<open>crates/caliban-provider\<close>):
  messages and content blocks, tool declarations, calls and results, token usage, the error
  enum with the shared classification of HTTP failures, the stream events, and the completion
  request with its builder and validation. Every other component works on these types.

  Durations are milliseconds. An \<open>f32\<close> field is only carried, so it is its bit pattern.
  A boxed error is the text it displays. A \<open>usize\<close> is a natural number; the token
  counters are 32 bit words, whose sum wraps as the release build's does.
\<close>

section \<open>Blocks and messages\<close>

(* map: src/crates/caliban-provider/src/message.rs 10-19 Role *)
datatype role = User | Assistant | System

(* map: src/crates/caliban-provider/src/cache.rs 6-11 CacheControl *)
datatype cache_control = Ephemeral

(* map: src/crates/caliban-provider/src/message.rs 82-89 TextBlock *)
record text_block =
  tb_text :: string
  tb_cache_control :: "cache_control option"

(* map: src/crates/caliban-provider/src/message.rs 110-137 ImageSource *)
datatype image_source =
    Base64 string string
  | Url string
  | BlobRef string string

(* map: src/crates/caliban-provider/src/message.rs 92-107 ImageBlock *)
record image_block =
  ib_source :: image_source
  ib_cache_control :: "cache_control option"
  ib_sha256 :: "string option"
  ib_dims :: "(u32 \<times> u32) option"

(* map: src/crates/caliban-provider/src/thinking.rs 9-16 ThinkingBlock *)
record thinking_block =
  th_thinking :: string
  th_signature :: "string option"

(* map: src/crates/caliban-provider/src/tool.rs 23-31 ToolUseBlock *)
record tool_use_block =
  tu_id :: string
  tu_name :: string
  tu_input :: json

text \<open>
  \<open>ToolResultBlock\<close> holds content blocks, so it is the argument list of its
  constructor here: the id of its call, its content and its error flag.
\<close>

(* map: src/crates/caliban-provider/src/message.rs 66-79 ContentBlock *)
datatype content_block =
    Text text_block
  | Image image_block
  | ToolUse tool_use_block
  | ToolResult (tr_tool_use_id: string) (tr_content: "content_block list") (tr_is_error: bool)
  | Thinking thinking_block

(* map: src/crates/caliban-provider/src/message.rs 22-28 Message *)
record message =
  msg_role :: role
  msg_content :: "content_block list"

definition text_cb :: "string \<Rightarrow> content_block" where
  "text_cb s = Text \<lparr>tb_text = s, tb_cache_control = None\<rparr>"

(* map: src/crates/caliban-provider/src/message.rs 31-40 Message::user_text *)
definition msg_user_text :: "string \<Rightarrow> message" where
  "msg_user_text s = \<lparr>msg_role = User, msg_content = [text_cb s]\<rparr>"

(* map: src/crates/caliban-provider/src/message.rs 42-51 Message::assistant_text *)
definition msg_assistant_text :: "string \<Rightarrow> message" where
  "msg_assistant_text s = \<lparr>msg_role = Assistant, msg_content = [text_cb s]\<rparr>"

(* map: src/crates/caliban-provider/src/message.rs 53-62 Message::system_text *)
definition msg_system_text :: "string \<Rightarrow> message" where
  "msg_system_text s = \<lparr>msg_role = System, msg_content = [text_cb s]\<rparr>"

text \<open>The calls of a message, and the ids that its results answer.\<close>

fun block_tool_use :: "content_block \<Rightarrow> tool_use_block option" where
  "block_tool_use (ToolUse t) = Some t"
| "block_tool_use _ = None"

definition tool_uses :: "message \<Rightarrow> tool_use_block list" where
  "tool_uses m = List.map_filter block_tool_use (msg_content m)"

fun block_result_id :: "content_block \<Rightarrow> string option" where
  "block_result_id (ToolResult i _ _) = Some i"
| "block_result_id _ = None"

definition result_ids :: "message \<Rightarrow> string list" where
  "result_ids m = List.map_filter block_result_id (msg_content m)"

(* map: src/crates/caliban-provider/src/tool.rs 10-20 Tool *)
record tool_decl =
  td_name :: string
  td_description :: string
  td_input_schema :: json
  td_cache_control :: "cache_control option"

(* map: src/crates/caliban-provider/src/tool.rs 46-61 ToolChoice *)
datatype tool_choice = ChooseAuto | ChooseAny | ChooseSpecific string | ChooseNone

section \<open>Stop reasons and usage\<close>

(* map: src/crates/caliban-provider/src/response.rs 26-41 StopReason *)
datatype stop_reason = EndTurn | MaxTokens | StopSequence | ToolUseStop | ContentFilter | Refusal

(* map: src/crates/caliban-provider/src/response.rs 44-61 Usage *)
datatype usage = Usage
  (input_tokens: u32)
  (output_tokens: u32)
  (cache_creation: "u32 option")
  (cache_read: "u32 option")

text \<open>
  \<open>Usage::merge\<close> adds field by field; an absent cache counter is neutral. It is the
  addition of a commutative monoid, so a run's total is the library's \<^const>\<open>sum_list\<close>.
\<close>

fun merge_opt :: "u32 option \<Rightarrow> u32 option \<Rightarrow> u32 option" where
  "merge_opt (Some a) (Some b) = Some (a + b)"
| "merge_opt (Some a) None = Some a"
| "merge_opt None (Some a) = Some a"
| "merge_opt None None = None"

(* map: src/crates/caliban-provider/src/response.rs 63-83 Usage::merge *)
definition usage_merge :: "usage \<Rightarrow> usage \<Rightarrow> usage" where
  "usage_merge u v = Usage
     (input_tokens u + input_tokens v)
     (output_tokens u + output_tokens v)
     (merge_opt (cache_creation u) (cache_creation v))
     (merge_opt (cache_read u) (cache_read v))"

lemma merge_opt_assoc: "merge_opt (merge_opt a b) c = merge_opt a (merge_opt b c)"
  by (cases a; cases b; cases c) (simp_all add: add.assoc)

lemma merge_opt_commute: "merge_opt a b = merge_opt b a"
  by (cases a; cases b) (simp_all add: add.commute)

lemma merge_opt_None [simp]: "merge_opt None a = a"
  by (cases a) simp_all

instantiation usage :: comm_monoid_add
begin

definition zero_usage :: usage where
  "zero_usage = Usage 0 0 None None"

definition plus_usage :: "usage \<Rightarrow> usage \<Rightarrow> usage" where
  "plus_usage = usage_merge"

instance
proof
  fix a b c :: usage
  show "a + b + c = a + (b + c)"
    by (simp add: plus_usage_def usage_merge_def merge_opt_assoc add.assoc)
  show "a + b = b + a"
    by (simp add: plus_usage_def usage_merge_def merge_opt_commute add.commute)
  show "0 + a = a"
    by (simp add: plus_usage_def usage_merge_def zero_usage_def)
qed

end

lemma input_tokens_plus [simp]: "input_tokens (u + v) = input_tokens u + input_tokens v"
  by (simp add: plus_usage_def usage_merge_def)

lemma output_tokens_plus [simp]: "output_tokens (u + v) = output_tokens u + output_tokens v"
  by (simp add: plus_usage_def usage_merge_def)

(* map: src/crates/caliban-provider/src/response.rs 9-23 CompletionResponse *)
record response =
  cr_id :: string
  cr_model :: string
  cr_message :: message
  cr_stop_reason :: stop_reason
  cr_stop_sequence :: "string option"
  cr_usage :: usage

section \<open>Errors\<close>

(* map: src/crates/caliban-provider/src/error.rs 7-84 Error *)
datatype perror =
    Auth string
  | RateLimit "nat option"
  | InvalidRequest string
  | ContextTooLong nat nat
  | ModelUnavailable string
  | ServerError nat string
  | UpstreamServerFault string
  | ContentFilterError string
  | Network string
  | StreamInterrupted string
  | Cancelled
  | Adapter string
  | StreamIdle nat

(* map: src/crates/caliban-provider/src/error.rs 115-121 is_auth_error *)
fun is_auth_error :: "perror \<Rightarrow> bool" where
  "is_auth_error (Auth _) = True"
| "is_auth_error (ServerError status _) = (status = 401 \<or> status = 403)"
| "is_auth_error _ = False"

text \<open>
  The classification of a failed HTTP response (\<open>error_classify.rs\<close>), shared by the
  adapters, each of which passes its own markers.
\<close>

(* map: src/crates/caliban-provider/src/error_classify.rs 35-52 map_bad_status *)
definition map_bad_status ::
  "nat \<Rightarrow> string \<Rightarrow> nat option \<Rightarrow> (string \<Rightarrow> perror) \<Rightarrow> perror option" where
  "map_bad_status status body retry on_400 =
     (if status = 401 \<or> status = 403 then Some (Auth body)
      else if status = 429 then Some (RateLimit retry)
      else if status = 400 then Some (on_400 body)
      else if status = 404 then Some (ModelUnavailable body)
      else if status \<ge> 500 then Some (ServerError status body)
      else None)"

text \<open>\<open>body.find(marker)\<close>, as the text that follows the first occurrence.\<close>

fun after_first :: "string \<Rightarrow> string \<Rightarrow> string option" where
  "after_first m [] = (if m = [] then Some [] else None)"
| "after_first m (c # s) =
     (case strip_prefix m (c # s) of Some r \<Rightarrow> Some r | None \<Rightarrow> after_first m s)"

definition str_contains :: "string \<Rightarrow> string \<Rightarrow> bool" where
  "str_contains m s = (after_first m s \<noteq> None)"

text \<open>\<open>is_ascii_digit\<close>, and \<open>digits.parse::<u32>()\<close>: it fails on the empty text and past the width.\<close>

definition is_ascii_digit :: "char \<Rightarrow> bool" where
  "is_ascii_digit c = (48 \<le> (of_char c :: nat) \<and> (of_char c :: nat) \<le> 57)"

definition parse_u32 :: "string \<Rightarrow> nat option" where
  "parse_u32 ds =
     (let n = foldl (\<lambda>n c. 10 * n + ((of_char c :: nat) - 48)) 0 ds in
      if ds = [] \<or> \<not> list_all is_ascii_digit ds \<or> n > u32_max then None else Some n)"

(* map: src/crates/caliban-provider/src/error_classify.rs 116-121 extract_u32_after *)
definition extract_u32_after :: "string \<Rightarrow> string \<Rightarrow> nat option" where
  "extract_u32_after body marker =
     Option.bind (after_first marker body) (\<lambda>after. parse_u32 (takeWhile is_ascii_digit after))"

(* map: src/crates/caliban-provider/src/error_classify.rs 96-110 parse_token_counts *)
definition parse_token_counts ::
  "string \<Rightarrow> string list \<Rightarrow> string list \<Rightarrow> nat \<times> nat" where
  "parse_token_counts body max_markers requested_markers =
     (unwrap_or 0 (find_map (extract_u32_after body) max_markers),
      unwrap_or 0 (find_map (extract_u32_after body) requested_markers))"

(* map: src/crates/caliban-provider/src/error_classify.rs 59-74 classify_context_too_long *)
definition classify_context_too_long ::
  "string \<Rightarrow> string list \<Rightarrow> string list \<Rightarrow> string list \<Rightarrow> perror option" where
  "classify_context_too_long body context_markers max_markers requested_markers =
     (if \<not> list_ex (\<lambda>m. str_contains m body) context_markers then None
      else (let (mx, req) = parse_token_counts body max_markers requested_markers in
        Some (ContextTooLong mx req)))"

(* map: src/crates/caliban-provider/src/error_classify.rs 82-88 classify_upstream_server_fault *)
definition classify_upstream_server_fault :: "string \<Rightarrow> string list \<Rightarrow> perror option" where
  "classify_upstream_server_fault body fault_markers =
     (if \<not> list_ex (\<lambda>m. str_contains m body) fault_markers then None
      else Some (UpstreamServerFault body))"

lemma after_first_Some: "after_first m s = Some r \<Longrightarrow> \<exists>u. s = u @ m @ r"
proof (induction m s rule: after_first.induct)
  case (2 m c s)
  show ?case
  proof (cases "strip_prefix m (c # s)")
    case None
    then obtain u where "s = u @ m @ r" using 2 by auto
    then show ?thesis by (intro exI [of _ "c # u"]) simp
  next
    case (Some r')
    then have "r' = r" using "2.prems" by simp
    then show ?thesis using Some by (intro exI [of _ "[]"]) (simp add: strip_prefix_Some)
  qed
qed (auto split: if_splits)

lemma str_contains_iff: "str_contains m s \<longleftrightarrow> sublist m s"
proof
  assume "str_contains m s"
  then show "sublist m s"
    using after_first_Some by (fastforce simp: str_contains_def sublist_def)
next
  assume "sublist m s"
  then obtain u v where "s = u @ m @ v" by (auto simp: sublist_def)
  moreover have "after_first m (u @ m @ v) \<noteq> None"
  proof (induction u)
    case Nil
    show ?case
      by (cases "m @ v") (use strip_prefix_append [of m v] in \<open>auto simp del: strip_prefix_append\<close>)
  qed (auto split: option.splits)
  ultimately show "str_contains m s" by (simp add: str_contains_def)
qed

section \<open>Stream events\<close>

(* map: src/crates/caliban-provider/src/stream.rs 65-81 StreamingContentType *)
datatype content_type = CtText | CtToolUse string string | CtThinking | CtImage

(* map: src/crates/caliban-provider/src/stream.rs 84-98 StreamingDelta *)
datatype delta = DText string | DToolUseInputJson string | DThinking string | DSignature string

(* map: src/crates/caliban-provider/src/stream.rs 19-62 StreamEvent *)
datatype stream_event =
    MessageStart string string
  | ContentBlockStart nat content_type
  | Delta nat delta
  | ContentBlockStop nat
  | MessageDelta "stop_reason option" "usage option"
  | MessageStop
  | Ping

section \<open>Requests\<close>

(* map: src/crates/caliban-provider/src/effort.rs 15-28 Effort *)
datatype effort = Low | Medium | High | Max | EffortAuto

(* map: src/crates/caliban-provider/src/effort.rs 33-41 Effort::as_openai *)
fun as_openai :: "effort \<Rightarrow> string option" where
  "as_openai Low = Some ''low''"
| "as_openai Medium = Some ''medium''"
| "as_openai High = Some ''high''"
| "as_openai Max = Some ''high''"
| "as_openai EffortAuto = None"

(* map: src/crates/caliban-provider/src/effort.rs 45-54 Effort::as_anthropic_budget *)
fun as_anthropic_budget :: "effort \<Rightarrow> nat option" where
  "as_anthropic_budget Low = Some 2048"
| "as_anthropic_budget Medium = Some 8192"
| "as_anthropic_budget High = Some 24576"
| "as_anthropic_budget Max = Some 64000"
| "as_anthropic_budget EffortAuto = None"

(* map: src/crates/caliban-provider/src/thinking.rs 33-47 ThinkingSetting *)
datatype thinking_setting = ThAuto | ThOff | ThOn "nat option"

(* map: src/crates/caliban-provider/src/request.rs 52-69 RequestPurpose *)
datatype purpose = MainLoop | Summarization | FastClassifier | SubAgent | Embedding | Other

(* map: src/crates/caliban-provider/src/request.rs 72-81 RequestMetadata *)
record metadata =
  md_user_id :: "string option"
  md_purpose :: "purpose option"

(* map: src/crates/caliban-provider/src/request.rs 13-50 CompletionRequest *)
record request =
  rq_model :: string
  rq_messages :: "message list"
  rq_tools :: "tool_decl list"
  rq_tool_choice :: tool_choice
  rq_max_tokens :: nat
  rq_temperature :: "u32 option"
  rq_top_p :: "u32 option"
  rq_top_k :: "nat option"
  rq_stop_sequences :: "string list"
  rq_thinking :: thinking_setting
  rq_effort :: "effort option"
  rq_metadata :: metadata

text \<open>
  The builder's fields are those of the request it builds, so it is the same record. The loop
  of \<open>validate_messages\<close> carries the index and its two flags; the messages of the errors
  are written out.
\<close>

definition sys_after :: "nat \<Rightarrow> string" where
  "sys_after i = ''Role::System message at index '' @ nat_str i @
     '' appears after a User/Assistant message; System must lead''"

definition sys_non_text :: "nat \<Rightarrow> string" where
  "sys_non_text i = ''Role::System message at index '' @ nat_str i @
     '' contains a non-text block''"

definition is_text_block :: "content_block \<Rightarrow> bool" where
  "is_text_block b = (case b of Text _ \<Rightarrow> True | _ \<Rightarrow> False)"

(* map: src/crates/caliban-provider/src/request.rs 122-155 validate_messages *)
fun validate_loop ::
  "nat \<Rightarrow> bool \<Rightarrow> bool \<Rightarrow> message list \<Rightarrow> (unit, perror) result" where
  "validate_loop i seen has [] =
     (if has then Ok () else Err (InvalidRequest ''request has no User or Assistant messages''))"
| "validate_loop i seen has (m # ms) =
     (if msg_role m = System then
        (if seen then Err (InvalidRequest (sys_after i))
         else if \<not> list_all is_text_block (msg_content m)
         then Err (InvalidRequest (sys_non_text i))
         else validate_loop (i + 1) seen has ms)
      else validate_loop (i + 1) True True ms)"

(* map: src/crates/caliban-provider/src/request.rs 111-119 CompletionRequest::validate *)
definition request_validate :: "request \<Rightarrow> (unit, perror) result" where
  "request_validate r =
     (if rq_model r = [] then Err (InvalidRequest ''model is empty'')
      else if rq_max_tokens r = 0 then Err (InvalidRequest ''max_tokens must be > 0'')
      else validate_loop 0 False False (rq_messages r))"

(* map: src/crates/caliban-provider/src/request.rs 85-100 CompletionRequest::builder *)
definition request_builder :: "string \<Rightarrow> request" where
  "request_builder model =
     \<lparr>rq_model = model, rq_messages = [], rq_tools = [], rq_tool_choice = ChooseAuto,
      rq_max_tokens = 1024, rq_temperature = None, rq_top_p = None, rq_top_k = None,
      rq_stop_sequences = [], rq_thinking = ThAuto, rq_effort = None,
      rq_metadata = \<lparr>md_user_id = None, md_purpose = None\<rparr>\<rparr>"

definition insert_at :: "nat \<Rightarrow> 'a \<Rightarrow> 'a list \<Rightarrow> 'a list" where
  "insert_at i x xs = take i xs @ [x] @ drop i xs"

(* map: src/crates/caliban-provider/src/request.rs 178-188 CompletionRequestBuilder::system *)
definition builder_system :: "string \<Rightarrow> request \<Rightarrow> request" where
  "builder_system text r =
     (let i = unwrap_or (length (rq_messages r))
                (position (\<lambda>m. msg_role m \<noteq> System) (rq_messages r))
      in r\<lparr>rq_messages := insert_at i (msg_system_text text) (rq_messages r)\<rparr>)"

(* map: src/crates/caliban-provider/src/request.rs 191-194 CompletionRequestBuilder::user_text *)
definition builder_user_text :: "string \<Rightarrow> request \<Rightarrow> request" where
  "builder_user_text text r = r\<lparr>rq_messages := rq_messages r @ [msg_user_text text]\<rparr>"

(* map: src/crates/caliban-provider/src/request.rs 197-200 CompletionRequestBuilder::assistant_text *)
definition builder_assistant_text :: "string \<Rightarrow> request \<Rightarrow> request" where
  "builder_assistant_text text r = r\<lparr>rq_messages := rq_messages r @ [msg_assistant_text text]\<rparr>"

(* map: src/crates/caliban-provider/src/request.rs 203-206 CompletionRequestBuilder::message *)
definition builder_message :: "message \<Rightarrow> request \<Rightarrow> request" where
  "builder_message m r = r\<lparr>rq_messages := rq_messages r @ [m]\<rparr>"

(* map: src/crates/caliban-provider/src/request.rs 275-293 CompletionRequestBuilder::build *)
definition builder_build :: "request \<Rightarrow> (request, perror) result" where
  "builder_build r = map_ok (\<lambda>_. r) (request_validate r)"

text \<open>What \<open>validate\<close> promises: the system messages lead, and hold text only.\<close>

definition well_formed_messages :: "message list \<Rightarrow> bool" where
  "well_formed_messages ms \<longleftrightarrow>
     (let rest = dropWhile (\<lambda>m. msg_role m = System) ms in
      rest \<noteq> [] \<and> list_all (\<lambda>m. msg_role m \<noteq> System) rest \<and>
      list_all (\<lambda>m. msg_role m = System \<longrightarrow> list_all is_text_block (msg_content m)) ms)"

lemma validate_loop_seen:
  "is_ok (validate_loop i True True ms) \<longleftrightarrow> list_all (\<lambda>m. msg_role m \<noteq> System) ms"
  by (induction ms arbitrary: i) auto

lemma validate_loop_ok: "is_ok (validate_loop i False False ms) \<longleftrightarrow> well_formed_messages ms"
proof (induction ms arbitrary: i)
  case (Cons m ms)
  show ?case
  proof (cases "msg_role m = System")
    case True
    then show ?thesis using Cons by (simp add: well_formed_messages_def Let_def)
  next
    case False
    then show ?thesis
      by (auto simp: well_formed_messages_def Let_def validate_loop_seen list_all_iff)
  qed
qed (simp add: well_formed_messages_def)

lemma request_validate_ok:
  "is_ok (request_validate r) \<longleftrightarrow>
     rq_model r \<noteq> [] \<and> rq_max_tokens r \<noteq> 0 \<and> well_formed_messages (rq_messages r)"
  by (simp add: request_validate_def validate_loop_ok)

lemma position_insert:
  "insert_at (unwrap_or (length xs) (position p xs)) x xs =
     takeWhile (\<lambda>y. \<not> p y) xs @ [x] @ dropWhile (\<lambda>y. \<not> p y) xs"
proof (induction xs)
  case (Cons y ys)
  then show ?case by (cases "position p ys") (auto simp: insert_at_def)
qed (simp add: insert_at_def)

text \<open>
  The builder keeps the system messages in front: \<open>system\<close> inserts after the leading
  system messages and before everything else, whatever was added in between, and the request
  it builds afterwards validates exactly when it would have without the insertion.
\<close>

theorem builder_system_keeps_validity:
  "rq_messages (builder_system text r) =
     takeWhile (\<lambda>m. msg_role m = System) (rq_messages r) @ [msg_system_text text] @
     dropWhile (\<lambda>m. msg_role m = System) (rq_messages r) \<and>
   is_ok (builder_build (builder_system text r)) = is_ok (builder_build r)"
proof -
  have m: "rq_messages (builder_system text r) =
     takeWhile (\<lambda>m. msg_role m = System) (rq_messages r) @ [msg_system_text text] @
     dropWhile (\<lambda>m. msg_role m = System) (rq_messages r)"
    using position_insert [of "rq_messages r" "\<lambda>m. msg_role m \<noteq> System" "msg_system_text text"]
    by (simp add: builder_system_def Let_def)
  have tw: "list_all (\<lambda>m. msg_role m = System) (takeWhile (\<lambda>m. msg_role m = System) ms)" for ms
    by (auto simp: list_all_iff dest: set_takeWhileD)
  have sys: "msg_role (msg_system_text text) = System"
      "list_all is_text_block (msg_content (msg_system_text text))"
    by (simp_all add: msg_system_text_def text_cb_def is_text_block_def)
  have dw: "dropWhile (\<lambda>m. msg_role m = System) (takeWhile (\<lambda>m. msg_role m = System) ms @ xs) =
      dropWhile (\<lambda>m. msg_role m = System) xs" for ms xs
    by (induction ms) auto
  have all: "list_all P ms = (list_all P (takeWhile Q ms) \<and> list_all P (dropWhile Q ms))"
    for P Q and ms :: "message list"
    by (metis list_all_append takeWhile_dropWhile_id)
  have "well_formed_messages (rq_messages (builder_system text r)) =
      well_formed_messages (rq_messages r)"
    unfolding well_formed_messages_def Let_def m
    using sys all [of _ "rq_messages r" "\<lambda>m. msg_role m = System"]
    by (simp add: dw conj_ac)
  moreover have "is_ok (builder_build x) = is_ok (request_validate x)" for x
    by (cases "request_validate x") (simp_all add: builder_build_def)
  ultimately show ?thesis
    by (simp add: m request_validate_ok) (simp add: builder_system_def Let_def)
qed

end
