(* ===== verification/Hooks.thy ===== *)
theory Hooks
  imports Messages
begin

text \<open>
  The lifecycle callbacks of the agent loop (\<open>crates/caliban-agent-core/src/hooks.rs\<close>):
  the decisions a hook returns, the contexts it is given, the \<open>Hooks\<close> trait as a record
  of functions, the no-op implementation and \<open>CompositeHooks\<close>.

  A hook may do anything to the outside world, so each callback takes the world, a value of a
  type parameter, and returns its result with the new world. The events that only announce
  something (session, notification, file, sub-agent and task events) are forwarded by the same
  two fan-out macros as the ones modelled here; they play no part in the loop.
\<close>

section \<open>Decisions and contexts\<close>

(* map: src/crates/caliban-agent-core/src/error.rs 4-39 Error *)
datatype agent_error =
    Provider perror
  | ToolExecution string string
  | Compaction string
  | HookFailed string
  | MaxTurnsReachedError nat
  | AgentCancelled
  | Misconfigured string

(* map: src/crates/caliban-agent-core/src/hooks.rs 22-40 HookDecision *)
datatype hook_decision = Allow | Deny string | AskDenied string | UpdatedInput json

(* map: src/crates/caliban-agent-core/src/hooks.rs 48-55 TurnDecision *)
datatype turn_decision = Continue | ContinueWith "message list" | Stop

(* map: src/crates/caliban-agent-core/src/hooks.rs 122-141 ToolCtx *)
record tool_ctx =
  tc_session_id :: string
  tc_turn_index :: nat
  tc_tool_use_id :: string
  tc_tool_name :: string
  tc_input :: json
  tc_is_read_only :: bool

(* map: src/crates/caliban-agent-core/src/hooks.rs 259-272 PermCtx *)
record perm_ctx =
  pc_turn_index :: nat
  pc_tool_use_id :: string
  pc_tool_name :: string
  pc_input :: json
  pc_rule_action :: string
  pc_rule_comment :: "string option"

(* map: src/crates/caliban-agent-core/src/hooks.rs 172-183 PromptCtx *)
record prompt_ctx =
  pr_session_id :: string
  pr_cwd :: string
  pr_turn_index :: nat
  pr_prompt :: string
  pr_attachments :: "string list"

(* map: src/crates/caliban-agent-core/src/hooks.rs 187-203 CompactCtx *)
record compact_ctx =
  cc_session_id :: string
  cc_token_count_before :: nat
  cc_strategy :: string

record compact_outcome =
  co_token_count_after :: nat
  co_compacted :: bool

(* map: src/crates/caliban-agent-core/src/tool.rs 59-71 ToolError *)
datatype tool_error = InvalidInput string | Execution string | ToolCancelled

(* map: src/crates/caliban-agent-core/src/tool.rs 62-70 ToolError *)
fun tool_error_str :: "tool_error \<Rightarrow> string" where
  "tool_error_str (InvalidInput m) = ''invalid input: '' @ m"
| "tool_error_str (Execution e) = ''execution failed: '' @ e"
| "tool_error_str ToolCancelled = ''cancelled''"

type_synonym tool_outcome = "(content_block list, tool_error) result"

record turn_outcome =
  to_assistant_message :: message
  to_tool_results :: "message list"
  to_stop_reason :: stop_reason
  to_usage :: usage
  to_continue_loop :: bool

text \<open>A turn context shows the hook the turn index and the history.\<close>

(* map: src/crates/caliban-agent-core/src/hooks.rs 111-118 TurnCtx *)
record turn_ctx =
  tn_turn_index :: nat
  tn_messages :: "message list"

section \<open>The trait\<close>

type_synonym ('w, 'a) action = "'w \<Rightarrow> ('a, agent_error) result \<times> 'w"

(* map: src/crates/caliban-agent-core/src/hooks.rs 356-484 Hooks *)
record 'w hooks =
  hk_before_turn :: "turn_ctx \<Rightarrow> ('w, unit) action"
  hk_after_turn :: "turn_ctx \<Rightarrow> turn_outcome \<Rightarrow> ('w, turn_decision) action"
  hk_after_turn_failure :: "turn_ctx \<Rightarrow> turn_outcome \<Rightarrow> ('w, unit) action"
  hk_before_tool :: "tool_ctx \<Rightarrow> ('w, hook_decision) action"
  hk_after_tool :: "tool_ctx \<Rightarrow> tool_outcome \<Rightarrow> ('w, unit) action"
  hk_user_prompt_submit :: "prompt_ctx \<Rightarrow> ('w, hook_decision) action"
  hk_pre_compact :: "compact_ctx \<Rightarrow> ('w, unit) action"
  hk_post_compact :: "compact_ctx \<Rightarrow> compact_outcome \<Rightarrow> ('w, unit) action"
  hk_permission_request :: "perm_ctx \<Rightarrow> ('w, unit) action"
  hk_permission_denied :: "perm_ctx \<Rightarrow> ('w, unit) action"
  hk_is_noop :: bool

(* map: src/crates/caliban-agent-core/src/hooks.rs 863-870 NoopHooks *)
definition noop_hooks :: "'w hooks" where
  "noop_hooks = \<lparr>
     hk_before_turn = \<lambda>_ w. (Ok (), w),
     hk_after_turn = \<lambda>_ _ w. (Ok Continue, w),
     hk_after_turn_failure = \<lambda>_ _ w. (Ok (), w),
     hk_before_tool = \<lambda>_ w. (Ok Allow, w),
     hk_after_tool = \<lambda>_ _ w. (Ok (), w),
     hk_user_prompt_submit = \<lambda>_ w. (Ok Allow, w),
     hk_pre_compact = \<lambda>_ w. (Ok (), w),
     hk_post_compact = \<lambda>_ _ w. (Ok (), w),
     hk_permission_request = \<lambda>_ w. (Ok (), w),
     hk_permission_denied = \<lambda>_ w. (Ok (), w),
     hk_is_noop = True\<rparr>"

section \<open>Composition\<close>

text \<open>The two fan-out macros: call each layer in order, the first error ends the event.\<close>

(* map: src/crates/caliban-agent-core/src/hooks.rs 973-1000 composite_fanout_fwd *)
fun fanout :: "('h \<Rightarrow> ('w, unit) action) \<Rightarrow> 'h list \<Rightarrow> ('w, unit) action" where
  "fanout m [] w = (Ok (), w)"
| "fanout m (h # hs) w =
     (case m h w of (Err e, w') \<Rightarrow> (Err e, w') | (Ok _, w') \<Rightarrow> fanout m hs w')"

(* map: src/crates/caliban-agent-core/src/hooks.rs 1006-1033 composite_fanout_rev *)
definition fanout_rev :: "('h \<Rightarrow> ('w, unit) action) \<Rightarrow> 'h list \<Rightarrow> ('w, unit) action" where
  "fanout_rev m hs = fanout m (rev hs)"

text \<open>\<open>before_tool\<close>: the rewritten input is what the following layers see.\<close>

(* map: src/crates/caliban-agent-core/src/hooks.rs 1074-1104 CompositeHooks::before_tool *)
fun composite_before_tool ::
  "'w hooks list \<Rightarrow> tool_ctx \<Rightarrow> json option \<Rightarrow> ('w, hook_decision) action" where
  "composite_before_tool [] ctx latest w =
     (case latest of Some v \<Rightarrow> (Ok (UpdatedInput v), w) | None \<Rightarrow> (Ok Allow, w))"
| "composite_before_tool (h # hs) ctx latest w =
     (case hk_before_tool h (ctx\<lparr>tc_input := unwrap_or (tc_input ctx) latest\<rparr>) w of
        (Err e, w') \<Rightarrow> (Err e, w')
      | (Ok Allow, w') \<Rightarrow> composite_before_tool hs ctx latest w'
      | (Ok (Deny m), w') \<Rightarrow> (Ok (Deny m), w')
      | (Ok (AskDenied m), w') \<Rightarrow> (Ok (AskDenied m), w')
      | (Ok (UpdatedInput v), w') \<Rightarrow> composite_before_tool hs ctx (Some v) w')"

text \<open>\<open>after_turn\<close>, over the layers in reverse: the first vote other than \<open>Continue\<close> wins.\<close>

(* map: src/crates/caliban-agent-core/src/hooks.rs 1046-1068 CompositeHooks::after_turn *)
fun composite_after_turn ::
  "'w hooks list \<Rightarrow> turn_ctx \<Rightarrow> turn_outcome \<Rightarrow> ('w, turn_decision) action" where
  "composite_after_turn [] ctx out w = (Ok Continue, w)"
| "composite_after_turn (h # hs) ctx out w =
     (case hk_after_turn h ctx out w of
        (Err e, w') \<Rightarrow> (Err e, w')
      | (Ok Continue, w') \<Rightarrow> composite_after_turn hs ctx out w'
      | (Ok (ContinueWith ms), w') \<Rightarrow> (Ok (ContinueWith ms), w')
      | (Ok Stop, w') \<Rightarrow> (Ok Stop, w'))"

text \<open>
  \<open>user_prompt_submit\<close>: as \<open>before_tool\<close>, over the prompt text; a rewrite that is
  not a JSON string is printed (\<open>to_string\<close> belongs to \<open>serde_json\<close>).
\<close>

(* map: src/crates/caliban-agent-core/src/hooks.rs 1127-1159 CompositeHooks::user_prompt_submit *)
fun composite_prompt ::
  "(json \<Rightarrow> string) \<Rightarrow> 'w hooks list \<Rightarrow> prompt_ctx \<Rightarrow> string option \<Rightarrow> ('w, hook_decision) action" where
  "composite_prompt pp [] ctx latest w =
     (case latest of Some s \<Rightarrow> (Ok (UpdatedInput (JString s)), w) | None \<Rightarrow> (Ok Allow, w))"
| "composite_prompt pp (h # hs) ctx latest w =
     (case hk_user_prompt_submit h (ctx\<lparr>pr_prompt := unwrap_or (pr_prompt ctx) latest\<rparr>) w of
        (Err e, w') \<Rightarrow> (Err e, w')
      | (Ok Allow, w') \<Rightarrow> composite_prompt pp hs ctx latest w'
      | (Ok (Deny m), w') \<Rightarrow> (Ok (Deny m), w')
      | (Ok (AskDenied m), w') \<Rightarrow> (Ok (AskDenied m), w')
      | (Ok (UpdatedInput v), w') \<Rightarrow>
          composite_prompt pp hs ctx
            (Some (case json_as_str v of Some s \<Rightarrow> s | None \<Rightarrow> pp v)) w')"

text \<open>
  The composite, with the flag that skips the layers when all of them are no-ops. \<open>push\<close>
  clears it for a real layer and never sets it again.
\<close>

record 'w composite =
  cp_layers :: "'w hooks list"
  cp_all_noop :: bool

(* map: src/crates/caliban-agent-core/src/hooks.rs 919-922 CompositeHooks::new *)
definition composite_new :: "'w hooks list \<Rightarrow> 'w composite" where
  "composite_new layers = \<lparr>cp_layers = layers, cp_all_noop = list_all hk_is_noop layers\<rparr>"

(* map: src/crates/caliban-agent-core/src/hooks.rs 928-933 CompositeHooks::push *)
definition composite_push :: "'w hooks \<Rightarrow> 'w composite \<Rightarrow> 'w composite" where
  "composite_push h c = c\<lparr>
     cp_all_noop := (if hk_is_noop h then cp_all_noop c else False),
     cp_layers := cp_layers c @ [h]\<rparr>"

(* map: src/crates/caliban-agent-core/src/hooks.rs 1036-1169 CompositeHooks *)
definition composite_hooks :: "(json \<Rightarrow> string) \<Rightarrow> 'w composite \<Rightarrow> 'w hooks" where
  "composite_hooks pp c =
     (if cp_all_noop c then noop_hooks\<lparr>hk_is_noop := False\<rparr>
      else \<lparr>
        hk_before_turn = \<lambda>ctx. fanout (\<lambda>h. hk_before_turn h ctx) (cp_layers c),
        hk_after_turn = composite_after_turn (rev (cp_layers c)),
        hk_after_turn_failure =
          \<lambda>ctx out. fanout_rev (\<lambda>h. hk_after_turn_failure h ctx out) (cp_layers c),
        hk_before_tool = \<lambda>ctx. composite_before_tool (cp_layers c) ctx None,
        hk_after_tool = \<lambda>ctx r. fanout_rev (\<lambda>h. hk_after_tool h ctx r) (cp_layers c),
        hk_user_prompt_submit = \<lambda>ctx. composite_prompt pp (cp_layers c) ctx None,
        hk_pre_compact = \<lambda>ctx. fanout (\<lambda>h. hk_pre_compact h ctx) (cp_layers c),
        hk_post_compact = \<lambda>ctx out. fanout_rev (\<lambda>h. hk_post_compact h ctx out) (cp_layers c),
        hk_permission_request = \<lambda>ctx. fanout (\<lambda>h. hk_permission_request h ctx) (cp_layers c),
        hk_permission_denied = \<lambda>ctx. fanout (\<lambda>h. hk_permission_denied h ctx) (cp_layers c),
        hk_is_noop = False\<rparr>)"

section \<open>What a layer may promise\<close>

text \<open>
  A gate is sealed when the marker of a synthesised denial never leaves it, and it denies a
  call when it always answers with a denial.
\<close>

definition never_ask_denied :: "(tool_ctx \<Rightarrow> ('w, hook_decision) action) \<Rightarrow> bool" where
  "never_ask_denied g \<longleftrightarrow> (\<forall>ctx w m. fst (g ctx w) \<noteq> Ok (AskDenied m))"

fun is_denial :: "(hook_decision, agent_error) result \<Rightarrow> bool" where
  "is_denial (Ok (Deny _)) = True"
| "is_denial (Ok (AskDenied _)) = True"
| "is_denial _ = False"

text \<open>\<open>stops\<close>: neither the tool's own input nor a rewritten one reaches the tool.\<close>

fun stops :: "(hook_decision, agent_error) result \<Rightarrow> bool" where
  "stops (Ok Allow) = False"
| "stops (Ok (UpdatedInput _)) = False"
| "stops _ = True"

lemma is_denial_stops: "is_denial r \<Longrightarrow> stops r"
  by (cases r rule: is_denial.cases) simp_all

lemma composite_before_tool_sealed:
  assumes "\<forall>h \<in> set hs. never_ask_denied (hk_before_tool h)"
  shows "fst (composite_before_tool hs ctx latest w) \<noteq> Ok (AskDenied m)"
  using assms
proof (induction hs arbitrary: latest w)
  case (Cons h hs)
  then show ?case
    by (auto simp: never_ask_denied_def split: prod.splits result.splits hook_decision.splits)
       (metis fst_conv)
qed (simp split: option.splits)

text \<open>
  The flag is only an optimisation: \<open>new\<close> and \<open>push\<close> set it only for
  composites all of whose layers report themselves no-ops.
\<close>

definition noop_flag_ok :: "'w composite \<Rightarrow> bool" where
  "noop_flag_ok c \<longleftrightarrow> (cp_all_noop c \<longrightarrow> list_all hk_is_noop (cp_layers c))"

lemma noop_flag_new [simp]: "noop_flag_ok (composite_new hs)"
  by (simp add: noop_flag_ok_def composite_new_def)

lemma noop_flag_push [simp]: "noop_flag_ok c \<Longrightarrow> noop_flag_ok (composite_push h c)"
  by (simp add: noop_flag_ok_def composite_push_def)

lemma composite_before_tool_stops:
  assumes "\<And>i w. stops (fst (hk_before_tool h (ctx\<lparr>tc_input := i\<rparr>) w))" and "h \<in> set hs"
  shows "stops (fst (composite_before_tool hs ctx latest w))"
  using assms(2)
proof (induction hs arbitrary: latest w)
  case (Cons g gs)
  show ?case
  proof (cases "g = h")
    case True
    with assms(1) [of "unwrap_or (tc_input ctx) latest" w] show ?thesis
      by (auto split: prod.splits result.splits hook_decision.splits)
  next
    case False
    with Cons show ?thesis
      by (auto split: prod.splits result.splits hook_decision.splits)
  qed
qed simp

text \<open>
  A layer that stops a call, whatever its input, stops it in every composite that holds
  it, wherever it stands: the layers before it may rewrite the input but not remove the gate,
  and the short cut for composites of no-ops is never taken.
\<close>

theorem composite_keeps_gates:
  assumes "h \<in> set (cp_layers c)" and "noop_flag_ok c" and "\<not> hk_is_noop h"
    and "\<And>i w. stops (fst (hk_before_tool h (ctx\<lparr>tc_input := i\<rparr>) w))"
  shows "stops (fst (hk_before_tool (composite_hooks pp c) ctx w))"
proof -
  have "\<not> cp_all_noop c"
    using assms(1-3) by (auto simp: noop_flag_ok_def list_all_iff)
  then show ?thesis
    using composite_before_tool_stops [OF assms(4,1)] by (simp add: composite_hooks_def)
qed

definition sample_denier :: "nat hooks" where
  "sample_denier = noop_hooks\<lparr>
     hk_before_tool := \<lambda>ctx w. (Ok (Deny (tc_tool_name ctx)), w + 1), hk_is_noop := False\<rparr>"

definition sample_rewriter :: "nat hooks" where
  "sample_rewriter = noop_hooks\<lparr>
     hk_before_tool := \<lambda>ctx w. (Ok (UpdatedInput JNull), w + 1), hk_is_noop := False\<rparr>"

definition sample_call :: tool_ctx where
  "sample_call = \<lparr>tc_session_id = ''s'', tc_turn_index = 0, tc_tool_use_id = ''t1'',
     tc_tool_name = ''Bash'', tc_input = JObject [], tc_is_read_only = False\<rparr>"

theorem composite_keeps_gates_witness:
  "stops (fst (hk_before_tool
     (composite_hooks (\<lambda>_. []) (composite_push sample_denier (composite_new [sample_rewriter])))
     sample_call 0)) \<and>
   fst (hk_before_tool (composite_hooks (\<lambda>_. []) (composite_new [sample_rewriter])) sample_call 0) =
     Ok (UpdatedInput JNull)"
proof -
  let ?c = "composite_push sample_denier (composite_new [sample_rewriter])"
  have "sample_denier \<in> set (cp_layers ?c)"
    by (simp add: composite_push_def composite_new_def)
  moreover have "noop_flag_ok ?c" by simp
  moreover have "\<not> hk_is_noop sample_denier" by (simp add: sample_denier_def)
  moreover have "stops (fst (hk_before_tool sample_denier (sample_call\<lparr>tc_input := i\<rparr>) w))" for i w
    by (simp add: sample_denier_def)
  ultimately have "stops (fst (hk_before_tool (composite_hooks (\<lambda>_. []) ?c) sample_call 0))"
    by (rule composite_keeps_gates)
  then show ?thesis
    by (simp add: composite_hooks_def composite_new_def sample_rewriter_def)
qed

end
