(* ===== verification/Matcher.thy ===== *)
theory Matcher
  imports Glob Hooks
begin

text \<open>
  The permission pattern matcher (\<open>crates/caliban-agent-core/src/permissions_matcher.rs\<close>):
  the two spellings of a rule pattern, the validation of a pattern, and the match of a pattern
  against a tool call, with the lexical normalisation of paths.

  The \<open>globset\<close> package compiles and matches one glob; it is the parameter \<open>gs\<close>.
  A path is its text, read through its components as \<open>std::path\<close> does on Unix.
\<close>

section \<open>The glob package\<close>

text \<open>
  \<open>gs_build literal_separator pattern\<close> is the matcher, or the text of the error, of
  \<open>GlobBuilder::new(pattern).literal_separator(..).build()\<close>.
\<close>

record globset =
  gs_build :: "bool \<Rightarrow> string \<Rightarrow> (string \<Rightarrow> bool, string) result"
  gs_escape :: "string \<Rightarrow> string"

(* map: src/crates/caliban-agent-core/src/permissions_matcher.rs 132-136 compile_glob *)
definition compile_glob :: "globset \<Rightarrow> string \<Rightarrow> bool \<Rightarrow> (string \<Rightarrow> bool, string) result" where
  "compile_glob gs pat literal_separator = gs_build gs literal_separator pat"

(* map: src/crates/caliban-agent-core/src/permissions_matcher.rs 145-155 glob_match *)
definition glob_match :: "globset \<Rightarrow> string \<Rightarrow> string \<Rightarrow> bool" where
  "glob_match gs pat hay =
     (case gs_build gs False pat of Ok m \<Rightarrow> m hay | Err _ \<Rightarrow> False)"

(* map: src/crates/caliban-agent-core/src/permissions_matcher.rs 157-165 glob_match_path *)
definition glob_match_path :: "globset \<Rightarrow> string \<Rightarrow> string \<Rightarrow> bool" where
  "glob_match_path gs pat hay =
     (case gs_build gs True pat of Ok m \<Rightarrow> m hay | Err _ \<Rightarrow> False)"

section \<open>Patterns\<close>

(* map: src/crates/caliban-agent-core/src/permissions_matcher.rs 124-130 paren_open *)
definition paren_open :: "string \<Rightarrow> nat option" where
  "paren_open pattern =
     (case position (\<lambda>c. c = CHR ''('') pattern of
        None \<Rightarrow> None
      | Some p \<Rightarrow>
          (case position (\<lambda>c. c = CHR '':'') pattern of
             Some colon \<Rightarrow> if colon < p then None else Some p
           | None \<Rightarrow> Some p))"

definition split_colon :: "string \<Rightarrow> string \<times> string option" where
  "split_colon pattern =
     (case split_once (CHR '':'') pattern of
        None \<Rightarrow> (pattern, None)
      | Some (name, spec) \<Rightarrow> (name, Some spec))"

(* map: src/crates/caliban-agent-core/src/permissions_matcher.rs 44-53 split_pattern *)
definition split_pattern :: "string \<Rightarrow> string \<times> string option" where
  "split_pattern pattern =
     (case paren_open pattern of
        Some p \<Rightarrow>
          (case strip_suffix '')'' (drop (p + 1) pattern) of
             Some inner \<Rightarrow> (take p pattern, Some inner)
           | None \<Rightarrow> split_colon pattern)
      | None \<Rightarrow> split_colon pattern)"

text \<open>The texts of the diagnostics; a dash and a backquote are written as bytes.\<close>

abbreviation em_dash :: string where
  "em_dash \<equiv> [CHR 0xE2, CHR 0x80, CHR 0x94]"

abbreviation bq :: string where
  "bq \<equiv> [CHR 0x60]"

definition quoted :: "string \<Rightarrow> string" where
  "quoted s = bq @ s @ bq"

definition empty_pattern_msg :: string where
  "empty_pattern_msg = ''an empty pattern matches nothing '' @ em_dash @
     '' remove the rule, or write a real pattern like '' @ quoted ''Tool(<glob>)'' @ '', '' @
     quoted ''Tool:<glob>'' @ '', or '' @ quoted ''*'' @ '' to match every call''"

definition unclosed_msg :: "string \<Rightarrow> string" where
  "unclosed_msg pattern = quoted pattern @ '' has an unclosed '' @ quoted ''('' @ '' '' @ em_dash @
     '' write '' @ quoted ''Tool(<glob>)'' @ '' or '' @ quoted ''Tool:<glob>''"

definition no_tool_msg :: "string \<Rightarrow> string" where
  "no_tool_msg pattern = quoted pattern @ '' names no tool '' @ em_dash @ '' write '' @
     quoted ''Tool(<glob>)'' @ '', '' @ quoted ''Tool:<glob>'' @ '', or '' @ quoted ''*''"

definition bad_tool_glob_msg :: "string \<Rightarrow> string \<Rightarrow> string \<Rightarrow> string" where
  "bad_tool_glob_msg pattern tool_pat e =
     quoted pattern @ '' has an invalid tool glob '' @ quoted tool_pat @ '': '' @ e"

definition empty_glob_msg :: "string \<Rightarrow> string \<Rightarrow> string" where
  "empty_glob_msg pattern tool_pat = quoted pattern @ '' has an empty glob '' @ em_dash @
     '' it matches nothing; use bare '' @ quoted tool_pat @ '' to match every call''"

definition bad_glob_msg :: "string \<Rightarrow> string \<Rightarrow> string \<Rightarrow> string" where
  "bad_glob_msg pattern g e = quoted pattern @ '' has an invalid glob '' @ quoted g @ '': '' @ e"

text \<open>The loop over the globs of a spec; the first that does not compile is reported.\<close>

fun first_bad_glob :: "globset \<Rightarrow> string \<Rightarrow> string list \<Rightarrow> string option" where
  "first_bad_glob gs pattern [] = None"
| "first_bad_glob gs pattern (g # rest) =
     (case compile_glob gs g False of
        Err e \<Rightarrow> Some (bad_glob_msg pattern g e)
      | Ok _ \<Rightarrow> first_bad_glob gs pattern rest)"

definition spec_globs :: "string \<Rightarrow> string list" where
  "spec_globs spec =
     (if CHR ''='' \<in> set spec
      then map (\<lambda>kv. case split_once (CHR ''='') kv of None \<Rightarrow> kv | Some (_, g) \<Rightarrow> g)
             (split_on (CHR '','') spec)
      else [unwrap_or spec (strip_prefix ''~'' spec)])"

(* map: src/crates/caliban-agent-core/src/permissions_matcher.rs 66-119 validate_pattern *)
definition validate_pattern :: "globset \<Rightarrow> string \<Rightarrow> string option" where
  "validate_pattern gs pattern =
     (if pattern = [] then Some empty_pattern_msg
      else if paren_open pattern \<noteq> None \<and> strip_suffix '')'' pattern = None
      then Some (unclosed_msg pattern)
      else
        (let (tool_pat, spec) = split_pattern pattern in
         if tool_pat = [] then Some (no_tool_msg pattern)
         else
           (case (if tool_pat \<noteq> ''*'' then compile_glob gs tool_pat False else Ok (\<lambda>_. True)) of
              Err e \<Rightarrow> Some (bad_tool_glob_msg pattern tool_pat e)
            | Ok _ \<Rightarrow>
                (case spec of
                   None \<Rightarrow> None
                 | Some s \<Rightarrow>
                     if s = [] then Some (empty_glob_msg pattern tool_pat)
                     else first_bad_glob gs pattern (spec_globs s)))))"

section \<open>Paths\<close>

text \<open>
  \<open>std::path::Component\<close> on Unix. \<open>components\<close> reads a path: a leading slash is
  the root, empty pieces are dropped, and so is a dot unless it begins a relative path.
\<close>

datatype component = RootDir | CurDir | ParentDir | Normal string

definition piece_component :: "string \<Rightarrow> component option" where
  "piece_component p =
     (if p = [] \<or> p = ''.'' then None else if p = ''..'' then Some ParentDir else Some (Normal p))"

definition is_absolute :: "string \<Rightarrow> bool" where
  "is_absolute p = starts_with ''/'' p"

definition components :: "string \<Rightarrow> component list" where
  "components p =
     (let ps = split_on (CHR ''/'') p in
      (if is_absolute p then [RootDir] else if hd ps = ''.'' then [CurDir] else []) @
      List.map_filter piece_component ps)"

fun component_str :: "component \<Rightarrow> string" where
  "component_str RootDir = ''/''"
| "component_str CurDir = ''.''"
| "component_str ParentDir = ''..''"
| "component_str (Normal s) = s"

text \<open>The text of a path built by pushing components.\<close>

definition path_text :: "component list \<Rightarrow> string" where
  "path_text cs =
     (case cs of
        RootDir # rest \<Rightarrow> CHR ''/'' # join ''/'' (map component_str rest)
      | _ \<Rightarrow> join ''/'' (map component_str cs))"

text \<open>The loop over the components; the accumulator is the path built so far.\<close>

(* map: src/crates/caliban-agent-core/src/permissions_matcher.rs 307-327 lexical_normalize *)
fun lexical_normalize :: "component list \<Rightarrow> component list \<Rightarrow> component list" where
  "lexical_normalize out [] = out"
| "lexical_normalize out (CurDir # cs) = lexical_normalize out cs"
| "lexical_normalize out (ParentDir # cs) =
     (if out \<noteq> [] \<and> (case last out of Normal _ \<Rightarrow> True | _ \<Rightarrow> False)
      then lexical_normalize (butlast out) cs
      else lexical_normalize (out @ [ParentDir]) cs)"
| "lexical_normalize out (RootDir # cs) = lexical_normalize [RootDir] cs"
| "lexical_normalize out (Normal s # cs) = lexical_normalize (out @ [Normal s]) cs"

text \<open>\<open>Path::strip_prefix("./")\<close> drops a leading current-directory component.\<close>

fun drop_cur_dir :: "component list \<Rightarrow> component list" where
  "drop_cur_dir (CurDir # rest) = rest"
| "drop_cur_dir cs = cs"

(* map: src/crates/caliban-agent-core/src/permissions_matcher.rs 291-300 workspace_normalize *)
definition workspace_normalize :: "string \<Rightarrow> string \<Rightarrow> component list" where
  "workspace_normalize p workspace =
     lexical_normalize []
       (if is_absolute p then components p
        else components workspace @ drop_cur_dir (components p))"

section \<open>Matching\<close>

(* map: src/crates/caliban-agent-core/src/permissions_matcher.rs 138-143 is_file_edit_tool *)
definition is_path_tool :: "string \<Rightarrow> bool" where
  "is_path_tool name =
     (name \<in> {''Read'', ''Write'', ''Edit'', ''MultiEdit'', ''NotebookEdit''})"

text \<open>The windows of the text at character boundaries.\<close>

(* map: src/crates/caliban-agent-core/src/permissions_matcher.rs 261-274 contains_glob *)
definition contains_glob :: "globset \<Rightarrow> string \<Rightarrow> string \<Rightarrow> bool" where
  "contains_glob gs pat hay =
     list_ex (\<lambda>i. list_ex (\<lambda>j.
         is_char_boundary hay i \<and> is_char_boundary hay j \<and>
         glob_match gs pat (drop i (take j hay)))
       [i..<length hay + 1]) [0..<length hay + 1]"

fun json_walk :: "json \<Rightarrow> string list \<Rightarrow> json option" where
  "json_walk v [] = Some v"
| "json_walk v (k # ks) = (case json_get v k of None \<Rightarrow> None | Some v' \<Rightarrow> json_walk v' ks)"

(* map: src/crates/caliban-agent-core/src/permissions_matcher.rs 276-289 kv_match *)
definition kv_match :: "globset \<Rightarrow> string \<Rightarrow> json \<Rightarrow> bool" where
  "kv_match gs kv input =
     (case split_once (CHR ''='') kv of
        None \<Rightarrow> False
      | Some (key, glob) \<Rightarrow>
          (case json_walk input (split_on (CHR ''.'') key) of
             None \<Rightarrow> glob_match gs glob []
           | Some v \<Rightarrow> glob_match gs glob (unwrap_or [] (json_as_str v))))"

(* map: src/crates/caliban-agent-core/src/permissions_matcher.rs 257-259 first_arg *)
definition ctx_first_arg :: "tool_ctx \<Rightarrow> string option" where
  "ctx_first_arg ctx = first_arg (tc_tool_name ctx) (tc_input ctx)"

text \<open>The branch for the tools whose first argument is a path (lines 215 to 247).\<close>

(* map: src/crates/caliban-agent-core/src/permissions_matcher.rs 214-247 matches_with_workspace *)
definition path_spec_matches :: "globset \<Rightarrow> string \<Rightarrow> tool_ctx \<Rightarrow> string \<Rightarrow> bool" where
  "path_spec_matches gs spec ctx workspace =
     (let target = workspace_normalize (unwrap_or [] (ctx_first_arg ctx)) workspace in
      if is_absolute spec then glob_match_path gs spec (path_text target)
      else if strip_prefix (components workspace) target = None then False
      else (let stripped = unwrap_or spec (strip_prefix ''./'' spec);
                glob_pat = gs_escape gs workspace @ ''/**/'' @ stripped
            in glob_match_path gs glob_pat (path_text target)))"

(* map: src/crates/caliban-agent-core/src/permissions_matcher.rs 183-252 matches_with_workspace *)
definition matches_with_workspace :: "globset \<Rightarrow> string \<Rightarrow> tool_ctx \<Rightarrow> string \<Rightarrow> bool" where
  "matches_with_workspace gs pattern ctx workspace =
     (let (tool_pat, arg_pat) = split_pattern pattern in
      if tool_pat \<noteq> ''*'' \<and> \<not> glob_match gs tool_pat (tc_tool_name ctx) then False
      else
        (case arg_pat of
           None \<Rightarrow> True
         | Some spec \<Rightarrow>
             (case strip_prefix ''~'' spec of
                Some rest \<Rightarrow>
                  if tc_tool_name ctx \<noteq> ''Bash'' then False
                  else contains_glob gs rest (unwrap_or [] (json_get_str (tc_input ctx) ''command''))
              | None \<Rightarrow>
                  if CHR ''='' \<in> set spec
                  then list_all (\<lambda>kv. kv_match gs kv (tc_input ctx)) (split_on (CHR '','') spec)
                  else if is_path_tool (tc_tool_name ctx)
                  then path_spec_matches gs spec ctx workspace
                  else glob_match gs spec (unwrap_or [] (ctx_first_arg ctx)))))"

text \<open>
  \<open>workspace_root\<close> asks \<open>git\<close> and falls back to the current directory: the two
  answers are parameters (a git failure is \<open>None\<close>, its output is trimmed).
\<close>

(* map: src/crates/caliban-agent-core/src/permissions_matcher.rs 15-28 workspace_root *)
definition workspace_root :: "string option \<Rightarrow> string option \<Rightarrow> string" where
  "workspace_root git_toplevel current_dir =
     (case git_toplevel of
        Some s \<Rightarrow> if s \<noteq> [] then s else unwrap_or ''.'' current_dir
      | None \<Rightarrow> unwrap_or ''.'' current_dir)"

section \<open>The two spellings\<close>

lemma position_append_fresh:
  "\<forall>x \<in> set u. \<not> P x \<Longrightarrow> P c \<Longrightarrow> position P (u @ c # v) = Some (length u)"
  by (induction u) auto

lemma position_less:
  "position P (u @ v) = Some i \<Longrightarrow> \<forall>x \<in> set u. \<not> P x \<Longrightarrow> length u \<le> i"
  by (auto simp: position_Some nth_append split: if_splits)

lemma split_once_fresh: "c \<notin> set u \<Longrightarrow> split_once c (u @ c # v) = Some (u, v)"
  by (simp add: split_once_Some)

definition plain_name :: "string \<Rightarrow> bool" where
  "plain_name t \<longleftrightarrow> CHR ''('' \<notin> set t \<and> CHR '':'' \<notin> set t"

lemma split_pattern_paren:
  assumes "plain_name tool"
  shows "split_pattern (tool @ ''('' @ g @ '')'') = (tool, Some g)"
proof -
  let ?p = "tool @ CHR ''('' # g @ '')''"
  have p: "position (\<lambda>c. c = CHR ''('') ?p = Some (length tool)"
    using assms by (intro position_append_fresh) (auto simp: plain_name_def)
  have "length tool \<le> i" if "position (\<lambda>c. c = CHR '':'') ?p = Some i" for i
    using that by (rule position_less) (use assms in \<open>auto simp: plain_name_def\<close>)
  then have "paren_open ?p = Some (length tool)"
    by (fastforce simp: paren_open_def p split: option.splits)
  moreover have "strip_suffix '')'' (g @ '')'') = Some g"
    by (simp add: strip_suffix_Some)
  ultimately show ?thesis by (simp add: split_pattern_def)
qed

lemma split_pattern_colon:
  assumes "plain_name tool"
  shows "split_pattern (tool @ '':'' @ g) = (tool, Some g)"
proof -
  let ?p = "tool @ CHR '':'' # g"
  have c: "position (\<lambda>c. c = CHR '':'') ?p = Some (length tool)"
    using assms by (intro position_append_fresh) (auto simp: plain_name_def)
  have "length tool < i" if "position (\<lambda>c. c = CHR ''('') ?p = Some i" for i
  proof -
    have "length (tool @ '':'') \<le> i"
    proof (rule position_less)
      show "position (\<lambda>c. c = CHR ''('') ((tool @ '':'') @ g) = Some i" using that by simp
      show "\<forall>x \<in> set (tool @ '':''). x \<noteq> CHR ''(''" using assms by (auto simp: plain_name_def)
    qed
    then show ?thesis by simp
  qed
  then have "paren_open ?p = None"
    by (auto simp: paren_open_def c split: option.splits)
  then show ?thesis
    using assms by (simp add: split_pattern_def split_colon_def split_once_fresh plain_name_def)
qed

text \<open>
  The two spellings of a rule are interchangeable: \<open>Tool(glob)\<close> and
  \<open>Tool:glob\<close> match the same calls, whatever the glob holds, colons and closing
  parentheses included.
\<close>

theorem spellings_interchangeable:
  assumes "plain_name tool"
  shows "matches_with_workspace gs (tool @ ''('' @ g @ '')'') ctx ws =
         matches_with_workspace gs (tool @ '':'' @ g) ctx ws"
  unfolding matches_with_workspace_def split_pattern_paren [OF assms]
    split_pattern_colon [OF assms] ..

section \<open>Containment\<close>

text \<open>
  What a path denotes without symbolic links: the directories walked from \<open>d\<close>; going up
  from the root stays there.
\<close>

fun walk :: "string list \<Rightarrow> component list \<Rightarrow> string list" where
  "walk d [] = d"
| "walk d (RootDir # cs) = walk [] cs"
| "walk d (CurDir # cs) = walk d cs"
| "walk d (ParentDir # cs) = walk (butlast d) cs"
| "walk d (Normal s # cs) = walk (d @ [s]) cs"

definition rooted :: "nat \<Rightarrow> string list \<Rightarrow> component list" where
  "rooted k ns = RootDir # replicate k ParentDir @ map Normal ns"

lemma rooted_last: "(case last (rooted k ns) of Normal _ \<Rightarrow> True | _ \<Rightarrow> False) \<longleftrightarrow> ns \<noteq> []"
  by (cases ns rule: rev_cases; cases k)
     (simp_all add: rooted_def replicate_append_same [symmetric] del: replicate.simps)

lemma rooted_butlast: "ns \<noteq> [] \<Longrightarrow> butlast (rooted k ns) = rooted k (butlast ns)"
  by (simp add: rooted_def butlast_append map_butlast)

lemma rooted_snoc: "rooted k ns @ [Normal s] = rooted k (ns @ [s])"
  by (simp add: rooted_def)

lemma rooted_up: "rooted k [] @ [ParentDir] = rooted (Suc k) []"
  by (simp add: rooted_def replicate_append_same)

text \<open>
  The normalisation keeps the shape, keeps every escape it has recorded, and agrees with the
  walk as long as it has recorded none.
\<close>

lemma lexical_normalize_rooted:
  "RootDir \<notin> set cs \<Longrightarrow>
   \<exists>k' ms. lexical_normalize (rooted k ns) cs = rooted k' ms \<and> k \<le> k' \<and>
     (k' = 0 \<longrightarrow> walk ns cs = ms)"
proof (induction cs arbitrary: k ns)
  case Nil
  show ?case by auto
next
  case (Cons c cs)
  show ?case
  proof (cases c)
    case ParentDir
    show ?thesis
    proof (cases "ns = []")
      case True
      obtain k' ms where "lexical_normalize (rooted (Suc k) []) cs = rooted k' ms" "Suc k \<le> k'"
        using Cons.IH [of "Suc k" "[]"] Cons.prems by auto
      moreover have "lexical_normalize (rooted k ns) (c # cs) = lexical_normalize (rooted (Suc k) []) cs"
        using ParentDir True rooted_last [of k ns] rooted_up [of k] by simp
      ultimately show ?thesis
        by (intro exI [of _ k'] exI [of _ ms]) simp
    next
      case False
      then show ?thesis
        using ParentDir Cons.IH [of k "butlast ns"] Cons.prems rooted_last [of k ns]
        by (simp add: rooted_butlast) (simp add: rooted_def)
    qed
  next
    case (Normal s)
    then show ?thesis
      using Cons.IH [of k "ns @ [s]"] Cons.prems by (simp add: rooted_snoc)
  qed (use Cons in auto)
qed

lemma components_RootDir: "RootDir \<notin> set (List.map_filter piece_component ps)"
  by (auto simp: List.map_filter_def piece_component_def split: if_splits)

lemma components_absolute:
  "is_absolute p \<Longrightarrow> \<exists>cs. components p = RootDir # cs \<and> RootDir \<notin> set cs"
  by (auto simp: components_def Let_def components_RootDir)

lemma components_relative: "\<not> is_absolute p \<Longrightarrow> RootDir \<notin> set (components p)"
  by (auto simp: components_def Let_def components_RootDir)

lemma walk_drop_cur_dir: "walk d (drop_cur_dir cs) = walk d cs"
  by (cases cs rule: drop_cur_dir.cases) simp_all

lemma set_drop_cur_dir: "set (drop_cur_dir cs) \<subseteq> set cs"
  by (cases cs rule: drop_cur_dir.cases) auto

lemma lexical_normalize_normals:
  "lexical_normalize (rooted k ns) (map Normal ms @ cs) = lexical_normalize (rooted k (ns @ ms)) cs"
  by (induction ms arbitrary: ns) (simp_all add: rooted_snoc)

text \<open>A workspace is an absolute directory below the root, written without dots.\<close>

definition is_workspace :: "string \<Rightarrow> string list \<Rightarrow> bool" where
  "is_workspace ws dirs \<longleftrightarrow> dirs \<noteq> [] \<and> components ws = RootDir # map Normal dirs"

lemma workspace_normalize_walk:
  assumes ws: "is_workspace ws dirs"
  shows "\<exists>k ms. workspace_normalize p ws = rooted k ms \<and> (k = 0 \<longrightarrow> walk dirs (components p) = ms)"
proof (cases "is_absolute p")
  case True
  then obtain cs where cs: "components p = RootDir # cs" "RootDir \<notin> set cs"
    using components_absolute by blast
  obtain k ms where "lexical_normalize (rooted 0 []) cs = rooted k ms" "k = 0 \<longrightarrow> walk [] cs = ms"
    using lexical_normalize_rooted [OF cs(2), of 0 "[]"] by auto
  then show ?thesis using True cs(1)
    by (intro exI [of _ k] exI [of _ ms]) (simp add: workspace_normalize_def rooted_def)
next
  case False
  let ?cs = "drop_cur_dir (components p)"
  have "RootDir \<notin> set ?cs"
    using components_relative [OF False] set_drop_cur_dir by blast
  from lexical_normalize_rooted [OF this, of 0 dirs] obtain k ms where
    "lexical_normalize (rooted 0 dirs) ?cs = rooted k ms" "k = 0 \<longrightarrow> walk dirs ?cs = ms"
    by auto
  moreover have "workspace_normalize p ws = lexical_normalize (rooted 0 dirs) ?cs"
    using False ws lexical_normalize_normals [of 0 "[]" dirs ?cs]
    by (simp add: workspace_normalize_def is_workspace_def rooted_def)
  ultimately show ?thesis by (auto simp: walk_drop_cur_dir)
qed

lemma workspace_prefix_walk:
  assumes ws: "is_workspace ws dirs"
    and pre: "strip_prefix (components ws) (workspace_normalize p ws) \<noteq> None"
  shows "prefix dirs (walk dirs (components p))"
proof -
  obtain k ms where n: "workspace_normalize p ws = rooted k ms"
      "k = 0 \<longrightarrow> walk dirs (components p) = ms"
    using workspace_normalize_walk [OF ws] by blast
  obtain d ds where dirs: "dirs = d # ds" "components ws = RootDir # Normal d # map Normal ds"
    using ws by (cases dirs) (auto simp: is_workspace_def)
  from pre obtain r where r: "rooted k ms = RootDir # Normal d # map Normal ds @ r"
    using n(1) dirs(2) by (auto simp: strip_prefix_Some)
  then have "k = 0" by (cases k) (auto simp: rooted_def)
  with r have "map Normal ms = map Normal dirs @ r"
    using dirs(1) by (simp add: rooted_def)
  then obtain us vs where "ms = us @ vs" "map Normal us = map Normal dirs"
    by (metis map_eq_append_conv)
  moreover from this(2) have "us = dirs"
    by (simp add: inj_map_eq_map inj_def)
  ultimately show ?thesis using n(2) \<open>k = 0\<close> by simp
qed

text \<open>
  (C33) Containment: a relative path rule for a file tool matches a call only when the path of
  the call, resolved from the workspace with its dots, lies in the workspace. So a rule such
  as \<open>Write:src/**\<close> can never be reached by a path that climbs out with \<open>..\<close>.
\<close>

theorem relative_path_rule_contained:
  assumes ws: "is_workspace ws dirs"
    and m: "matches_with_workspace gs pattern ctx ws"
    and spec: "split_pattern pattern = (tool_pat, Some spec)"
    and rel: "\<not> is_absolute spec" "strip_prefix ''~'' spec = None" "CHR ''='' \<notin> set spec"
    and tool: "is_path_tool (tc_tool_name ctx)"
  shows "prefix dirs (walk dirs (components (unwrap_or [] (ctx_first_arg ctx))))"
proof -
  have "path_spec_matches gs spec ctx ws"
    using m spec rel tool by (simp add: matches_with_workspace_def split: if_splits)
  then have "strip_prefix (components ws)
      (workspace_normalize (unwrap_or [] (ctx_first_arg ctx)) ws) \<noteq> None"
    using rel(1) by (auto simp: path_spec_matches_def Let_def split: if_splits)
  then show ?thesis using workspace_prefix_walk [OF ws] by blast
qed

definition sample_globset :: globset where
  "sample_globset = \<lparr>gs_build = \<lambda>_ pat. Ok (glob_spec pat), gs_escape = \<lambda>s. s\<rparr>"

definition sample_write :: "string \<Rightarrow> tool_ctx" where
  "sample_write path = \<lparr>tc_session_id = ''s'', tc_turn_index = 0, tc_tool_use_id = ''t1'',
     tc_tool_name = ''Write'', tc_input = JObject [(''path'', JString path)],
     tc_is_read_only = False\<rparr>"

theorem spellings_interchangeable_witness:
  "matches_with_workspace sample_globset ''Bash(scp a:/tmp (x))'' (sample_write ''p'') ''/w'' =
   matches_with_workspace sample_globset ''Bash:scp a:/tmp (x)'' (sample_write ''p'') ''/w''"
proof -
  have "plain_name ''Bash''" by (simp add: plain_name_def)
  from spellings_interchangeable [OF this, of sample_globset "''scp a:/tmp (x)''"
      "sample_write ''p''" "''/w''"]
  show ?thesis by simp
qed

lemma sample_normalize: "workspace_normalize ''a/./c/../b'' ''/w'' = [RootDir, Normal ''w'', Normal ''a'', Normal ''b'']"
  by (simp add: workspace_normalize_def components_def Let_def is_absolute_def starts_with_def
      piece_component_def List.map_filter_def)

lemma sample_path_match:
  "matches_with_workspace sample_globset ''Write:*'' (sample_write ''a/./c/../b'') ''/w''"
proof -
  have "split_pattern ''Write:*'' = (''Write'', Some ''*'')"
    using split_pattern_colon [of "''Write''" "''*''"] by (simp add: plain_name_def)
  moreover have "path_spec_matches sample_globset ''*'' (sample_write ''a/./c/../b'') ''/w''"
    by (simp add: path_spec_matches_def ctx_first_arg_def first_arg_def sample_write_def sample_normalize
        path_text_def glob_match_path_def sample_globset_def is_absolute_def starts_with_def
        components_def Let_def piece_component_def List.map_filter_def json_get_str_def)
  ultimately show ?thesis
    by (simp add: matches_with_workspace_def glob_match_def sample_globset_def sample_write_def
        is_path_tool_def)
qed

theorem relative_path_rule_contained_witness:
  "matches_with_workspace sample_globset ''Write:*'' (sample_write ''a/./c/../b'') ''/w'' \<and>
   prefix [''w''] (walk [''w''] (components ''a/./c/../b'')) \<and>
   \<not> matches_with_workspace sample_globset ''Write:*'' (sample_write ''../w2/b'') ''/w''"
proof -
  have ws: "is_workspace ''/w'' [''w'']"
    by (simp add: is_workspace_def components_def Let_def is_absolute_def starts_with_def
        piece_component_def List.map_filter_def)
  have sp: "split_pattern ''Write:*'' = (''Write'', Some ''*'')"
    using split_pattern_colon [of "''Write''" "''*''"] by (simp add: plain_name_def)
  have rel: "\<not> is_absolute ''*''" "strip_prefix ''~'' ''*'' = None" "CHR ''='' \<notin> set ''*''"
    by (simp_all add: is_absolute_def starts_with_def)
  have tool: "is_path_tool (tc_tool_name (sample_write p))" for p
    by (simp add: is_path_tool_def sample_write_def)
  have arg: "unwrap_or [] (ctx_first_arg (sample_write p)) = p" for p
    by (simp add: ctx_first_arg_def first_arg_def sample_write_def json_get_str_def)
  have "\<not> prefix [''w''] (walk [''w''] (components ''../w2/b''))"
    by (simp add: components_def Let_def is_absolute_def starts_with_def
        piece_component_def List.map_filter_def)
  then have "\<not> matches_with_workspace sample_globset ''Write:*'' (sample_write ''../w2/b'') ''/w''"
    using relative_path_rule_contained [OF ws _ sp rel tool, of sample_globset "''../w2/b''"]
    by (auto simp: arg)
  moreover have "prefix [''w''] (walk [''w''] (components ''a/./c/../b''))"
    using relative_path_rule_contained [OF ws sample_path_match sp rel tool] by (simp add: arg)
  ultimately show ?thesis using sample_path_match by blast
qed

section \<open>A false alarm\<close>

text \<open>
  \<open>validate_pattern\<close> is documented to report only patterns that can never match, but
  it reports \<open>*:\<close> as matching nothing, while that pattern matches every call that has
  no first argument (every MCP tool's, for one): the missing argument reads as the empty
  string, which the empty glob matches.
\<close>

theorem validate_pattern_false_alarm:
  assumes "gs_build gs False [] = Ok m" and "m []"
    and "ctx_first_arg ctx = None" and "\<not> is_path_tool (tc_tool_name ctx)"
  shows "validate_pattern gs ''*:'' = Some (empty_glob_msg ''*:'' ''*'') \<and>
         matches_with_workspace gs ''*:'' ctx ws"
proof -
  have sp: "split_pattern ''*:'' = (''*'', Some [])"
    using split_pattern_colon [of "''*''" "[]"] by (simp add: plain_name_def)
  have "paren_open ''*:'' = None" by (simp add: paren_open_def)
  then have "validate_pattern gs ''*:'' = Some (empty_glob_msg ''*:'' ''*'')"
    by (simp add: validate_pattern_def sp)
  moreover have "matches_with_workspace gs ''*:'' ctx ws"
    using assms by (simp add: matches_with_workspace_def sp glob_match_def)
  ultimately show ?thesis by blast
qed

theorem validate_pattern_false_alarm_witness:
  "matches_with_workspace sample_globset ''*:'' (sample_write ''x''\<lparr>tc_tool_name := ''mcp__a__b''\<rparr>) ''/w''"
proof -
  have "gs_build sample_globset False [] = Ok (glob_spec [])"
    by (simp add: sample_globset_def)
  moreover have "glob_spec [] []" by simp
  moreover have "ctx_first_arg (sample_write ''x''\<lparr>tc_tool_name := ''mcp__a__b''\<rparr>) = None"
    by (simp add: ctx_first_arg_def first_arg_def)
  moreover have "\<not> is_path_tool (tc_tool_name (sample_write ''x''\<lparr>tc_tool_name := ''mcp__a__b''\<rparr>))"
    by (simp add: is_path_tool_def)
  ultimately show ?thesis by (intro conjunct2 [OF validate_pattern_false_alarm])
qed

end
