(* ===== verification/Workspace.thy ===== *)
theory Workspace
  imports Matcher "HOL-Library.AList"
begin

text \<open>
  The workspace fence of the built-in tools (\<open>caliban-tools-builtin/src/workspace.rs\<close>)
  and the confined atomic write under it (\<open>caliban-common/src/fs.rs\<close>). A path is the list
  of its components. The operating system is a parameter: \<open>canonicalize\<close> for the fence, and
  for the writes the record \<open>sys\<close> of system calls on a world, which other processes may
  change between any two calls.
\<close>

section \<open>Paths\<close>

text \<open>A name of a directory entry: what a component can be, apart from the special ones.\<close>

definition entry_name :: "string \<Rightarrow> bool" where
  "entry_name s \<longleftrightarrow> s \<noteq> [] \<and> s \<noteq> ''.'' \<and> s \<noteq> ''..'' \<and> CHR ''/'' \<notin> set s"

fun is_normal :: "component \<Rightarrow> bool" where
  "is_normal (Normal _) = True"
| "is_normal _ = False"

text \<open>A path with no dots in it, from the root.\<close>

definition names_path :: "component list \<Rightarrow> bool" where
  "names_path cs \<longleftrightarrow> (\<exists>ns. cs = map Normal ns \<and> list_all entry_name ns)"

definition physical :: "component list \<Rightarrow> bool" where
  "physical p \<longleftrightarrow> (\<exists>cs. p = RootDir # cs \<and> names_path cs)"

text \<open>\<open>PathBuf::push\<close>: an absolute path replaces what is there.\<close>

definition path_join :: "component list \<Rightarrow> component list \<Rightarrow> component list" where
  "path_join base p =
     (if p \<noteq> [] \<and> hd p = RootDir then p else if base = [] then p else base @ drop_cur_dir p)"

section \<open>The fence\<close>

(* map: src/crates/caliban-tools-builtin/src/workspace.rs 7-12 WorkspaceRoot *)
record workspace =
  ws_root :: "component list"
  ws_restrict_to_root :: bool

type_synonym canonicalize = "component list \<Rightarrow> component list option"

(* map: src/crates/caliban-tools-builtin/src/workspace.rs 15-24 WorkspaceRoot::new *)
definition workspace_new :: "canonicalize \<Rightarrow> component list \<Rightarrow> workspace" where
  "workspace_new canon root = \<lparr>ws_root = unwrap_or root (canon root), ws_restrict_to_root = False\<rparr>"

(* map: src/crates/caliban-tools-builtin/src/workspace.rs 35-41 WorkspaceRoot::restricted *)
definition restricted :: "workspace \<Rightarrow> workspace" where
  "restricted ws = ws\<lparr>ws_restrict_to_root := True\<rparr>"

(* map: src/crates/caliban-tools-builtin/src/workspace.rs 142-162 lexically_normalize *)
fun lexically_normalize :: "component list \<Rightarrow> component list \<Rightarrow> component list" where
  "lexically_normalize out [] = out"
| "lexically_normalize out (RootDir # cs) = lexically_normalize [RootDir] cs"
| "lexically_normalize out (CurDir # cs) = lexically_normalize out cs"
| "lexically_normalize out (ParentDir # cs) =
     (if out \<noteq> [] \<and> is_normal (last out) then lexically_normalize (butlast out) cs
      else if out = [] \<or> hd out \<noteq> RootDir then lexically_normalize (out @ [ParentDir]) cs
      else lexically_normalize out cs)"
| "lexically_normalize out (Normal seg # cs) = lexically_normalize (out @ [Normal seg]) cs"

text \<open>The loop: what is left of the path, and the components cut off, in their order.\<close>

(* map: src/crates/caliban-tools-builtin/src/workspace.rs 168-187 canonicalize_existing_ancestor *)
function canonicalize_existing_ancestor ::
  "canonicalize \<Rightarrow> component list \<Rightarrow> component list \<Rightarrow> component list \<Rightarrow> component list" where
  "canonicalize_existing_ancestor canon p cur tail =
     (case canon cur of
        Some c \<Rightarrow> c @ tail
      | None \<Rightarrow>
          if cur \<noteq> [] \<and> is_normal (last cur)
          then canonicalize_existing_ancestor canon p (butlast cur) (last cur # tail)
          else p)"
  by pat_completeness auto

termination canonicalize_existing_ancestor
  by (relation "measure (\<lambda>(canon, p, cur, tail). length cur)") auto

declare canonicalize_existing_ancestor.simps [simp del]

definition outside_msg :: "component list \<Rightarrow> component list \<Rightarrow> string" where
  "outside_msg p root = ''path '' @ path_text p @ '' is outside workspace root '' @ path_text root"

text \<open>The path that the input names, before it is made absolute; \<open>home\<close> is \<open>dirs::home_dir()\<close>.\<close>

(* map: src/crates/caliban-tools-builtin/src/workspace.rs 68-80 WorkspaceRoot::resolve *)
definition candidate_path :: "string option \<Rightarrow> string \<Rightarrow> (component list, tool_error) result" where
  "candidate_path home input =
     (if input = ''~''
      then (case home of
              None \<Rightarrow> Err (InvalidInput ''~ used but home directory is unavailable'')
            | Some h \<Rightarrow> Ok (components h))
      else
        (case strip_prefix ''~/'' input of
           Some rest \<Rightarrow>
             (case home of
                None \<Rightarrow> Err (InvalidInput ''~/ used but home directory is unavailable'')
              | Some h \<Rightarrow> Ok (path_join (components h) (components rest)))
         | None \<Rightarrow> Ok (components input)))"

(* map: src/crates/caliban-tools-builtin/src/workspace.rs 63-104 WorkspaceRoot::resolve *)
definition resolve ::
  "canonicalize \<Rightarrow> string option \<Rightarrow> workspace \<Rightarrow> string \<Rightarrow> (component list, tool_error) result" where
  "resolve canon home ws input =
     (if input = [] then Err (InvalidInput ''empty path'')
      else
        (case candidate_path home input of
           Err e \<Rightarrow> Err e
         | Ok cand \<Rightarrow>
             (let norm = lexically_normalize [] (path_join (ws_root ws) cand);
                  c = canonicalize_existing_ancestor canon norm norm []
              in if ws_restrict_to_root ws \<and> \<not> starts_with (ws_root ws) c
                 then Err (InvalidInput (outside_msg c (ws_root ws)))
                 else Ok c)))"

(* map: src/crates/caliban-tools-builtin/src/workspace.rs 128-131 WorkspaceRoot::relativize *)
definition relativize :: "workspace \<Rightarrow> component list \<Rightarrow> component list" where
  "relativize ws p = unwrap_or p (strip_prefix (ws_root ws) p)"

section \<open>What the fence lets through\<close>

lemma names_path_simps [simp]:
  "names_path []"
  "names_path (c # cs) \<longleftrightarrow> (\<exists>s. c = Normal s \<and> entry_name s) \<and> names_path cs"
  by (auto simp: names_path_def map_eq_Cons_conv intro: exI [of _ "_ # _"])

lemma names_path_append [simp]: "names_path (a @ b) \<longleftrightarrow> names_path a \<and> names_path b"
  by (induction a) auto

lemma physical_simps [simp]: "physical (RootDir # cs) = names_path cs" "\<not> physical []"
  by (auto simp: physical_def)

lemma physical_append: "physical p \<Longrightarrow> names_path cs \<Longrightarrow> physical (p @ cs)"
  by (auto simp: physical_def)

lemma split_on_free: "s \<in> set (split_on c t) \<Longrightarrow> c \<notin> set s"
  by (induction t arbitrary: s) (auto split: if_splits list.splits)

text \<open>Whatever its text, the named components of a path are names of entries.\<close>

definition proper :: "component list \<Rightarrow> bool" where
  "proper cs \<longleftrightarrow> (\<forall>s. Normal s \<in> set cs \<longrightarrow> entry_name s)"

lemma proper_components: "proper (components p)"
  by (auto simp: proper_def components_def Let_def entry_name_def List.map_filter_def
      piece_component_def dest: split_on_free split: if_splits)

lemma proper_simps [simp]:
  "proper []" "proper (c # cs) \<longleftrightarrow> (\<forall>s. c = Normal s \<longrightarrow> entry_name s) \<and> proper cs"
  "proper (a @ b) \<longleftrightarrow> proper a \<and> proper b"
  by (auto simp: proper_def)

lemma proper_drop_cur_dir: "proper cs \<Longrightarrow> proper (drop_cur_dir cs)"
  by (cases cs rule: drop_cur_dir.cases) auto

lemma names_path_proper: "names_path cs \<Longrightarrow> proper cs"
  by (induction cs) auto

lemma names_path_butlast: "names_path cs \<Longrightarrow> names_path (butlast cs)"
  by (induction cs) auto

lemma physical_last: "physical p \<Longrightarrow> is_normal (last p) \<Longrightarrow> physical (butlast p) \<and> names_path [last p]"
  by (cases p rule: rev_cases) (auto simp: physical_def Cons_eq_append_conv append_eq_Cons_conv)

text \<open>An absolute path is rid of its dots; at the root a double dot is dropped.\<close>

lemma lexically_normalize_physical: "physical out \<Longrightarrow> proper cs \<Longrightarrow> physical (lexically_normalize out cs)"
proof (induction out cs rule: lexically_normalize.induct)
  case (4 out cs)
  then show ?case using physical_last [of out] by (auto simp: physical_def)
next
  case (5 out seg cs)
  then show ?case by (simp add: physical_append)
qed (auto simp: physical_def)

lemma ancestor_physical:
  "(\<And>q c. canon q = Some c \<Longrightarrow> physical c) \<Longrightarrow> physical p \<Longrightarrow> physical cur \<Longrightarrow> names_path tail \<Longrightarrow>
   physical (canonicalize_existing_ancestor canon p cur tail)"
proof (induction canon p cur tail rule: canonicalize_existing_ancestor.induct)
  case (1 canon p cur tail)
  note unfold = canonicalize_existing_ancestor.simps [of canon p cur tail]
  show ?case
  proof (cases "canon cur")
    case (Some c)
    then show ?thesis using "1.prems" by (simp add: unfold physical_append)
  next
    case None
    show ?thesis
    proof (cases "cur \<noteq> [] \<and> is_normal (last cur)")
      case True
      then have "physical (butlast cur)" "names_path (last cur # tail)"
        using physical_last [of cur] "1.prems" by simp_all
      then show ?thesis using "1.IH" [OF None True] "1.prems" None True by (simp add: unfold)
    next
      case False
      then show ?thesis using None "1.prems" by (auto simp: unfold)
    qed
  qed
qed

lemma path_join_proper: "proper base \<Longrightarrow> proper p \<Longrightarrow> proper (path_join base p)"
  by (simp add: path_join_def proper_drop_cur_dir)

lemma candidate_proper: "candidate_path home input = Ok cand \<Longrightarrow> proper cand"
  by (auto simp: candidate_path_def proper_components path_join_proper split: if_splits option.splits)

lemma path_join_rooted: "physical base \<Longrightarrow> \<exists>cs. path_join base p = RootDir # cs"
  by (cases p) (auto simp: path_join_def physical_def)

lemma resolve_Ok:
  "resolve canon home ws input = Ok p \<Longrightarrow>
   \<exists>cand norm. candidate_path home input = Ok cand \<and>
     norm = lexically_normalize [] (path_join (ws_root ws) cand) \<and>
     p = canonicalize_existing_ancestor canon norm norm [] \<and>
     (ws_restrict_to_root ws \<longrightarrow> starts_with (ws_root ws) p)"
  by (auto simp: resolve_def Let_def split: if_splits result.splits)

lemma resolve_physical:
  assumes "\<And>q c. canon q = Some c \<Longrightarrow> physical c" and "physical (ws_root ws)"
    and "resolve canon home ws input = Ok p"
  shows "physical p"
proof -
  obtain cand norm where c: "candidate_path home input = Ok cand"
    and n: "norm = lexically_normalize [] (path_join (ws_root ws) cand)"
    and p: "p = canonicalize_existing_ancestor canon norm norm []"
    using resolve_Ok [OF assms(3)] by blast
  obtain cs where cs: "path_join (ws_root ws) cand = RootDir # cs"
    using path_join_rooted [OF assms(2)] by blast
  have "proper (RootDir # cs)"
    using path_join_proper [OF _ candidate_proper [OF c], of "ws_root ws"] assms(2) names_path_proper
    unfolding cs [symmetric] by (auto simp: physical_def)
  then have "physical norm" unfolding n cs by (simp add: lexically_normalize_physical)
  then show ?thesis using ancestor_physical [OF assms(1)] p by simp
qed

lemma resolved_below:
  assumes "\<forall>q c. canon q = Some c \<longrightarrow> physical c" and "physical (ws_root ws)"
    and "ws_restrict_to_root ws" and "resolve canon home ws input = Ok p"
  shows "physical p" and "\<exists>names. p = ws_root ws @ map Normal names \<and> list_all entry_name names"
proof -
  show "physical p" using resolve_physical assms(1,2,4) by blast
  moreover obtain rest where rest: "p = ws_root ws @ rest"
    using resolve_Ok [OF assms(4)] assms(3) by (auto simp: starts_with_def strip_prefix_Some)
  ultimately have "names_path rest" using assms(2) by (auto simp: physical_def)
  then show "\<exists>names. p = ws_root ws @ map Normal names \<and> list_all entry_name names"
    using rest by (auto simp: names_path_def)
qed

text \<open>
  (C8) A restricted workspace resolves an input only to a path below its root: the root followed by
  names of entries, with no dot in it. This holds whatever links there are, and for paths that
  do not exist yet.
\<close>

theorem resolve_is_fenced:
  assumes "\<forall>q c. canon q = Some c \<longrightarrow> physical c" and "physical (ws_root ws)"
    and "ws_restrict_to_root ws" and "resolve canon home ws input = Ok p"
  shows "\<exists>names. p = ws_root ws @ map Normal names \<and> list_all entry_name names"
  by (rule resolved_below(2) [OF assms])

section \<open>System calls\<close>

datatype errno = EEXIST | ENOENT | ELOOP | ENOTDIR | EOTHER string

datatype io_error = OsError errno | PermissionDenied string | IoInvalidInput string

text \<open>What \<open>fstatat\<close> says of an entry, without following a link: is it a regular file, its mode.\<close>

type_synonym stat = "bool \<times> u32"

text \<open>
  The calls of \<open>rustix::fs\<close> that the write uses. \<open>sys_openat\<close> opens a directory with
  \<open>O_NOFOLLOW\<close>, \<open>sys_create\<close> a new file with \<open>O_EXCL\<close>; \<open>sys_counter\<close> is the
  counter of temporary names and \<open>sys_pid\<close> the process.
\<close>

record ('fd, 'w) sys =
  sys_open_root :: "component list \<Rightarrow> 'w \<Rightarrow> ('fd, errno) result \<times> 'w"
  sys_openat :: "'fd \<Rightarrow> string \<Rightarrow> 'w \<Rightarrow> ('fd, errno) result \<times> 'w"
  sys_mkdirat :: "'fd \<Rightarrow> string \<Rightarrow> 'w \<Rightarrow> (unit, errno) result \<times> 'w"
  sys_statat :: "'fd \<Rightarrow> string \<Rightarrow> 'w \<Rightarrow> (stat, errno) result \<times> 'w"
  sys_create :: "'fd \<Rightarrow> string \<Rightarrow> u32 \<Rightarrow> 'w \<Rightarrow> ('fd, errno) result \<times> 'w"
  sys_write_all :: "'fd \<Rightarrow> string \<Rightarrow> 'w \<Rightarrow> (unit, errno) result \<times> 'w"
  sys_fchmod :: "'fd \<Rightarrow> u32 \<Rightarrow> 'w \<Rightarrow> (unit, errno) result \<times> 'w"
  sys_renameat :: "'fd \<Rightarrow> string \<Rightarrow> string \<Rightarrow> 'w \<Rightarrow> (unit, errno) result \<times> 'w"
  sys_unlinkat :: "'fd \<Rightarrow> string \<Rightarrow> 'w \<Rightarrow> (unit, errno) result \<times> 'w"
  sys_counter :: "'w \<Rightarrow> nat \<times> 'w"
  sys_pid :: nat
  sys_umask_probe :: "u32 option"

text \<open>\<open>f(..)?\<close> on a call that passes the world on.\<close>

definition and_then ::
  "(('a, 'e) result \<times> 'w) \<Rightarrow> ('a \<Rightarrow> 'w \<Rightarrow> ('b, 'e) result \<times> 'w) \<Rightarrow> ('b, 'e) result \<times> 'w" where
  "and_then r f = (case r of (Ok x, w) \<Rightarrow> f x w | (Err e, w) \<Rightarrow> (Err e, w))"

definition os :: "('a, errno) result \<times> 'w \<Rightarrow> ('a, io_error) result \<times> 'w" where
  "os r = (map_err OsError (fst r), snd r)"

lemma and_then_keeps:
  "Q (snd r) \<Longrightarrow> (\<And>x. fst r = Ok x \<Longrightarrow> Q (snd r) \<Longrightarrow> Q (snd (f x (snd r)))) \<Longrightarrow> Q (snd (and_then r f))"
  by (auto simp: and_then_def split: prod.splits result.splits)

lemma and_then_Ok:
  "and_then r f = (Ok y, w') \<longleftrightarrow> (\<exists>x w. r = (Ok x, w) \<and> f x w = (Ok y, w'))"
  by (auto simp: and_then_def split: prod.splits result.splits)

lemma os_simps [simp]: "snd (os r) = snd r" "fst (os r) = Ok x \<longleftrightarrow> fst r = Ok x"
  by (simp_all add: os_def)

section \<open>The confined write\<close>

(* map: src/crates/caliban-common/src/fs.rs 17-30 umask_respecting_default *)
definition umask_respecting_default :: "u32 option \<Rightarrow> u32" where
  "umask_respecting_default probed =
     (case probed of Some mode \<Rightarrow> and 420 mode | None \<Rightarrow> 420)"

definition symlink_refused :: io_error where
  "symlink_refused = PermissionDenied ''write_atomic_within: refusing to traverse a symlinked path component''"

definition not_within :: "component list \<Rightarrow> component list \<Rightarrow> io_error" where
  "not_within path root =
     PermissionDenied (''write_atomic_within: '' @ path_text path @ '' is not within workspace root '' @ path_text root)"

definition escapes_root :: io_error where
  "escapes_root = PermissionDenied ''write_atomic_within: path escapes root after normalization''"

definition no_filename :: io_error where
  "no_filename = IoInvalidInput ''write_atomic_within: path has no filename (equals root)''"

text \<open>The components below the root: names only.\<close>

(* map: src/crates/caliban-common/src/fs.rs 190-204 write_atomic_within_with_mode *)
fun below_names :: "component list \<Rightarrow> (string list, io_error) result" where
  "below_names [] = Ok []"
| "below_names (Normal s # cs) = map_ok (Cons s) (below_names cs)"
| "below_names (CurDir # cs) = below_names cs"
| "below_names (_ # cs) = Err escapes_root"

definition is_link_error :: "errno \<Rightarrow> bool" where
  "is_link_error e \<longleftrightarrow> e = ELOOP \<or> e = ENOTDIR"

text \<open>One step of the walk: the directory is opened without following a link, or made first.\<close>

(* map: src/crates/caliban-common/src/fs.rs 231-245 write_atomic_within_with_mode *)
definition open_or_make :: "('fd, 'w) sys \<Rightarrow> 'fd \<Rightarrow> string \<Rightarrow> 'w \<Rightarrow> ('fd, io_error) result \<times> 'w" where
  "open_or_make sys dir seg w =
     (case sys_openat sys dir seg w of
        (Ok fd, w1) \<Rightarrow> (Ok fd, w1)
      | (Err e, w1) \<Rightarrow>
          if e = ENOENT
          then (case sys_mkdirat sys dir seg w1 of
                  (r, w2) \<Rightarrow>
                    if r = Ok () \<or> r = Err EEXIST
                    then (case sys_openat sys dir seg w2 of
                            (Ok fd, w3) \<Rightarrow> (Ok fd, w3)
                          | (Err e', w3) \<Rightarrow>
                              (Err (if is_link_error e' then symlink_refused else OsError e'), w3))
                    else (Err (case r of Err e' \<Rightarrow> OsError e'), w2))
          else (Err (if is_link_error e then symlink_refused else OsError e), w1))"

(* map: src/crates/caliban-common/src/fs.rs 228-247 write_atomic_within_with_mode *)
fun walk_dirs :: "('fd, 'w) sys \<Rightarrow> 'fd \<Rightarrow> string list \<Rightarrow> 'w \<Rightarrow> ('fd, io_error) result \<times> 'w" where
  "walk_dirs sys dir [] w = (Ok dir, w)"
| "walk_dirs sys dir (c # cs) w = and_then (open_or_make sys dir c w) (\<lambda>next. walk_dirs sys next cs)"

(* map: src/crates/caliban-common/src/fs.rs 249-261 write_atomic_within_with_mode *)
definition dest_mode :: "('fd, 'w) sys \<Rightarrow> 'fd \<Rightarrow> string \<Rightarrow> u32 option \<Rightarrow> 'w \<Rightarrow> u32 \<times> 'w" where
  "dest_mode sys dir filename mode w =
     (case mode of
        Some m \<Rightarrow> (and m 4095, w)
      | None \<Rightarrow>
          (case sys_statat sys dir filename w of
             (Ok (True, m), w') \<Rightarrow> (and m 4095, w')
           | (_, w') \<Rightarrow> (umask_respecting_default (sys_umask_probe sys), w')))"

definition tmp_name :: "nat \<Rightarrow> nat \<Rightarrow> string" where
  "tmp_name pid n = ''.caliban-tmp-'' @ nat_str pid @ ''-'' @ nat_str n"

(* map: src/crates/caliban-common/src/fs.rs 263-279 write_atomic_within_with_mode *)
function create_tmp ::
  "('fd, 'w) sys \<Rightarrow> 'fd \<Rightarrow> u32 \<Rightarrow> nat \<Rightarrow> 'w \<Rightarrow> (string \<times> 'fd, io_error) result \<times> 'w" where
  "create_tmp sys dir mode attempts w =
     (case sys_counter sys w of
        (n, w1) \<Rightarrow>
          (let name = tmp_name (sys_pid sys) n in
           case sys_create sys dir name mode w1 of
             (Ok fd, w2) \<Rightarrow> (Ok (name, fd), w2)
           | (Err e, w2) \<Rightarrow>
               if e = EEXIST \<and> attempts < 10000 then create_tmp sys dir mode (attempts + 1) w2
               else (Err (OsError e), w2)))"
  by pat_completeness auto

termination create_tmp
  by (relation "measure (\<lambda>(sys, dir, mode, attempts, w). 10000 - attempts)") auto

declare create_tmp.simps [simp del]

(* map: src/crates/caliban-common/src/fs.rs 281-297 write_atomic_within_with_mode *)
definition persist_tmp ::
  "('fd, 'w) sys \<Rightarrow> 'fd \<Rightarrow> string \<Rightarrow> string \<Rightarrow> 'fd \<Rightarrow> u32 \<Rightarrow> string \<Rightarrow> 'w \<Rightarrow> (unit, io_error) result \<times> 'w" where
  "persist_tmp sys dir filename tmp fd mode bytes w =
     (case os (and_then (sys_write_all sys fd bytes w) (\<lambda>_ w1.
            and_then (sys_fchmod sys fd mode w1) (\<lambda>_ w2.
            sys_renameat sys dir tmp filename w2))) of
        (Ok _, w') \<Rightarrow> (Ok (), w')
      | (Err e, w') \<Rightarrow> (Err e, snd (sys_unlinkat sys dir tmp w')))"

(* map: src/crates/caliban-common/src/fs.rs 163-297 write_atomic_within_with_mode *)
definition write_atomic_within_with_mode ::
  "('fd, 'w) sys \<Rightarrow> component list \<Rightarrow> component list \<Rightarrow> string \<Rightarrow> u32 option \<Rightarrow> 'w \<Rightarrow>
   (unit, io_error) result \<times> 'w" where
  "write_atomic_within_with_mode sys root path bytes mode w =
     (case strip_prefix root path of
        None \<Rightarrow> (Err (not_within path root), w)
      | Some rel \<Rightarrow>
          (case below_names rel of
             Err e \<Rightarrow> (Err e, w)
           | Ok comps \<Rightarrow>
               if comps = [] then (Err no_filename, w)
               else
                 and_then (os (sys_open_root sys root w)) (\<lambda>top w1.
                 and_then (walk_dirs sys top (butlast comps) w1) (\<lambda>dir w2.
                 (case dest_mode sys dir (last comps) mode w2 of
                    (bits, w3) \<Rightarrow>
                      and_then (create_tmp sys dir bits 0 w3) (\<lambda>(tmp, fd) w4.
                      persist_tmp sys dir (last comps) tmp fd bits bytes w4))))))"

(* map: src/crates/caliban-common/src/fs.rs 146-148 write_atomic_within *)
definition write_atomic_within ::
  "('fd, 'w) sys \<Rightarrow> component list \<Rightarrow> component list \<Rightarrow> string \<Rightarrow> 'w \<Rightarrow> (unit, io_error) result \<times> 'w" where
  "write_atomic_within sys root path bytes w = write_atomic_within_with_mode sys root path bytes None w"

section \<open>The ordinary write\<close>

text \<open>
  What \<open>write_atomic\<close> uses of \<open>std::fs\<close> and \<open>tempfile\<close>; a temporary file is known
  by its path, and is removed when it is dropped without having been persisted.
\<close>

record 'w std_fs =
  sd_is_symlink :: "component list \<Rightarrow> 'w \<Rightarrow> bool"
  sd_canonicalize :: "'w \<Rightarrow> canonicalize"
  sd_create_dir_all :: "component list \<Rightarrow> 'w \<Rightarrow> (unit, errno) result \<times> 'w"
  sd_tempfile_in :: "component list \<Rightarrow> 'w \<Rightarrow> (component list, errno) result \<times> 'w"
  sd_write_all :: "component list \<Rightarrow> string \<Rightarrow> 'w \<Rightarrow> (unit, errno) result \<times> 'w"
  sd_mode :: "component list \<Rightarrow> 'w \<Rightarrow> u32 option"
  sd_set_mode :: "component list \<Rightarrow> u32 \<Rightarrow> 'w \<Rightarrow> (unit, errno) result \<times> 'w"
  sd_persist :: "component list \<Rightarrow> component list \<Rightarrow> 'w \<Rightarrow> (unit, errno) result \<times> 'w"
  sd_drop :: "component list \<Rightarrow> 'w \<Rightarrow> 'w"
  sd_umask_probe :: "u32 option"

definition path_parent :: "component list \<Rightarrow> component list option" where
  "path_parent p = (if p = [] \<or> last p = RootDir then None else Some (butlast p))"

(* map: src/crates/caliban-common/src/fs.rs 42-96 write_atomic *)
definition write_atomic ::
  "'w std_fs \<Rightarrow> component list \<Rightarrow> string \<Rightarrow> 'w \<Rightarrow> (unit, io_error) result \<times> 'w" where
  "write_atomic sd path bytes w =
     (let dest = (if sd_is_symlink sd path w then unwrap_or path (sd_canonicalize sd w path) else path) in
      case path_parent dest of
        None \<Rightarrow> (Err (IoInvalidInput ''write_atomic: path has no parent directory''), w)
      | Some parent \<Rightarrow>
          os (and_then (if parent \<noteq> [] then sd_create_dir_all sd parent w else (Ok (), w)) (\<lambda>_ w1.
              and_then (sd_tempfile_in sd (if parent = [] then [CurDir] else parent) w1) (\<lambda>tmp w2.
                (case and_then (sd_write_all sd tmp bytes w2) (\<lambda>_ w3.
                      and_then (sd_set_mode sd tmp
                          (case sd_mode sd dest w3 of
                             Some m \<Rightarrow> and m 4095
                           | None \<Rightarrow> umask_respecting_default (sd_umask_probe sd)) w3)
                        (\<lambda>_ w4. sd_persist sd tmp dest w4)) of
                   (Ok _, w') \<Rightarrow> (Ok (), w')
                 | (Err e, w') \<Rightarrow> (Err e, sd_drop sd tmp w'))))))"

(* map: src/crates/caliban-common/src/fs.rs 106-119 write_atomic_with_mode *)
definition write_atomic_with_mode ::
  "'w std_fs \<Rightarrow> component list \<Rightarrow> string \<Rightarrow> u32 \<Rightarrow> 'w \<Rightarrow> (unit, io_error) result \<times> 'w" where
  "write_atomic_with_mode sd path bytes mode w =
     and_then (write_atomic sd path bytes w) (\<lambda>_ w1. os (sd_set_mode sd path mode w1))"

(* map: src/crates/caliban-tools-builtin/src/workspace.rs 117-123 WorkspaceRoot::atomic_write *)
definition atomic_write ::
  "('fd, 'w) sys \<Rightarrow> 'w std_fs \<Rightarrow> workspace \<Rightarrow> component list \<Rightarrow> string \<Rightarrow> 'w \<Rightarrow>
   (unit, io_error) result \<times> 'w" where
  "atomic_write sys sd ws resolved bytes w =
     (if ws_restrict_to_root ws then write_atomic_within sys (ws_root ws) resolved bytes w
      else write_atomic sd resolved bytes w)"

section \<open>Confinement\<close>

text \<open>
  A directory that was opened entry by entry from the root, each with the flag that refuses
  links, in whatever world the call found.
\<close>

inductive opened_below :: "('fd, 'w) sys \<Rightarrow> component list \<Rightarrow> 'fd \<Rightarrow> bool" for sys root where
  top: "fst (sys_open_root sys root w) = Ok fd \<Longrightarrow> opened_below sys root fd"
| down: "opened_below sys root d \<Longrightarrow> entry_name c \<Longrightarrow> fst (sys_openat sys d c w) = Ok fd \<Longrightarrow>
    opened_below sys root fd"

text \<open>A file that was created in such a directory.\<close>

definition created_below :: "('fd, 'w) sys \<Rightarrow> component list \<Rightarrow> 'fd \<Rightarrow> bool" where
  "created_below sys root fd \<longleftrightarrow>
     (\<exists>d c m w. opened_below sys root d \<and> entry_name c \<and> fst (sys_create sys d c m w) = Ok fd)"

lemma nat_str_no_slash: "CHR ''/'' \<notin> set (nat_str n)"
proof (induction n rule: nat_str.induct)
  case (1 n)
  have "CHR ''/'' \<noteq> char_of (48 + k)" if "k < 10" for k :: nat
  proof
    assume "CHR ''/'' = char_of (48 + k)"
    then have "(of_char (CHR ''/'') :: nat) = of_char (char_of (48 + k) :: char)" by simp
    then show False using that by simp
  qed
  then show ?case using 1 by (subst nat_str.simps) simp
qed

lemma entry_name_tmp [simp]: "entry_name (tmp_name pid n)"
  by (simp add: entry_name_def tmp_name_def nat_str_no_slash)

text \<open>
  The contract: what every call keeps when it is made on such a directory with a name of an
  entry, or on such a file, every confined write keeps.
\<close>

locale confined_calls =
  fixes sys :: "('fd, 'w) sys" and root :: "component list" and Q :: "'w \<Rightarrow> bool"
  assumes open_root: "Q w \<Longrightarrow> Q (snd (sys_open_root sys root w))"
    and openat: "opened_below sys root d \<Longrightarrow> entry_name c \<Longrightarrow> Q w \<Longrightarrow> Q (snd (sys_openat sys d c w))"
    and mkdirat: "opened_below sys root d \<Longrightarrow> entry_name c \<Longrightarrow> Q w \<Longrightarrow> Q (snd (sys_mkdirat sys d c w))"
    and statat: "opened_below sys root d \<Longrightarrow> entry_name c \<Longrightarrow> Q w \<Longrightarrow> Q (snd (sys_statat sys d c w))"
    and create: "opened_below sys root d \<Longrightarrow> entry_name c \<Longrightarrow> Q w \<Longrightarrow> Q (snd (sys_create sys d c m w))"
    and write_all: "created_below sys root fd \<Longrightarrow> Q w \<Longrightarrow> Q (snd (sys_write_all sys fd bytes w))"
    and fchmod: "created_below sys root fd \<Longrightarrow> Q w \<Longrightarrow> Q (snd (sys_fchmod sys fd m w))"
    and renameat: "opened_below sys root d \<Longrightarrow> entry_name a \<Longrightarrow> entry_name b \<Longrightarrow> Q w \<Longrightarrow>
      Q (snd (sys_renameat sys d a b w))"
    and unlinkat: "opened_below sys root d \<Longrightarrow> entry_name a \<Longrightarrow> Q w \<Longrightarrow> Q (snd (sys_unlinkat sys d a w))"
    and counter: "Q w \<Longrightarrow> Q (snd (sys_counter sys w))"
begin

lemma openatD:
  assumes "opened_below sys root d" "entry_name c" "Q w" "sys_openat sys d c w = (r, w')"
  shows "Q w'" "r = Ok fd \<Longrightarrow> opened_below sys root fd"
  using openat [OF assms(1-3)] opened_below.down [OF assms(1,2), of w fd] assms(4) by simp_all

lemma mkdiratD:
  "opened_below sys root d \<Longrightarrow> entry_name c \<Longrightarrow> Q w \<Longrightarrow> sys_mkdirat sys d c w = (r, w') \<Longrightarrow> Q w'"
  using mkdirat [of d c w] by simp

lemma open_or_make_keeps:
  "opened_below sys root d \<Longrightarrow> entry_name c \<Longrightarrow> Q w \<Longrightarrow>
   Q (snd (open_or_make sys d c w)) \<and> (\<forall>fd. fst (open_or_make sys d c w) = Ok fd \<longrightarrow> opened_below sys root fd)"
  by (auto simp: open_or_make_def split: prod.splits result.splits
      dest: openatD(1) mkdiratD intro: openatD(2))

lemma walk_dirs_keeps:
  "opened_below sys root d \<Longrightarrow> list_all entry_name cs \<Longrightarrow> Q w \<Longrightarrow>
   Q (snd (walk_dirs sys d cs w)) \<and> (\<forall>fd. fst (walk_dirs sys d cs w) = Ok fd \<longrightarrow> opened_below sys root fd)"
proof (induction cs arbitrary: d w)
  case (Cons c cs)
  obtain r w' where o: "open_or_make sys d c w = (r, w')" by fastforce
  show ?case
  proof (cases r)
    case (Ok fd)
    then have "opened_below sys root fd" "Q w'" using open_or_make_keeps [of d c w] Cons.prems o by simp_all
    then show ?thesis using Cons.IH [of fd w'] Cons.prems o Ok by (simp add: and_then_def)
  next
    case (Err e)
    then show ?thesis using open_or_make_keeps [of d c w] Cons.prems o by (simp add: and_then_def)
  qed
qed simp

lemma dest_mode_keeps:
  "opened_below sys root d \<Longrightarrow> entry_name c \<Longrightarrow> Q w \<Longrightarrow> Q (snd (dest_mode sys d c mode w))"
  using statat [of d c w]
  by (auto simp: dest_mode_def split: option.splits prod.splits result.splits bool.splits)

lemma create_tmp_keeps:
  "opened_below sys root d \<Longrightarrow> Q w \<Longrightarrow>
   Q (snd (create_tmp sys d m attempts w)) \<and>
   (\<forall>tmp fd. fst (create_tmp sys d m attempts w) = Ok (tmp, fd) \<longrightarrow> entry_name tmp \<and> created_below sys root fd)"
proof (induction "10000 - attempts" arbitrary: attempts w rule: less_induct)
  case less
  obtain n w1 where n: "sys_counter sys w = (n, w1)" by fastforce
  define name where "name = tmp_name (sys_pid sys) n"
  obtain r w2 where r: "sys_create sys d name m w1 = (r, w2)" by fastforce
  have w1: "Q w1" using counter [OF less.prems(2)] n by simp
  have name: "entry_name name" by (simp add: name_def)
  have w2: "Q w2" using create [OF less.prems(1) name w1, of m] r by simp
  note step = create_tmp.simps [of sys d m attempts w, unfolded n prod.case Let_def, folded name_def,
      unfolded r prod.case]
  show ?case
  proof (cases r)
    case (Ok fd)
    then have "created_below sys root fd" unfolding created_below_def using less.prems(1) name r by (metis fst_conv)
    then show ?thesis using Ok w2 name by (simp add: step)
  next
    case (Err e)
    show ?thesis
    proof (cases "e = EEXIST \<and> attempts < 10000")
      case True
      then have "10000 - (attempts + 1) < 10000 - attempts" by (elim conjE) (rule diff_less_mono2, simp_all)
      then show ?thesis using less.hyps [OF _ less.prems(1) w2, of "attempts + 1"] True by (simp add: step Err)
    next
      case False
      then show ?thesis using w2 by (auto simp: step Err)
    qed
  qed
qed

lemma persist_tmp_keeps:
  assumes "opened_below sys root d" "entry_name tmp" "entry_name filename" "created_below sys root fd" "Q w"
  shows "Q (snd (persist_tmp sys d filename tmp fd m bytes w))"
proof -
  note calls = write_all [OF assms(4)] fchmod [OF assms(4)] renameat [OF assms(1-3)] unlinkat [OF assms(1,2)]
  have "Q (snd (and_then (sys_write_all sys fd bytes w) (\<lambda>_ w1. and_then (sys_fchmod sys fd m w1)
      (\<lambda>_ w2. sys_renameat sys d tmp filename w2))))" (is "Q (snd ?r)")
    by (intro and_then_keeps [where Q = Q] calls(1-3) assms(5))
  then show ?thesis
    using calls(4) [of "snd ?r"] unfolding persist_tmp_def
    by (cases ?r; cases "fst ?r") (simp_all add: os_def)
qed

lemma write_keeps:
  assumes "map_ok (list_all entry_name) (below_names rel) \<noteq> Ok False" "Q w"
  shows "Q (snd (write_atomic_within_with_mode sys root (root @ rel) bytes mode w))"
proof (cases "\<exists>comps. below_names rel = Ok comps \<and> comps \<noteq> []")
  case True
  then obtain comps where comps: "below_names rel = Ok comps" "comps \<noteq> []" by blast
  then have names: "list_all entry_name (butlast comps)" "entry_name (last comps)"
    using assms(1) by (auto simp: list_all_iff in_set_butlastD)
  have top: "Q (snd (os (sys_open_root sys root w)))" using open_root [OF assms(2)] by simp
  have created: "Q (snd (and_then (create_tmp sys d bits 0 w3)
      (\<lambda>(tmp, fd) w4. persist_tmp sys d (last comps) tmp fd bits bytes w4)))"
    if "opened_below sys root d" "Q w3" for d bits w3
    using create_tmp_keeps [OF that, of bits 0] persist_tmp_keeps [OF that(1) _ names(2)]
    by (intro and_then_keeps [where Q = Q]) auto
  have "Q (snd (case dest_mode sys d (last comps) mode w2 of
      (bits, w3) \<Rightarrow> and_then (create_tmp sys d bits 0 w3)
        (\<lambda>(tmp, fd) w4. persist_tmp sys d (last comps) tmp fd bits bytes w4)))"
    if "opened_below sys root d" "Q w2" for d w2
    using created [OF that(1)] dest_mode_keeps [OF that(1) names(2) that(2), of mode]
    by (cases "dest_mode sys d (last comps) mode w2") simp
  then have "Q (snd (and_then (walk_dirs sys top (butlast comps) w1) (\<lambda>d w2.
      case dest_mode sys d (last comps) mode w2 of
        (bits, w3) \<Rightarrow> and_then (create_tmp sys d bits 0 w3)
          (\<lambda>(tmp, fd) w4. persist_tmp sys d (last comps) tmp fd bits bytes w4))))"
    if "opened_below sys root top" "Q w1" for top w1
    using walk_dirs_keeps [OF that(1) names(1) that(2)] by (intro and_then_keeps [where Q = Q]) auto
  then have "Q (snd (and_then (os (sys_open_root sys root w)) (\<lambda>top w1.
      and_then (walk_dirs sys top (butlast comps) w1) (\<lambda>d w2.
        case dest_mode sys d (last comps) mode w2 of
          (bits, w3) \<Rightarrow> and_then (create_tmp sys d bits 0 w3)
            (\<lambda>(tmp, fd) w4. persist_tmp sys d (last comps) tmp fd bits bytes w4)))))"
    by (rule and_then_keeps [where Q = Q, OF top]) (use top opened_below.top [of sys root w] in simp)
  moreover have "strip_prefix root (root @ rel) = Some rel" by (simp add: strip_prefix_Some)
  ultimately show ?thesis
    using comps unfolding write_atomic_within_with_mode_def by simp
next
  case False
  then show ?thesis
    using assms(2) unfolding write_atomic_within_with_mode_def
    by (auto simp: strip_prefix_Some split: option.splits result.splits)
qed

end

section \<open>The effects of a write\<close>

text \<open>What changes a file system, with the outcome of the call.\<close>

datatype 'fd effect =
    MakeDir 'fd string bool
  | CreateFile 'fd string bool
  | WriteBytes 'fd string bool
  | SetMode 'fd u32 bool
  | Rename 'fd string string bool
  | Unlink 'fd string bool

definition logged ::
  "(bool \<Rightarrow> 'fd effect) \<Rightarrow> ('w \<Rightarrow> ('a, errno) result \<times> 'w) \<Rightarrow> 'w \<times> 'fd effect list \<Rightarrow>
   ('a, errno) result \<times> 'w \<times> 'fd effect list" where
  "logged e f = (\<lambda>(w, log). case f w of (r, w') \<Rightarrow> (r, w', log @ [e (is_ok r)]))"

definition unlogged :: "('w \<Rightarrow> 'a \<times> 'w) \<Rightarrow> 'w \<times> 'l \<Rightarrow> 'a \<times> 'w \<times> 'l" where
  "unlogged f = (\<lambda>(w, log). case f w of (r, w') \<Rightarrow> (r, w', log))"

text \<open>The same system, with a log of the effects beside its world.\<close>

definition traced :: "('fd, 'w) sys \<Rightarrow> ('fd, 'w \<times> 'fd effect list) sys" where
  "traced sys =
     \<lparr>sys_open_root = \<lambda>root. unlogged (sys_open_root sys root),
      sys_openat = \<lambda>d c. unlogged (sys_openat sys d c),
      sys_mkdirat = \<lambda>d c. logged (MakeDir d c) (sys_mkdirat sys d c),
      sys_statat = \<lambda>d c. unlogged (sys_statat sys d c),
      sys_create = \<lambda>d c m. logged (CreateFile d c) (sys_create sys d c m),
      sys_write_all = \<lambda>fd bytes. logged (WriteBytes fd bytes) (sys_write_all sys fd bytes),
      sys_fchmod = \<lambda>fd m. logged (SetMode fd m) (sys_fchmod sys fd m),
      sys_renameat = \<lambda>d a b. logged (Rename d a b) (sys_renameat sys d a b),
      sys_unlinkat = \<lambda>d a. logged (Unlink d a) (sys_unlinkat sys d a),
      sys_counter = unlogged (sys_counter sys),
      sys_pid = sys_pid sys,
      sys_umask_probe = sys_umask_probe sys\<rparr>"

lemma traced_simps [simp]:
  "sys_open_root (traced sys) r = unlogged (sys_open_root sys r)"
  "sys_openat (traced sys) d c = unlogged (sys_openat sys d c)"
  "sys_mkdirat (traced sys) d c = logged (MakeDir d c) (sys_mkdirat sys d c)"
  "sys_statat (traced sys) d c = unlogged (sys_statat sys d c)"
  "sys_create (traced sys) d c m = logged (CreateFile d c) (sys_create sys d c m)"
  "sys_write_all (traced sys) fd bytes = logged (WriteBytes fd bytes) (sys_write_all sys fd bytes)"
  "sys_fchmod (traced sys) fd m = logged (SetMode fd m) (sys_fchmod sys fd m)"
  "sys_renameat (traced sys) d a b = logged (Rename d a b) (sys_renameat sys d a b)"
  "sys_unlinkat (traced sys) d a = logged (Unlink d a) (sys_unlinkat sys d a)"
  "sys_counter (traced sys) = unlogged (sys_counter sys)"
  "sys_pid (traced sys) = sys_pid sys"
  "sys_umask_probe (traced sys) = sys_umask_probe sys"
  by (simp_all add: traced_def)

fun confined_effect :: "('fd, 'w) sys \<Rightarrow> component list \<Rightarrow> 'fd effect \<Rightarrow> bool" where
  "confined_effect sys root (MakeDir d c _) = (opened_below sys root d \<and> entry_name c)"
| "confined_effect sys root (CreateFile d c _) = (opened_below sys root d \<and> entry_name c)"
| "confined_effect sys root (WriteBytes fd _ _) = created_below sys root fd"
| "confined_effect sys root (SetMode fd _ _) = created_below sys root fd"
| "confined_effect sys root (Rename d a b _) = (opened_below sys root d \<and> entry_name a \<and> entry_name b)"
| "confined_effect sys root (Unlink d a _) = (opened_below sys root d \<and> entry_name a)"

lemma fst_traced [simp]:
  "fst (unlogged f wl) = fst (f (fst wl))" "fst (logged e g wl) = fst (g (fst wl))"
  by (simp_all add: unlogged_def logged_def split: prod.splits)

lemma log_traced [simp]:
  "snd (snd (unlogged f wl)) = snd wl"
  "snd (snd (logged e g wl)) = snd wl @ [e (is_ok (fst (g (fst wl))))]"
  by (simp_all add: unlogged_def logged_def split: prod.splits)

lemma opened_below_traced: "opened_below (traced sys) root fd \<Longrightarrow> opened_below sys root fd"
proof (induction rule: opened_below.induct)
  case (top w fd)
  then have "fst (sys_open_root sys root (fst w)) = Ok fd" by simp
  then show ?case by (rule opened_below.top)
next
  case (down d c w fd)
  from down.hyps(3) have "fst (sys_openat sys d c (fst w)) = Ok fd" by simp
  then show ?case by (rule opened_below.down [OF down.IH down.hyps(2)])
qed

lemma created_below_traced:
  assumes "created_below (traced sys) root fd"
  shows "created_below sys root fd"
proof -
  obtain d c m w where "opened_below (traced sys) root d" "entry_name c" "fst (sys_create (traced sys) d c m w) = Ok fd"
    using assms unfolding created_below_def by blast
  then have "opened_below sys root d" "fst (sys_create sys d c m (fst w)) = Ok fd"
    using opened_below_traced by simp_all
  then show ?thesis unfolding created_below_def using \<open>entry_name c\<close> by blast
qed

text \<open>The contract holds of the log: every call adds only an effect that is confined.\<close>

interpretation traced_calls:
  confined_calls "traced sys" root "\<lambda>wl. list_all (confined_effect sys root) (snd wl)"
  for sys :: "('fd, 'w) sys" and root
  using opened_below_traced [of sys root] created_below_traced [of sys root]
  by unfold_locales simp_all

lemma below_names_entries: "proper rel \<Longrightarrow> below_names rel = Ok comps \<Longrightarrow> list_all entry_name comps"
  by (induction rel arbitrary: comps rule: below_names.induct) auto

lemma confined_below:
  assumes "proper path"
  shows "list_all (confined_effect sys root)
    (snd (snd (write_atomic_within_with_mode (traced sys) root path bytes mode (w, []))))"
proof (cases "strip_prefix root path")
  case None
  then show ?thesis by (simp add: write_atomic_within_with_mode_def)
next
  case (Some rel)
  then have path: "path = root @ rel" by (simp add: strip_prefix_Some)
  then have "map_ok (list_all entry_name) (below_names rel) \<noteq> Ok False"
    using assms below_names_entries [of rel] by auto
  then show ?thesis unfolding path by (rule traced_calls.write_keeps) simp
qed

text \<open>
  (C9) Whatever the system answers and whatever other processes do between the calls, every
  directory made, file created, replaced or removed by a confined write is an entry, named
  without dots or slashes, of a directory that was opened from the root without following a
  link, and only files so created are written to.
\<close>

theorem confined_write_stays_below:
  assumes "proper path"
  shows "list_all (confined_effect sys root)
    (snd (snd (write_atomic_within_with_mode (traced sys) root path bytes mode (w, []))))"
  by (rule confined_below [OF assms])

fun makes_dir :: "'fd effect \<Rightarrow> bool" where
  "makes_dir (MakeDir _ _ _) = True"
| "makes_dir _ = False"

fun failed_create :: "'fd effect \<Rightarrow> bool" where
  "failed_create (CreateFile _ _ False) = True"
| "failed_create _ = False"

fun replaces :: "'fd effect \<Rightarrow> bool" where
  "replaces (Rename _ _ _ True) = True"
| "replaces _ = False"

lemma open_or_make_log:
  "\<exists>ms. snd (snd (open_or_make (traced sys) d c wl)) = snd wl @ ms \<and> list_all makes_dir ms"
proof -
  obtain r w1 where o: "sys_openat sys d c (fst wl) = (r, w1)" by fastforce
  obtain m w2 where m: "sys_mkdirat sys d c w1 = (m, w2)" by fastforce
  obtain q w3 where q: "sys_openat sys d c w2 = (q, w3)" by fastforce
  show ?thesis
    using o m q
    by (auto simp: open_or_make_def unlogged_def logged_def split_beta split: result.splits)
qed

lemma walk_dirs_log: "\<exists>ms. snd (snd (walk_dirs (traced sys) d cs wl)) = snd wl @ ms \<and> list_all makes_dir ms"
proof (induction cs arbitrary: d wl)
  case (Cons c cs)
  obtain r wl' where o: "open_or_make (traced sys) d c wl = (r, wl')" by (rule prod.exhaust)
  then obtain ms where ms: "snd wl' = snd wl @ ms" "list_all makes_dir ms"
    using open_or_make_log [of sys d c wl] by auto
  show ?case
  proof (cases r)
    case (Ok fd)
    obtain ms' where "snd (snd (walk_dirs (traced sys) fd cs wl')) = snd wl' @ ms'" "list_all makes_dir ms'"
      using Cons.IH by blast
    then show ?thesis using o Ok ms by (simp add: and_then_def)
  next
    case (Err e)
    then show ?thesis using o ms by (simp add: and_then_def)
  qed
qed simp

lemma dest_mode_log: "snd (snd (dest_mode (traced sys) d c mode wl)) = snd wl"
  by (auto simp: dest_mode_def unlogged_def split_beta split: option.splits result.splits prod.splits bool.splits)

lemma create_tmp_log:
  "\<exists>fs. list_all failed_create fs \<and>
     snd (snd (create_tmp (traced sys) d m attempts wl)) =
       snd wl @ fs @ (case fst (create_tmp (traced sys) d m attempts wl) of
                        Ok p \<Rightarrow> [CreateFile d (fst p) True] | Err _ \<Rightarrow> [])"
proof (induction "10000 - attempts" arbitrary: attempts wl rule: less_induct)
  case less
  obtain w l where wl: "wl = (w, l)" by (rule prod.exhaust)
  obtain n w1 where n: "sys_counter sys w = (n, w1)" by (rule prod.exhaust)
  define name where "name = tmp_name (sys_pid sys) n"
  obtain r w2 where r: "sys_create sys d name m w1 = (r, w2)" by (rule prod.exhaust)
  have n': "sys_counter (traced sys) (w, l) = (n, w1, l)" by (simp add: unlogged_def n)
  have r': "sys_create (traced sys) d name m (w1, l) = (r, w2, l @ [CreateFile d name (is_ok r)])"
    by (simp add: logged_def r)
  have pid: "name = tmp_name (sys_pid (traced sys)) n" by (simp add: name_def)
  note step = create_tmp.simps [of "traced sys" d m attempts "(w, l)", unfolded n' prod.case Let_def, folded pid,
      unfolded r' prod.case]
  show ?case
  proof (cases r)
    case (Ok fd)
    then show ?thesis by (intro exI [of _ "[]"]) (simp add: step wl)
  next
    case (Err e)
    show ?thesis
    proof (cases "e = EEXIST \<and> attempts < 10000")
      case True
      then have "10000 - (attempts + 1) < 10000 - attempts" by (elim conjE) (rule diff_less_mono2, simp_all)
      from less.hyps [OF this, of "(w2, l @ [CreateFile d name False])"] obtain fs where
        "list_all failed_create fs"
        "snd (snd (create_tmp (traced sys) d m (attempts + 1) (w2, l @ [CreateFile d name False]))) =
          (l @ [CreateFile d name False]) @ fs @
          (case fst (create_tmp (traced sys) d m (attempts + 1) (w2, l @ [CreateFile d name False])) of
             Ok p \<Rightarrow> [CreateFile d (fst p) True] | Err _ \<Rightarrow> [])"
        by auto
      then show ?thesis
        using True by (intro exI [of _ "CreateFile d name False # fs"]) (simp add: step Err wl)
    next
      case False
      then show ?thesis by (intro exI [of _ "[CreateFile d name False]"]) (auto simp: step Err wl)
    qed
  qed
qed

text \<open>A file that took the place of another was written in full before; a failure replaces nothing.\<close>

definition persisted_log :: "'fd \<Rightarrow> string \<Rightarrow> string \<Rightarrow> 'fd \<Rightarrow> u32 \<Rightarrow> string \<Rightarrow> bool \<Rightarrow> 'fd effect list \<Rightarrow> bool" where
  "persisted_log d filename tmp fd m bytes ok es \<longleftrightarrow>
     (if ok then es = [WriteBytes fd bytes True, SetMode fd m True, Rename d tmp filename True]
      else \<not> list_ex replaces es \<and> (\<forall>d c b. CreateFile d c b \<notin> set es) \<and> es \<noteq> [] \<and>
        (\<exists>b. last es = Unlink d tmp b))"

lemma persist_tmp_log:
  "\<exists>es. snd (snd (persist_tmp (traced sys) d filename tmp fd m bytes wl)) = snd wl @ es \<and>
     persisted_log d filename tmp fd m bytes (is_ok (fst (persist_tmp (traced sys) d filename tmp fd m bytes wl))) es"
proof -
  obtain w l where wl: "wl = (w, l)" by (rule prod.exhaust)
  obtain r1 w1 where r1: "sys_write_all sys fd bytes w = (r1, w1)" by (rule prod.exhaust)
  obtain r2 w2 where r2: "sys_fchmod sys fd m w1 = (r2, w2)" by (rule prod.exhaust)
  obtain r3 w3 where r3: "sys_renameat sys d tmp filename w2 = (r3, w3)" by (rule prod.exhaust)
  show ?thesis
    by (cases r1; cases r2; cases r3)
      (simp_all add: persist_tmp_def and_then_def os_def wl logged_def r1 r2 r3 persisted_log_def split_beta)
qed

lemma prepares_no_replace:
  "list_all makes_dir es \<Longrightarrow> \<not> list_ex replaces es" "list_all failed_create es \<Longrightarrow> \<not> list_ex replaces es"
  by (induction es) (auto elim!: makes_dir.elims failed_create.elims)

definition prepares :: "'fd effect \<Rightarrow> bool" where
  "prepares e \<longleftrightarrow> makes_dir e \<or> failed_create e"

definition all_or_nothing :: "string \<Rightarrow> string \<Rightarrow> bool \<Rightarrow> 'fd effect list \<Rightarrow> bool" where
  "all_or_nothing filename bytes ok es \<longleftrightarrow>
     (if ok
      then (\<exists>pre d tmp fd m. list_all prepares pre \<and>
              es = pre @ [CreateFile d tmp True, WriteBytes fd bytes True, SetMode fd m True, Rename d tmp filename True])
      else \<not> list_ex replaces es \<and>
           (\<forall>d tmp. CreateFile d tmp True \<in> set es \<longrightarrow> (\<exists>b. last es = Unlink d tmp b)))"

lemma all_or_nothing_prepared:
  assumes "list_all makes_dir ms" "list_all failed_create fs"
  shows "all_or_nothing filename bytes False (ms @ fs)"
    and "persisted_log d filename tmp fd m bytes ok es \<Longrightarrow>
      all_or_nothing filename bytes ok (ms @ fs @ CreateFile d tmp True # es)"
proof -
  have pre: "list_all prepares (ms @ fs)" using assms by (auto simp: prepares_def list_all_iff)
  have none: "\<not> list_ex replaces (ms @ fs)" using prepares_no_replace assms by fastforce
  have made: "CreateFile d' t True \<notin> set (ms @ fs)" for d' t
    using pre by (auto simp: list_all_iff prepares_def dest!: bspec [of _ _ "CreateFile d' t True"])
  show "all_or_nothing filename bytes False (ms @ fs)"
    using none made by (simp add: all_or_nothing_def)
  show "all_or_nothing filename bytes ok (ms @ fs @ CreateFile d tmp True # es)"
    if "persisted_log d filename tmp fd m bytes ok es"
  proof (cases ok)
    case True
    then show ?thesis
      using that pre unfolding all_or_nothing_def persisted_log_def
      by (auto intro!: exI [of _ "ms @ fs"])
  next
    case False
    then show ?thesis
      using that none made unfolding all_or_nothing_def persisted_log_def by auto
  qed
qed

lemma create_and_persist_log:
  "\<exists>fs es. list_all failed_create fs \<and>
     (let r = and_then (create_tmp (traced sys) d m 0 wl)
                (\<lambda>(tmp, fd) wl'. persist_tmp (traced sys) d filename tmp fd m bytes wl')
      in snd (snd r) = snd wl @ fs @ es \<and>
         (\<forall>ms. list_all makes_dir ms \<longrightarrow> all_or_nothing filename bytes (is_ok (fst r)) (ms @ fs @ es)))"
proof -
  obtain r wl' where c: "create_tmp (traced sys) d m 0 wl = (r, wl')" by (rule prod.exhaust)
  obtain fs where fs: "list_all failed_create fs" "snd wl' = snd wl @ fs @
      (case r of Ok p \<Rightarrow> [CreateFile d (fst p) True] | Err _ \<Rightarrow> [])"
    using create_tmp_log [of sys d m 0 wl] c by auto
  show ?thesis
  proof (cases r)
    case (Err e)
    show ?thesis
      by (rule exI [of _ fs], rule exI [of _ "[]"]) (use Err c fs all_or_nothing_prepared(1) in \<open>auto simp: and_then_def\<close>)
  next
    case (Ok p)
    obtain tmp fd where p: "p = (tmp, fd)" by (rule prod.exhaust)
    obtain es where es: "snd (snd (persist_tmp (traced sys) d filename tmp fd m bytes wl')) = snd wl' @ es"
      "persisted_log d filename tmp fd m bytes (is_ok (fst (persist_tmp (traced sys) d filename tmp fd m bytes wl'))) es"
      using persist_tmp_log [of sys d filename tmp fd m bytes wl'] by auto
    show ?thesis
      by (rule exI [of _ fs], rule exI [of _ "CreateFile d tmp True # es"])
        (use c fs Ok p es(1) all_or_nothing_prepared(2) [OF _ fs(1) es(2)] in \<open>auto simp: and_then_def\<close>)
  qed
qed

text \<open>\<open>Path::file_name\<close> of a path of names.\<close>

fun entry_names :: "component list \<Rightarrow> string list" where
  "entry_names [] = []"
| "entry_names (Normal s # cs) = s # entry_names cs"
| "entry_names (_ # cs) = entry_names cs"

lemma entry_names_append: "entry_names (a @ b) = entry_names a @ entry_names b"
  by (induction a rule: entry_names.induct) auto

lemma below_names_Ok: "below_names rel = Ok comps \<Longrightarrow> comps = entry_names rel"
  by (induction rel arbitrary: comps rule: below_names.induct) auto

lemma write_all_or_nothing:
  assumes "write_atomic_within_with_mode (traced sys) root path bytes mode (w, []) = (r, w', es)"
  shows "all_or_nothing (last (entry_names path)) bytes (is_ok r) es"
proof (cases "\<exists>rel comps. strip_prefix root path = Some rel \<and> below_names rel = Ok comps \<and> comps \<noteq> []")
  case False
  then have "es = [] \<and> \<not> is_ok r"
    using assms by (auto simp: write_atomic_within_with_mode_def split: option.splits result.splits if_splits)
  then show ?thesis by (simp add: all_or_nothing_def)
next
  case True
  then obtain rel comps where rel: "strip_prefix root path = Some rel" "below_names rel = Ok comps" "comps \<noteq> []"
    by blast
  have filename: "last (entry_names path) = last comps"
    using rel below_names_Ok by (auto simp: strip_prefix_Some entry_names_append)
  note body = write_atomic_within_with_mode_def [of "traced sys" root path bytes mode "(w, [])",
      unfolded rel(1) option.case rel(2) result.case if_not_P [OF rel(3)]]
  obtain top w1 where o: "sys_open_root sys root w = (top, w1)" by (rule prod.exhaust)
  show ?thesis
  proof (cases top)
    case (Err e)
    then have "es = [] \<and> \<not> is_ok r" using assms o by (auto simp: body and_then_def os_def unlogged_def)
    then show ?thesis by (simp add: all_or_nothing_def)
  next
    case (Ok fd)
    obtain dr wl2 where walk: "walk_dirs (traced sys) fd (butlast comps) (w1, []) = (dr, wl2)" by (rule prod.exhaust)
    obtain ms where ms: "snd wl2 = ms" "list_all makes_dir ms"
      using walk_dirs_log [of sys fd "butlast comps" "(w1, [])"] walk by auto
    show ?thesis
    proof (cases dr)
      case (Err e)
      then have "es = ms \<and> \<not> is_ok r"
        using assms o Ok walk ms by (auto simp: body and_then_def os_def unlogged_def)
      then show ?thesis using all_or_nothing_prepared(1) [OF ms(2), of "[]"] filename by simp
    next
      case (Ok dir)
      obtain bits wl3 where bits: "dest_mode (traced sys) dir (last comps) mode wl2 = (bits, wl3)"
        by (rule prod.exhaust)
      then have "snd wl3 = ms" using dest_mode_log [of sys dir "last comps" mode wl2] ms by simp
      then show ?thesis
        using create_and_persist_log [of sys dir bits wl3 "last comps" bytes] assms o \<open>top = Ok fd\<close> walk Ok bits ms
        by (auto simp: body and_then_def [of "(_, _)"] os_def unlogged_def filename Let_def)
    qed
  qed
qed

text \<open>
  (C10) A confined write is all or nothing. When it succeeds, the bytes were written in full to a new
  file and its mode set before the rename, the last effect and the only one that replaces
  anything. When it fails, nothing was replaced, and a temporary file that had been created
  was unlinked as the last effect.
\<close>

theorem confined_write_all_or_nothing:
  assumes "write_atomic_within_with_mode (traced sys) root path bytes mode (w, []) = (r, w', es)"
  shows "all_or_nothing (last (entry_names path)) bytes (is_ok r) es"
  by (rule write_all_or_nothing [OF assms])

text \<open>
  The fence and the write agree: a path that a restricted workspace resolves is never refused by
  the checks of the confined write on the path itself.
\<close>

theorem resolved_paths_are_writable:
  assumes "\<forall>q c. canon q = Some c \<longrightarrow> physical c" and "physical (ws_root ws)"
    and "ws_restrict_to_root ws" and "resolve canon home ws input = Ok p"
  shows "proper p \<and> (\<exists>rel names. strip_prefix (ws_root ws) p = Some rel \<and> below_names rel = Ok names \<and>
    list_all entry_name names \<and> (names = [] \<longleftrightarrow> p = ws_root ws))"
proof -
  obtain names where names: "p = ws_root ws @ map Normal names" "list_all entry_name names"
    using resolved_below(2) [OF assms] by blast
  have "proper p" using resolved_below(1) [OF assms] names_path_proper by (auto simp: physical_def)
  moreover have "below_names (map Normal names) = Ok names" by (induction names) auto
  moreover have "strip_prefix (ws_root ws) p = Some (map Normal names)" using names by (simp add: strip_prefix_Some)
  ultimately show ?thesis using names by auto
qed

section \<open>Witnesses\<close>

text \<open>A small file system: what is at each path; a descriptor is a path.\<close>

datatype node = Directory | File string u32 | Link

type_synonym small_fs = "(string list \<times> node) list"

definition small_sys :: "(string list, small_fs) sys" where
  "small_sys =
     \<lparr>sys_open_root = \<lambda>root w. (Ok (entry_names root), w),
      sys_openat = \<lambda>d c w.
        (case map_of w (d @ [c]) of
           None \<Rightarrow> Err ENOENT
         | Some Directory \<Rightarrow> Ok (d @ [c])
         | Some (File _ _) \<Rightarrow> Err ENOTDIR
         | Some Link \<Rightarrow> Err ELOOP, w),
      sys_mkdirat = \<lambda>d c w.
        if map_of w (d @ [c]) = None then (Ok (), AList.update (d @ [c]) Directory w) else (Err EEXIST, w),
      sys_statat = \<lambda>d c w.
        (case map_of w (d @ [c]) of
           None \<Rightarrow> Err ENOENT
         | Some (File _ m) \<Rightarrow> Ok (True, m)
         | Some _ \<Rightarrow> Ok (False, 511), w),
      sys_create = \<lambda>d c m w.
        if map_of w (d @ [c]) = None then (Ok (d @ [c]), AList.update (d @ [c]) (File [] m) w) else (Err EEXIST, w),
      sys_write_all = \<lambda>fd bytes w.
        (Ok (), AList.update fd (case map_of w fd of Some (File _ m) \<Rightarrow> File bytes m | _ \<Rightarrow> File bytes 0) w),
      sys_fchmod = \<lambda>fd m w.
        (Ok (), AList.update fd (case map_of w fd of Some (File b _) \<Rightarrow> File b m | _ \<Rightarrow> File [] m) w),
      sys_renameat = \<lambda>d a b w.
        (case map_of w (d @ [a]) of
           None \<Rightarrow> (Err ENOENT, w)
         | Some n \<Rightarrow> (Ok (), AList.update (d @ [b]) n (AList.delete (d @ [a]) w))),
      sys_unlinkat = \<lambda>d a w.
        if map_of w (d @ [a]) = None then (Err ENOENT, w) else (Ok (), AList.delete (d @ [a]) w),
      sys_counter = \<lambda>w. (length w, w),
      sys_pid = 7,
      sys_umask_probe = Some 384\<rparr>"

text \<open>A write makes the missing directory; one through a planted link is refused.\<close>

definition small_write :: "small_fs \<Rightarrow> string \<Rightarrow> (unit, io_error) result \<times> small_fs \<times> string list effect list" where
  "small_write w path =
     write_atomic_within_with_mode (traced small_sys) (components ''/w'') (components path) ''hi'' None (w, [])"

lemma small_write_runs:
  "small_write [([''w''], Directory)] ''/w/a/f'' =
     (Ok (), [([''w''], Directory), ([''w'', ''a''], Directory), ([''w'', ''a'', ''f''], File ''hi'' 384)],
      [MakeDir [''w''] ''a'' True, CreateFile [''w'', ''a''] ''.caliban-tmp-7-2'' True,
       WriteBytes [''w'', ''a'', ''.caliban-tmp-7-2''] ''hi'' True, SetMode [''w'', ''a'', ''.caliban-tmp-7-2''] 384 True,
       Rename [''w'', ''a''] ''.caliban-tmp-7-2'' ''f'' True])"
  "small_write [([''w''], Directory), ([''w'', ''a''], Link)] ''/w/a/f'' =
     (Err symlink_refused, [([''w''], Directory), ([''w'', ''a''], Link)], [])"
  by code_simp+

theorem confined_write_stays_below_witness:
  "list_all (confined_effect small_sys (components ''/w''))
    (snd (snd (small_write [([''w''], Directory)] ''/w/a/f'')))"
  unfolding small_write_def by (rule confined_write_stays_below) (rule proper_components)

theorem confined_write_all_or_nothing_witness:
  "all_or_nothing ''f'' ''hi'' True (snd (snd (small_write [([''w''], Directory)] ''/w/a/f''))) \<and>
   all_or_nothing ''f'' ''hi'' False (snd (snd (small_write [([''w''], Directory), ([''w'', ''a''], Link)] ''/w/a/f'')))"
proof -
  have f: "last (entry_names (components ''/w/a/f'')) = ''f''" by code_simp
  show ?thesis
    using confined_write_all_or_nothing [OF small_write_runs(1) [unfolded small_write_def]]
      confined_write_all_or_nothing [OF small_write_runs(2) [unfolded small_write_def]]
    by (simp add: f small_write_runs)
qed

text \<open>Beside the root there is a link out of it.\<close>

definition sample_canon :: canonicalize where
  "sample_canon p =
     (if p = components ''/w'' \<or> p = components ''/'' then Some p
      else if p = components ''/w/out'' then Some (components ''/etc'') else None)"

lemma sample_canon_physical: "\<forall>q c. sample_canon q = Some c \<longrightarrow> physical c"
proof -
  have "physical (components ''/w'')" "physical (components ''/'')" "physical (components ''/etc'')"
    by (simp_all add: components_def piece_component_def is_absolute_def starts_with_def entry_name_def
        List.map_filter_def Let_def)
  then show ?thesis by (auto simp: sample_canon_def split: if_splits)
qed

definition sample_ws :: workspace where
  "sample_ws = restricted (workspace_new sample_canon (components ''/w''))"

lemma sample_ws_ok: "physical (ws_root sample_ws)" "ws_restrict_to_root sample_ws"
proof -
  have "sample_canon (components ''/w'') = Some (components ''/w'')" by (simp add: sample_canon_def)
  then show "physical (ws_root sample_ws)"
    using sample_canon_physical by (simp add: sample_ws_def restricted_def workspace_new_def)
qed (simp add: sample_ws_def restricted_def)

lemma sample_ws_resolve:
  "resolve sample_canon None sample_ws ''a/../../w/b/new'' = Ok (components ''/w/b/new'')"
  "resolve sample_canon None sample_ws ''out/passwd'' =
     Err (InvalidInput ''path /etc/passwd is outside workspace root /w'')"
  by code_simp+

theorem resolve_is_fenced_witness:
  "\<exists>names. components ''/w/b/new'' = ws_root sample_ws @ map Normal names \<and> list_all entry_name names"
  by (rule resolve_is_fenced [OF sample_canon_physical sample_ws_ok sample_ws_resolve(1)])

theorem resolved_paths_are_writable_witness:
  "proper (components ''/w/b/new'') \<and>
   (\<exists>rel names. strip_prefix (ws_root sample_ws) (components ''/w/b/new'') = Some rel \<and> below_names rel = Ok names \<and>
    list_all entry_name names \<and> (names = [] \<longleftrightarrow> components ''/w/b/new'' = ws_root sample_ws))"
  by (rule resolved_paths_are_writable [OF sample_canon_physical sample_ws_ok sample_ws_resolve(1)])

end
