(* ===== verification/EditMatch.thy ===== *)
theory EditMatch
  imports Hooks
begin

text \<open>
  Locating the text of an edit in a file (\<open>fs/match_old.rs\<close>): verbatim, or line by line up
  to trailing white space and one uniform shift of the indentation, or else the closest window as
  feedback. \<^const>\<open>None\<close> is a panic: a slice of a string that cuts a character.
\<close>

section \<open>Strings\<close>

abbreviation LF :: char where "LF \<equiv> CHR 0x0A"
abbreviation CR :: char where "CR \<equiv> CHR 0x0D"

text \<open>\<open>text.match_indices(old)\<close>: disjoint occurrences from the left. The pattern is not empty.\<close>

function match_indices :: "string \<Rightarrow> nat \<Rightarrow> string \<Rightarrow> nat list" where
  "match_indices old off s =
     (if old = [] \<or> s = [] then []
      else
        (case strip_prefix old s of
           Some rest \<Rightarrow> off # match_indices old (off + length old) rest
         | None \<Rightarrow> match_indices old (off + 1) (tl s)))"
  by pat_completeness auto

termination match_indices
  by (relation "measure (\<lambda>(old, off, s). length s)") (auto simp: strip_prefix_Some)

declare match_indices.simps [simp del]

text \<open>\<open>str::lines\<close>.\<close>

definition strip_cr :: "string \<Rightarrow> string" where
  "strip_cr l = unwrap_or l (strip_suffix [CR] l)"

definition str_lines :: "string \<Rightarrow> string list" where
  "str_lines s =
     (let ps = split_on LF s in
      map strip_cr (butlast ps) @ (if last ps = [] then [] else [last ps]))"

text \<open>\<open>&text[a..b]\<close> at positions that are known to be boundaries.\<close>

definition slice :: "string \<Rightarrow> nat \<times> nat \<Rightarrow> string" where
  "slice s r = take (snd r - fst r) (drop (fst r) s)"

section \<open>Outcomes\<close>

(* map: src/crates/caliban-tools-builtin/src/fs/match_old.rs 23-30 MatchTier *)
datatype match_tier = ExactTier | WhitespaceTier

(* map: src/crates/caliban-tools-builtin/src/fs/match_old.rs 63-73 NearMiss *)
record near_miss =
  nm_start_line :: nat
  nm_expected :: "string list"
  nm_found :: "string list"

(* map: src/crates/caliban-tools-builtin/src/fs/match_old.rs 32-61 MatchOutcome *)
datatype match_outcome =
    Located "(nat \<times> nat) list" string match_tier
  | Ambiguous nat "(nat \<times> nat) list"
  | NotFound "near_miss option"

definition near_miss_max_lines :: nat where
  "near_miss_max_lines = 20000"

definition near_miss_max_render :: nat where
  "near_miss_max_render = 40"

definition render_side :: "string \<Rightarrow> string \<Rightarrow> string list \<Rightarrow> string" where
  "render_side mark label ls =
     concat (map (\<lambda>l. mark @ l @ nl) (take near_miss_max_render ls)) @
     (if length ls > near_miss_max_render
      then ''  '' @ ellipsis @ '' ('' @ nat_str (length ls - near_miss_max_render) @ '' more '' @ label @
           '' line(s) elided)'' @ nl
      else [])"

(* map: src/crates/caliban-tools-builtin/src/fs/match_old.rs 75-122 NearMiss::render *)
definition near_miss_render :: "near_miss \<Rightarrow> string" where
  "near_miss_render nm =
     ''closest match near line '' @ nat_str (nm_start_line nm) @
     '' (no exact or whitespace-tolerant match found):'' @ nl @
     render_side ''- '' ''expected'' (nm_expected nm) @ render_side ''+ '' ''found'' (nm_found nm)"

section \<open>Lines of a file\<close>

text \<open>The scan: where the line starts, where the scan is, and the byte before it.\<close>

fun line_spans_from :: "nat \<Rightarrow> nat \<Rightarrow> char option \<Rightarrow> string \<Rightarrow> (nat \<times> nat) list" where
  "line_spans_from start i prev [] = (if start < i then [(start, i)] else [])"
| "line_spans_from start i prev (c # s) =
     (if c = LF
      then (start, if i > start \<and> prev = Some CR then i - 1 else i) # line_spans_from (i + 1) (i + 1) (Some c) s
      else line_spans_from start (i + 1) (Some c) s)"

(* map: src/crates/caliban-tools-builtin/src/fs/match_old.rs 168-209 line_spans *)
definition line_spans :: "string \<Rightarrow> (nat \<times> nat) list" where
  "line_spans text = line_spans_from 0 0 None text"

definition newlines_before :: "string \<Rightarrow> nat \<Rightarrow> nat" where
  "newlines_before text n = length (filter (\<lambda>c. c = LF) (take n text))"

text \<open>The start of a range is a boundary; one before its end need not be.\<close>

(* map: src/crates/caliban-tools-builtin/src/fs/match_old.rs 211-219 byte_range_to_line_span *)
definition byte_range_to_line_span :: "string \<Rightarrow> nat \<times> nat \<Rightarrow> (nat \<times> nat) option" where
  "byte_range_to_line_span text r =
     (let start_line = newlines_before text (fst r) + 1;
          lst = min (snd r - 1) (length text)
      in if is_char_boundary text lst
         then Some (start_line, max (newlines_before text lst + 1) start_line)
         else None)"

(* map: src/crates/caliban-tools-builtin/src/fs/match_old.rs 221-227 leading_ws *)
definition leading_ws :: "string \<Rightarrow> string" where
  "leading_ws line = takeWhile (\<lambda>c. c = CHR '' '' \<or> c = CHR 0x09) line"

(* map: src/crates/caliban-tools-builtin/src/fs/match_old.rs 229-232 normalize_eol *)
fun normalize_eol :: "string \<Rightarrow> string" where
  "normalize_eol [] = []"
| "normalize_eol [c] = [if c = CR then LF else c]"
| "normalize_eol (c # d # s) =
     (if c = CR \<and> d = LF then LF # normalize_eol s
      else (if c = CR then LF else c) # normalize_eol (d # s))"

(* map: src/crates/caliban-tools-builtin/src/fs/match_old.rs 350-353 norm_text_line *)
definition norm_text_line :: "string \<Rightarrow> nat \<times> nat \<Rightarrow> string" where
  "norm_text_line text span = normalize_eol (slice text span)"

section \<open>The shift of the indentation\<close>

(* map: src/crates/caliban-tools-builtin/src/fs/match_old.rs 355-367 IndentDelta *)
datatype indent_delta = AddIndent string | StripIndent string

(* map: src/crates/caliban-tools-builtin/src/fs/match_old.rs 370-380 IndentDelta::between *)
definition delta_between :: "string \<Rightarrow> string \<Rightarrow> indent_delta option" where
  "delta_between old_lead file_lead =
     (case strip_prefix old_lead file_lead of
        Some extra \<Rightarrow> Some (AddIndent extra)
      | None \<Rightarrow> map_option StripIndent (strip_prefix file_lead old_lead))"

fun shift_line :: "indent_delta \<Rightarrow> string \<Rightarrow> string" where
  "shift_line (AddIndent p) line = p @ line"
| "shift_line (StripIndent p) line = unwrap_or line (strip_prefix p line)"

(* map: src/crates/caliban-tools-builtin/src/fs/match_old.rs 382-411 IndentDelta::apply *)
definition delta_apply :: "indent_delta \<Rightarrow> string \<Rightarrow> string" where
  "delta_apply d new =
     (if d = AddIndent [] \<or> d = StripIndent [] then new
      else join [LF] (map (\<lambda>l. if trim l = [] then l else shift_line d l) (split_on LF new)))"

section \<open>The white-space tier\<close>

text \<open>
  One window: the trimmed lines of the file against those of the text sought, with the shift
  found so far. The outer option is the match.
\<close>

(* map: src/crates/caliban-tools-builtin/src/fs/match_old.rs 262-298 locate_whitespace *)
fun window_delta :: "string list \<Rightarrow> string list \<Rightarrow> indent_delta option \<Rightarrow> indent_delta option option" where
  "window_delta (f # fs) (q # qs) delta =
     (if q = [] \<and> f = [] then window_delta fs qs delta
      else if drop (length (leading_ws f)) f \<noteq> drop (length (leading_ws q)) q then None
      else
        (case delta_between (leading_ws q) (leading_ws f) of
           None \<Rightarrow> None
         | Some this \<Rightarrow>
             (case delta of
                None \<Rightarrow> window_delta fs qs (Some this)
              | Some d \<Rightarrow> if d = this then window_delta fs qs delta else None)))"
| "window_delta _ _ delta = Some delta"

definition file_lines :: "string \<Rightarrow> string list" where
  "file_lines text = map (\<lambda>sp. trim_end (norm_text_line text sp)) (line_spans text)"

definition sought_lines :: "string \<Rightarrow> string list" where
  "sought_lines old = map (\<lambda>l. trim_end (normalize_eol l)) (str_lines (normalize_eol old))"

(* map: src/crates/caliban-tools-builtin/src/fs/match_old.rs 260-312 locate_whitespace *)
definition window_match :: "string \<Rightarrow> string \<Rightarrow> string \<Rightarrow> nat \<Rightarrow> ((nat \<times> nat) \<times> string) option" where
  "window_match text old new w =
     (let win = length (sought_lines old); spans = line_spans text in
      map_option (\<lambda>delta.
          ((fst (spans ! w), snd (spans ! (w + win - 1))),
           (case delta of None \<Rightarrow> new | Some d \<Rightarrow> delta_apply d new)))
        (window_delta (drop w (file_lines text)) (sought_lines old) None))"

definition window_matches :: "string \<Rightarrow> string \<Rightarrow> string \<Rightarrow> ((nat \<times> nat) \<times> string) list" where
  "window_matches text old new =
     (let win = length (sought_lines old); n = length (line_spans text) in
      if win = 0 \<or> n < win then [] else List.map_filter (window_match text old new) [0..<n - win + 1])"

fun all_some :: "'a option list \<Rightarrow> 'a list option" where
  "all_some [] = Some []"
| "all_some (None # xs) = None"
| "all_some (Some x # xs) = map_option (Cons x) (all_some xs)"

definition ambiguous_at :: "string \<Rightarrow> (nat \<times> nat) list \<Rightarrow> match_outcome option" where
  "ambiguous_at text ranges =
     map_option (Ambiguous (length ranges)) (all_some (map (byte_range_to_line_span text) ranges))"

(* map: src/crates/caliban-tools-builtin/src/fs/match_old.rs 234-348 locate_whitespace *)
definition locate_whitespace :: "string \<Rightarrow> string \<Rightarrow> string \<Rightarrow> bool \<Rightarrow> match_outcome option option" where
  "locate_whitespace text old new replace_all =
     (case window_matches text old new of
        [] \<Rightarrow> Some None
      | (r, rep) # ms \<Rightarrow>
          if \<not> replace_all \<and> ms \<noteq> [] \<or> list_ex (\<lambda>m. snd m \<noteq> rep) ms
          then map_option Some (ambiguous_at text (r # map fst ms))
          else Some (Some (Located (r # map fst ms) rep WhitespaceTier)))"

section \<open>The closest window\<close>

text \<open>One row of the table from the one above it; \<open>left\<close> is the cell just computed.\<close>

fun lev_cells :: "'a \<Rightarrow> nat \<Rightarrow> 'a list \<Rightarrow> nat list \<Rightarrow> nat list" where
  "lev_cells ca left (cb # bs) (p # p' # prev) =
     (let v = min (min (p' + 1) (left + 1)) (p + (if ca \<noteq> cb then 1 else 0))
      in v # lev_cells ca v bs (p' # prev))"
| "lev_cells ca left _ _ = []"

fun lev_rows :: "nat \<Rightarrow> 'a list \<Rightarrow> 'a list \<Rightarrow> nat list \<Rightarrow> nat list" where
  "lev_rows i [] bs prev = prev"
| "lev_rows i (ca # cs) bs prev = lev_rows (i + 1) cs bs ((i + 1) # lev_cells ca (i + 1) bs prev)"

definition lev_table :: "'a list \<Rightarrow> 'a list \<Rightarrow> nat" where
  "lev_table a b =
     (if a = [] then length b else if b = [] then length a
      else last (lev_rows 0 a b [0..<length b + 1]))"

(* map: src/crates/caliban-tools-builtin/src/fs/match_old.rs 465-485 levenshtein *)
definition levenshtein :: "string \<Rightarrow> string \<Rightarrow> nat" where
  "levenshtein a b = lev_table (utf8_chars a) (utf8_chars b)"

text \<open>The first of the smallest distances.\<close>

fun best_window :: "(nat \<times> nat) option \<Rightarrow> (nat \<times> nat) list \<Rightarrow> (nat \<times> nat) option" where
  "best_window best [] = best"
| "best_window None (c # cs) = best_window (Some c) cs"
| "best_window (Some b) (c # cs) = best_window (Some (if fst c \<ge> fst b then b else c)) cs"

(* map: src/crates/caliban-tools-builtin/src/fs/match_old.rs 414-463 nearest_window *)
definition nearest_window :: "string \<Rightarrow> string \<Rightarrow> near_miss option" where
  "nearest_window text old =
     (let old_lines = map trim_end (str_lines (normalize_eol old));
          fl = file_lines text; win = length old_lines
      in if old_lines = [] \<or> fl = [] \<or> length fl > near_miss_max_lines \<or> win > length fl then None
         else
           (let old_key = trim (join [LF] old_lines);
                cands = map (\<lambda>w. (levenshtein (trim (join [LF] (take win (drop w fl)))) old_key, w))
                          [0..<length fl - win + 1]
            in map_option (\<lambda>(_, w). \<lparr>nm_start_line = w + 1, nm_expected = old_lines,
                 nm_found = take win (drop w fl)\<rparr>) (best_window None cands)))"

section \<open>Locating\<close>

(* map: src/crates/caliban-tools-builtin/src/fs/match_old.rs 124-166 locate *)
definition locate :: "string \<Rightarrow> string \<Rightarrow> string \<Rightarrow> bool \<Rightarrow> match_outcome option" where
  "locate text old new replace_all =
     (if old = [] then Some (NotFound None)
      else
        (case map (\<lambda>i. (i, i + length old)) (match_indices old 0 text) of
           r # rs \<Rightarrow>
             if \<not> replace_all \<and> rs \<noteq> [] then ambiguous_at text (r # rs)
             else Some (Located (r # rs) new ExactTier)
         | [] \<Rightarrow>
             (case locate_whitespace text old new replace_all of
                None \<Rightarrow> None
              | Some (Some outcome) \<Rightarrow> Some outcome
              | Some None \<Rightarrow> Some (NotFound (nearest_window text old)))))"

section \<open>Splicing\<close>

text \<open>\<open>String::replace_range\<close>.\<close>

definition replace_range :: "string \<Rightarrow> string \<Rightarrow> nat \<times> nat \<Rightarrow> string option" where
  "replace_range rep text r =
     (if fst r \<le> snd r \<and> snd r \<le> length text \<and> is_char_boundary text (fst r) \<and> is_char_boundary text (snd r)
      then Some (take (fst r) text @ rep @ drop (snd r) text) else None)"

text \<open>The ranges are replaced from the last to the first, so that earlier offsets stay valid.\<close>

(* map: src/crates/caliban-tools-builtin/src/fs/edit.rs 139-144 EditTool::invoke *)
fun splice_ranges :: "string \<Rightarrow> string \<Rightarrow> (nat \<times> nat) list \<Rightarrow> string option" where
  "splice_ranges rep text [] = Some text"
| "splice_ranges rep text (r # rs) = Option.bind (splice_ranges rep text rs) (\<lambda>t. replace_range rep t r)"

section \<open>The distance\<close>

text \<open>The textbook recursion, on the last characters of both.\<close>

function lev_spec :: "'a list \<Rightarrow> 'a list \<Rightarrow> nat" where
  "lev_spec a b =
     (if a = [] then length b else if b = [] then length a
      else min (min (lev_spec (butlast a) b + 1) (lev_spec a (butlast b) + 1))
             (lev_spec (butlast a) (butlast b) + (if last a \<noteq> last b then 1 else 0)))"
  by pat_completeness auto

termination lev_spec
  by (relation "measure (\<lambda>(a, b). length a + length b)") (auto simp: less_add_Suc1 add_less_mono)

declare lev_spec.simps [simp del]

lemma lev_spec_Nil [simp]: "lev_spec [] b = length b" "lev_spec a [] = length a"
  by (simp_all add: lev_spec.simps [of "[]"] lev_spec.simps [of a "[]"])

lemma lev_spec_snoc:
  "lev_spec (a @ [x]) (b @ [y]) =
   min (min (lev_spec a (b @ [y]) + 1) (lev_spec (a @ [x]) b + 1)) (lev_spec a b + (if x \<noteq> y then 1 else 0))"
  by (subst lev_spec.simps) simp

definition lev_row :: "'a list \<Rightarrow> 'a list \<Rightarrow> nat list" where
  "lev_row a b = map (\<lambda>j. lev_spec a (take j b)) [0..<length b + 1]"

lemma upt_shift: "[0..<n + 1] = 0 # map Suc [0..<n]"
  by (simp add: upt_conv_Cons map_Suc_upt del: upt_Suc)

lemma lev_cells_row:
  "lev_cells x (lev_spec (a @ [x]) b0) b (map (\<lambda>j. lev_spec a (b0 @ take j b)) [0..<length b + 1]) =
   map (\<lambda>j. lev_spec (a @ [x]) (b0 @ take (j + 1) b)) [0..<length b]"
proof (induction b arbitrary: b0)
  case (Cons y b)
  have up: "[0..<length (y # b) + 1] = 0 # map Suc [0..<length b + 1]" "[0..<length (y # b)] = 0 # map Suc [0..<length b]"
    using upt_shift [of "length (y # b)"] upt_shift [of "length b"] by (simp_all del: upt_Suc)
  note two = upt_shift [of "length b"]
  have v: "min (min (lev_spec a (b0 @ [y]) + 1) (lev_spec (a @ [x]) b0 + 1)) (lev_spec a b0 + (if x \<noteq> y then 1 else 0)) =
    lev_spec (a @ [x]) (b0 @ [y])"
    by (rule lev_spec_snoc [symmetric])
  have IH: "lev_cells x (lev_spec (a @ [x]) (b0 @ [y])) b
      (map (\<lambda>j. lev_spec a (b0 @ y # take j b)) [0..<length b + 1]) =
    map (\<lambda>j. lev_spec (a @ [x]) (b0 @ y # take (j + 1) b)) [0..<length b]"
    using Cons.IH [of "b0 @ [y]"] by simp
  show ?case
    using IH v unfolding up two by (simp add: comp_def Let_def)
qed simp

lemma lev_row_step:
  "(length a + 1) # lev_cells x (length a + 1) b (lev_row a b) = lev_row (a @ [x]) b"
proof -
  have "lev_row (a @ [x]) b = (length a + 1) # map (\<lambda>j. lev_spec (a @ [x]) (take (j + 1) b)) [0..<length b]"
    unfolding lev_row_def upt_shift by (simp add: comp_def)
  then show ?thesis
    using lev_cells_row [of x a "[]" b] unfolding lev_row_def [of a b] by (simp del: upt_Suc)
qed

lemma lev_rows_row: "lev_rows (length a) cs b (lev_row a b) = lev_row (a @ cs) b"
proof (induction cs arbitrary: a)
  case (Cons c cs)
  then show ?case using Cons.IH [of "a @ [c]"] lev_row_step [of a c b] by simp
qed simp

text \<open>The two-row table computes the edit distance of the textbook recursion.\<close>

theorem levenshtein_eq_spec: "levenshtein a b = lev_spec (utf8_chars a) (utf8_chars b)"
proof -
  have "lev_table xs ys = lev_spec xs ys" for xs ys :: "string list"
  proof -
    have "[0..<length ys + 1] = lev_row [] ys" 
      by (rule nth_equalityI) (auto simp: lev_row_def simp del: upt_Suc)
    then have "lev_rows 0 xs ys [0..<length ys + 1] = lev_row xs ys"
      using lev_rows_row [of "[]" xs ys] by simp
    then show ?thesis by (simp add: lev_table_def lev_row_def)
  qed
  then show ?thesis by (simp add: levenshtein_def)
qed

section \<open>Well-formed text\<close>

text \<open>Leading bytes tell how many continuation bytes follow; every \<open>str\<close> is so formed.\<close>

definition utf8_width :: "char \<Rightarrow> nat option" where
  "utf8_width c =
     (let b = (of_char c :: nat) in
      if b < 128 then Some 1 else if b < 192 then None else if b < 224 then Some 2
      else if b < 240 then Some 3 else if b < 248 then Some 4 else None)"

function utf8_ok :: "string \<Rightarrow> bool" where
  "utf8_ok [] = True"
| "utf8_ok (c # s) =
     (case utf8_width c of
        None \<Rightarrow> False
      | Some n \<Rightarrow> n - 1 \<le> length s \<and> list_all is_continuation (take (n - 1) s) \<and> utf8_ok (drop (n - 1) s))"
  by pat_completeness auto

termination utf8_ok
  by (relation "measure length") auto

lemma width_lead: "utf8_width c = Some n \<Longrightarrow> \<not> is_continuation c \<and> 0 < n"
  by (auto simp: utf8_width_def is_continuation_def Let_def split: if_splits)

definition leads :: "string \<Rightarrow> bool" where
  "leads s \<longleftrightarrow> s = [] \<or> \<not> is_continuation (hd s)"

lemma utf8_ok_leads: "utf8_ok s \<Longrightarrow> leads s"
  by (cases s) (auto simp: leads_def split: option.splits dest: width_lead)

lemma utf8_ok_append: "utf8_ok p \<Longrightarrow> utf8_ok (p @ s) = utf8_ok s"
proof (induction p rule: utf8_ok.induct)
  case (2 c p)
  then show ?case by (auto split: option.splits)
qed simp

text \<open>The encoding is self-synchronising: a leading byte starts well-formed text.\<close>

lemma utf8_ok_resync: "utf8_ok (p @ s) \<Longrightarrow> leads s \<Longrightarrow> utf8_ok s"
proof (induction "p @ s" arbitrary: p rule: utf8_ok.induct)
  case (2 c t)
  show ?case
  proof (cases p)
    case (Cons c' p')
    then have t: "c # t = c # p' @ s" using "2.hyps"(2) by simp
    obtain n where n: "utf8_width c = Some n" "n - 1 \<le> length t" "list_all is_continuation (take (n - 1) t)"
      "utf8_ok (drop (n - 1) t)"
      using "2.prems"(1) "2.hyps"(2) by (auto split: option.splits simp: Cons)
    show ?thesis
    proof (cases "n - 1 \<le> length p'")
      case True
      then have "drop (n - 1) t = drop (n - 1) p' @ s" using t by simp
      then show ?thesis using "2.hyps"(1) [OF n(1)] n(4) "2.prems"(2) by metis
    next
      case False
      then have "s \<noteq> []" using n(2) t by auto
      then have "hd s = t ! length p'" "length p' < n - 1" using t False by (simp_all add: hd_conv_nth nth_append)
      then have "is_continuation (hd s)" using n(2,3) by (simp add: list_all_length)
      then show ?thesis using "2.prems"(2) \<open>s \<noteq> []\<close> by (simp add: leads_def)
    qed
  qed (use "2.prems" "2.hyps"(2) in simp)
qed simp

lemma is_char_boundary_leads: "is_char_boundary (p @ s) (length p) \<longleftrightarrow> p = [] \<or> leads s"
  by (cases s) (auto simp: is_char_boundary_def leads_def is_continuation_def Let_def not_le nth_append)

lemma replace_range_at:
  assumes "p = [] \<or> leads (m @ s)" "p @ m = [] \<or> leads s"
  shows "replace_range rep (p @ m @ s) (length p, length p + length m) = Some (p @ rep @ s)"
  using assms is_char_boundary_leads [of p "m @ s"] is_char_boundary_leads [of "p @ m" s]
  by (simp add: replace_range_def)

section \<open>The exact tier\<close>

text \<open>\<open>str::replace\<close>, which the tier is meant to be.\<close>

function str_replace :: "string \<Rightarrow> string \<Rightarrow> string \<Rightarrow> string" where
  "str_replace old new s =
     (if old = [] \<or> s = [] then s
      else
        (case strip_prefix old s of
           Some rest \<Rightarrow> new @ str_replace old new rest
         | None \<Rightarrow> hd s # str_replace old new (tl s)))"
  by pat_completeness auto

termination str_replace
  by (relation "measure (\<lambda>(old, new, s). length s)") (auto simp: strip_prefix_Some)

declare str_replace.simps [simp del]

lemma match_indices_step:
  "old \<noteq> [] \<Longrightarrow> strip_prefix old s = Some rest \<Longrightarrow>
     match_indices old off s = off # match_indices old (off + length old) rest"
  "old \<noteq> [] \<Longrightarrow> strip_prefix old (c # t) = None \<Longrightarrow>
     match_indices old off (c # t) = match_indices old (off + 1) t"
  by (subst match_indices.simps; cases old; cases s; auto)+

lemma str_replace_step:
  "old \<noteq> [] \<Longrightarrow> strip_prefix old s = Some rest \<Longrightarrow> str_replace old new s = new @ str_replace old new rest"
  "old \<noteq> [] \<Longrightarrow> strip_prefix old (c # t) = None \<Longrightarrow> str_replace old new (c # t) = c # str_replace old new t"
  by (subst str_replace.simps; cases old; cases s; auto)+

lemma str_replace_leads:
  "utf8_ok s \<Longrightarrow> utf8_ok old \<Longrightarrow> utf8_ok new \<Longrightarrow> leads (str_replace old new s)"
proof (induction old new s rule: str_replace.induct)
  case (1 old new s)
  show ?case
  proof (cases "old = [] \<or> s = []")
    case True
    then show ?thesis using 1 by (simp add: str_replace.simps [of old new s] utf8_ok_leads)
  next
    case False
    show ?thesis
    proof (cases "strip_prefix old s")
      case None
      then show ?thesis
        using False utf8_ok_leads [OF "1.prems"(1)] by (simp add: str_replace.simps [of old new s] leads_def)
    next
      case (Some rest)
      then have "s = old @ rest" by (simp add: strip_prefix_Some)
      then have "leads (str_replace old new rest)"
        using 1 False Some utf8_ok_append by simp
      moreover have "str_replace old new s = new @ str_replace old new rest"
        using False Some by (simp add: str_replace.simps [of old new s])
      ultimately show ?thesis using utf8_ok_leads [OF "1.prems"(3)] by (cases new) (auto simp: leads_def)
    qed
  qed
qed

lemma splice_exact:
  "utf8_ok old \<Longrightarrow> utf8_ok new \<Longrightarrow> utf8_ok (pre @ s) \<Longrightarrow>
    splice_ranges new (pre @ s) (map (\<lambda>i. (i, i + length old)) (match_indices old (length pre) s)) =
      Some (pre @ str_replace old new s)"
proof (induction old "length pre" s arbitrary: pre rule: match_indices.induct)
  case (1 old s)
  note ok_old = "1.prems"(1) and ok_new = "1.prems"(2) and ok_s = "1.prems"(3)
  note unfold = match_indices.simps [of old "length pre" s] str_replace.simps [of old new s]
  show ?case
  proof (cases "old = [] \<or> s = []")
    case True
    then show ?thesis by (simp add: unfold)
  next
    case False
    show ?thesis
    proof (cases "strip_prefix old s")
      case None
      then obtain c t where s: "s = c # t" using False by (cases s) auto
      have m: "match_indices old (length pre) s = match_indices old (length (pre @ [c])) t"
        using False None match_indices_step(2) unfolding s by simp
      have r: "str_replace old new s = c # str_replace old new t"
        using False None str_replace_step(2) unfolding s by simp
      have e: "tl s = t" "length pre + 1 = length (pre @ [c])" "pre @ s = (pre @ [c]) @ t" by (simp_all add: s)
      have "splice_ranges new ((pre @ [c]) @ t)
          (map (\<lambda>i. (i, i + length old)) (match_indices old (length (pre @ [c])) t)) =
        Some ((pre @ [c]) @ str_replace old new t)"
        using "1.hyps"(1) [OF False None, of "pre @ [c]"] "1.prems" unfolding e by (simp only:)
      then show ?thesis unfolding m r by (simp add: s)
    next
      case (Some rest)
      then have s: "s = old @ rest" by (simp add: strip_prefix_Some)
      have ok: "utf8_ok (old @ rest)"
      proof (rule utf8_ok_resync)
        show "utf8_ok (pre @ old @ rest)" using ok_s unfolding s .
        show "leads (old @ rest)" using utf8_ok_leads [OF ok_old] False by (simp add: leads_def)
      qed
      then have r: "leads (str_replace old new rest)"
        using ok_old ok_new utf8_ok_append str_replace_leads by blast
      have "splice_ranges new ((pre @ old) @ rest)
          (map (\<lambda>i. (i, i + length old)) (match_indices old (length (pre @ old)) rest)) =
        Some ((pre @ old) @ str_replace old new rest)"
        using "1.hyps"(2) [OF False Some, of "pre @ old"] ok_s ok_old ok_new s by simp
      moreover have "replace_range new (pre @ old @ str_replace old new rest) (length pre, length pre + length old) =
          Some (pre @ new @ str_replace old new rest)"
        using utf8_ok_leads [OF ok_old] False r by (intro replace_range_at) (auto simp: leads_def)
      moreover have "old \<noteq> []" using False by simp
      ultimately show ?thesis
        unfolding match_indices_step(1) [OF \<open>old \<noteq> []\<close> Some] str_replace_step(1) [OF \<open>old \<noteq> []\<close> Some]
        by (simp add: s)
    qed
  qed
qed

definition occurs :: "string \<Rightarrow> string \<Rightarrow> bool" where
  "occurs old s \<longleftrightarrow> (\<exists>p q. s = p @ old @ q)"

lemma occurs_Cons: "occurs old (c # s) \<longleftrightarrow> strip_prefix old (c # s) \<noteq> None \<or> occurs old s"
proof
  assume "occurs old (c # s)"
  then obtain p q where "c # s = p @ old @ q" by (auto simp: occurs_def)
  then show "strip_prefix old (c # s) \<noteq> None \<or> occurs old s"
    by (cases p) (auto simp: occurs_def strip_prefix_Some)
next
  assume "strip_prefix old (c # s) \<noteq> None \<or> occurs old s"
  then show "occurs old (c # s)"
  proof
    assume "strip_prefix old (c # s) \<noteq> None"
    then obtain q where "c # s = [] @ old @ q" by (auto simp: strip_prefix_Some)
    then show ?thesis unfolding occurs_def by blast
  next
    assume "occurs old s"
    then obtain p q where "c # s = (c # p) @ old @ q" by (auto simp: occurs_def)
    then show ?thesis unfolding occurs_def by blast
  qed
qed

lemma match_indices_Nil: "old \<noteq> [] \<Longrightarrow> match_indices old off s = [] \<longleftrightarrow> \<not> occurs old s"
proof (induction s arbitrary: off)
  case Nil
  then show ?case by (simp add: match_indices.simps occurs_def)
next
  case (Cons c s)
  then show ?case
    by (simp add: match_indices.simps [of old off "c # s"] occurs_Cons split: option.splits)
qed

lemma str_replace_absent: "\<not> occurs old s \<Longrightarrow> str_replace old new s = s"
proof (induction s)
  case (Cons c s)
  then show ?case by (simp add: str_replace.simps [of old new "c # s"] occurs_Cons split: option.splits)
qed (simp add: str_replace.simps)

lemma match_indices_single:
  "match_indices old off s = [i] \<Longrightarrow>
   \<exists>p q. s = p @ old @ q \<and> i = off + length p \<and> \<not> occurs old q \<and> str_replace old new s = p @ new @ q"
proof (induction s arbitrary: off)
  case Nil
  then show ?case by (simp add: match_indices.simps)
next
  case (Cons c s)
  then have old: "old \<noteq> []" by (auto simp: match_indices.simps)
  show ?case
  proof (cases "strip_prefix old (c # s)")
    case None
    then have m: "match_indices old (off + 1) s = [i]"
      using Cons.prems match_indices_step(2) [OF old None] by metis
    obtain p q where "s = p @ old @ q" "i = off + 1 + length p" "\<not> occurs old q" "str_replace old new s = p @ new @ q"
      using Cons.IH [OF m] by blast
    moreover have "str_replace old new (c # s) = c # str_replace old new s"
      by (rule str_replace_step(2) [OF old None])
    ultimately have "c # s = (c # p) @ old @ q \<and> i = off + length (c # p) \<and> \<not> occurs old q \<and>
        str_replace old new (c # s) = (c # p) @ new @ q" by simp
    then show ?thesis by blast
  next
    case (Some q)
    then have s: "c # s = [] @ old @ q" by (simp add: strip_prefix_Some)
    have "match_indices old off (c # s) = off # match_indices old (off + length old) q"
      by (rule match_indices_step(1) [OF old Some])
    then have m: "match_indices old (off + length old) q = [] \<and> i = off" using Cons.prems by auto
    have q: "\<not> occurs old q" using m match_indices_Nil [OF old] by blast
    have "str_replace old new (c # s) = [] @ new @ q"
      using str_replace_step(1) [OF old Some] str_replace_absent [OF q] by simp
    then show ?thesis using m q s by (intro exI [of _ "[]"] exI [of _ q]) simp
  qed
qed

lemma locate_exact:
  "locate text old new ra = Some (Located ranges rep ExactTier) \<Longrightarrow>
   old \<noteq> [] \<and> rep = new \<and> ranges = map (\<lambda>i. (i, i + length old)) (match_indices old 0 text) \<and>
   (\<not> ra \<longrightarrow> (\<exists>i. match_indices old 0 text = [i]))"
  by (auto simp: locate_def locate_whitespace_def ambiguous_at_def
      split: if_splits list.splits option.splits)

text \<open>
  (C34) A verbatim edit is \<open>str::replace\<close>: the splices never panic and give the file with every
  disjoint occurrence replaced. Without \<open>replace_all\<close> there is one place, the text before
  and after it is untouched, and no second occurrence follows it.
\<close>

theorem exact_edit_is_replace:
  assumes "locate text old new replace_all = Some (Located ranges rep ExactTier)"
      and "utf8_ok text" "utf8_ok old" "utf8_ok new"
  shows "splice_ranges rep text ranges = Some (str_replace old new text) \<and>
    (\<not> replace_all \<longrightarrow> (\<exists>p q. text = p @ old @ q \<and> \<not> occurs old q \<and> str_replace old new text = p @ new @ q))"
proof -
  note L = locate_exact [OF assms(1)]
  have "splice_ranges rep text ranges = Some (str_replace old new text)"
    using L splice_exact [OF assms(3,4), of "[]" "text"] assms(2) by simp
  moreover have "\<exists>p q. text = p @ old @ q \<and> \<not> occurs old q \<and> str_replace old new text = p @ new @ q"
    if "\<not> replace_all"
    using L that match_indices_single [of old 0 "text" _ new] by blast
  ultimately show ?thesis by blast
qed

theorem exact_edit_is_replace_witness:
  "splice_ranges ''c'' ''abxab'' [(0, 2), (3, 5)] = Some (str_replace ''ab'' ''c'' ''abxab'') \<and>
   str_replace ''ab'' ''c'' ''abxab'' = ''cxc''"
proof -
  have "locate ''abxab'' ''ab'' ''c'' True = Some (Located [(0, 2), (3, 5)] ''c'' ExactTier)" by code_simp
  moreover have "utf8_ok ''abxab''" "utf8_ok ''ab''" "utf8_ok ''c''" by code_simp+
  moreover have "str_replace ''ab'' ''c'' ''abxab'' = ''cxc''" by code_simp
  ultimately show ?thesis using exact_edit_is_replace by blast
qed

section \<open>Panics and duplicated lines\<close>

text \<open>
  The report of an ambiguous match cuts the file one byte before the end of each match. When the
  text sought ends in a character of more than one byte this is inside the character, and the
  tool panics instead of reporting.
\<close>

theorem ambiguous_report_panics:
  "locate (''a'' @ em_dash @ ''b'' @ em_dash) em_dash ''-'' False = None"
  by code_simp

text \<open>
  In the white-space tier the line break at the end of the text sought is not part of the match,
  but that of the replacement is spliced in: replacing a whole line adds an empty one.
\<close>

theorem whitespace_tier_doubles_line_break:
  "locate (''x  '' @ nl @ ''y'' @ nl) (''x'' @ nl) (''z'' @ nl) False =
     Some (Located [(0, 3)] (''z'' @ nl) WhitespaceTier) \<and>
   splice_ranges (''z'' @ nl) (''x  '' @ nl @ ''y'' @ nl) [(0, 3)] = Some (''z'' @ nl @ nl @ ''y'' @ nl)"
  by (rule conjI) code_simp+

text \<open>
  With \<open>replace_all\<close> the windows of that tier may overlap: the splices then work on ranges
  of a file that has already changed, and panic when the replacement is short.
\<close>

theorem overlapping_windows_panic:
  "locate (''a '' @ nl @ ''a '' @ nl @ ''a '') (''a'' @ nl @ ''a'') [] True =
     Some (Located [(0, 5), (3, 8)] [] WhitespaceTier) \<and>
   splice_ranges [] (''a '' @ nl @ ''a '' @ nl @ ''a '') [(0, 5), (3, 8)] = None"
  by (rule conjI) code_simp+

end
