(* ===== verification/AgentStore.thy ===== *)
theory AgentStore
  imports Workspace EditMatch "HOL-Library.List_Lexorder" "HOL-Library.Char_ord"
begin

text \<open>
  The records of background agents (\<open>caliban-contract/src/wire.rs\<close>) and their store on
  disk (\<open>caliban-supervisor/src/store.rs\<close>). The disk is what lies below the base directory
  of the store: one directory per agent, with its files by name; a base that does not exist
  holds nothing. Every call of \<open>std::fs\<close> may fail: \<open>store_io\<close> says which calls of an
  operation do, and what a failing write leaves behind. Printing and parsing a record
  (\<open>serde_json\<close>) are fields of the store.
\<close>

section \<open>Records\<close>

type_synonym path = "component list"

(* map: src/crates/caliban-contract/src/wire.rs 21-32 Endpoint *)
datatype endpoint = Unix path | Tcp string

(* map: src/crates/caliban-contract/src/wire.rs 41-60 AgentStatus *)
datatype agent_status =
  Spawning | Running | Idle | Killed | Drained | Done | Failed | Crashed

(* map: src/crates/caliban-contract/src/wire.rs 195-203 DriveProtocol *)
datatype drive_protocol = Ndjson | Acp

(* map: src/crates/caliban-contract/src/wire.rs 211-221 PermissionPosture *)
datatype permission_posture = Supervised | Unattended

(* map: src/crates/caliban-contract/src/wire.rs 114-187 SpawnSpec *)
record spawn_spec =
  sp_label :: "string option"
  sp_frontmatter_path :: "path option"
  sp_initial_prompt :: string
  sp_model :: "string option"
  sp_provider :: "string option"
  sp_tool_allowlist :: "string list option"
  sp_isolation_worktree :: bool
  sp_inherit_hooks :: bool
  sp_interactive :: bool
  sp_inherited_hooks_config :: "string option"
  sp_source :: "string option"
  sp_resume_session :: "path option"
  sp_permission_posture :: permission_posture
  sp_drive_protocol :: drive_protocol

(* map: src/crates/caliban-contract/src/wire.rs 64-87 AgentRecord *)
record agent_record =
  ar_id :: string
  ar_name :: string
  ar_status :: agent_status
  ar_started_at :: string
  ar_session_dir :: path
  ar_endpoint :: endpoint
  ar_working_dir :: path
  ar_spec :: spawn_spec

(* map: src/crates/caliban-contract/src/wire.rs 91-96 AgentRecord::unix_socket_path *)
definition unix_socket_path :: "agent_record \<Rightarrow> path option" where
  "unix_socket_path r = (case ar_endpoint r of Unix p \<Rightarrow> Some p | Tcp _ \<Rightarrow> None)"

section \<open>The store\<close>

(* map: src/crates/caliban-supervisor/src/store.rs 39-41 AgentStore *)
record agent_store =
  as_base :: path
  as_encode :: "agent_record \<Rightarrow> string option"
  as_decode :: "string \<Rightarrow> agent_record option"

datatype fs_entry = SessionDir "(string \<times> string) list" | OtherEntry

type_synonym disk = "(string \<times> fs_entry) list"

datatype store_error = IoFailed | BadManifest

text \<open>
  What the system answers to one operation: whether the directory is made, what a failing
  write makes of the temporary file, whether the rename, the removal, the enumeration and the
  reading of a manifest succeed.
\<close>

record store_io =
  io_mkdir :: bool
  io_write :: "(string option \<Rightarrow> string option) option"
  io_rename :: bool
  io_remove :: bool
  io_read_dir :: bool
  io_read :: "string \<Rightarrow> bool"

definition working_io :: store_io where
  "working_io = \<lparr>io_mkdir = True, io_write = None, io_rename = True, io_remove = True,
     io_read_dir = True, io_read = (\<lambda>_. True)\<rparr>"

definition manifest_file :: string where
  "manifest_file = ''manifest.json''"

definition tmp_file :: string where
  "tmp_file = ''manifest.json.tmp''"

(* map: src/crates/caliban-supervisor/src/store.rs 71-73 AgentStore::session_dir *)
definition session_dir :: "agent_store \<Rightarrow> string \<Rightarrow> path" where
  "session_dir st aid = path_join (as_base st) (components aid)"

(* map: src/crates/caliban-supervisor/src/store.rs 76-80 AgentStore::ensure_dir *)
definition ensure_dir :: "store_io \<Rightarrow> string \<Rightarrow> disk \<Rightarrow> (unit, store_error) result \<times> disk" where
  "ensure_dir io aid d =
     (if \<not> io_mkdir io then (Err IoFailed, d)
      else (case map_of d aid of
              None \<Rightarrow> (Ok (), AList.update aid (SessionDir []) d)
            | Some (SessionDir _) \<Rightarrow> (Ok (), d)
            | Some OtherEntry \<Rightarrow> (Err IoFailed, d)))"

definition dir_files :: "disk \<Rightarrow> string \<Rightarrow> (string \<times> string) list" where
  "dir_files d aid = (case map_of d aid of Some (SessionDir fs) \<Rightarrow> fs | _ \<Rightarrow> [])"

definition put_files :: "string \<Rightarrow> (string \<times> string) list \<Rightarrow> disk \<Rightarrow> disk" where
  "put_files aid fs d = AList.update aid (SessionDir fs) d"

text \<open>\<open>fs::write\<close>, which truncates the file and writes it, and \<open>fs::rename\<close> onto a file.\<close>

definition write_file ::
  "store_io \<Rightarrow> string \<Rightarrow> string \<Rightarrow> (string \<times> string) list \<Rightarrow> (unit, store_error) result \<times> (string \<times> string) list" where
  "write_file io name body fs =
     (case io_write io of
        None \<Rightarrow> (Ok (), AList.update name body fs)
      | Some left \<Rightarrow>
          (Err IoFailed,
           (case left (map_of fs name) of
              None \<Rightarrow> AList.delete name fs
            | Some s \<Rightarrow> AList.update name s fs)))"

definition rename_file ::
  "store_io \<Rightarrow> string \<Rightarrow> string \<Rightarrow> (string \<times> string) list \<Rightarrow> (unit, store_error) result \<times> (string \<times> string) list" where
  "rename_file io from to fs =
     (case map_of fs from of
        None \<Rightarrow> (Err IoFailed, fs)
      | Some s \<Rightarrow>
          if io_rename io then (Ok (), AList.update to s (AList.delete from fs)) else (Err IoFailed, fs))"

(* map: src/crates/caliban-supervisor/src/store.rs 83-91 AgentStore::write_manifest *)
definition write_manifest ::
  "agent_store \<Rightarrow> store_io \<Rightarrow> agent_record \<Rightarrow> disk \<Rightarrow> (unit, store_error) result \<times> disk" where
  "write_manifest st io r d =
     (case ensure_dir io (ar_id r) d of
        (Err e, d1) \<Rightarrow> (Err e, d1)
      | (Ok _, d1) \<Rightarrow>
          (case as_encode st r of
             None \<Rightarrow> (Err BadManifest, d1)
           | Some body \<Rightarrow>
               (case write_file io tmp_file body (dir_files d1 (ar_id r)) of
                  (Err e, fs) \<Rightarrow> (Err e, put_files (ar_id r) fs d1)
                | (Ok _, fs) \<Rightarrow>
                    (case rename_file io tmp_file manifest_file fs of
                       (Err e, fs) \<Rightarrow> (Err e, put_files (ar_id r) fs d1)
                     | (Ok _, fs) \<Rightarrow> (Ok (), put_files (ar_id r) fs d1)))))"

(* map: src/crates/caliban-supervisor/src/store.rs 94-102 AgentStore::load_manifest *)
definition load_manifest ::
  "agent_store \<Rightarrow> store_io \<Rightarrow> disk \<Rightarrow> string \<Rightarrow> (agent_record option, store_error) result" where
  "load_manifest st io d aid =
     (case map_of (dir_files d aid) manifest_file of
        None \<Rightarrow> Ok None
      | Some body \<Rightarrow>
          if \<not> io_read io aid then Err IoFailed
          else (case as_decode st body of
                  None \<Rightarrow> Err BadManifest
                | Some r \<Rightarrow> Ok (Some r)))"

(* map: src/crates/caliban-supervisor/src/store.rs 105-111 AgentStore::remove *)
definition remove_manifest :: "store_io \<Rightarrow> string \<Rightarrow> disk \<Rightarrow> (unit, store_error) result \<times> disk" where
  "remove_manifest io aid d =
     (if map_of d aid = None then (Ok (), d)
      else if io_remove io then (Ok (), AList.delete aid d) else (Err IoFailed, d))"

text \<open>The loop over the entries, in the order in which the system lists them.\<close>

(* map: src/crates/caliban-supervisor/src/store.rs 119-142 AgentStore::list *)
fun list_entries :: "agent_store \<Rightarrow> store_io \<Rightarrow> disk \<Rightarrow> disk \<Rightarrow> agent_record list" where
  "list_entries st io d [] = []"
| "list_entries st io d ((name, OtherEntry) # es) = list_entries st io d es"
| "list_entries st io d ((name, SessionDir _) # es) =
     (if \<not> utf8_ok name then list_entries st io d es
      else (case load_manifest st io d name of
              Ok (Some r) \<Rightarrow> r # list_entries st io d es
            | Ok None \<Rightarrow> list_entries st io d es
            | Err _ \<Rightarrow> list_entries st io d es))"

(* map: src/crates/caliban-supervisor/src/store.rs 114-143 AgentStore::list *)
definition store_list :: "agent_store \<Rightarrow> store_io \<Rightarrow> disk \<Rightarrow> (agent_record list, store_error) result" where
  "store_list st io d = (if io_read_dir io then Ok (list_entries st io d d) else Err IoFailed)"

section \<open>What the store keeps\<close>

text \<open>The manifest that the disk holds for an agent, when nothing fails.\<close>

abbreviation on_disk :: "agent_store \<Rightarrow> disk \<Rightarrow> string \<Rightarrow> (agent_record option, store_error) result" where
  "on_disk st d aid \<equiv> load_manifest st working_io d aid"

text \<open>\<open>serde_json\<close> prints every record, and reads back what it printed.\<close>

definition json_faithful :: "agent_store \<Rightarrow> bool" where
  "json_faithful st \<longleftrightarrow> (\<forall>r. \<exists>body. as_encode st r = Some body \<and> as_decode st body = Some r)"

lemma file_names [simp]: "manifest_file \<noteq> tmp_file" "tmp_file \<noteq> manifest_file"
  by (simp_all add: manifest_file_def tmp_file_def)

lemma working_io_simps [simp]:
  "io_mkdir working_io" "io_write working_io = None" "io_rename working_io" "io_remove working_io"
  "io_read_dir working_io" "io_read working_io aid"
  by (simp_all add: working_io_def)

lemma dir_files_put [simp]:
  "dir_files (put_files aid fs d) aid' = (if aid = aid' then fs else dir_files d aid')"
  by (simp add: dir_files_def put_files_def update_conv')

lemma write_file_keeps: "map_of (snd (write_file io tmp_file body fs)) manifest_file = map_of fs manifest_file"
  by (auto simp: write_file_def update_conv' delete_conv' split: option.splits)

lemma ensure_dir_keeps: "dir_files (snd (ensure_dir io aid d)) aid' = dir_files d aid'"
  by (auto simp: ensure_dir_def dir_files_def update_conv' split: option.splits fs_entry.splits)

lemma rename_file_manifest:
  "map_of (snd (rename_file io tmp_file manifest_file fs)) manifest_file =
     (if is_ok (fst (rename_file io tmp_file manifest_file fs)) then map_of fs tmp_file
      else map_of fs manifest_file)"
  by (auto simp: rename_file_def update_conv' delete_conv' split: option.splits)

lemma write_file_ok:
  "is_ok (fst (write_file io name body fs)) \<Longrightarrow> map_of (snd (write_file io name body fs)) name = Some body"
  by (auto simp: write_file_def update_conv' split: option.splits)

text \<open>
  Whatever fails, the manifest is the old one or the new one, whole, and it is the new one
  exactly when the write reports success; the other agents are untouched.
\<close>

lemma write_manifest_files:
  assumes "write_manifest st io r d = (res, d')"
  shows "map_of (dir_files d' aid) manifest_file =
     (if aid = ar_id r \<and> is_ok res then as_encode st r else map_of (dir_files d aid) manifest_file)"
proof -
  obtain e d1 where E: "ensure_dir io (ar_id r) d = (e, d1)" by (cases "ensure_dir io (ar_id r) d")
  then have keep: "dir_files d1 i = dir_files d i" for i using ensure_dir_keeps [of io "ar_id r" d i] by simp
  show ?thesis
  proof (cases e)
    case (Err x)
    then show ?thesis using assms E keep by (auto simp: write_manifest_def)
  next
    case (Ok u)
    show ?thesis
    proof (cases "as_encode st r")
      case None
      then show ?thesis using assms E Ok keep by (auto simp: write_manifest_def)
    next
      case (Some body)
      obtain w fs where W: "write_file io tmp_file body (dir_files d1 (ar_id r)) = (w, fs)"
        by (cases "write_file io tmp_file body (dir_files d1 (ar_id r))")
      have old: "map_of fs manifest_file = map_of (dir_files d (ar_id r)) manifest_file"
        using write_file_keeps [of io body "dir_files d1 (ar_id r)"] W keep by simp
      obtain n fs' where N: "rename_file io tmp_file manifest_file fs = (n, fs')"
        by (cases "rename_file io tmp_file manifest_file fs")
      have new: "is_ok w \<Longrightarrow> map_of fs tmp_file = Some body"
        using write_file_ok [of io tmp_file body "dir_files d1 (ar_id r)"] W by simp
      have ren: "map_of fs' manifest_file = (if is_ok n then map_of fs tmp_file else map_of fs manifest_file)"
        using rename_file_manifest [of io fs] N by simp
      show ?thesis
        using assms E Ok Some W N old new ren keep
        by (cases w; cases n) (auto simp: write_manifest_def)
    qed
  qed
qed

lemma write_manifest_atomic:
  assumes "json_faithful st" "write_manifest st io r d = (res, d')"
  shows "on_disk st d' aid = (if aid = ar_id r \<and> is_ok res then Ok (Some r) else on_disk st d aid)"
proof -
  obtain body where "as_encode st r = Some body" "as_decode st body = Some r"
    using assms(1) by (auto simp: json_faithful_def)
  then show ?thesis
    using write_manifest_files [OF assms(2), of aid] by (auto simp: load_manifest_def)
qed

lemma write_manifest_works:
  assumes "json_faithful st" "map_of d (ar_id r) \<noteq> Some OtherEntry"
  shows "is_ok (fst (write_manifest st working_io r d))"
proof -
  obtain body where "as_encode st r = Some body" using assms(1) by (auto simp: json_faithful_def)
  then show ?thesis using assms(2)
    by (auto simp: write_manifest_def ensure_dir_def write_file_def rename_file_def update_conv'
        split: option.splits fs_entry.splits)
qed

lemma remove_manifest_disk:
  assumes "remove_manifest io aid d = (res, d')"
  shows "on_disk st d' aid' =
     (if aid = aid' \<and> is_ok res then Ok None else on_disk st d aid')"
  using assms by (auto simp: remove_manifest_def load_manifest_def dir_files_def delete_conv' split: if_splits option.splits)

text \<open>The enumeration gives what can be loaded, and one bad manifest does not hide the others.\<close>

lemma set_list_entries:
  "set (list_entries st io d es) =
     {r. \<exists>name fs. (name, SessionDir fs) \<in> set es \<and> utf8_ok name \<and>
        load_manifest st io d name = Ok (Some r)}"
  by (induction st io d es rule: list_entries.induct) (auto split: option.splits result.splits)

end
