(* ===== verification/AgentRegistry.thy ===== *)
theory AgentRegistry
  imports AgentStore
begin

text \<open>
  The registry of the supervisor (\<open>caliban-supervisor/src/registry.rs\<close>): the records by id,
  the pids of the live workers, and the manifests that mirror the records on disk. Every
  operation runs under the one lock of the registry, so each is a function of the state.
  A \<open>HashMap\<close> is an association list whose order is the unspecified order of its iteration;
  \<open>io\<close> says, per agent, how the disk answers. A manifest that cannot be written is a warning.
\<close>

section \<open>State\<close>

(* map: src/crates/caliban-contract/src/wire.rs 315-338 SupervisorError *)
datatype supervisor_error =
  AgentNotFound string
| InvalidState string string agent_status
| Internal string

(* map: src/crates/caliban-supervisor/src/registry.rs 18-28 Registry *)
record registry =
  rg_by_id :: "(string \<times> agent_record) list"
  rg_pids :: "(string \<times> nat) list"
  rg_disk :: disk

type_synonym disk_io = "string \<Rightarrow> store_io"

text \<open>The states in which a worker runs or is about to, and the others.\<close>

fun live :: "agent_status \<Rightarrow> bool" where
  "live Spawning = True"
| "live Running = True"
| "live Idle = True"
| "live _ = False"

section \<open>Operations\<close>

text \<open>The manifest of a record, best effort.\<close>

definition persist :: "agent_store \<Rightarrow> disk_io \<Rightarrow> agent_record \<Rightarrow> disk \<Rightarrow> disk" where
  "persist st io r d = snd (write_manifest st (io (ar_id r)) r d)"

(* map: src/crates/caliban-supervisor/src/registry.rs 32-44 Registry::new *)
definition registry_new :: "agent_store \<Rightarrow> store_io \<Rightarrow> disk \<Rightarrow> registry" where
  "registry_new st io d =
     \<lparr>rg_by_id =
        (case store_list st io d of
           Ok rs \<Rightarrow> fold (\<lambda>r m. AList.update (ar_id r) r m) rs []
         | Err _ \<Rightarrow> []),
      rg_pids = [], rg_disk = d\<rparr>"

(* map: src/crates/caliban-supervisor/src/registry.rs 48-50 Registry::track_pid *)
definition track_pid :: "string \<Rightarrow> nat \<Rightarrow> registry \<Rightarrow> registry" where
  "track_pid aid pid g = g\<lparr>rg_pids := AList.update aid pid (rg_pids g)\<rparr>"

(* map: src/crates/caliban-supervisor/src/registry.rs 54-56 Registry::pid_of *)
definition pid_of :: "registry \<Rightarrow> string \<Rightarrow> nat option" where
  "pid_of g aid = map_of (rg_pids g) aid"

(* map: src/crates/caliban-supervisor/src/registry.rs 59-61 Registry::forget_pid *)
definition forget_pid :: "string \<Rightarrow> registry \<Rightarrow> registry" where
  "forget_pid aid g = g\<lparr>rg_pids := AList.delete aid (rg_pids g)\<rparr>"

(* map: src/crates/caliban-supervisor/src/registry.rs 64-68 Registry::list *)
definition registry_list :: "registry \<Rightarrow> agent_record list" where
  "registry_list g = sort_key ar_started_at (map snd (rg_by_id g))"

(* map: src/crates/caliban-supervisor/src/registry.rs 71-73 Registry::len *)
definition registry_len :: "registry \<Rightarrow> nat" where
  "registry_len g = length (rg_by_id g)"

(* map: src/crates/caliban-supervisor/src/registry.rs 81-83 Registry::get *)
definition agent_get :: "registry \<Rightarrow> string \<Rightarrow> agent_record option" where
  "agent_get g aid = map_of (rg_by_id g) aid"

text \<open>A record is written back to the map and to its manifest.\<close>

definition store_record :: "agent_store \<Rightarrow> disk_io \<Rightarrow> string \<Rightarrow> agent_record \<Rightarrow> registry \<Rightarrow> registry" where
  "store_record st io aid r g =
     g\<lparr>rg_by_id := AList.update aid r (rg_by_id g), rg_disk := persist st io r (rg_disk g)\<rparr>"

(* map: src/crates/caliban-supervisor/src/registry.rs 91-117 Registry::register *)
definition register_agent ::
  "agent_store \<Rightarrow> disk_io \<Rightarrow> string \<Rightarrow> string \<Rightarrow> spawn_spec \<Rightarrow> endpoint \<Rightarrow> path \<Rightarrow> registry \<Rightarrow>
   agent_record \<times> registry" where
  "register_agent st io new_id now spec ep wd g =
     (let r = \<lparr>ar_id = new_id,
               ar_name = unwrap_or (''agent-'' @ new_id) (sp_label spec),
               ar_status = Spawning,
               ar_started_at = now,
               ar_session_dir = session_dir st new_id,
               ar_endpoint = ep,
               ar_working_dir = wd,
               ar_spec = spec\<rparr>
      in (r, store_record st io new_id r g))"

(* map: src/crates/caliban-supervisor/src/registry.rs 122-137 Registry::set_status *)
definition set_status ::
  "agent_store \<Rightarrow> disk_io \<Rightarrow> string \<Rightarrow> agent_status \<Rightarrow> registry \<Rightarrow>
   (agent_record, supervisor_error) result \<times> registry" where
  "set_status st io aid s g =
     (case map_of (rg_by_id g) aid of
        None \<Rightarrow> (Err (AgentNotFound aid), g)
      | Some r \<Rightarrow> (let r' = r\<lparr>ar_status := s\<rparr> in (Ok r', store_record st io aid r' g)))"

(* map: src/crates/caliban-supervisor/src/registry.rs 145-161 Registry::set_status_if_running *)
definition set_status_if_running ::
  "agent_store \<Rightarrow> disk_io \<Rightarrow> string \<Rightarrow> agent_status \<Rightarrow> registry \<Rightarrow> bool \<times> registry" where
  "set_status_if_running st io aid s g =
     (case map_of (rg_by_id g) aid of
        None \<Rightarrow> (False, g)
      | Some r \<Rightarrow>
          if \<not> (ar_status r = Running \<or> ar_status r = Spawning \<or> ar_status r = Idle) then (False, g)
          else (True, store_record st io aid (r\<lparr>ar_status := s\<rparr>) g))"

(* map: src/crates/caliban-supervisor/src/registry.rs 167-182 Registry::report_status *)
definition report_status ::
  "agent_store \<Rightarrow> disk_io \<Rightarrow> string \<Rightarrow> agent_status \<Rightarrow> registry \<Rightarrow> bool \<times> registry" where
  "report_status st io aid s g =
     (case map_of (rg_by_id g) aid of
        None \<Rightarrow> (False, g)
      | Some r \<Rightarrow>
          (let cur_ok = ar_status r = Running \<or> ar_status r = Idle;
               to_ok = s = Running \<or> s = Idle
           in if \<not> cur_ok \<or> \<not> to_ok then (False, g)
              else (True, store_record st io aid (r\<lparr>ar_status := s\<rparr>) g)))"

(* map: src/crates/caliban-supervisor/src/registry.rs 187-211 Registry::remove *)
definition registry_remove ::
  "disk_io \<Rightarrow> string \<Rightarrow> bool \<Rightarrow> registry \<Rightarrow> (unit, supervisor_error) result \<times> registry" where
  "registry_remove io aid force g =
     (case map_of (rg_by_id g) aid of
        None \<Rightarrow> (Err (AgentNotFound aid), g)
      | Some r \<Rightarrow>
          (let stopped = ar_status r = Killed \<or> ar_status r = Done \<or> ar_status r = Failed \<or>
                         ar_status r = Crashed
           in if \<not> stopped \<and> \<not> force then (Err (InvalidState ''rm'' aid (ar_status r)), g)
              else (Ok (), g\<lparr>rg_by_id := AList.delete aid (rg_by_id g),
                             rg_pids := AList.delete aid (rg_pids g),
                             rg_disk := snd (remove_manifest (io aid) aid (rg_disk g))\<rparr>)))"

definition swept :: "agent_record \<Rightarrow> bool" where
  "swept r \<longleftrightarrow> ar_status r = Running \<or> ar_status r = Spawning"

definition crash :: "agent_record \<Rightarrow> agent_record" where
  "crash r = (if swept r then r\<lparr>ar_status := Crashed\<rparr> else r)"

text \<open>The first loop changes the records, the second writes the manifests of those it changed.\<close>

(* map: src/crates/caliban-supervisor/src/registry.rs 215-232 Registry::sweep_crashed *)
definition sweep_crashed :: "agent_store \<Rightarrow> disk_io \<Rightarrow> registry \<Rightarrow> string list \<times> registry" where
  "sweep_crashed st io g =
     (let out = map fst (filter (\<lambda>(aid, r). swept r) (rg_by_id g));
          m = map (\<lambda>(aid, r). (aid, crash r)) (rg_by_id g)
      in (out, g\<lparr>rg_by_id := m,
                rg_disk := fold (\<lambda>aid d. case map_of m aid of
                                            None \<Rightarrow> d
                                          | Some r \<Rightarrow> persist st io r d) out (rg_disk g)\<rparr>))"

text \<open>\<open>new_id\<close> over the bytes of a random UUID, of which it prints the first eight.\<close>

definition hex_digit :: "nat \<Rightarrow> char" where
  "hex_digit n = (if n < 10 then char_of (48 + n) else char_of (87 + n))"

definition hex_byte :: "u8 \<Rightarrow> string" where
  "hex_byte b = [hex_digit (unat b div 16), hex_digit (unat b mod 16)]"

(* map: src/crates/caliban-supervisor/src/registry.rs 237-250 new_id *)
definition new_id :: "u8 list \<Rightarrow> string" where
  "new_id uuid = take 12 (concat (map hex_byte (take 8 uuid)))"

end
