(* ===== verification/Transport.thy ===== *)
theory Transport
  imports Messages
begin

text \<open>
  What the HTTP adapters share (\<open>caliban-provider/src/transport.rs\<close>): the classification of
  a failed transfer, the rendering of its causes, the check of the status and the
  \<open>Retry-After\<close> hint. An error of the HTTP library is the record of its predicates and the
  chain of its messages, its own first.
\<close>

record http_error =
  he_connect :: bool
  he_timeout :: bool
  he_body :: bool
  he_decode :: bool
  he_text :: string
  he_causes :: "string list"

(* map: src/crates/caliban-provider/src/transport.rs 91-102 TransportErrorClass *)
datatype transport_class = ClassStreamInterrupted | ClassNetwork | ClassAdapter

(* map: src/crates/caliban-provider/src/transport.rs 112-125 classify_flags *)
definition classify_flags :: "bool \<Rightarrow> bool \<Rightarrow> bool \<Rightarrow> bool \<Rightarrow> transport_class" where
  "classify_flags is_connect is_timeout is_body is_decode =
     (if is_body \<or> is_decode then ClassStreamInterrupted
      else if is_connect \<or> is_timeout then ClassNetwork
      else ClassAdapter)"

(* map: src/crates/caliban-provider/src/transport.rs 157-178 classify_reqwest_error *)
definition classify_reqwest_error :: "http_error \<Rightarrow> transport_class" where
  "classify_reqwest_error e = classify_flags (he_connect e) (he_timeout e) (he_body e) (he_decode e)"

(* map: src/crates/caliban-provider/src/transport.rs 132-146 render_source_chain *)
definition render_source_chain :: "http_error \<Rightarrow> string" where
  "render_source_chain e =
     foldl (\<lambda>out msg. if strip_suffix msg out \<noteq> None then out else out @ '': '' @ msg) (he_text e) (he_causes e)"

text \<open>\<open>parse::<u64>()\<close>: digits, with at most one plus sign before them.\<close>

definition parse_u64 :: "string \<Rightarrow> nat option" where
  "parse_u64 s =
     (let ds = unwrap_or s (strip_prefix ''+'' s);
          n = foldl (\<lambda>n c. 10 * n + ((of_char c :: nat) - 48)) 0 ds
      in if ds = [] \<or> \<not> list_all is_ascii_digit ds \<or> n \<ge> 2 ^ 64 then None else Some n)"

text \<open>\<open>to_ascii_lowercase\<close>.\<close>

definition ascii_lower :: "char \<Rightarrow> char" where
  "ascii_lower c = (let n = (of_char c :: nat) in if 65 \<le> n \<and> n \<le> 90 then char_of (n + 32) else c)"

text \<open>\<open>HeaderValue::to_str\<close>: visible ASCII, spaces and tabs only.\<close>

definition header_text :: "string \<Rightarrow> string option" where
  "header_text raw =
     (if list_all (\<lambda>c. let n = (of_char c :: nat) in 32 \<le> n \<and> n < 127 \<or> n = 9) raw then Some raw else None)"

record http_response =
  hr_status :: nat
  hr_retry_after :: "string option"
  hr_body :: "string option"

(* map: src/crates/caliban-provider/src/transport.rs 38-46 BadResponse *)
record bad_response =
  br_status :: nat
  br_body :: string
  br_retry_after :: "nat option"

(* map: src/crates/caliban-provider/src/transport.rs 54-58 parse_retry_after *)
definition parse_retry_after :: "string option \<Rightarrow> nat option" where
  "parse_retry_after header =
     map_option (\<lambda>secs. 1000 * secs)
       (Option.bind (Option.bind header header_text) (\<lambda>raw. parse_u64 (trim raw)))"

(* map: src/crates/caliban-provider/src/transport.rs 71-87 check_status *)
definition check_status :: "http_response \<Rightarrow> (bad_response \<Rightarrow> 'e) \<Rightarrow> (http_response, 'e) result" where
  "check_status resp mk_err =
     (if 200 \<le> hr_status resp \<and> hr_status resp < 300 then Ok resp
      else Err (mk_err
        \<lparr>br_status = hr_status resp, br_body = unwrap_or [] (hr_body resp),
         br_retry_after = parse_retry_after (hr_retry_after resp)\<rparr>))"

text \<open>
  The frames of a stream of server-sent events: the data of an event, a failure of the
  transport, a frame that is not an event.
\<close>

datatype sse_item = SseData string | SseTransport string | SseBroken string

end
