(* ===== verification/Supervisor.thy ===== *)
theory Supervisor
  imports AgentRegistry Transport
begin

text \<open>
  The daemon of background agents (\<open>caliban-supervisor/src/server.rs\<close> and
  \<open>sources.rs\<close>). A request is served by \<open>dispatch\<close>; what a handler does under one hold of
  the registry's lock is one step, and what it still has to do after giving the lock back is a
  task of the server: a launch on the blocking pool, a worker that is waited for, a respawn
  between its two critical sections. The tasks advance in any order. What lies outside (the
  file system that holds the sources, git worktrees, the launcher, the clock, the workers) is
  given per step by \<open>step_env\<close> or by the step itself.
\<close>

section \<open>Sources\<close>

record source_fs =
  sf_exists :: "path \<Rightarrow> bool"
  sf_is_dir :: "path \<Rightarrow> bool"
  sf_read_dir :: "path \<Rightarrow> string list option"

(* map: src/crates/caliban-supervisor/src/sources.rs 11-16 Source *)
record source =
  so_name :: string
  so_path :: path

(* map: src/crates/caliban-supervisor/src/sources.rs 18-20 is_checkout *)
definition is_checkout :: "source_fs \<Rightarrow> path \<Rightarrow> bool" where
  "is_checkout fs dir = sf_exists fs (path_join dir [Normal ''.git''])"

text \<open>\<open>Path::file_name\<close>, as text.\<close>

definition file_name_str :: "path \<Rightarrow> string option" where
  "file_name_str p =
     (if p = [] then None
      else (case last p of Normal n \<Rightarrow> if utf8_ok n then Some n else None | _ \<Rightarrow> None))"

text \<open>\<open>dedup_by\<close> on the names: of equal neighbours the first stays.\<close>

fun dedup_names :: "source list \<Rightarrow> source list" where
  "dedup_names [] = []"
| "dedup_names [s] = [s]"
| "dedup_names (s # t # r) =
     (if so_name t = so_name s then dedup_names (s # r) else s # dedup_names (t # r))"

definition entry_source :: "source_fs \<Rightarrow> path \<Rightarrow> string \<Rightarrow> source option" where
  "entry_source fs root name =
     (let p = path_join root [Normal name]
      in if sf_is_dir fs p \<and> is_checkout fs p \<and> utf8_ok name
         then Some \<lparr>so_name = name, so_path = p\<rparr> else None)"

(* map: src/crates/caliban-supervisor/src/sources.rs 24-52 discover_sources *)
definition discover_sources :: "source_fs \<Rightarrow> path \<Rightarrow> source list" where
  "discover_sources fs root =
     (let own = (if is_checkout fs root
                 then (case file_name_str root of Some n \<Rightarrow> [\<lparr>so_name = n, so_path = root\<rparr>] | None \<Rightarrow> [])
                 else []);
          below = (case sf_read_dir fs root of
                     None \<Rightarrow> []
                   | Some names \<Rightarrow> List.map_filter (entry_source fs root) names)
      in dedup_names (sort_key so_name (own @ below)))"

(* map: src/crates/caliban-supervisor/src/sources.rs 56-80 resolve_source *)
definition resolve_source :: "source_fs \<Rightarrow> path \<Rightarrow> string option \<Rightarrow> (path, string) result" where
  "resolve_source fs root src =
     (case src of
        None \<Rightarrow> Ok root
      | Some name \<Rightarrow>
          if name = [] \<or> CHR ''/'' \<in> set name \<or> CHR 0x5C \<in> set name \<or> str_contains ''..'' name
          then Err (''invalid source name: '' @ name)
          else (case find (\<lambda>s. so_name s = name) (discover_sources fs root) of
                  Some s \<Rightarrow> Ok (so_path s)
                | None \<Rightarrow>
                    (let candidate = path_join root (components name)
                     in if sf_exists fs candidate then Ok candidate
                        else Err (''no such source: '' @ name))))"

section \<open>Requests and replies\<close>

(* map: src/crates/caliban-contract/src/wire.rs 241-283 CtlRequest *)
datatype ctl_request =
  ListAgents
| Spawn spawn_spec
| Attach string
| Kill string
| Respawn string
| Rm string bool
| StatusRequest
| Shutdown
| Drain nat
| ReportStatus string agent_status

(* map: src/crates/caliban-contract/src/wire.rs 100-109 DaemonStatus *)
record daemon_status =
  ds_pid :: u32
  ds_agents :: u32
  ds_uptime_secs :: nat
  ds_endpoint :: endpoint

(* map: src/crates/caliban-contract/src/wire.rs 231-236 DrainedAgent *)
record drained_agent =
  da_id :: string
  da_session_dir :: path

(* map: src/crates/caliban-contract/src/wire.rs 286-327 CtlReply *)
datatype ctl_reply =
  Listed "agent_record list"
| Spawned string endpoint
| AttachAck endpoint
| KillAck
| Respawned string
| Removed
| StatusReply daemon_status
| ShutdownAck
| DrainedReply "drained_agent list"
| StatusReported
| ErrorReply supervisor_error

section \<open>The daemon\<close>

(* map: src/crates/caliban-supervisor/src/server.rs 43-53 NetworkConfig *)
record network_config =
  nc_advertise_host :: string
  nc_agent_port_base :: "16 word"

text \<open>
  What does not change while the daemon runs. \<open>su_uuid\<close> gives the bytes of the random UUIDs
  that become ids; \<open>su_keep\<close> is the variable \<open>CALIBAN_KEEP_WORKTREES\<close>.
\<close>

record supervisor =
  su_endpoint :: endpoint
  su_network :: "network_config option"
  su_store :: agent_store
  su_agent_runtime_dir :: path
  su_workspace_root :: path
  su_uuid :: "nat \<Rightarrow> u8 list"
  su_keep :: "string option"

text \<open>A worktree to remove: the source it belongs to and its name.\<close>

type_synonym worktree = "path \<times> string"

text \<open>
  What a handler has left to do: \<open>Superseding\<close> is a respawn that has read the old spec,
  \<open>Launching\<close> and \<open>Launched\<close> are before and after the launcher's work, \<open>Monitoring\<close> waits
  for the worker, \<open>Reaped\<close> has its exit and is about to take the lock.
\<close>

datatype task =
  Superseding string spawn_spec
| Launching agent_record "worktree option" ctl_reply
| Launched agent_record "worktree option" ctl_reply nat
| Monitoring string nat "path option" "worktree option"
| Reaped string nat "path option" "worktree option" bool

text \<open>
  The state, with what the daemon has done to its surroundings so far: the pids it signalled,
  the worktrees it made and asked to remove, the sockets it unlinked.
\<close>

(* map: src/crates/caliban-supervisor/src/server.rs 57-87 Supervisor *)
record server =
  sv_registry :: registry
  sv_next_agent_port :: u32
  sv_cancelled :: bool
  sv_drawn :: nat
  sv_tasks :: "task list"
  sv_signals :: "nat list"
  sv_made :: "worktree list"
  sv_removed :: "worktree list"
  sv_unlinked :: "path list"

record step_env =
  en_fs :: source_fs
  en_worktree :: "path \<Rightarrow> string \<Rightarrow> (path \<times> string, string) result"
  en_simple :: string
  en_socket :: string
  en_io :: disk_io
  en_now :: string
  en_pid :: u32
  en_uptime :: nat

text \<open>\<open>serve\<close> up to its loop: the manifests are loaded and swept.\<close>

(* map: src/crates/caliban-supervisor/src/server.rs 131-155 Supervisor::with_bind *)
definition with_bind :: "supervisor \<Rightarrow> store_io \<Rightarrow> disk \<Rightarrow> server" where
  "with_bind su io d =
     \<lparr>sv_registry = registry_new (su_store su) io d, sv_next_agent_port = 0, sv_cancelled = False,
      sv_drawn = 0, sv_tasks = [], sv_signals = [], sv_made = [], sv_removed = [], sv_unlinked = []\<rparr>"

(* map: src/crates/caliban-supervisor/src/server.rs 257-263 Supervisor::serve *)
definition serve_start :: "supervisor \<Rightarrow> disk_io \<Rightarrow> server \<Rightarrow> server" where
  "serve_start su io sv = sv\<lparr>sv_registry := snd (sweep_crashed (su_store su) io (sv_registry sv))\<rparr>"

section \<open>Endpoints and worktrees\<close>

(* map: src/crates/caliban-supervisor/src/server.rs 216-237 Supervisor::next_endpoint *)
definition next_endpoint ::
  "supervisor \<Rightarrow> string \<Rightarrow> u32 \<Rightarrow> (endpoint, supervisor_error) result \<times> u32" where
  "next_endpoint su uuid next_port =
     (case su_network su of
        None \<Rightarrow>
          (Ok (Unix (path_join (su_agent_runtime_dir su) (components (take 8 uuid @ ''-agent.sock'')))),
           next_port)
      | Some net \<Rightarrow>
          (let port = (ucast (nc_agent_port_base net) :: u32) + next_port
           in if port > 65535 then (Err (Internal ''agent port range exhausted''), next_port + 1)
              else (Ok (Tcp (nc_advertise_host net @ '':'' @ nat_str (unat port))), next_port + 1)))"

(* map: src/crates/caliban-supervisor/src/server.rs 731-736 keep_worktrees_requested *)
definition keep_worktrees_requested :: "string option \<Rightarrow> bool" where
  "keep_worktrees_requested raw =
     (case raw of
        None \<Rightarrow> False
      | Some v \<Rightarrow> map ascii_lower (trim v) \<in> {''1'', ''true'', ''yes'', ''on''})"

(* map: src/crates/caliban-supervisor/src/server.rs 746-772 cleanup_worktree, cleanup_worktree_inner *)
definition cleanup_worktree :: "supervisor \<Rightarrow> worktree option \<Rightarrow> server \<Rightarrow> server" where
  "cleanup_worktree su wt sv =
     (if keep_worktrees_requested (su_keep su) then sv
      else (case wt of None \<Rightarrow> sv | Some w \<Rightarrow> sv\<lparr>sv_removed := sv_removed sv @ [w]\<rparr>))"

text \<open>
  What \<open>Spawn\<close> and \<open>Respawn\<close> share, word for word: the source, the worktree, then the endpoint.
  None of it reads the registry.
\<close>

(* map: src/crates/caliban-supervisor/src/server.rs 474-524 Supervisor::dispatch *)
definition prepare ::
  "supervisor \<Rightarrow> step_env \<Rightarrow> spawn_spec \<Rightarrow> server \<Rightarrow>
   (path \<times> worktree option \<times> endpoint, supervisor_error) result \<times> server" where
  "prepare su env spec sv =
     (case resolve_source (en_fs env) (su_workspace_root su) (sp_source spec) of
        Err e \<Rightarrow> (Err (Internal (''source resolve: '' @ e)), sv)
      | Ok source_dir \<Rightarrow>
          (case (if sp_isolation_worktree spec
                 then (case en_worktree env source_dir (en_simple env) of
                         Err e \<Rightarrow> Err e
                       | Ok (p, name) \<Rightarrow>
                           Ok (p, Some (source_dir, name), sv\<lparr>sv_made := sv_made sv @ [(source_dir, name)]\<rparr>))
                 else Ok (source_dir, None, sv)) of
             Err e \<Rightarrow> (Err (Internal (''worktree create: '' @ e)), sv)
           | Ok (working_dir, cleanup, sv1) \<Rightarrow>
               (case next_endpoint su (en_socket env) (sv_next_agent_port sv1) of
                  (Err e, port) \<Rightarrow> (Err e, cleanup_worktree su cleanup (sv1\<lparr>sv_next_agent_port := port\<rparr>))
                | (Ok ep, port) \<Rightarrow> (Ok (working_dir, cleanup, ep), sv1\<lparr>sv_next_agent_port := port\<rparr>))))"

section \<open>Requests\<close>

(* map: src/crates/caliban-supervisor/src/server.rs 453-458 Supervisor::signal_worker *)
definition signal_worker :: "string \<Rightarrow> server \<Rightarrow> server" where
  "signal_worker aid sv =
     (case pid_of (sv_registry sv) aid of
        None \<Rightarrow> sv
      | Some pid \<Rightarrow> sv\<lparr>sv_signals := sv_signals sv @ [pid]\<rparr>)"

text \<open>A new record, and the task of launching its worker; the reply is sent after the launch.\<close>

definition register_and_launch ::
  "supervisor \<Rightarrow> step_env \<Rightarrow> spawn_spec \<Rightarrow> path \<Rightarrow> worktree option \<Rightarrow> endpoint \<Rightarrow>
   (agent_record \<Rightarrow> ctl_reply) \<Rightarrow> server \<Rightarrow> server" where
  "register_and_launch su env spec working_dir cleanup ep reply_of sv =
     (let (r, g) = register_agent (su_store su) (en_io env) (new_id (su_uuid su (sv_drawn sv))) (en_now env)
                     spec ep working_dir (sv_registry sv)
      in sv\<lparr>sv_registry := g, sv_drawn := Suc (sv_drawn sv),
            sv_tasks := sv_tasks sv @ [Launching r cleanup (reply_of r)]\<rparr>)"

(* map: src/crates/caliban-supervisor/src/server.rs 467-535 Supervisor::dispatch *)
definition spawn_agent :: "supervisor \<Rightarrow> step_env \<Rightarrow> spawn_spec \<Rightarrow> server \<Rightarrow> server \<times> ctl_reply option" where
  "spawn_agent su env spec sv =
     (case prepare su env spec sv of
        (Err e, sv1) \<Rightarrow> (sv1, Some (ErrorReply e))
      | (Ok (working_dir, cleanup, ep), sv1) \<Rightarrow>
          (register_and_launch su env spec working_dir cleanup ep (\<lambda>r. Spawned (ar_id r) (ar_endpoint r)) sv1,
           None))"

(* map: src/crates/caliban-supervisor/src/server.rs 547-565 Supervisor::dispatch *)
definition kill_agent :: "supervisor \<Rightarrow> step_env \<Rightarrow> string \<Rightarrow> server \<Rightarrow> server \<times> ctl_reply option" where
  "kill_agent su env aid sv =
     (let sv1 = signal_worker aid sv;
          (res, g) = set_status (su_store su) (en_io env) aid Killed (sv_registry sv1)
      in (sv1\<lparr>sv_registry := g\<rparr>,
          Some (case res of Ok _ \<Rightarrow> KillAck | Err e \<Rightarrow> ErrorReply e)))"

text \<open>The first critical section of a respawn; the second follows as a task.\<close>

(* map: src/crates/caliban-supervisor/src/server.rs 566-587 Supervisor::dispatch *)
definition respawn_agent :: "string \<Rightarrow> server \<Rightarrow> server \<times> ctl_reply option" where
  "respawn_agent aid sv =
     (case agent_get (sv_registry sv) aid of
        None \<Rightarrow> (sv, Some (ErrorReply (AgentNotFound aid)))
      | Some r \<Rightarrow> (sv\<lparr>sv_tasks := sv_tasks sv @ [Superseding aid (ar_spec r)]\<rparr>, None))"

(* map: src/crates/caliban-supervisor/src/server.rs 588-655 Supervisor::dispatch *)
definition supersede ::
  "supervisor \<Rightarrow> step_env \<Rightarrow> string \<Rightarrow> spawn_spec \<Rightarrow> server \<Rightarrow> server \<times> ctl_reply option" where
  "supersede su env aid old_spec sv =
     (case prepare su env old_spec sv of
        (Err e, sv1) \<Rightarrow> (sv1, Some (ErrorReply e))
      | (Ok (working_dir, cleanup, ep), sv1) \<Rightarrow>
          (case registry_remove (en_io env) aid True (sv_registry sv1) of
             (Err e, g) \<Rightarrow>
               (cleanup_worktree su cleanup (sv1\<lparr>sv_registry := g\<rparr>), Some (ErrorReply e))
           | (Ok _, g) \<Rightarrow>
               (register_and_launch su env old_spec working_dir cleanup ep (\<lambda>r. Respawned (ar_id r))
                  (sv1\<lparr>sv_registry := g\<rparr>),
                None)))"

(* map: src/crates/caliban-supervisor/src/server.rs 656-675 Supervisor::dispatch *)
definition rm_agent :: "step_env \<Rightarrow> string \<Rightarrow> bool \<Rightarrow> server \<Rightarrow> server \<times> ctl_reply option" where
  "rm_agent env aid force sv =
     (let sv1 = (if force then signal_worker aid sv else sv);
          (res, g) = registry_remove (en_io env) aid force (sv_registry sv1)
      in (sv1\<lparr>sv_registry := g\<rparr>, Some (case res of Ok _ \<Rightarrow> Removed | Err e \<Rightarrow> ErrorReply e)))"

text \<open>The loop over the live agents.\<close>

(* map: src/crates/caliban-supervisor/src/server.rs 699-712 Supervisor::dispatch *)
fun drain_loop :: "supervisor \<Rightarrow> step_env \<Rightarrow> agent_record list \<Rightarrow> server \<Rightarrow> server \<times> drained_agent list" where
  "drain_loop su env [] sv = (sv, [])"
| "drain_loop su env (r # rs) sv =
     (let sv1 = signal_worker (ar_id r) sv;
          g = snd (set_status (su_store su) (en_io env) (ar_id r) Drained (sv_registry sv1));
          (sv2, out) = drain_loop su env rs (sv1\<lparr>sv_registry := g\<rparr>)
      in (sv2, \<lparr>da_id = ar_id r, da_session_dir = ar_session_dir r\<rparr> # out))"

(* map: src/crates/caliban-supervisor/src/server.rs 676-720 Supervisor::dispatch *)
definition drain_agents :: "supervisor \<Rightarrow> step_env \<Rightarrow> server \<Rightarrow> server \<times> ctl_reply option" where
  "drain_agents su env sv =
     (let (sv1, out) = drain_loop su env (filter (\<lambda>r. live (ar_status r)) (registry_list (sv_registry sv))) sv
      in (sv1, Some (DrainedReply out)))"

(* map: src/crates/caliban-supervisor/src/server.rs 461-728 Supervisor::dispatch *)
fun dispatch :: "supervisor \<Rightarrow> step_env \<Rightarrow> ctl_request \<Rightarrow> server \<Rightarrow> server \<times> ctl_reply option" where
  "dispatch su env ListAgents sv = (sv, Some (Listed (registry_list (sv_registry sv))))"
| "dispatch su env (Spawn spec) sv = spawn_agent su env spec sv"
| "dispatch su env (Attach aid) sv =
     (sv, Some (case agent_get (sv_registry sv) aid of
                  Some r \<Rightarrow> AttachAck (ar_endpoint r)
                | None \<Rightarrow> ErrorReply (AgentNotFound aid)))"
| "dispatch su env (Kill aid) sv = kill_agent su env aid sv"
| "dispatch su env (Respawn aid) sv = respawn_agent aid sv"
| "dispatch su env (Rm aid force) sv = rm_agent env aid force sv"
| "dispatch su env StatusRequest sv =
     (sv, Some (StatusReply \<lparr>ds_pid = en_pid env, ds_agents = of_nat (registry_len (sv_registry sv)),
                             ds_uptime_secs = en_uptime env, ds_endpoint = su_endpoint su\<rparr>))"
| "dispatch su env Shutdown sv = (sv, Some ShutdownAck)"
| "dispatch su env (Drain grace) sv = drain_agents su env sv"
| "dispatch su env (ReportStatus aid s) sv =
     (sv\<lparr>sv_registry := snd (report_status (su_store su) (en_io env) aid s (sv_registry sv))\<rparr>,
      Some StatusReported)"

text \<open>One line of a client: what dispatch answers, and the shutdown it may announce.\<close>

(* map: src/crates/caliban-supervisor/src/server.rs 351-357 Supervisor::handle_client *)
definition handle_request :: "supervisor \<Rightarrow> step_env \<Rightarrow> ctl_request \<Rightarrow> server \<Rightarrow> server \<times> ctl_reply option" where
  "handle_request su env req sv =
     (let (sv1, reply) = dispatch su env req sv
      in (if reply = Some ShutdownAck then sv1\<lparr>sv_cancelled := True\<rparr> else sv1, reply))"

section \<open>Workers\<close>

text \<open>The branches of \<open>launch_and_monitor\<close>, and the monitor's critical section.\<close>

(* map: src/crates/caliban-supervisor/src/server.rs 389-405 Supervisor::launch_and_monitor *)
definition track_worker ::
  "supervisor \<Rightarrow> step_env \<Rightarrow> agent_record \<Rightarrow> worktree option \<Rightarrow> nat \<Rightarrow> server \<Rightarrow> server \<times> task" where
  "track_worker su env r wt pid sv =
     (let g = track_pid (ar_id r) pid (sv_registry sv);
          g = snd (set_status_if_running (su_store su) (en_io env) (ar_id r) Running g)
      in (sv\<lparr>sv_registry := g\<rparr>, Monitoring (ar_id r) pid (unix_socket_path r) wt))"

(* map: src/crates/caliban-supervisor/src/server.rs 444-454 Supervisor::launch_and_monitor *)
definition launch_failed :: "supervisor \<Rightarrow> step_env \<Rightarrow> agent_record \<Rightarrow> worktree option \<Rightarrow> server \<Rightarrow> server" where
  "launch_failed su env r wt sv =
     cleanup_worktree su wt
       (sv\<lparr>sv_registry := snd (set_status (su_store su) (en_io env) (ar_id r) Failed (sv_registry sv))\<rparr>)"

(* map: src/crates/caliban-supervisor/src/server.rs 409-442 Supervisor::launch_and_monitor *)
definition finish_worker ::
  "supervisor \<Rightarrow> step_env \<Rightarrow> string \<Rightarrow> path option \<Rightarrow> worktree option \<Rightarrow> bool \<Rightarrow> server \<Rightarrow> server" where
  "finish_worker su env aid sock wt success sv =
     (let outcome = (if success then Done else Failed);
          g = snd (set_status_if_running (su_store su) (en_io env) aid outcome (sv_registry sv));
          g = forget_pid aid g;
          sv1 = sv\<lparr>sv_registry := g\<rparr>;
          sv2 = (case sock of None \<Rightarrow> sv1 | Some p \<Rightarrow> sv1\<lparr>sv_unlinked := sv_unlinked sv1 @ [p]\<rparr>)
      in cleanup_worktree su wt sv2)"

end
