(* ===== verification/SupervisorRuns.thy ===== *)
theory SupervisorRuns
  imports Supervisor "HOL-Library.Multiset"
begin

text \<open>
  The daemon as a transition system: a request is served, or one of the tasks advances. The
  runs interleave them in any order. What holds of every reachable state is shown by
  preservation, step by step: which pid is tracked, which task attends to an agent that is
  live, what became of the worktrees, which manifests lie on the disk.
\<close>

section \<open>Steps\<close>

definition remove_task :: "nat \<Rightarrow> 'a list \<Rightarrow> 'a list" where
  "remove_task i ts = take i ts @ drop (Suc i) ts"

text \<open>A new process gets a pid that no process has that is still running or not yet waited for.\<close>

fun holds_pid :: "nat \<Rightarrow> task \<Rightarrow> bool" where
  "holds_pid pid (Launched _ _ _ p) = (p = pid)"
| "holds_pid pid (Monitoring _ p _ _) = (p = pid)"
| "holds_pid pid _ = False"

datatype sup_event =
  Request ctl_request
| Supersede nat
| LaunchOk nat nat
| LaunchErr nat
| Track nat
| WorkerExit nat bool
| Finish nat

inductive sup_step ::
  "supervisor \<Rightarrow> server \<Rightarrow> sup_event \<Rightarrow> step_env \<Rightarrow> ctl_reply option \<Rightarrow> server \<Rightarrow> bool" for su where
  request: "handle_request su env req sv = (sv', reply) \<Longrightarrow>
     sup_step su sv (Request req) env reply sv'"
| supersede: "i < length (sv_tasks sv) \<Longrightarrow> sv_tasks sv ! i = Superseding aid spec \<Longrightarrow>
     supersede su env aid spec (sv\<lparr>sv_tasks := remove_task i (sv_tasks sv)\<rparr>) = (sv', reply) \<Longrightarrow>
     sup_step su sv (Supersede i) env reply sv'"
| launch_ok: "i < length (sv_tasks sv) \<Longrightarrow> sv_tasks sv ! i = Launching r wt late \<Longrightarrow>
     \<not> list_ex (holds_pid pid) (sv_tasks sv) \<Longrightarrow>
     sup_step su sv (LaunchOk i pid) env None
       (sv\<lparr>sv_tasks := (sv_tasks sv)[i := Launched r wt late pid]\<rparr>)"
| launch_err: "i < length (sv_tasks sv) \<Longrightarrow> sv_tasks sv ! i = Launching r wt late \<Longrightarrow>
     sup_step su sv (LaunchErr i) env (Some late)
       (launch_failed su env r wt (sv\<lparr>sv_tasks := remove_task i (sv_tasks sv)\<rparr>))"
| track: "i < length (sv_tasks sv) \<Longrightarrow> sv_tasks sv ! i = Launched r wt late pid \<Longrightarrow>
     track_worker su env r wt pid sv = (sv1, t) \<Longrightarrow>
     sup_step su sv (Track i) env (Some late) (sv1\<lparr>sv_tasks := (sv_tasks sv)[i := t]\<rparr>)"
| worker_exit: "i < length (sv_tasks sv) \<Longrightarrow> sv_tasks sv ! i = Monitoring aid pid sock wt \<Longrightarrow>
     sup_step su sv (WorkerExit i ok) env None
       (sv\<lparr>sv_tasks := (sv_tasks sv)[i := Reaped aid pid sock wt ok]\<rparr>)"
| finish: "i < length (sv_tasks sv) \<Longrightarrow> sv_tasks sv ! i = Reaped aid pid sock wt ok \<Longrightarrow>
     sup_step su sv (Finish i) env None
       (finish_worker su env aid sock wt ok (sv\<lparr>sv_tasks := remove_task i (sv_tasks sv)\<rparr>))"

inductive_cases sup_stepE: "sup_step su sv ev env reply sv'"
inductive_cases request_stepE: "sup_step su sv (Request req) env reply sv'"

text \<open>The runs in which every step finds surroundings that satisfy \<open>ok\<close>.\<close>

inductive sup_run :: "supervisor \<Rightarrow> (step_env \<Rightarrow> bool) \<Rightarrow> server \<Rightarrow> server \<Rightarrow> bool" for su ok where
  here: "sup_run su ok sv sv"
| there: "sup_run su ok sv sv1 \<Longrightarrow> sup_step su sv1 ev env reply sv2 \<Longrightarrow> ok env \<Longrightarrow> sup_run su ok sv sv2"

text \<open>The state in which the daemon opens its socket, given what is on the disk.\<close>

definition boot :: "supervisor \<Rightarrow> store_io \<Rightarrow> disk_io \<Rightarrow> disk \<Rightarrow> server" where
  "boot su io sweep_io d = serve_start su sweep_io (with_bind su io d)"

text \<open>An invariant of the steps is one of the runs.\<close>

lemma run_invariant:
  assumes "sup_run su ok sv sv'" "P sv"
    and "\<And>sv1 ev env reply sv2. P sv1 \<Longrightarrow> sup_step su sv1 ev env reply sv2 \<Longrightarrow> ok env \<Longrightarrow> P sv2"
  shows "P sv'"
  using assms(1,2) by (induction rule: sup_run.induct) (auto intro: assms(3))

section \<open>Tasks\<close>

lemma set_remove_task: "i < length ts \<Longrightarrow> set ts = insert (ts ! i) (set (remove_task i ts))"
  unfolding remove_task_def by (subst (1) id_take_nth_drop [of i ts]) auto

lemma remove_task_subset: "t \<in> set (remove_task i ts) \<Longrightarrow> t \<in> set ts"
  by (auto simp: remove_task_def dest: in_set_takeD in_set_dropD)

lemma mset_remove_task: "i < length ts \<Longrightarrow> mset ts = add_mset (ts ! i) (mset (remove_task i ts))"
  unfolding remove_task_def by (subst (1) id_take_nth_drop [of i ts]) auto

lemma set_update_task:
  "i < length ts \<Longrightarrow> set (ts[i := t]) = insert t (set (remove_task i ts))"
  by (simp add: upd_conv_take_nth_drop remove_task_def)

section \<open>What the operations touch\<close>

named_theorems sup_frame \<open>the fields that an operation leaves alone\<close>

lemma store_record_simps [simp]:
  "rg_by_id (store_record st io aid r g) = AList.update aid r (rg_by_id g)"
  "rg_pids (store_record st io aid r g) = rg_pids g"
  "rg_disk (store_record st io aid r g) = persist st io r (rg_disk g)"
  by (simp_all add: store_record_def)

lemma pids_frame [sup_frame]:
  "rg_pids (snd (set_status st io aid s g)) = rg_pids g"
  "rg_pids (snd (set_status_if_running st io aid s g)) = rg_pids g"
  "rg_pids (snd (report_status st io aid s g)) = rg_pids g"
  "rg_pids (snd (register_agent st io nid now spec ep wd g)) = rg_pids g"
  by (auto simp: set_status_def set_status_if_running_def report_status_def register_agent_def Let_def
      split: option.splits)

lemma records_frame [sup_frame]:
  "rg_by_id (track_pid aid pid g) = rg_by_id g"
  "rg_by_id (forget_pid aid g) = rg_by_id g"
  by (simp_all add: track_pid_def forget_pid_def)

lemma signal_frame [sup_frame]:
  "sv_registry (signal_worker aid sv) = sv_registry sv"
  "sv_tasks (signal_worker aid sv) = sv_tasks sv"
  "sv_drawn (signal_worker aid sv) = sv_drawn sv"
  "sv_made (signal_worker aid sv) = sv_made sv"
  "sv_removed (signal_worker aid sv) = sv_removed sv"
  by (auto simp: signal_worker_def split: option.splits)

lemma cleanup_frame [sup_frame]:
  "sv_registry (cleanup_worktree su wt sv) = sv_registry sv"
  "sv_tasks (cleanup_worktree su wt sv) = sv_tasks sv"
  "sv_drawn (cleanup_worktree su wt sv) = sv_drawn sv"
  "sv_signals (cleanup_worktree su wt sv) = sv_signals sv"
  "sv_made (cleanup_worktree su wt sv) = sv_made sv"
  by (auto simp: cleanup_worktree_def split: option.splits)

lemma prepare_frame [sup_frame]:
  "sv_registry (snd (prepare su env spec sv)) = sv_registry sv"
  "sv_tasks (snd (prepare su env spec sv)) = sv_tasks sv"
  "sv_drawn (snd (prepare su env spec sv)) = sv_drawn sv"
  "sv_signals (snd (prepare su env spec sv)) = sv_signals sv"
  by (auto simp: prepare_def sup_frame split: result.splits prod.splits)

section \<open>Records\<close>

abbreviation record_of :: "server \<Rightarrow> string \<Rightarrow> agent_record option" where
  "record_of sv aid \<equiv> map_of (rg_by_id (sv_registry sv)) aid"

text \<open>The map is one: every id stands once, with the record of that id.\<close>

definition keyed :: "registry \<Rightarrow> bool" where
  "keyed g \<longleftrightarrow>
     distinct (map fst (rg_by_id g)) \<and> (\<forall>k r. map_of (rg_by_id g) k = Some r \<longrightarrow> ar_id r = k)"

lemma keyed_same: "rg_by_id g' = rg_by_id g \<Longrightarrow> keyed g' = keyed g"
  by (simp add: keyed_def)

lemma keyed_id: "keyed g \<Longrightarrow> map_of (rg_by_id g) k = Some r \<Longrightarrow> ar_id r = k"
  by (simp add: keyed_def)

lemma keyed_store: "keyed g \<Longrightarrow> ar_id r = k \<Longrightarrow> keyed (store_record st io k r g)"
  by (auto simp: keyed_def distinct_update update_conv')

lemma keyed_delete: "keyed g \<Longrightarrow> rg_by_id g' = AList.delete k (rg_by_id g) \<Longrightarrow> keyed g'"
  by (auto simp: keyed_def distinct_delete delete_conv' split: if_splits)

lemma keyed_ops [sup_frame]:
  assumes "keyed g"
  shows "keyed (snd (set_status st io aid s g))"
    and "keyed (snd (set_status_if_running st io aid s g))"
    and "keyed (snd (report_status st io aid s g))"
    and "keyed (snd (register_agent st io nid now spec ep wd g))"
    and "keyed (snd (registry_remove dio aid force g))"
  using assms keyed_id [OF assms] keyed_delete [OF assms]
  by (auto simp: set_status_def set_status_if_running_def report_status_def register_agent_def
      registry_remove_def Let_def keyed_store split: option.splits)

text \<open>What a lookup finds after each operation.\<close>

lemma lookup_set_status:
  "map_of (rg_by_id (snd (set_status st io aid s g))) k =
     (if k = aid then map_option (\<lambda>r. r\<lparr>ar_status := s\<rparr>) (map_of (rg_by_id g) k)
      else map_of (rg_by_id g) k)"
  by (auto simp: set_status_def Let_def update_conv' split: option.splits)

lemma lookup_set_status_if_running:
  "map_of (rg_by_id (snd (set_status_if_running st io aid s g))) k =
     (if k = aid
      then map_option (\<lambda>r. if live (ar_status r) then r\<lparr>ar_status := s\<rparr> else r) (map_of (rg_by_id g) k)
      else map_of (rg_by_id g) k)"
proof -
  have live_iff: "live x \<longleftrightarrow> x = Running \<or> x = Spawning \<or> x = Idle" for x by (cases x) auto
  show ?thesis
    by (auto simp: set_status_if_running_def Let_def update_conv' live_iff split: option.splits)
qed

lemma lookup_report_status:
  "map_of (rg_by_id (snd (report_status st io aid s g))) k =
     (if k = aid
      then map_option (\<lambda>r. if ar_status r \<in> {Running, Idle} \<and> s \<in> {Running, Idle}
                           then r\<lparr>ar_status := s\<rparr> else r) (map_of (rg_by_id g) k)
      else map_of (rg_by_id g) k)"
  by (auto simp: report_status_def Let_def update_conv' split: option.splits)

lemma lookup_register:
  "map_of (rg_by_id (snd (register_agent st io nid now spec ep wd g))) k =
     (if k = nid then Some (fst (register_agent st io nid now spec ep wd g)) else map_of (rg_by_id g) k)"
  by (auto simp: register_agent_def Let_def update_conv')

lemma lookup_remove:
  "registry_remove io aid force g = (res, g') \<Longrightarrow>
   map_of (rg_by_id g') k = (if k = aid \<and> is_ok res then None else map_of (rg_by_id g) k)"
  by (auto simp: registry_remove_def Let_def delete_conv' split: option.splits if_splits)

lemmas lookups = lookup_set_status lookup_set_status_if_running lookup_report_status lookup_register

section \<open>The life of an agent\<close>

text \<open>
  The abstract machine of one agent: how its status may change. A terminal status never
  becomes live again; it may only be overwritten by a kill, or by a launch that failed.
\<close>

definition lifecycle :: "agent_status \<Rightarrow> agent_status \<Rightarrow> bool" where
  "lifecycle s s' \<longleftrightarrow>
     s' = s \<or> s' = Killed \<or> s' = Failed \<or>
     live s \<and> s' \<in> {Running, Drained, Done} \<or>
     s \<in> {Running, Idle} \<and> s' \<in> {Running, Idle}"

lemma lifecycle_live: "lifecycle s s' \<Longrightarrow> live s' \<Longrightarrow> live s"
  by (cases s) (auto simp: lifecycle_def)

text \<open>The id that the next registration draws.\<close>

definition next_id :: "supervisor \<Rightarrow> server \<Rightarrow> string" where
  "next_id su sv = new_id (su_uuid su (sv_drawn sv))"

fun attends :: "string \<Rightarrow> task \<Rightarrow> bool" where
  "attends aid (Launching r _ _) = (ar_id r = aid)"
| "attends aid (Launched r _ _ _) = (ar_id r = aid)"
| "attends aid (Monitoring k _ _ _) = (k = aid)"
| "attends aid (Reaped k _ _ _ _) = (k = aid)"
| "attends aid (Superseding _ _) = False"

text \<open>
  What a step may do to one record: keep it but for its status, which moves along the life
  cycle; drop it; or, under the id just drawn, start it with a task that launches its worker.
\<close>

definition evolves :: "supervisor \<Rightarrow> server \<Rightarrow> server \<Rightarrow> string \<Rightarrow> bool" where
  "evolves su sv sv' aid \<longleftrightarrow>
     (case record_of sv' aid of
        None \<Rightarrow> True
      | Some r' \<Rightarrow>
          (case record_of sv aid of
             None \<Rightarrow> False
           | Some r \<Rightarrow> r' = r\<lparr>ar_status := ar_status r'\<rparr> \<and> lifecycle (ar_status r) (ar_status r')) \<or>
          aid = next_id su sv \<and> sv_drawn sv' = Suc (sv_drawn sv) \<and> ar_status r' = Spawning \<and>
          list_ex (\<lambda>t. case t of Launching r _ _ \<Rightarrow> r = r' | _ \<Rightarrow> False) (sv_tasks sv'))"

lemma evolves_same: "record_of sv' aid = record_of sv aid \<Longrightarrow> evolves su sv sv' aid"
  by (auto simp: evolves_def lifecycle_def split: option.splits)

lemma evolves_cong:
  assumes "evolves su sv sv1 k" "sv_registry sv' = sv_registry sv1" "sv_tasks sv' = sv_tasks sv1"
    "sv_drawn sv' = sv_drawn sv1"
  shows "evolves su sv sv' k"
  using assms(1) unfolding evolves_def assms(2-4) .

lemma evolves_start:
  assumes "evolves su sv0 sv' k" "sv_registry sv0 = sv_registry sv" "sv_drawn sv0 = sv_drawn sv"
  shows "evolves su sv sv' k"
  using assms(1) unfolding evolves_def next_id_def assms(2,3) .

lemma evolves_gone: "record_of sv' aid = None \<Longrightarrow> evolves su sv sv' aid"
  by (simp add: evolves_def)

text \<open>A status written to one record.\<close>

lemma evolves_at:
  assumes "record_of sv' k = (if k = aid then map_option h (record_of sv k) else record_of sv k)"
    and "\<And>r. h r = r\<lparr>ar_status := ar_status (h r)\<rparr> \<and> lifecycle (ar_status r) (ar_status (h r))"
  shows "evolves su sv sv' k"
proof (cases "record_of sv k")
  case None
  then show ?thesis using assms(1) by (simp add: evolves_def split: if_splits)
next
  case (Some r)
  then show ?thesis
    using assms(1) assms(2) [of r] by (cases "k = aid") (auto simp: evolves_def lifecycle_def)
qed

section \<open>Every step follows the life cycle\<close>

lemma registry_list_keyed:
  "keyed g \<Longrightarrow> r \<in> set (registry_list g) \<longleftrightarrow> map_of (rg_by_id g) (ar_id r) = Some r"
proof
  assume g: "keyed g" and "r \<in> set (registry_list g)"
  then obtain k where "(k, r) \<in> set (rg_by_id g)" by (auto simp: registry_list_def)
  then have "map_of (rg_by_id g) k = Some r" using g by (simp add: keyed_def)
  then show "map_of (rg_by_id g) (ar_id r) = Some r" using keyed_id [OF g] by simp
next
  assume "map_of (rg_by_id g) (ar_id r) = Some r"
  then have "(ar_id r, r) \<in> set (rg_by_id g)" by (rule map_of_SomeD)
  then show "r \<in> set (registry_list g)" unfolding registry_list_def set_sort set_map
    by (rule rev_image_eqI) simp
qed

lemma drain_loop_effect:
  "drain_loop su env rs sv = (sv', out) \<Longrightarrow>
   record_of sv' k =
     (if k \<in> ar_id ` set rs then map_option (\<lambda>r. r\<lparr>ar_status := Drained\<rparr>) (record_of sv k)
      else record_of sv k) \<and>
   sv_tasks sv' = sv_tasks sv \<and> rg_pids (sv_registry sv') = rg_pids (sv_registry sv) \<and>
   sv_drawn sv' = sv_drawn sv \<and> sv_made sv' = sv_made sv \<and> sv_removed sv' = sv_removed sv \<and>
   (keyed (sv_registry sv) \<longrightarrow> keyed (sv_registry sv')) \<and>
   sv_signals sv' = sv_signals sv @ List.map_filter (\<lambda>r. pid_of (sv_registry sv) (ar_id r)) rs"
proof (induction su env rs sv arbitrary: sv' out rule: drain_loop.induct)
  case (2 su env r rs sv)
  let ?sv1 = "signal_worker (ar_id r) sv"
  let ?g = "snd (set_status (su_store su) (en_io env) (ar_id r) Drained (sv_registry ?sv1))"
  obtain out1 where rest: "drain_loop su env rs (?sv1\<lparr>sv_registry := ?g\<rparr>) = (sv', out1)"
    using "2.prems" by (auto simp: Let_def split: prod.splits)
  have pids: "pid_of ?g = pid_of (sv_registry sv)"
    by (rule ext) (simp add: pid_of_def sup_frame)
  have signals: "sv_signals ?sv1 = sv_signals sv @ (case pid_of (sv_registry sv) (ar_id r) of None \<Rightarrow> [] | Some p \<Rightarrow> [p])"
    by (simp add: signal_worker_def split: option.splits)
  show ?case
    using "2.IH" [OF refl refl rest] pids signals
    by (auto simp: sup_frame lookups option.map_comp comp_def split: option.splits)
qed simp

text \<open>The record that a registration makes.\<close>

definition fresh_record ::
  "supervisor \<Rightarrow> step_env \<Rightarrow> spawn_spec \<Rightarrow> path \<Rightarrow> endpoint \<Rightarrow> server \<Rightarrow> agent_record" where
  "fresh_record su env spec wd ep sv =
     fst (register_agent (su_store su) (en_io env) (next_id su sv) (en_now env) spec ep wd (sv_registry sv))"

lemma fresh_record_simps [simp]:
  "ar_status (fresh_record su env spec wd ep sv) = Spawning"
  "ar_id (fresh_record su env spec wd ep sv) = next_id su sv"
  "ar_spec (fresh_record su env spec wd ep sv) = spec"
  by (simp_all add: fresh_record_def register_agent_def Let_def)

lemma register_and_launch_effect:
  shows "record_of (register_and_launch su env spec wd wt ep f sv) k =
           (if k = next_id su sv then Some (fresh_record su env spec wd ep sv) else record_of sv k)"
    and "sv_tasks (register_and_launch su env spec wd wt ep f sv) = sv_tasks sv @
           [Launching (fresh_record su env spec wd ep sv) wt (f (fresh_record su env spec wd ep sv))]"
    and "sv_drawn (register_and_launch su env spec wd wt ep f sv) = Suc (sv_drawn sv)"
    and "rg_pids (sv_registry (register_and_launch su env spec wd wt ep f sv)) = rg_pids (sv_registry sv)"
    and "keyed (sv_registry sv) \<Longrightarrow> keyed (sv_registry (register_and_launch su env spec wd wt ep f sv))"
    and "sv_made (register_and_launch su env spec wd wt ep f sv) = sv_made sv"
    and "sv_removed (register_and_launch su env spec wd wt ep f sv) = sv_removed sv"
    and "sv_signals (register_and_launch su env spec wd wt ep f sv) = sv_signals sv"
    and "sv_next_agent_port (register_and_launch su env spec wd wt ep f sv) = sv_next_agent_port sv"
  by (simp_all add: register_and_launch_def fresh_record_def next_id_def lookups sup_frame case_prod_beta)

lemma evolves_launch:
  assumes "\<And>k. record_of sv1 k = (if k = dead then None else record_of sv k) \<or> record_of sv1 k = record_of sv k"
    and "sv_drawn sv1 = sv_drawn sv"
  shows "evolves su sv (register_and_launch su env spec wd wt ep f sv1) k"
proof (cases "k = next_id su sv")
  case True
  then show ?thesis
    using assms(2) by (simp add: evolves_def register_and_launch_effect next_id_def)
next
  case False
  then have "record_of (register_and_launch su env spec wd wt ep f sv1) k = record_of sv1 k"
    using assms(2) by (simp add: register_and_launch_effect next_id_def)
  then show ?thesis
    using assms(1) [of k] by (auto intro: evolves_same evolves_gone split: if_splits)
qed

lemma spawn_evolves:
  assumes "spawn_agent su env spec sv = (sv', reply)"
  shows "evolves su sv sv' k"
proof (cases "prepare su env spec sv")
  case (Pair res sv1)
  have frame: "sv_registry sv1 = sv_registry sv" "sv_drawn sv1 = sv_drawn sv"
    using prepare_frame [of su env spec sv] Pair by simp_all
  show ?thesis
    using assms Pair frame
    by (auto simp: spawn_agent_def intro: evolves_same evolves_launch [where dead = undefined]
        split: result.splits prod.splits)
qed

lemma supersede_evolves:
  assumes "supersede su env aid spec sv = (sv', reply)"
  shows "evolves su sv sv' k"
proof (cases "prepare su env spec sv")
  case (Pair res sv1)
  have frame: "sv_registry sv1 = sv_registry sv" "sv_drawn sv1 = sv_drawn sv"
    using prepare_frame [of su env spec sv] Pair by simp_all
  obtain rm g where R: "registry_remove (en_io env) aid True (sv_registry sv1) = (rm, g)"
    by (cases "registry_remove (en_io env) aid True (sv_registry sv1)")
  have look: "map_of (rg_by_id g) j = (if j = aid \<and> is_ok rm then None else record_of sv j)" for j
    using lookup_remove [OF R] frame by simp
  show ?thesis
  proof (cases rm)
    case (Ok u)
    then show ?thesis
      using assms Pair frame R look
      by (auto simp: supersede_def intro: evolves_same
          intro!: evolves_launch [where dead = aid] split: result.splits prod.splits)
  next
    case (Err e)
    then show ?thesis
      using assms Pair frame R look
      by (auto simp: supersede_def sup_frame intro: evolves_same split: result.splits prod.splits)
  qed
qed

lemma drain_agents_effect:
  assumes "keyed (sv_registry sv)" "drain_agents su env sv = (sv', reply)"
  shows "record_of sv' k =
     map_option (\<lambda>r. if live (ar_status r) then r\<lparr>ar_status := Drained\<rparr> else r) (record_of sv k)"
    and "sv_tasks sv' = sv_tasks sv" "rg_pids (sv_registry sv') = rg_pids (sv_registry sv)"
    and "sv_drawn sv' = sv_drawn sv" "sv_made sv' = sv_made sv" "sv_removed sv' = sv_removed sv"
    and "keyed (sv_registry sv')"
    and "sv_signals sv' = sv_signals sv @ List.map_filter (\<lambda>r. pid_of (sv_registry sv) (ar_id r))
           (filter (\<lambda>r. live (ar_status r)) (registry_list (sv_registry sv)))"
proof -
  let ?rs = "filter (\<lambda>r. live (ar_status r)) (registry_list (sv_registry sv))"
  obtain out where "drain_loop su env ?rs sv = (sv', out)"
    using assms(2) by (auto simp: drain_agents_def split: prod.splits)
  note effect = drain_loop_effect [OF this, of k]
  have mem: "k \<in> ar_id ` set ?rs \<longleftrightarrow> (\<exists>r. record_of sv k = Some r \<and> live (ar_status r))"
  proof
    assume "k \<in> ar_id ` set ?rs"
    then show "\<exists>r. record_of sv k = Some r \<and> live (ar_status r)"
      using registry_list_keyed [OF assms(1)] by auto
  next
    assume "\<exists>r. record_of sv k = Some r \<and> live (ar_status r)"
    then obtain r where r: "record_of sv k = Some r" "live (ar_status r)" by auto
    then have "ar_id r = k" using keyed_id [OF assms(1)] by simp
    then show "k \<in> ar_id ` set ?rs"
      using r registry_list_keyed [OF assms(1), of r] by (intro rev_image_eqI [of r]) auto
  qed
  show "record_of sv' k =
     map_option (\<lambda>r. if live (ar_status r) then r\<lparr>ar_status := Drained\<rparr> else r) (record_of sv k)"
    using effect mem by (cases "record_of sv k") auto
  show "keyed (sv_registry sv')" using effect assms(1) by blast
qed (use drain_loop_effect assms(2) in \<open>auto simp: drain_agents_def split: prod.splits\<close>)

lemma rm_evolves:
  assumes "rm_agent env aid force sv = (sv', reply)"
  shows "evolves su sv sv' k"
proof -
  let ?sv1 = "if force then signal_worker aid sv else sv"
  obtain res g where R: "registry_remove (en_io env) aid force (sv_registry sv) = (res, g)"
    by (cases "registry_remove (en_io env) aid force (sv_registry sv)")
  have "sv_registry ?sv1 = sv_registry sv" by (simp add: sup_frame)
  then have "sv_registry sv' = g" using assms R by (auto simp: rm_agent_def Let_def)
  then show ?thesis
    using lookup_remove [OF R, of k] by (auto intro: evolves_same evolves_gone split: if_splits)
qed

lemma handle_evolves:
  assumes "keyed (sv_registry sv)" "dispatch su env req sv = (sv', reply)"
  shows "evolves su sv sv' k"
proof (cases req)
  case (Spawn spec)
  then show ?thesis using assms(2) by (auto intro: spawn_evolves)
next
  case (Kill aid)
  then have "record_of sv' k =
      (if k = aid then map_option (\<lambda>r. r\<lparr>ar_status := Killed\<rparr>) (record_of sv k) else record_of sv k)"
    using assms(2) by (auto simp: kill_agent_def Let_def lookups sup_frame case_prod_beta)
  then show ?thesis by (rule evolves_at) (simp add: lifecycle_def)
next
  case (Respawn aid)
  then show ?thesis using assms(2) by (auto simp: respawn_agent_def intro: evolves_same split: option.splits)
next
  case (Rm aid force)
  then show ?thesis using assms(2) by (auto intro: rm_evolves)
next
  case (Drain grace)
  then have "drain_agents su env sv = (sv', reply)" using assms(2) by simp
  then show ?thesis
    using drain_agents_effect(1) [OF assms(1)]
    by (intro evolves_at [where aid = k, simplified]) (auto simp: lifecycle_def split: if_splits)
next
  case (ReportStatus aid s)
  then show ?thesis
    using assms(2) by (intro evolves_at [where aid = aid]) (auto simp: lookups lifecycle_def split: if_splits)
qed (use assms in \<open>auto intro: evolves_same\<close>)

lemma keyed_dispatch:
  assumes "keyed (sv_registry sv)" "dispatch su env req sv = (sv', reply)"
  shows "keyed (sv_registry sv')"
proof (cases req)
  case (Spawn spec)
  obtain res sv1 where P: "prepare su env spec sv = (res, sv1)" by (cases "prepare su env spec sv")
  then have "keyed (sv_registry sv1)" using assms(1) prepare_frame [of su env spec sv] by simp
  then show ?thesis
    using assms(2) Spawn P
    by (auto simp: spawn_agent_def register_and_launch_effect split: result.splits prod.splits)
next
  case (Respawn aid)
  then show ?thesis using assms by (auto simp: respawn_agent_def split: option.splits)
next
  case (Drain grace)
  then show ?thesis using drain_agents_effect(7) [OF assms(1)] assms(2) by simp
qed (use assms in \<open>auto simp: kill_agent_def rm_agent_def Let_def sup_frame case_prod_beta\<close>)

lemma keyed_supersede:
  assumes "keyed (sv_registry sv)" "supersede su env aid spec sv = (sv', reply)"
  shows "keyed (sv_registry sv')"
proof -
  obtain res sv1 where P: "prepare su env spec sv = (res, sv1)" by (cases "prepare su env spec sv")
  then have k1: "keyed (sv_registry sv1)" using assms(1) prepare_frame [of su env spec sv] by simp
  obtain rm g where R: "registry_remove (en_io env) aid True (sv_registry sv1) = (rm, g)"
    by (cases "registry_remove (en_io env) aid True (sv_registry sv1)")
  then have "keyed g" using keyed_ops(5) [OF k1, of "en_io env" aid True] by simp
  then show ?thesis
    using assms(2) P R k1
    by (auto simp: supersede_def register_and_launch_effect sup_frame split: result.splits prod.splits)
qed

text \<open>The tasks' own steps.\<close>

lemma track_worker_effect:
  assumes "track_worker su env r wt pid sv = (sv', t)"
  shows "record_of sv' k =
      (if k = ar_id r
       then map_option (\<lambda>q. if live (ar_status q) then q\<lparr>ar_status := Running\<rparr> else q) (record_of sv k)
       else record_of sv k)"
    and "rg_pids (sv_registry sv') = AList.update (ar_id r) pid (rg_pids (sv_registry sv))"
    and "t = Monitoring (ar_id r) pid (unix_socket_path r) wt"
    and "keyed (sv_registry sv) \<Longrightarrow> keyed (sv_registry sv')"
    and "sv_tasks sv' = sv_tasks sv" "sv_drawn sv' = sv_drawn sv" "sv_made sv' = sv_made sv"
    and "sv_removed sv' = sv_removed sv" "sv_signals sv' = sv_signals sv"
  using assms keyed_same [of "track_pid (ar_id r) pid (sv_registry sv)" "sv_registry sv"]
  by (auto simp: track_worker_def Let_def lookups sup_frame track_pid_def)

lemma launch_failed_effect:
  shows "record_of (launch_failed su env r wt sv) k =
      (if k = ar_id r then map_option (\<lambda>q. q\<lparr>ar_status := Failed\<rparr>) (record_of sv k) else record_of sv k)"
    and "keyed (sv_registry sv) \<Longrightarrow> keyed (sv_registry (launch_failed su env r wt sv))"
    and "rg_pids (sv_registry (launch_failed su env r wt sv)) = rg_pids (sv_registry sv)"
    and "sv_tasks (launch_failed su env r wt sv) = sv_tasks sv"
    and "sv_drawn (launch_failed su env r wt sv) = sv_drawn sv"
    and "sv_made (launch_failed su env r wt sv) = sv_made sv"
    and "sv_signals (launch_failed su env r wt sv) = sv_signals sv"
  by (simp_all add: launch_failed_def sup_frame lookups)

lemma finish_worker_effect:
  shows "record_of (finish_worker su env aid sock wt ok sv) k =
      (if k = aid
       then map_option (\<lambda>q. if live (ar_status q) then q\<lparr>ar_status := if ok then Done else Failed\<rparr> else q)
              (record_of sv k)
       else record_of sv k)"
    and "keyed (sv_registry sv) \<Longrightarrow> keyed (sv_registry (finish_worker su env aid sock wt ok sv))"
    and "rg_pids (sv_registry (finish_worker su env aid sock wt ok sv)) =
           AList.delete aid (rg_pids (sv_registry sv))"
    and "sv_tasks (finish_worker su env aid sock wt ok sv) = sv_tasks sv"
    and "sv_drawn (finish_worker su env aid sock wt ok sv) = sv_drawn sv"
    and "sv_made (finish_worker su env aid sock wt ok sv) = sv_made sv"
    and "sv_signals (finish_worker su env aid sock wt ok sv) = sv_signals sv"
proof -
  let ?g = "snd (set_status_if_running (su_store su) (en_io env) aid (if ok then Done else Failed) (sv_registry sv))"
  have reg: "sv_registry (finish_worker su env aid sock wt ok sv) = forget_pid aid ?g"
    by (simp add: finish_worker_def Let_def sup_frame split: option.splits)
  show "record_of (finish_worker su env aid sock wt ok sv) k =
      (if k = aid
       then map_option (\<lambda>q. if live (ar_status q) then q\<lparr>ar_status := if ok then Done else Failed\<rparr> else q)
              (record_of sv k)
       else record_of sv k)"
    unfolding reg by (simp add: sup_frame lookups)
  show "keyed (sv_registry sv) \<Longrightarrow> keyed (sv_registry (finish_worker su env aid sock wt ok sv))"
    unfolding reg using keyed_same [of "forget_pid aid ?g" ?g] by (simp add: sup_frame)
  show "rg_pids (sv_registry (finish_worker su env aid sock wt ok sv)) = AList.delete aid (rg_pids (sv_registry sv))"
    unfolding reg by (simp add: forget_pid_def sup_frame)
qed (simp_all add: finish_worker_def Let_def sup_frame split: option.splits)

lemma handle_request_frame:
  assumes "handle_request su env req sv = (sv', reply)"
  obtains sv1 where "dispatch su env req sv = (sv1, reply)" "sv_registry sv' = sv_registry sv1"
    "sv_tasks sv' = sv_tasks sv1" "sv_drawn sv' = sv_drawn sv1" "sv_made sv' = sv_made sv1"
    "sv_removed sv' = sv_removed sv1" "sv_signals sv' = sv_signals sv1"
  using assms by (auto simp: handle_request_def Let_def split: prod.splits if_splits)

text \<open>The steps keep the map one, and take every record along its life cycle.\<close>

lemma step_keyed:
  assumes "sup_step su sv ev env reply sv'" "keyed (sv_registry sv)"
  shows "keyed (sv_registry sv')"
  using assms
proof (cases rule: sup_step.cases)
  case (request req)
  then show ?thesis using assms(2) by (elim handle_request_frame) (auto dest: keyed_dispatch)
next
  case (supersede i aid spec)
  then show ?thesis using assms(2) by (auto dest: keyed_supersede [rotated])
qed (auto simp: launch_failed_effect track_worker_effect finish_worker_effect)

lemma step_evolves:
  assumes "sup_step su sv ev env reply sv'" "keyed (sv_registry sv)"
  shows "evolves su sv sv' k"
  using assms(1)
proof (cases rule: sup_step.cases)
  case (request req)
  then obtain sv1 where "dispatch su env req sv = (sv1, reply)" "sv_registry sv' = sv_registry sv1"
      "sv_tasks sv' = sv_tasks sv1" "sv_drawn sv' = sv_drawn sv1"
    by (elim handle_request_frame)
  then show ?thesis
    using handle_evolves [OF assms(2), of su env req sv1 reply k] evolves_cong by blast
next
  case (supersede i aid spec)
  show ?thesis by (rule evolves_start [OF supersede_evolves [OF supersede(4)]]) simp_all
next
  case (launch_err i r wt)
  then show ?thesis
    by (intro evolves_at [where aid = "ar_id r" and h = "\<lambda>q. q\<lparr>ar_status := Failed\<rparr>"])
       (auto simp: launch_failed_effect lifecycle_def)
next
  case (track i r wt late pid sv1 t)
  have "record_of sv' k =
      (if k = ar_id r
       then map_option (\<lambda>q. if live (ar_status q) then q\<lparr>ar_status := Running\<rparr> else q) (record_of sv k)
       else record_of sv k)"
    using track_worker_effect(1) [OF track(6), of k] track(3) by simp
  then show ?thesis by (rule evolves_at) (auto simp: lifecycle_def split: if_splits)
next
  case (finish i aid pid sock wt ok)
  have "record_of sv' k =
      (if k = aid
       then map_option (\<lambda>q. if live (ar_status q) then q\<lparr>ar_status := if ok then Done else Failed\<rparr> else q)
              (record_of sv k)
       else record_of sv k)"
    by (simp add: finish(3) finish_worker_effect)
  then show ?thesis by (rule evolves_at) (auto simp: lifecycle_def split: if_splits)
qed (auto intro: evolves_same)

end
