(* ===== verification/SupervisorProps.thy ===== *)
theory SupervisorProps
  imports SupervisorLife
begin

text \<open>
  The properties of the daemon: over every run for the life of an agent, for the signals, the
  worktrees and the rest that the daemon comes to, and for single requests that fail.
\<close>

section \<open>Terminal agents\<close>

lemma terminal_step:
  assumes "sup_step su sv ev env reply sv'" "watched su d sv" "fresh_draws su d (sv_drawn sv')"
    "used su d (sv_drawn sv) k"
    and "record_of sv' k = Some r'"
  shows "\<exists>r. record_of sv k = Some r \<and> r' = r\<lparr>ar_status := ar_status r'\<rparr> \<and>
    lifecycle (ar_status r) (ar_status r')"
  using step_evolves [OF assms(1) watchedD(1) [OF assms(2)], of k] assms(3,4,5) next_id_unused [of su d sv]
  by (auto simp: evolves_def split: option.splits)

lemma lifecycle_terminal: "lifecycle s s' \<Longrightarrow> \<not> live s \<Longrightarrow> \<not> live s' \<and> (s' = s \<or> s' = Killed \<or> s' = Failed)"
  by (cases s) (auto simp: lifecycle_def)

lemma terminal_run:
  assumes run: "sup_run su ok sv sv'" and w: "watched su d sv"
    and fresh: "fresh_draws su d (sv_drawn sv')"
    and r: "record_of sv k = Some r" "\<not> live (ar_status r)"
  shows "record_of sv' k = Some r' \<Longrightarrow>
    \<not> live (ar_status r') \<and> r' = r\<lparr>ar_status := ar_status r'\<rparr> \<and>
    (ar_status r' = ar_status r \<or> ar_status r' = Killed \<or> ar_status r' = Failed)"
proof -
  let ?P = "\<lambda>sv'. fresh_draws su d (sv_drawn sv') \<longrightarrow> watched su d sv' \<and> used su d (sv_drawn sv') k \<and>
    (\<forall>r'. record_of sv' k = Some r' \<longrightarrow>
       \<not> live (ar_status r') \<and> r' = r\<lparr>ar_status := ar_status r'\<rparr> \<and>
       (ar_status r' = ar_status r \<or> ar_status r' = Killed \<or> ar_status r' = Failed))"
  have "?P sv'"
  proof (rule run_invariant [OF run])
    show "?P sv" using w r watchedD(2) [OF w, of k] by simp
  next
    fix sv1 ev env reply sv2
    assume P1: "?P sv1" and step: "sup_step su sv1 ev env reply sv2"
    show "?P sv2"
    proof
    assume fresh2: "fresh_draws su d (sv_drawn sv2)"
    note P = P1 [rule_format, OF fresh_draws_mono [OF fresh2 step_draws [OF step]]]
    have "watched su d sv2" using step_watched [OF step _ fresh2] P by blast
    moreover have "used su d (sv_drawn sv2) k" using used_mono step_draws [OF step] P by blast
    moreover have "\<not> live (ar_status r2) \<and> r2 = r\<lparr>ar_status := ar_status r2\<rparr> \<and>
        (ar_status r2 = ar_status r \<or> ar_status r2 = Killed \<or> ar_status r2 = Failed)"
      if r2: "record_of sv2 k = Some r2" for r2
    proof -
      obtain r1 where r1: "record_of sv1 k = Some r1" "r2 = r1\<lparr>ar_status := ar_status r2\<rparr>"
          "lifecycle (ar_status r1) (ar_status r2)"
        using terminal_step [OF step _ fresh2 _ r2] P by blast
      then have old: "\<not> live (ar_status r1)" "r1 = r\<lparr>ar_status := ar_status r1\<rparr>"
          "ar_status r1 = ar_status r \<or> ar_status r1 = Killed \<or> ar_status r1 = Failed"
        using P by blast+
      have "r2 = r\<lparr>ar_status := ar_status r2\<rparr>" by (subst r1(2), subst old(2)) simp
      then show ?thesis using lifecycle_terminal [OF r1(3) old(1)] old(3) by auto
    qed
    ultimately show "watched su d sv2 \<and> used su d (sv_drawn sv2) k \<and>
      (\<forall>r'. record_of sv2 k = Some r' \<longrightarrow>
         \<not> live (ar_status r') \<and> r' = r\<lparr>ar_status := ar_status r'\<rparr> \<and>
         (ar_status r' = ar_status r \<or> ar_status r' = Killed \<or> ar_status r' = Failed))" by blast
    qed
  qed
  then show "record_of sv' k = Some r' \<Longrightarrow> ?thesis" using fresh by blast
qed

section \<open>Live agents\<close>

text \<open>Every live agent has a task that will settle it.\<close>

definition attended :: "server \<Rightarrow> bool" where
  "attended sv \<longleftrightarrow>
     (\<forall>k r. record_of sv k = Some r \<longrightarrow> live (ar_status r) \<longrightarrow> (\<exists>t \<in> set (sv_tasks sv). task_agent t = Some k))"

definition no_idle :: "agent_store \<Rightarrow> disk \<Rightarrow> bool" where
  "no_idle st d \<longleftrightarrow> (\<forall>io name r. load_manifest st io d name = Ok (Some r) \<longrightarrow> ar_status r \<noteq> Idle)"

lemma attended_boot:
  assumes "no_idle (su_store su) d"
  shows "attended (boot su io sio d)"
  unfolding attended_def
proof (intro allI impI)
  fix k r
  assume "record_of (boot su io sio d) k = Some r" "live (ar_status r)"
  then obtain q where q: "map_of (rg_by_id (registry_new (su_store su) io d)) k = Some q" "r = crash q"
    by (auto simp: boot_records)
  have "ar_status q \<noteq> Idle" using loaded_records(2) [OF q(1)] assms by (auto simp: no_idle_def)
  then have "\<not> live (ar_status r)" by (cases "ar_status q") (auto simp: q(2) crash_def swept_def)
  then show "\<exists>t \<in> set (sv_tasks (boot su io sio d)). task_agent t = Some k" using \<open>live _\<close> by simp
qed

lemma attended_keep:
  assumes a: "attended sv" and e: "\<And>k. evolves su sv sv' k"
    and keep: "\<And>t k. t \<in> set (sv_tasks sv) \<Longrightarrow> task_agent t = Some k \<Longrightarrow>
      (\<exists>t' \<in> set (sv_tasks sv'). task_agent t' = Some k) \<or>
      (\<forall>r'. record_of sv' k = Some r' \<longrightarrow> \<not> live (ar_status r'))"
    and keyed: "keyed (sv_registry sv')"
  shows "attended sv'"
  unfolding attended_def
proof (intro allI impI)
  fix k r'
  assume r': "record_of sv' k = Some r'" "live (ar_status r')"
  show "\<exists>t \<in> set (sv_tasks sv'). task_agent t = Some k"
  proof (cases "\<exists>wt late. Launching r' wt late \<in> set (sv_tasks sv')")
    case True
    then show ?thesis using keyed_id [OF keyed r'(1)] by force
  next
    case False
    then have "\<not> list_ex (\<lambda>t. case t of Launching r _ _ \<Rightarrow> r = r' | _ \<Rightarrow> False) (sv_tasks sv')"
      by (auto simp: list_ex_iff split: task.splits)
    then obtain r where "record_of sv k = Some r" "lifecycle (ar_status r) (ar_status r')"
      using e [of k] r'(1) by (auto simp: evolves_def split: option.splits)
    then obtain t where "t \<in> set (sv_tasks sv)" "task_agent t = Some k"
      using a r'(2) lifecycle_live unfolding attended_def by blast
    then show ?thesis using keep r' by blast
  qed
qed

lemma step_attended:
  assumes step: "sup_step su sv ev env reply sv'" and a: "attended sv" and k: "keyed (sv_registry sv)"
  shows "attended sv'"
proof (rule attended_keep [OF a step_evolves [OF step k] _ step_keyed [OF step k]])
  fix t j
  assume t: "t \<in> set (sv_tasks sv)" and j: "task_agent t = Some j"
  show "(\<exists>t' \<in> set (sv_tasks sv'). task_agent t' = Some j) \<or>
      (\<forall>r'. record_of sv' j = Some r' \<longrightarrow> \<not> live (ar_status r'))"
    using step
  proof (cases rule: sup_step.cases)
    case (request req)
    obtain sv1 where D: "dispatch su env req sv = (sv1, reply)" "sv_tasks sv' = sv_tasks sv1"
      using handle_request_frame [OF request(2)] by metis
    have "set (sv_tasks sv) \<subseteq> set (sv_tasks sv1)"
      using dispatch_grows [OF k D(1)] by (auto simp: grows_def)
    then show ?thesis using t j D(2) by auto
  next
    case (supersede i aid spec)
    have "set (remove_task i (sv_tasks sv)) \<subseteq> set (sv_tasks sv')"
      using supersede_grows [OF supersede(4)] by (auto simp: grows_def)
    moreover have "t \<in> set (remove_task i (sv_tasks sv))"
      using t j set_remove_task [OF supersede(2)] supersede(3) by auto
    ultimately show ?thesis using j by auto
  next
    case (launch_ok i r wt late pid)
    then show ?thesis
      using t j set_remove_task [OF launch_ok(4)] set_update_task [OF launch_ok(4)] by auto
  next
    case (launch_err i r wt late)
    then show ?thesis
      using t j set_remove_task [OF launch_err(4)] by (auto simp: launch_failed_effect)
  next
    case (track i r wt late pid sv1 u)
    then show ?thesis
      using t j set_remove_task [OF track(4)] set_update_task [OF track(4)] track_worker_effect(3) [OF track(6)]
      by auto
  next
    case (worker_exit i aid pid sock wt ok)
    then show ?thesis
      using t j set_remove_task [OF worker_exit(4)] set_update_task [OF worker_exit(4)] by auto
  next
    case (finish i aid pid sock wt ok)
    show ?thesis
    proof (cases "j = aid")
      case True
      have "record_of sv' aid =
          map_option (\<lambda>q. if live (ar_status q) then q\<lparr>ar_status := if ok then Done else Failed\<rparr> else q)
            (record_of sv aid)"
        by (simp add: finish(3) finish_worker_effect)
      then have "\<forall>r'. record_of sv' aid = Some r' \<longrightarrow> \<not> live (ar_status r')"
        by (cases "record_of sv aid") simp_all
      then show ?thesis using True by simp
    next
      case False
      then have "t \<in> set (remove_task i (sv_tasks sv))"
        using t j set_remove_task [OF finish(4)] finish(5) by auto
      moreover have "sv_tasks sv' = remove_task i (sv_tasks sv)"
        by (simp add: finish(3) finish_worker_effect)
      ultimately show ?thesis using j by auto
    qed
  qed
qed

lemma reachable_keyed:
  assumes "reachable su d sv"
  shows "keyed (sv_registry sv)"
proof -
  obtain io sio where run: "sup_run su (\<lambda>_. True) (boot su io sio d) sv"
    using assms by (auto simp: reachable_def)
  show ?thesis by (rule run_invariant [OF run]) (use boot_keyed step_keyed in blast)+
qed

lemma reachable_attended:
  assumes "no_idle (su_store su) d" "reachable su d sv"
  shows "attended sv"
proof -
  obtain io sio where run: "sup_run su (\<lambda>_. True) (boot su io sio d) sv"
    using assms(2) by (auto simp: reachable_def)
  have "attended sv \<and> keyed (sv_registry sv)"
    by (rule run_invariant [OF run])
       (use attended_boot [OF assms(1)] boot_keyed step_attended step_keyed in blast)+
  then show ?thesis ..
qed

section \<open>Rest\<close>

fun is_request :: "sup_event \<Rightarrow> bool" where
  "is_request (Request _) = True"
| "is_request _ = False"

text \<open>The steps that the daemon takes when no request comes in.\<close>

inductive task_run :: "supervisor \<Rightarrow> nat \<Rightarrow> server \<Rightarrow> server \<Rightarrow> bool" for su where
  rest: "task_run su 0 sv sv"
| step: "sup_step su sv ev env reply sv1 \<Longrightarrow> \<not> is_request ev \<Longrightarrow> task_run su n sv1 sv2 \<Longrightarrow>
     task_run su (Suc n) sv sv2"

text \<open>How many steps a task has before it at most.\<close>

fun task_weight :: "task \<Rightarrow> nat" where
  "task_weight (Superseding _ _) = 5"
| "task_weight (Launching _ _ _) = 4"
| "task_weight (Launched _ _ _ _) = 3"
| "task_weight (Monitoring _ _ _ _) = 2"
| "task_weight (Reaped _ _ _ _ _) = 1"

definition workload :: "server \<Rightarrow> nat" where
  "workload sv = sum_list (map task_weight (sv_tasks sv))"

lemma workload_remove:
  assumes "i < length (sv_tasks sv)"
  shows "workload sv = task_weight (sv_tasks sv ! i) + sum_list (map task_weight (remove_task i (sv_tasks sv)))"
proof -
  have "workload sv = sum_list (map task_weight (take i (sv_tasks sv) @ sv_tasks sv ! i # drop (Suc i) (sv_tasks sv)))"
    unfolding workload_def using id_take_nth_drop [OF assms] by simp
  then show ?thesis by (simp add: remove_task_def)
qed

lemma workload_update:
  assumes "i < length (sv_tasks sv)"
  shows "sum_list (map task_weight ((sv_tasks sv)[i := t])) =
    task_weight t + sum_list (map task_weight (remove_task i (sv_tasks sv)))"
  using assms by (simp add: upd_conv_take_nth_drop remove_task_def)

lemma supersede_tasks:
  assumes "supersede su env aid spec sv = (sv', reply)"
  shows "sv_tasks sv' = sv_tasks sv \<or> (\<exists>r wt late. sv_tasks sv' = sv_tasks sv @ [Launching r wt late])"
proof -
  obtain res sv1 where P: "prepare su env spec sv = (res, sv1)" by (cases "prepare su env spec sv")
  then have "sv_tasks sv1 = sv_tasks sv" using prepare_frame(2) [of su env spec sv] by simp
  then show ?thesis
    using assms P
    by (auto simp: supersede_def register_and_launch_effect sup_frame split: result.splits prod.splits)
qed

lemma task_step_decreases:
  assumes "sup_step su sv ev env reply sv'" "\<not> is_request ev"
  shows "workload sv' < workload sv"
  using assms(1)
proof (cases rule: sup_step.cases)
  case (request req)
  then show ?thesis using assms(2) by simp
next
  case (supersede i aid spec)
  let ?rest = "remove_task i (sv_tasks sv)"
  have "sv_tasks sv' = ?rest \<or> (\<exists>r wt late. sv_tasks sv' = ?rest @ [Launching r wt late])"
    using supersede_tasks [OF supersede(4)] by simp
  then show ?thesis
    using workload_remove [OF supersede(2)] by (auto simp: workload_def supersede(3))
next
  case (launch_ok i r wt late pid)
  then show ?thesis
    using workload_remove [OF launch_ok(4)] workload_update [OF launch_ok(4)] by (simp add: workload_def)
next
  case (launch_err i r wt late)
  then show ?thesis
    using workload_remove [OF launch_err(4)] by (simp add: workload_def launch_failed_effect)
next
  case (track i r wt late pid sv1 t)
  then show ?thesis
    using workload_remove [OF track(4)] workload_update [OF track(4)] track_worker_effect(3) [OF track(6)]
    by (simp add: workload_def)
next
  case (worker_exit i aid pid sock wt ok)
  then show ?thesis
    using workload_remove [OF worker_exit(4)] workload_update [OF worker_exit(4)] by (simp add: workload_def)
next
  case (finish i aid pid sock wt ok)
  then show ?thesis
    using workload_remove [OF finish(4)] by (simp add: workload_def finish_worker_effect)
qed

lemma task_run_bound: "task_run su n sv sv' \<Longrightarrow> n + workload sv' \<le> workload sv"
  by (induction rule: task_run.induct) (use task_step_decreases in fastforce)+

lemma workload_bound: "workload sv \<le> 5 * length (sv_tasks sv)"
proof -
  have "task_weight t \<le> 5" for t by (cases t) auto
  then have "sum_list (map task_weight ts) \<le> 5 * length ts" for ts
    by (induction ts) (auto simp: add_mono)
  then show ?thesis by (simp add: workload_def)
qed

text \<open>A daemon with a task left can take a step: every task can end.\<close>

lemma task_step_enabled:
  assumes "sv_tasks sv \<noteq> []"
  shows "\<exists>ev reply sv'. \<not> is_request ev \<and> sup_step su sv ev env reply sv'"
proof -
  have enabled: ?thesis if "sup_step su sv ev env reply sv'" "\<not> is_request ev" for ev reply sv'
    using that by blast
  have i: "0 < length (sv_tasks sv)" using assms by simp
  obtain t where t: "sv_tasks sv ! 0 = t" by simp
  show ?thesis
  proof (cases t)
    case (Superseding aid spec)
    obtain sv' reply where "supersede su env aid spec (sv\<lparr>sv_tasks := remove_task 0 (sv_tasks sv)\<rparr>) = (sv', reply)"
      by (cases "supersede su env aid spec (sv\<lparr>sv_tasks := remove_task 0 (sv_tasks sv)\<rparr>)")
    then have "sup_step su sv (Supersede 0) env reply sv'"
      using i t Superseding by (intro sup_step.supersede) simp_all
    then show ?thesis by (rule enabled) simp
  next
    case (Launching r wt late)
    then have "sv_tasks sv ! 0 = Launching r wt late" using t by simp
    from sup_step.launch_err [OF i this] show ?thesis by (rule enabled) simp
  next
    case (Launched r wt late pid)
    then have nth: "sv_tasks sv ! 0 = Launched r wt late pid" using t by simp
    obtain sv1 u where "track_worker su env r wt pid sv = (sv1, u)" by (cases "track_worker su env r wt pid sv")
    from sup_step.track [OF i nth this] show ?thesis by (rule enabled) simp
  next
    case (Monitoring aid pid sock wt)
    then have "sv_tasks sv ! 0 = Monitoring aid pid sock wt" using t by simp
    from sup_step.worker_exit [OF i this] show ?thesis by (rule enabled) simp
  next
    case (Reaped aid pid sock wt ok)
    then have "sv_tasks sv ! 0 = Reaped aid pid sock wt ok" using t by simp
    from sup_step.finish [OF i this] show ?thesis by (rule enabled) simp
  qed
qed

lemma task_run_attended:
  "task_run su n sv sv' \<Longrightarrow> attended sv \<Longrightarrow> keyed (sv_registry sv) \<Longrightarrow> attended sv'"
  by (induction rule: task_run.induct) (use step_attended step_keyed in blast)+

lemma at_rest: "attended sv \<Longrightarrow> sv_tasks sv = [] \<Longrightarrow> record_of sv k = Some r \<Longrightarrow> \<not> live (ar_status r)"
  by (auto simp: attended_def)

section \<open>Signals\<close>

text \<open>The agents that a request may signal.\<close>

fun addresses :: "sup_event \<Rightarrow> server \<Rightarrow> string \<Rightarrow> bool" where
  "addresses (Request (Kill j)) sv k = (j = k)"
| "addresses (Request (Rm j force)) sv k = (force \<and> j = k)"
| "addresses (Request (Drain _)) sv k = (\<exists>r. record_of sv k = Some r \<and> live (ar_status r))"
| "addresses _ sv k = False"

definition tracked_pids :: "server \<Rightarrow> string \<Rightarrow> nat list" where
  "tracked_pids sv k = (case pid_of (sv_registry sv) k of None \<Rightarrow> [] | Some p \<Rightarrow> [p])"

lemma signal_worker_signals: "sv_signals (signal_worker k sv) = sv_signals sv @ tracked_pids sv k"
  by (simp add: signal_worker_def tracked_pids_def split: option.splits)

lemma step_signals:
  assumes "sup_step su sv ev env reply sv'" and k: "keyed (sv_registry sv)"
  shows "\<exists>ps. sv_signals sv' = sv_signals sv @ ps \<and>
    (\<forall>p \<in> set ps. \<exists>k. addresses ev sv k \<and> pid_of (sv_registry sv) k = Some p)"
  using assms(1)
proof (cases rule: sup_step.cases)
  case (request req)
  obtain sv1 where D: "dispatch su env req sv = (sv1, reply)" "sv_signals sv' = sv_signals sv1"
    using handle_request_frame [OF request(2)] by metis
  show ?thesis
  proof (cases req)
    case (Spawn spec)
    obtain res sv0 where P: "prepare su env spec sv = (res, sv0)" by (cases "prepare su env spec sv")
    then have "sv_signals sv0 = sv_signals sv" using prepare_frame(4) [of su env spec sv] by simp
    then have "sv_signals sv1 = sv_signals sv"
      using D(1) Spawn P by (auto simp: spawn_agent_def register_and_launch_effect split: result.splits prod.splits)
    then show ?thesis using D(2) by simp
  next
    case (Kill j)
    have "sv_signals sv1 = sv_signals sv @ tracked_pids sv j"
      using D(1) Kill by (auto simp: kill_agent_def Let_def signal_worker_signals split: prod.splits)
    then show ?thesis
      using D(2) request(1) Kill by (auto simp: tracked_pids_def split: option.splits)
  next
    case (Rm j force)
    have "sv_signals sv1 = sv_signals sv @ (if force then tracked_pids sv j else [])"
      using D(1) Rm by (cases force) (auto simp: rm_agent_def Let_def signal_worker_signals split: prod.splits)
    then show ?thesis
      using D(2) request(1) Rm by (auto simp: tracked_pids_def split: option.splits if_splits)
  next
    case (Drain g)
    let ?rs = "filter (\<lambda>r. live (ar_status r)) (registry_list (sv_registry sv))"
    have "sv_signals sv1 = sv_signals sv @ List.map_filter (\<lambda>r. pid_of (sv_registry sv) (ar_id r)) ?rs"
      using drain_agents_effect(8) [OF k] D(1) Drain by simp
    moreover have "\<exists>k. addresses ev sv k \<and> pid_of (sv_registry sv) k = Some p"
      if p: "p \<in> set (List.map_filter (\<lambda>r. pid_of (sv_registry sv) (ar_id r)) ?rs)" for p
    proof -
      obtain r where r: "r \<in> set ?rs" "pid_of (sv_registry sv) (ar_id r) = Some p"
        using p by (auto simp: List.map_filter_def)
      then have "record_of sv (ar_id r) = Some r" "live (ar_status r)"
        using registry_list_keyed [OF k] by auto
      then show ?thesis using r request(1) Drain by auto
    qed
    ultimately show ?thesis using D(2) by auto
  qed (use D in \<open>auto simp: respawn_agent_def split: option.splits\<close>)
next
  case (supersede i aid spec)
  let ?sv1 = "sv\<lparr>sv_tasks := remove_task i (sv_tasks sv)\<rparr>"
  obtain res sv0 where P: "prepare su env spec ?sv1 = (res, sv0)" by (cases "prepare su env spec ?sv1")
  then have "sv_signals sv0 = sv_signals sv" using prepare_frame(4) [of su env spec ?sv1] by simp
  then have "sv_signals sv' = sv_signals sv"
    using supersede(4) P
    by (auto simp: supersede_def register_and_launch_effect sup_frame split: result.splits prod.splits)
  then show ?thesis by simp
qed (auto simp: launch_failed_effect track_worker_effect finish_worker_effect)

lemma signals_of_step:
  assumes w: "watched su d sv" and step: "sup_step su sv ev env reply sv'"
  shows "\<exists>ps. sv_signals sv' = sv_signals sv @ ps \<and>
    (\<forall>p \<in> set ps. \<exists>k. addresses ev sv k \<and> (\<exists>t \<in> set (sv_tasks sv). watches k p t)) \<and>
    (\<forall>k. ev = Request (Kill k) \<longrightarrow> reply = Some KillAck \<longrightarrow>
       (\<exists>r. record_of sv' k = Some r \<and> ar_status r = Killed) \<and>
       (\<forall>p. \<forall>t \<in> set (sv_tasks sv). watches k p t \<longrightarrow> p \<in> set ps))"
proof -
  obtain ps where ps: "sv_signals sv' = sv_signals sv @ ps"
      "\<forall>p \<in> set ps. \<exists>k. addresses ev sv k \<and> pid_of (sv_registry sv) k = Some p"
    using step_signals [OF step watchedD(1) [OF w]] by blast
  have named: "\<forall>p \<in> set ps. \<exists>k. addresses ev sv k \<and> (\<exists>t \<in> set (sv_tasks sv). watches k p t)"
    using ps(2) watchedD(5) [OF w] by blast
  have killed: "(\<exists>r. record_of sv' k = Some r \<and> ar_status r = Killed) \<and>
      (\<forall>p. \<forall>t \<in> set (sv_tasks sv). watches k p t \<longrightarrow> p \<in> set ps)"
    if ev: "ev = Request (Kill k)" and ack: "reply = Some KillAck" for k
  proof -
    obtain sv1 where D: "kill_agent su env k sv = (sv1, Some KillAck)" "sv_registry sv' = sv_registry sv1"
        "sv_signals sv' = sv_signals sv1"
      using step ev ack by (elim sup_stepE) (auto elim!: handle_request_frame)
    have new: "ps = tracked_pids sv k"
      using D(1,3) ps(1) by (auto simp: kill_agent_def Let_def signal_worker_signals split: prod.splits)
    obtain r where r: "record_of sv k = Some r"
      using D(1) by (auto simp: kill_agent_def Let_def set_status_def sup_frame
          split: prod.splits result.splits option.splits)
    have "record_of sv' k = Some (r\<lparr>ar_status := Killed\<rparr>)"
      using D(1,2) r by (auto simp: kill_agent_def Let_def lookups sup_frame case_prod_beta)
    moreover have "p \<in> set ps" if "t \<in> set (sv_tasks sv)" "watches k p t" for p t
      using watchedD(6) [OF w that] r by (simp add: new tracked_pids_def)
    ultimately show ?thesis by auto
  qed
  show ?thesis using ps(1) named killed by blast
qed

section \<open>Worktrees\<close>

definition wt_list :: "worktree option \<Rightarrow> worktree list" where
  "wt_list wt = (case wt of None \<Rightarrow> [] | Some w \<Rightarrow> [w])"

fun task_worktrees :: "task \<Rightarrow> worktree list" where
  "task_worktrees (Superseding _ _) = []"
| "task_worktrees (Launching _ wt _) = wt_list wt"
| "task_worktrees (Launched _ wt _ _) = wt_list wt"
| "task_worktrees (Monitoring _ _ _ wt) = wt_list wt"
| "task_worktrees (Reaped _ _ _ wt _) = wt_list wt"

definition held_worktrees :: "task list \<Rightarrow> worktree multiset" where
  "held_worktrees ts = mset (concat (map task_worktrees ts))"

lemma held_simps [simp]:
  "held_worktrees [] = {#}"
  "held_worktrees (t # ts) = mset (task_worktrees t) + held_worktrees ts"
  "held_worktrees (ts @ us) = held_worktrees ts + held_worktrees us"
  by (simp_all add: held_worktrees_def)

lemma held_remove:
  "i < length ts \<Longrightarrow> held_worktrees ts = mset (task_worktrees (ts ! i)) + held_worktrees (remove_task i ts)"
proof -
  assume "i < length ts"
  then have "held_worktrees ts = held_worktrees (take i ts @ ts ! i # drop (Suc i) ts)"
    by (simp add: id_take_nth_drop [symmetric])
  then show ?thesis by (simp add: remove_task_def ac_simps)
qed

lemma held_update:
  "i < length ts \<Longrightarrow> held_worktrees (ts[i := t]) = mset (task_worktrees t) + held_worktrees (remove_task i ts)"
  by (simp add: upd_conv_take_nth_drop remove_task_def ac_simps)

text \<open>Every worktree made has been asked to be removed, once, or is in the care of a task.\<close>

definition balanced :: "server \<Rightarrow> bool" where
  "balanced sv \<longleftrightarrow> mset (sv_made sv) = mset (sv_removed sv) + held_worktrees (sv_tasks sv)"

lemma cleanup_removed:
  "\<not> keep_worktrees_requested (su_keep su) \<Longrightarrow>
   sv_removed (cleanup_worktree su wt sv) = sv_removed sv @ wt_list wt"
  by (simp add: cleanup_worktree_def wt_list_def split: option.splits)

lemma prepare_worktrees:
  assumes "\<not> keep_worktrees_requested (su_keep su)" "prepare su env spec sv = (res, sv')"
  shows "case res of
      Err e \<Rightarrow> \<exists>ws. sv_made sv' = sv_made sv @ ws \<and> sv_removed sv' = sv_removed sv @ ws
    | Ok (wd, wt, ep) \<Rightarrow> sv_made sv' = sv_made sv @ wt_list wt \<and> sv_removed sv' = sv_removed sv"
  using assms(2)
  by (auto simp: prepare_def cleanup_removed [OF assms(1)] sup_frame wt_list_def
      split: result.splits prod.splits if_splits)

lemma spawn_balanced:
  assumes "\<not> keep_worktrees_requested (su_keep su)" "balanced sv" "spawn_agent su env spec sv = (sv', reply)"
  shows "balanced sv'"
proof -
  obtain res sv1 where P: "prepare su env spec sv = (res, sv1)" by (cases "prepare su env spec sv")
  then have "sv_tasks sv1 = sv_tasks sv" using prepare_frame(2) [of su env spec sv] by simp
  then show ?thesis
    using assms P prepare_worktrees [OF assms(1) P]
    by (auto simp: spawn_agent_def balanced_def register_and_launch_effect ac_simps split: result.splits prod.splits)
qed

lemma supersede_balanced:
  assumes "\<not> keep_worktrees_requested (su_keep su)" "balanced sv" "supersede su env aid spec sv = (sv', reply)"
  shows "balanced sv'"
proof -
  obtain res sv1 where P: "prepare su env spec sv = (res, sv1)" by (cases "prepare su env spec sv")
  then have "sv_tasks sv1 = sv_tasks sv" using prepare_frame(2) [of su env spec sv] by simp
  then show ?thesis
    using assms P prepare_worktrees [OF assms(1) P]
    by (auto simp: supersede_def balanced_def register_and_launch_effect cleanup_removed [OF assms(1)] sup_frame
        ac_simps split: result.splits prod.splits)
qed

lemma step_balanced:
  assumes keep: "\<not> keep_worktrees_requested (su_keep su)" and b: "balanced sv"
    and k: "keyed (sv_registry sv)" and step: "sup_step su sv ev env reply sv'"
  shows "balanced sv'"
  using step
proof (cases rule: sup_step.cases)
  case (request req)
  obtain sv1 where D: "dispatch su env req sv = (sv1, reply)" "sv_tasks sv' = sv_tasks sv1"
      "sv_made sv' = sv_made sv1" "sv_removed sv' = sv_removed sv1"
    using handle_request_frame [OF request(2)] by metis
  have "balanced sv1"
  proof (cases req)
    case (Spawn spec)
    then show ?thesis using spawn_balanced [OF keep b] D(1) by simp
  next
    case (Drain g)
    then show ?thesis using drain_agents_effect [OF k] D(1) b by (simp add: balanced_def)
  qed (use D b in \<open>auto simp: balanced_def kill_agent_def rm_agent_def respawn_agent_def Let_def sup_frame
        split: option.splits prod.splits if_splits\<close>)
  then show ?thesis using D by (simp add: balanced_def)
next
  case (supersede i aid spec)
  have "balanced (sv\<lparr>sv_tasks := remove_task i (sv_tasks sv)\<rparr>)"
    using b held_remove [OF supersede(2)] supersede(3) by (simp add: balanced_def)
  then show ?thesis using supersede_balanced [OF keep _ supersede(4)] by simp
next
  case (launch_ok i r wt late pid)
  then show ?thesis
    using b held_remove [OF launch_ok(4)] held_update [OF launch_ok(4)] by (simp add: balanced_def)
next
  case (launch_err i r wt late)
  then show ?thesis
    using b held_remove [OF launch_err(4)]
    by (simp add: balanced_def launch_failed_def cleanup_removed [OF keep] sup_frame)
next
  case (track i r wt late pid sv1 t)
  then show ?thesis
    using b held_remove [OF track(4)] held_update [OF track(4)] track_worker_effect(3,7,8) [OF track(6)]
    by (simp add: balanced_def)
next
  case (worker_exit i aid pid sock wt ok)
  then show ?thesis
    using b held_remove [OF worker_exit(4)] held_update [OF worker_exit(4)] by (simp add: balanced_def)
next
  case (finish i aid pid sock wt ok)
  have "sv_removed sv' = sv_removed sv @ wt_list wt"
    by (simp add: finish(3) finish_worker_def Let_def cleanup_removed [OF keep] split: option.splits)
  then show ?thesis
    using b held_remove [OF finish(4)] finish by (simp add: balanced_def finish_worker_effect)
qed

lemma reachable_balanced:
  assumes "\<not> keep_worktrees_requested (su_keep su)" "reachable su d sv"
  shows "balanced sv"
proof -
  obtain io sio where run: "sup_run su (\<lambda>_. True) (boot su io sio d) sv"
    using assms(2) by (auto simp: reachable_def)
  have "balanced sv \<and> keyed (sv_registry sv)"
    by (rule run_invariant [OF run])
       (use step_balanced [OF assms(1)] boot_keyed step_keyed in \<open>auto simp: balanced_def\<close>)
  then show ?thesis ..
qed

section \<open>Requests that fail\<close>

lemma failed_dispatch:
  assumes "dispatch su env req sv = (sv', Some (ErrorReply e))"
  shows "sv_registry sv' = sv_registry sv \<and> sv_tasks sv' = sv_tasks sv"
proof (cases req)
  case (Spawn spec)
  obtain res sv1 where P: "prepare su env spec sv = (res, sv1)" by (cases "prepare su env spec sv")
  then have "sv_tasks sv1 = sv_tasks sv" "sv_registry sv1 = sv_registry sv"
    using prepare_frame(1,2) [of su env spec sv] by simp_all
  then show ?thesis using assms Spawn P by (auto simp: spawn_agent_def split: result.splits prod.splits)
next
  case (Kill k)
  then show ?thesis
    using assms by (auto simp: kill_agent_def Let_def set_status_def sup_frame split: option.splits prod.splits result.splits)
next
  case (Rm k force)
  then show ?thesis
    using assms by (auto simp: rm_agent_def Let_def registry_remove_def sup_frame
        split: option.splits prod.splits result.splits if_splits)
next
  case (Drain g)
  then show ?thesis using assms by (auto simp: drain_agents_def split: prod.splits)
qed (use assms in \<open>auto simp: respawn_agent_def split: option.splits\<close>)

lemma failed_supersede:
  assumes "supersede su env aid spec sv = (sv', Some (ErrorReply e))"
  shows "sv_registry sv' = sv_registry sv \<and> sv_tasks sv' = sv_tasks sv"
proof -
  obtain res sv1 where P: "prepare su env spec sv = (res, sv1)" by (cases "prepare su env spec sv")
  then have "sv_tasks sv1 = sv_tasks sv" "sv_registry sv1 = sv_registry sv"
    using prepare_frame(1,2) [of su env spec sv] by simp_all
  then show ?thesis
    using assms P by (auto simp: supersede_def registry_remove_def Let_def sup_frame
        split: result.splits prod.splits option.splits if_splits)
qed

lemma failed_step:
  assumes "sup_step su sv ev env (Some (ErrorReply e)) sv'" "is_request ev \<or> (\<exists>i. ev = Supersede i)"
  shows "sv_registry sv' = sv_registry sv \<and> (\<forall>t k. task_agent t = Some k \<longrightarrow>
    (t \<in> set (sv_tasks sv') \<longleftrightarrow> t \<in> set (sv_tasks sv)))"
  using assms(1)
proof (cases rule: sup_step.cases)
  case (request req)
  obtain sv1 where D: "dispatch su env req sv = (sv1, Some (ErrorReply e))" "sv_registry sv' = sv_registry sv1"
      "sv_tasks sv' = sv_tasks sv1"
    using handle_request_frame [OF request(2)] by metis
  then show ?thesis using failed_dispatch [OF D(1)] by simp
next
  case (supersede i aid spec)
  then show ?thesis
    using failed_supersede [OF supersede(4)] set_remove_task [OF supersede(2)] by auto
qed (use assms(2) in auto)

end
