(* ===== verification/SupervisorDisk.thy ===== *)
theory SupervisorDisk
  imports SupervisorLife
begin

text \<open>
  The manifests and the registry: as long as the disk works, the manifests below the base are
  the records of the registry, one for one, so that a restart finds every agent again.
\<close>

section \<open>What the disk holds\<close>

definition stored :: "agent_store \<Rightarrow> disk \<Rightarrow> string \<Rightarrow> agent_record option" where
  "stored st d k = (case on_disk st d k of Ok x \<Rightarrow> x | Err _ \<Rightarrow> None)"

abbreviation working :: disk_io where
  "working \<equiv> (\<lambda>_. working_io)"

lemma stored_dir: "stored st d k = Some r \<Longrightarrow> \<exists>fs. map_of d k = Some (SessionDir fs)"
  by (auto simp: stored_def load_manifest_def dir_files_def split: option.splits fs_entry.splits result.splits)

lemma write_manifest_shape:
  assumes "write_manifest st working_io r d = (Ok u, d')"
  shows "\<exists>fs. d' = AList.update (ar_id r) (SessionDir fs) d"
  using assms
  by (auto simp: write_manifest_def ensure_dir_def put_files_def
      split: option.splits fs_entry.splits prod.splits result.splits if_splits)

lemma write_manifest_entries:
  assumes "write_manifest st working_io r d = (Ok u, d')"
  shows "\<exists>fs. map_of d' = (map_of d)(ar_id r \<mapsto> SessionDir fs)"
    and "fst ` set d' = insert (ar_id r) (fst ` set d)"
    and "distinct (map fst d) \<Longrightarrow> distinct (map fst d')"
proof -
  obtain fs where d': "d' = AList.update (ar_id r) (SessionDir fs) d"
    using write_manifest_shape [OF assms] by blast
  show "\<exists>fs. map_of d' = (map_of d)(ar_id r \<mapsto> SessionDir fs)" unfolding d' update_conv' by blast
  show "fst ` set d' = insert (ar_id r) (fst ` set d)" unfolding d' dom_update by simp
  show "distinct (map fst d) \<Longrightarrow> distinct (map fst d')" unfolding d' by (rule distinct_update)
qed

lemma persist_effect:
  assumes json: "json_faithful st" and dir: "map_of d (ar_id r) \<noteq> Some OtherEntry"
  shows "stored st (persist st working r d) k = (if k = ar_id r then Some r else stored st d k)"
    and "fst ` set (persist st working r d) = insert (ar_id r) (fst ` set d)"
    and "distinct (map fst d) \<Longrightarrow> distinct (map fst (persist st working r d))"
    and "k \<noteq> ar_id r \<Longrightarrow> map_of (persist st working r d) k = map_of d k"
    and "\<exists>fs. map_of (persist st working r d) (ar_id r) = Some (SessionDir fs)"
proof -
  obtain res d' where W: "write_manifest st working_io r d = (res, d')"
    by (cases "write_manifest st working_io r d")
  obtain u where ok: "res = Ok u"
    using write_manifest_works [OF json dir] W by (auto simp: is_ok_iff)
  have p: "persist st working r d = d'" by (simp add: persist_def W)
  note entries = write_manifest_entries [OF W [unfolded ok]]
  show "stored st (persist st working r d) k = (if k = ar_id r then Some r else stored st d k)"
    unfolding p stored_def using write_manifest_atomic [OF json W, of k] by (simp add: ok)
  show "fst ` set (persist st working r d) = insert (ar_id r) (fst ` set d)"
    "distinct (map fst d) \<Longrightarrow> distinct (map fst (persist st working r d))"
    "k \<noteq> ar_id r \<Longrightarrow> map_of (persist st working r d) k = map_of d k"
    "\<exists>fs. map_of (persist st working r d) (ar_id r) = Some (SessionDir fs)"
    unfolding p using entries by auto
qed

text \<open>The registry and the disk agree, and the directories are those of ids in use.\<close>

definition mirrored :: "supervisor \<Rightarrow> disk \<Rightarrow> nat \<Rightarrow> registry \<Rightarrow> bool" where
  "mirrored su d n g \<longleftrightarrow>
     keyed g \<and> distinct (map fst (rg_disk g)) \<and>
     (\<forall>k. map_of (rg_by_id g) k = stored (su_store su) (rg_disk g) k) \<and>
     (\<forall>k \<in> fst ` set (rg_disk g). used su d n k \<and> utf8_ok k)"

lemma mirrored_store:
  assumes json: "json_faithful (su_store su)" and m: "mirrored su d n g" and r: "ar_id r = k"
    and known: "map_of (rg_by_id g) k \<noteq> None \<or> k \<notin> fst ` set (rg_disk g) \<and> used su d n k \<and> utf8_ok k"
  shows "mirrored su d n (store_record (su_store su) working k r g)"
proof -
  have look: "map_of (rg_by_id g) j = stored (su_store su) (rg_disk g) j" for j
    using m by (simp add: mirrored_def)
  have dir: "map_of (rg_disk g) (ar_id r) \<noteq> Some OtherEntry"
    using known look [of k] stored_dir [of "su_store su" "rg_disk g" k] r
    by (auto simp: map_of_eq_None_iff [symmetric])
  have kk: "used su d n k \<and> utf8_ok k"
  proof (cases "map_of (rg_by_id g) k")
    case None
    then show ?thesis using known by blast
  next
    case (Some q)
    then have "k \<in> fst ` set (rg_disk g)"
      using look [of k] stored_dir [of "su_store su" "rg_disk g" k q] by (force dest: map_of_SomeD)
    then show ?thesis using m unfolding mirrored_def by blast
  qed
  note effect = persist_effect [OF json dir]
  show ?thesis
    unfolding mirrored_def
  proof (intro conjI)
    show "keyed (store_record (su_store su) working k r g)" using m r by (simp add: mirrored_def keyed_store)
    show "distinct (map fst (rg_disk (store_record (su_store su) working k r g)))"
      using m effect(3) by (simp add: mirrored_def)
    show "\<forall>j. map_of (rg_by_id (store_record (su_store su) working k r g)) j =
        stored (su_store su) (rg_disk (store_record (su_store su) working k r g)) j"
      using effect(1) look r by (simp add: update_conv')
    show "\<forall>j \<in> fst ` set (rg_disk (store_record (su_store su) working k r g)). used su d n j \<and> utf8_ok j"
      using m kk r by (simp add: effect(2) mirrored_def)
  qed
qed

lemma mirrored_same:
  "mirrored su d n g \<Longrightarrow> rg_by_id g' = rg_by_id g \<Longrightarrow> rg_disk g' = rg_disk g \<Longrightarrow> mirrored su d n g'"
  by (simp add: mirrored_def keyed_def)

lemma mirrored_ops:
  assumes json: "json_faithful (su_store su)" and m: "mirrored su d n g"
  shows "mirrored su d n (snd (set_status (su_store su) working k s g))"
    and "mirrored su d n (snd (set_status_if_running (su_store su) working k s g))"
    and "mirrored su d n (snd (report_status (su_store su) working k s g))"
proof -
  have "mirrored su d n (store_record (su_store su) working k (r\<lparr>ar_status := s\<rparr>) g)"
    if "map_of (rg_by_id g) k = Some r" for r
    by (rule mirrored_store [OF json m])
       (use that m keyed_id in \<open>auto simp: mirrored_def\<close>)
  then show "mirrored su d n (snd (set_status (su_store su) working k s g))"
    "mirrored su d n (snd (set_status_if_running (su_store su) working k s g))"
    "mirrored su d n (snd (report_status (su_store su) working k s g))"
    using m by (auto simp: set_status_def set_status_if_running_def report_status_def Let_def
        simp del: store_record_simps split: option.splits)
qed

lemma mirrored_remove:
  assumes "mirrored su d n g" "registry_remove working k force g = (res, g')"
  shows "mirrored su d n g'"
proof (cases "is_ok res")
  case False
  then have "g' = g"
    using assms(2) by (auto simp: registry_remove_def Let_def split: option.splits if_splits)
  then show ?thesis using assms(1) by simp
next
  case True
  have keyed: "keyed g'" using keyed_ops(5) [of g working k force] assms by (simp add: mirrored_def)
  obtain res2 where S: "remove_manifest working_io k (rg_disk g) = (res2, rg_disk g')"
    using True assms(2) by (cases "remove_manifest working_io k (rg_disk g)")
      (auto simp: registry_remove_def Let_def split: option.splits if_splits)
  have "is_ok res2" using S by (auto simp: remove_manifest_def split: if_splits)
  then have st: "stored (su_store su) (rg_disk g') j = (if j = k then None else stored (su_store su) (rg_disk g) j)" for j
    using remove_manifest_disk [OF S, of "su_store su" j] by (auto simp: stored_def)
  have old: "distinct (map fst (rg_disk g))" using assms(1) by (simp add: mirrored_def)
  consider "rg_disk g' = rg_disk g" | "rg_disk g' = AList.delete k (rg_disk g)"
    using S by (auto simp: remove_manifest_def split: if_splits)
  then have "set (rg_disk g') \<subseteq> set (rg_disk g) \<and> distinct (map fst (rg_disk g'))"
  proof cases
    case 1
    then show ?thesis using old by simp
  next
    case 2
    show ?thesis unfolding 2
      by (intro conjI distinct_delete old) (simp add: AList.delete_eq)
  qed
  then have sub: "set (rg_disk g') \<subseteq> set (rg_disk g)" "distinct (map fst (rg_disk g'))" by blast+
  have "map_of (rg_by_id g') j = stored (su_store su) (rg_disk g') j" for j
    using lookup_remove [OF assms(2), of j] True st [of j] assms(1) by (simp add: mirrored_def)
  moreover have "\<forall>j \<in> fst ` set (rg_disk g'). used su d n j \<and> utf8_ok j"
    using assms(1) image_mono [OF sub(1), of fst] unfolding mirrored_def by blast
  ultimately show ?thesis using keyed sub(2) unfolding mirrored_def by blast
qed

section \<open>Along a run\<close>

text \<open>An id is plain text.\<close>

lemma utf8_ok_ascii: "list_all (\<lambda>c. (of_char c :: nat) < 128) s \<Longrightarrow> utf8_ok s"
  by (induction s) (auto simp: utf8_width_def)

lemma hex_digit_ascii: "n < 16 \<Longrightarrow> (of_char (hex_digit n) :: nat) < 128"
  by (simp add: hex_digit_def)

lemma hex_byte_ascii: "c \<in> set (hex_byte b) \<Longrightarrow> (of_char c :: nat) < 128"
proof -
  have "unat b < 256" using unsigned_less [of b] by simp
  then have "unat b div 16 < 16" "unat b mod 16 < 16" by auto
  then show "c \<in> set (hex_byte b) \<Longrightarrow> (of_char c :: nat) < 128"
    by (auto simp: hex_byte_def hex_digit_ascii)
qed

lemma new_id_text: "utf8_ok (new_id uuid)"
proof (rule utf8_ok_ascii)
  have "set (new_id uuid) \<subseteq> set (concat (map hex_byte (take 8 uuid)))"
    unfolding new_id_def by (rule set_take_subset)
  then show "list_all (\<lambda>c. (of_char c :: nat) < 128) (new_id uuid)"
    using hex_byte_ascii by (fastforce simp: list_all_iff)
qed

lemma mirrored_mono: "mirrored su d n g \<Longrightarrow> n \<le> m \<Longrightarrow> mirrored su d m g"
  using used_mono by (fastforce simp: mirrored_def)

lemma mirrored_launch:
  assumes json: "json_faithful (su_store su)" and fresh: "fresh_draws su d (Suc (sv_drawn sv))"
    and io: "en_io env = working" and m: "mirrored su d (sv_drawn sv) (sv_registry sv)"
  shows "mirrored su d (Suc (sv_drawn sv)) (sv_registry (register_and_launch su env spec wd wt ep f sv))"
proof -
  let ?r = "fresh_record su env spec wd ep sv"
  have "sv_registry (register_and_launch su env spec wd wt ep f sv) =
      store_record (su_store su) working (next_id su sv) ?r (sv_registry sv)"
    by (simp add: register_and_launch_def register_agent_def fresh_record_def next_id_def Let_def io)
  moreover have "next_id su sv \<notin> fst ` set (rg_disk (sv_registry sv))"
    using m next_id_unused [OF fresh] unfolding mirrored_def by blast
  moreover have "utf8_ok (next_id su sv)" by (simp add: next_id_def new_id_text)
  ultimately show ?thesis
    using mirrored_store [OF json mirrored_mono [OF m], of "Suc (sv_drawn sv)" ?r "next_id su sv"] used_next [of su d sv]
    by simp
qed

lemma mirrored_drain:
  assumes json: "json_faithful (su_store su)" and io: "en_io env = working"
  shows "drain_loop su env rs sv = (sv', out) \<Longrightarrow> mirrored su d n (sv_registry sv) \<Longrightarrow>
    mirrored su d n (sv_registry sv')"
proof (induction rs arbitrary: sv sv' out)
  case (Cons r rs)
  let ?sv1 = "signal_worker (ar_id r) sv"
  let ?g = "snd (set_status (su_store su) (en_io env) (ar_id r) Drained (sv_registry ?sv1))"
  obtain out1 where rest: "drain_loop su env rs (?sv1\<lparr>sv_registry := ?g\<rparr>) = (sv', out1)"
    using Cons.prems(1) by (auto simp: Let_def split: prod.splits)
  have "mirrored su d n ?g" using mirrored_ops(1) [OF json] Cons.prems(2) by (simp add: io sup_frame)
  then show ?case using Cons.IH [OF rest] by simp
qed simp

lemma mirrored_spawn:
  assumes json: "json_faithful (su_store su)" and fresh: "fresh_draws su d (sv_drawn sv')" and io: "en_io env = working"
    and m: "mirrored su d (sv_drawn sv) (sv_registry sv)" and s: "spawn_agent su env spec sv = (sv', reply)"
  shows "mirrored su d (sv_drawn sv') (sv_registry sv')"
proof -
  obtain res sv1 where P: "prepare su env spec sv = (res, sv1)" by (cases "prepare su env spec sv")
  then have eqs: "sv_registry sv1 = sv_registry sv" "sv_drawn sv1 = sv_drawn sv"
    using prepare_frame(1,3) [of su env spec sv] by simp_all
  show ?thesis
  proof (cases res)
    case (Err e)
    then show ?thesis using s P eqs m by (auto simp: spawn_agent_def)
  next
    case (Ok x)
    obtain wd wt ep where "x = (wd, wt, ep)" by (cases x)
    then have "sv' = register_and_launch su env spec wd wt ep (\<lambda>r. Spawned (ar_id r) (ar_endpoint r)) sv1"
      using s P Ok by (simp add: spawn_agent_def)
    then show ?thesis
      using mirrored_launch [OF json _ io, of d sv1] m fresh by (simp add: eqs register_and_launch_effect)
  qed
qed

lemma mirrored_supersede:
  assumes json: "json_faithful (su_store su)" and fresh: "fresh_draws su d (sv_drawn sv')" and io: "en_io env = working"
    and m: "mirrored su d (sv_drawn sv) (sv_registry sv)" and s: "supersede su env aid spec sv = (sv', reply)"
  shows "mirrored su d (sv_drawn sv') (sv_registry sv')"
proof -
  obtain res sv1 where P: "prepare su env spec sv = (res, sv1)" by (cases "prepare su env spec sv")
  then have eqs: "sv_registry sv1 = sv_registry sv" "sv_drawn sv1 = sv_drawn sv"
    using prepare_frame(1,3) [of su env spec sv] by simp_all
  obtain rm g where R: "registry_remove working aid True (sv_registry sv) = (rm, g)"
    by (cases "registry_remove working aid True (sv_registry sv)")
  have g: "mirrored su d (sv_drawn sv) g" by (rule mirrored_remove [OF m R])
  show ?thesis
  proof (cases res)
    case (Err e)
    then show ?thesis using s P eqs m by (auto simp: supersede_def)
  next
    case (Ok x)
    obtain wd wt ep where x: "x = (wd, wt, ep)" by (cases x)
    show ?thesis
    proof (cases rm)
      case (Err e)
      then show ?thesis using s P eqs Ok x R g io by (auto simp: supersede_def sup_frame)
    next
      case okay: (Ok u)
      then have "sv' = register_and_launch su env spec wd wt ep (\<lambda>r. Respawned (ar_id r)) (sv1\<lparr>sv_registry := g\<rparr>)"
        using s P Ok x R eqs io by (auto simp: supersede_def)
      then show ?thesis
        using mirrored_launch [OF json _ io, of d "sv1\<lparr>sv_registry := g\<rparr>"] g fresh
        by (simp add: eqs register_and_launch_effect)
    qed
  qed
qed

lemma step_mirrored:
  assumes json: "json_faithful (su_store su)" and fresh: "fresh_draws su d (sv_drawn sv')" and io: "en_io env = working"
    and m: "mirrored su d (sv_drawn sv) (sv_registry sv)" and step: "sup_step su sv ev env reply sv'"
  shows "mirrored su d (sv_drawn sv') (sv_registry sv')"
  using step
proof (cases rule: sup_step.cases)
  case (request req)
  obtain sv1 where D: "dispatch su env req sv = (sv1, reply)" "sv_registry sv' = sv_registry sv1"
      "sv_drawn sv' = sv_drawn sv1"
    using handle_request_frame [OF request(2)] by metis
  have "mirrored su d (sv_drawn sv1) (sv_registry sv1)"
  proof (cases req)
    case (Spawn spec)
    then show ?thesis using mirrored_spawn [OF json _ io m] D fresh by simp
  next
    case (Kill k)
    then show ?thesis
      using D(1) mirrored_ops(1) [OF json m, of k Killed]
      by (auto simp: kill_agent_def Let_def io sup_frame split: prod.splits)
  next
    case (Respawn k)
    then show ?thesis using D(1) m by (auto simp: respawn_agent_def split: option.splits)
  next
    case (Rm k force)
    then show ?thesis
      using D(1) mirrored_remove [OF m, of k force]
      by (cases force) (auto simp: rm_agent_def Let_def io sup_frame split: prod.splits)
  next
    case (Drain g)
    then obtain out where L: "drain_loop su env (filter (\<lambda>r. live (ar_status r)) (registry_list (sv_registry sv))) sv = (sv1, out)"
      using D(1) by (auto simp: drain_agents_def split: prod.splits)
    then have "sv_drawn sv1 = sv_drawn sv" using drain_loop_effect by blast
    then show ?thesis using mirrored_drain [OF json io L m] by simp
  next
    case (ReportStatus k s)
    then show ?thesis using D(1) mirrored_ops(3) [OF json m, of k s] io by auto
  qed (use D m in auto)
  then show ?thesis using D by simp
next
  case (supersede i aid spec)
  then show ?thesis using mirrored_supersede [OF json fresh io _ supersede(4)] m by simp
next
  case (launch_err i r wt late)
  then show ?thesis
    using mirrored_ops(1) [OF json m, of "ar_id r" Failed] by (simp add: launch_failed_def sup_frame io)
next
  case (track i r wt late pid sv1 t)
  have "mirrored su d (sv_drawn sv) (track_pid (ar_id r) pid (sv_registry sv))"
    by (rule mirrored_same [OF m]) (simp_all add: track_pid_def)
  then show ?thesis
    using mirrored_ops(2) [OF json, of d "sv_drawn sv" "track_pid (ar_id r) pid (sv_registry sv)" "ar_id r" Running]
      track by (auto simp: track_worker_def Let_def io)
next
  case (finish i aid pid sock wt ok)
  let ?g = "snd (set_status_if_running (su_store su) working aid (if ok then Done else Failed) (sv_registry sv))"
  have "mirrored su d (sv_drawn sv) (forget_pid aid ?g)"
    by (rule mirrored_same [OF mirrored_ops(2) [OF json m]]) (simp_all add: forget_pid_def)
  then show ?thesis
    by (cases ok) (simp_all add: finish(3) finish_worker_def Let_def sup_frame io split: option.splits)
qed (use m in simp_all)

section \<open>Starting\<close>

text \<open>A base directory as the store keeps it.\<close>

definition store_wf :: "agent_store \<Rightarrow> disk \<Rightarrow> bool" where
  "store_wf st d \<longleftrightarrow> distinct (map fst d) \<and> (\<forall>k \<in> fst ` set d. utf8_ok k) \<and> filed st d"

lemma load_records_lookup:
  "distinct (map ar_id rs) \<Longrightarrow>
   map_of (load_records rs m) k =
     (case find (\<lambda>r. ar_id r = k) rs of Some r \<Rightarrow> Some r | None \<Rightarrow> map_of m k)"
proof (induction rs arbitrary: m)
  case (Cons a rs)
  have "find (\<lambda>r. ar_id r = k) rs = None" if "ar_id a = k"
  proof -
    have "ar_id a \<notin> ar_id ` set rs" using Cons.prems by simp
    then have "ar_id r \<noteq> k" if "r \<in> set rs" for r
      using imageI [OF that, of ar_id] \<open>ar_id a = k\<close> by auto
    then show ?thesis by (simp add: find_None_iff)
  qed
  then show ?case using Cons.IH [of "AList.update (ar_id a) a m"] Cons.prems
    by (auto simp: update_conv' split: option.splits)
qed simp

lemma list_entries_ids:
  "filed st d \<Longrightarrow> distinct (map fst es) \<Longrightarrow>
   distinct (map ar_id (list_entries st io d es)) \<and> ar_id ` set (list_entries st io d es) \<subseteq> fst ` set es"
proof (induction es)
  case (Cons e es)
  obtain name en where e: "e = (name, en)" by (cases e)
  have tail: "distinct (map ar_id (list_entries st io d es))" "ar_id ` set (list_entries st io d es) \<subseteq> fst ` set es"
      "name \<notin> fst ` set es"
    using Cons e by auto
  have "ar_id r = name" if "load_manifest st io d name = Ok (Some r)" for r
    using Cons.prems(1) that by (auto simp: filed_def)
  then show ?case
    using tail by (cases en) (auto simp: e split: option.splits result.splits)
qed simp

lemma new_lookup:
  assumes "store_wf st d"
  shows "map_of (rg_by_id (registry_new st working_io d)) k = stored st d k"
proof -
  note wf = assms [unfolded store_wf_def]
  let ?rs = "list_entries st working_io d d"
  have ids: "distinct (map ar_id ?rs)" using list_entries_ids wf by blast
  have look: "map_of (rg_by_id (registry_new st working_io d)) k = find (\<lambda>r. ar_id r = k) ?rs"
    using load_records_lookup [OF ids, of "[]" k] by (simp add: new_records split: option.splits)
  have mem: "r \<in> set ?rs \<and> ar_id r = k \<longleftrightarrow> stored st d k = Some r" for r
  proof
    assume "r \<in> set ?rs \<and> ar_id r = k"
    then show "stored st d k = Some r"
      using wf by (auto simp: set_list_entries filed_def stored_def)
  next
    assume s: "stored st d k = Some r"
    then have load: "on_disk st d k = Ok (Some r)" by (auto simp: stored_def split: result.splits)
    obtain fs where "map_of d k = Some (SessionDir fs)" using stored_dir [OF s] by blast
    then have "(k, SessionDir fs) \<in> set d" by (rule map_of_SomeD)
    moreover from this have "utf8_ok k" using wf by force
    moreover have "ar_id r = k" using wf load by (auto simp: filed_def)
    ultimately show "r \<in> set ?rs \<and> ar_id r = k" using load by (auto simp: set_list_entries)
  qed
  show ?thesis
  proof (cases "find (\<lambda>r. ar_id r = k) ?rs")
    case None
    then have "stored st d k \<noteq> Some r" for r using mem [of r] by (auto simp: find_None_iff)
    then show ?thesis using look None by (cases "stored st d k") auto
  next
    case (Some r)
    then have "stored st d k = Some r" using mem [of r] by (auto dest: find_SomeD)
    then show ?thesis using look Some by simp
  qed
qed

lemma sweep_disk:
  assumes json: "json_faithful st"
    and "\<forall>k \<in> set ks. \<exists>r. map_of m k = Some r \<and> ar_id r = k \<and> (\<exists>fs. map_of d k = Some (SessionDir fs))"
  shows "stored st (fold (\<lambda>k d. case map_of m k of None \<Rightarrow> d | Some r \<Rightarrow> persist st working r d) ks d) j =
           (if j \<in> set ks then map_of m j else stored st d j) \<and>
         fst ` set (fold (\<lambda>k d. case map_of m k of None \<Rightarrow> d | Some r \<Rightarrow> persist st working r d) ks d) =
           set ks \<union> fst ` set d \<and>
         (distinct (map fst d) \<longrightarrow>
           distinct (map fst (fold (\<lambda>k d. case map_of m k of None \<Rightarrow> d | Some r \<Rightarrow> persist st working r d) ks d)))"
  using assms(2)
proof (induction ks arbitrary: d)
  case (Cons k ks)
  obtain r fs where r: "map_of m k = Some r" "ar_id r = k" "map_of d k = Some (SessionDir fs)"
    using Cons.prems by auto
  have "map_of d (ar_id r) \<noteq> Some OtherEntry" using r by simp
  note effect = persist_effect [OF json this]
  have "\<forall>k' \<in> set ks. \<exists>q. map_of m k' = Some q \<and> ar_id q = k' \<and>
      (\<exists>fs. map_of (persist st working r d) k' = Some (SessionDir fs))"
  proof
    fix k'
    assume "k' \<in> set ks"
    then obtain q fs' where "map_of m k' = Some q" "ar_id q = k'" "map_of d k' = Some (SessionDir fs')"
      using Cons.prems by auto
    then show "\<exists>q. map_of m k' = Some q \<and> ar_id q = k' \<and>
        (\<exists>fs. map_of (persist st working r d) k' = Some (SessionDir fs))"
      using effect(4) [of k'] effect(5) r(2) by (cases "k' = k") auto
  qed
  note rest = Cons.IH [OF this]
  show ?case
    using rest effect(1) [of j] effect(2,3) r by auto
qed simp

text \<open>The registry that a restart finds, on the disk that the last daemon left.\<close>

lemma mirrored_wf: "mirrored su d n g \<Longrightarrow> store_wf (su_store su) (rg_disk g)"
proof -
  assume m: "mirrored su d n g"
  have "ar_id r = name" if "load_manifest (su_store su) io (rg_disk g) name = Ok (Some r)" for io name r
  proof -
    have "stored (su_store su) (rg_disk g) name = Some r"
      using that by (auto simp: stored_def load_manifest_def split: option.splits if_splits)
    then have "map_of (rg_by_id g) name = Some r" using m by (simp add: mirrored_def)
    then show ?thesis using keyed_id m by (auto simp: mirrored_def)
  qed
  then show ?thesis using m unfolding mirrored_def store_wf_def filed_def by blast
qed

lemma boot_lookup:
  assumes "store_wf (su_store su) d"
  shows "record_of (boot su working_io sio d) k = map_option crash (stored (su_store su) d k)"
  by (simp add: boot_records new_lookup [OF assms])

lemma boot_mirrored:
  assumes json: "json_faithful (su_store su)" and wf: "store_wf (su_store su) d"
  shows "mirrored su d 0 (sv_registry (boot su working_io working d))"
proof -
  let ?st = "su_store su"
  let ?g0 = "registry_new ?st working_io d"
  let ?ks = "map fst (filter (\<lambda>(k, r). swept r) (rg_by_id ?g0))"
  let ?m = "map (\<lambda>(k, r). (k, crash r)) (rg_by_id ?g0)"
  have keyed0: "keyed ?g0" by (rule new_keyed)
  have ks: "k \<in> set ?ks \<longleftrightarrow> (\<exists>r. map_of (rg_by_id ?g0) k = Some r \<and> swept r)" for k
    using keyed0 by (force simp: keyed_def)
  have m: "map_of ?m k = map_option crash (stored ?st d k)" for k
    by (simp add: map_of_map_value new_lookup [OF wf])
  have "\<forall>k \<in> set ?ks. \<exists>r. map_of ?m k = Some r \<and> ar_id r = k \<and> (\<exists>fs. map_of d k = Some (SessionDir fs))"
  proof
    fix k
    assume "k \<in> set ?ks"
    then obtain r where r: "map_of (rg_by_id ?g0) k = Some r" by (auto simp: ks simp del: set_map)
    then have "ar_id r = k" "stored ?st d k = Some r" using keyed_id [OF keyed0] new_lookup [OF wf] by auto
    then show "\<exists>r. map_of ?m k = Some r \<and> ar_id r = k \<and> (\<exists>fs. map_of d k = Some (SessionDir fs))"
      using m [of k] stored_dir by (auto simp: crash_def)
  qed
  note sweep = sweep_disk [OF json this]
  have disk: "rg_disk (sv_registry (boot su working_io working d)) =
      fold (\<lambda>k d. case map_of ?m k of None \<Rightarrow> d | Some r \<Rightarrow> persist ?st working r d) ?ks d"
    by (simp add: boot_def serve_start_def with_bind_def sweep_crashed_def Let_def registry_new_def)
  have "record_of (boot su working_io working d) k =
      stored ?st (rg_disk (sv_registry (boot su working_io working d))) k" for k
  proof -
    have "crash r = r" if "\<not> swept r" for r using that by (simp add: crash_def)
    then show ?thesis
      unfolding disk boot_lookup [OF wf]
      using sweep [of k] m [of k] ks [of k] new_lookup [OF wf, of k] by (cases "stored ?st d k") auto
  qed
  moreover have sub: "set ?ks \<subseteq> fst ` set d"
  proof
    fix k
    assume "k \<in> set ?ks"
    then obtain r where "stored ?st d k = Some r" using ks [of k] new_lookup [OF wf, of k] by auto
    then show "k \<in> fst ` set d" using stored_dir by (force dest: map_of_SomeD)
  qed
  moreover have "distinct (map fst d)" "\<forall>k \<in> fst ` set d. utf8_ok k" using wf by (simp_all add: store_wf_def)
  moreover have "fst ` set (rg_disk (sv_registry (boot su working_io working d))) = fst ` set d"
    "distinct (map fst (rg_disk (sv_registry (boot su working_io working d))))"
    using sweep sub \<open>distinct (map fst d)\<close> unfolding disk by blast+
  ultimately show ?thesis
    unfolding mirrored_def used_def using boot_keyed [of su working_io working d] by simp
qed

lemma restart_finds:
  assumes json: "json_faithful (su_store su)" and wf: "store_wf (su_store su) d" and fresh: "fresh_draws su d (sv_drawn sv)"
    and run: "sup_run su (\<lambda>env. en_io env = working) (boot su working_io working d) sv"
  shows "record_of (boot su working_io working (rg_disk (sv_registry sv))) k = map_option crash (record_of sv k)"
proof -
  have "fresh_draws su d (sv_drawn sv) \<longrightarrow> mirrored su d (sv_drawn sv) (sv_registry sv)"
    by (rule run_invariant [OF run])
       (use boot_mirrored [OF json wf] step_mirrored [OF json] step_draws fresh_draws_mono in \<open>simp, blast\<close>)
  then have "mirrored su d (sv_drawn sv) (sv_registry sv)" using fresh by blast
  then show ?thesis
    using boot_lookup [OF mirrored_wf] by (simp add: mirrored_def)
qed

end
