(* ===== verification/Daemon.thy ===== *)
theory Daemon
  imports SupervisorProps SupervisorDisk
begin

text \<open>
  The claims about the daemon of background agents, each with a concrete daemon for which its
  hypotheses hold, and the interleavings in which the daemon loses track of a worker.
\<close>

section \<open>Ports\<close>

lemma nat_str_small: "n < 10 \<Longrightarrow> nat_str n = [char_of (48 + n)]"
  by (subst nat_str.simps) simp

lemma nat_str_big: "10 \<le> n \<Longrightarrow> nat_str n = nat_str (n div 10) @ [char_of (48 + n mod 10)]"
  by (subst nat_str.simps) simp

lemma digit_chars:
  "char_of (48 :: nat) = CHR ''0''" "char_of (51 :: nat) = CHR ''3''" "char_of (52 :: nat) = CHR ''4''"
  "char_of (53 :: nat) = CHR ''5''" "char_of (54 :: nat) = CHR ''6''"
  by (simp_all add: char_of_def bit_0)

lemma digit_inject: "i < 10 \<Longrightarrow> j < 10 \<Longrightarrow> (char_of (48 + i) = (char_of (48 + j) :: char)) = (i = (j :: nat))"
  using arg_cong [of "char_of (48 + i)" "char_of (48 + j)" "of_char :: char \<Rightarrow> nat"] by auto

lemma nat_str_inject [simp]: "nat_str m = nat_str n \<longleftrightarrow> m = n"
proof
  show "nat_str m = nat_str n \<Longrightarrow> m = n"
  proof (induction m arbitrary: n rule: less_induct)
    case (less m)
    consider "m < 10" "n < 10" | "m < 10" "10 \<le> n" | "10 \<le> m" "n < 10" | "10 \<le> m" "10 \<le> n" by linarith
    then show ?case
    proof cases
      case 1
      then show ?thesis using less.prems digit_inject [of m n] by (simp add: nat_str_small)
    next
      case 2
      then show ?thesis using less.prems nat_str_neq_Nil [of "n div 10"] by (simp add: nat_str_small nat_str_big)
    next
      case 3
      then show ?thesis using less.prems nat_str_neq_Nil [of "m div 10"] by (simp add: nat_str_small nat_str_big)
    next
      case 4
      then have "nat_str (m div 10) = nat_str (n div 10)" "m mod 10 = n mod 10"
        using less.prems digit_inject [of "m mod 10" "n mod 10"] by (simp_all add: nat_str_big)
      then show ?thesis using less.IH [of "m div 10" "n div 10"] 4 by (metis div_mult_mod_eq div_less_dividend
          less_le_trans one_less_numeral_iff semiring_norm(76) zero_less_numeral)
    qed
  qed
qed simp

text \<open>The calls of \<open>next_endpoint\<close> one after another, from a counter.\<close>

fun port_calls :: "supervisor \<Rightarrow> string list \<Rightarrow> u32 \<Rightarrow> (endpoint, supervisor_error) result list" where
  "port_calls su [] next_port = []"
| "port_calls su (u # us) next_port =
     (let (res, next_port') = next_endpoint su u next_port in res # port_calls su us next_port')"

definition agent_port :: "network_config \<Rightarrow> nat \<Rightarrow> (endpoint, supervisor_error) result" where
  "agent_port net port =
     (if port \<le> 65535 then Ok (Tcp (nc_advertise_host net @ '':'' @ nat_str port))
      else Err (Internal ''agent port range exhausted''))"

lemma next_endpoint_network:
  assumes "su_network su = Some net" "unat (nc_agent_port_base net) + i < 2 ^ 32"
  shows "next_endpoint su u (of_nat i) = (agent_port net (unat (nc_agent_port_base net) + i), of_nat (Suc i))"
proof -
  let ?port = "(ucast (nc_agent_port_base net) :: u32) + of_nat i"
  have "unat ?port = unat (nc_agent_port_base net) + i"
  proof -
    define k where "k = unat (nc_agent_port_base net) + i"
    have "?port = of_nat k" by (simp add: k_def)
    then have "unat ?port = unat (of_nat k :: u32)" by simp
    also have "\<dots> = k"
      using assms(2) unfolding k_def [symmetric] by (simp add: unsigned_of_nat take_bit_nat_eq_self)
    finally show ?thesis by (simp add: k_def)
  qed
  then show ?thesis
    by (simp add: next_endpoint_def assms(1) agent_port_def word_less_nat_alt Let_def)
qed

lemma port_calls_nth:
  assumes "su_network su = Some net" "unat (nc_agent_port_base net) + n + length us \<le> 2 ^ 32"
  shows "port_calls su us (of_nat n) =
    map (\<lambda>i. agent_port net (unat (nc_agent_port_base net) + n + i)) [0..<length us]"
  using assms(2)
proof (induction us arbitrary: n)
  case (Cons u us)
  have "next_endpoint su u (of_nat n) = (agent_port net (unat (nc_agent_port_base net) + n), of_nat (Suc n))"
    by (rule next_endpoint_network [OF assms(1)]) (use Cons.prems in simp)
  moreover have "port_calls su us (of_nat (Suc n)) =
      map (\<lambda>i. agent_port net (unat (nc_agent_port_base net) + Suc n + i)) [0..<length us]"
    by (rule Cons.IH) (use Cons.prems in simp)
  ultimately show ?case by (simp add: map_upt_Suc del: of_nat_Suc upt_Suc)
qed simp

text \<open>The endpoints that the calls hand out.\<close>

definition handed_out :: "(endpoint, supervisor_error) result list \<Rightarrow> endpoint list" where
  "handed_out rs = List.map_filter (\<lambda>r. case r of Ok e \<Rightarrow> Some e | Err _ \<Rightarrow> None) rs"

lemma handed_out_ports:
  "handed_out (map (\<lambda>i. agent_port net (b + i)) is) =
     map (\<lambda>i. Tcp (nc_advertise_host net @ '':'' @ nat_str (b + i))) (filter (\<lambda>i. b + i \<le> 65535) is)"
  by (induction "is") (auto simp: handed_out_def agent_port_def)

lemma port_calls_distinct:
  assumes "su_network su = Some net" "unat (nc_agent_port_base net) + length us \<le> 2 ^ 32"
  shows "distinct (handed_out (port_calls su us 0))"
  using port_calls_nth [OF assms(1), of 0 us] assms(2)
  by (simp add: handed_out_ports distinct_map inj_on_def)

section \<open>A concrete store\<close>

text \<open>
  A printer of records that can be read back, to stand in for \<open>serde_json\<close>: every field is
  written so that it cannot run into the next.
\<close>

fun put_str :: "string \<Rightarrow> string" where
  "put_str [] = ''.''"
| "put_str (c # s) = CHR ''c'' # c # put_str s"

fun put_bool :: "bool \<Rightarrow> string" where
  "put_bool True = ''t''"
| "put_bool False = ''f''"

fun put_opt :: "('a \<Rightarrow> string) \<Rightarrow> 'a option \<Rightarrow> string" where
  "put_opt f None = ''n''"
| "put_opt f (Some x) = CHR ''s'' # f x"

fun put_list :: "('a \<Rightarrow> string) \<Rightarrow> 'a list \<Rightarrow> string" where
  "put_list f [] = ''n''"
| "put_list f (x # xs) = CHR ''c'' # f x @ put_list f xs"

fun put_component :: "component \<Rightarrow> string" where
  "put_component RootDir = ''r''"
| "put_component CurDir = ''c''"
| "put_component ParentDir = ''p''"
| "put_component (Normal s) = CHR ''n'' # put_str s"

fun put_endpoint :: "endpoint \<Rightarrow> string" where
  "put_endpoint (Unix p) = CHR ''u'' # put_list put_component p"
| "put_endpoint (Tcp a) = CHR ''t'' # put_str a"

fun put_status :: "agent_status \<Rightarrow> string" where
  "put_status Spawning = ''s''"
| "put_status Running = ''r''"
| "put_status Idle = ''i''"
| "put_status Killed = ''k''"
| "put_status Drained = ''d''"
| "put_status Done = ''o''"
| "put_status Failed = ''f''"
| "put_status Crashed = ''c''"

definition put_spec :: "spawn_spec \<Rightarrow> string" where
  "put_spec s =
     put_opt put_str (sp_label s) @ put_opt (put_list put_component) (sp_frontmatter_path s) @
     put_str (sp_initial_prompt s) @ put_opt put_str (sp_model s) @ put_opt put_str (sp_provider s) @
     put_opt (put_list put_str) (sp_tool_allowlist s) @ put_bool (sp_isolation_worktree s) @
     put_bool (sp_inherit_hooks s) @ put_bool (sp_interactive s) @
     put_opt put_str (sp_inherited_hooks_config s) @ put_opt put_str (sp_source s) @
     put_opt (put_list put_component) (sp_resume_session s) @
     put_bool (sp_permission_posture s = Supervised) @ put_bool (sp_drive_protocol s = Ndjson)"

definition put_record :: "agent_record \<Rightarrow> string" where
  "put_record r =
     put_str (ar_id r) @ put_str (ar_name r) @ put_status (ar_status r) @ put_str (ar_started_at r) @
     put_list put_component (ar_session_dir r) @ put_endpoint (ar_endpoint r) @
     put_list put_component (ar_working_dir r) @ put_spec (ar_spec r)"

type_synonym 'a reader = "string \<Rightarrow> ('a \<times> string) option"

definition bind_reader :: "'a reader \<Rightarrow> ('a \<Rightarrow> 'b reader) \<Rightarrow> 'b reader" where
  "bind_reader g k s = (case g s of None \<Rightarrow> None | Some (x, r) \<Rightarrow> k x r)"

text \<open>A choice by the first character.\<close>

fun get_tag :: "(char \<times> 'a reader) list \<Rightarrow> 'a reader" where
  "get_tag alts [] = None"
| "get_tag alts (c # s) = (case map_of alts c of None \<Rightarrow> None | Some g \<Rightarrow> g s)"

definition give :: "'a \<Rightarrow> 'a reader" where
  "give x s = Some (x, s)"

fun get_str :: "nat \<Rightarrow> string reader" where
  "get_str n [] = None"
| "get_str n (t # s) =
     (if t = CHR ''.'' then Some ([], s)
      else (case s of
              [] \<Rightarrow> None
            | c # s' \<Rightarrow>
                (case n of 0 \<Rightarrow> None | Suc m \<Rightarrow> map_option (\<lambda>(x, r). (c # x, r)) (get_str m s'))))"

fun get_list :: "nat \<Rightarrow> 'a reader \<Rightarrow> 'a list reader" where
  "get_list n g [] = None"
| "get_list n g (t # s) =
     (if t = CHR ''n'' then Some ([], s)
      else (case g s of
              None \<Rightarrow> None
            | Some (x, r) \<Rightarrow>
                (case n of 0 \<Rightarrow> None | Suc m \<Rightarrow> map_option (\<lambda>(xs, r). (x # xs, r)) (get_list m g r))))"

definition get_string :: "string reader" where
  "get_string s = get_str (length s) s"

definition get_many :: "'a reader \<Rightarrow> 'a list reader" where
  "get_many g s = get_list (length s) g s"

definition get_bool :: "bool reader" where
  "get_bool = get_tag [(CHR ''t'', give True), (CHR ''f'', give False)]"

definition get_opt :: "'a reader \<Rightarrow> 'a option reader" where
  "get_opt g = get_tag [(CHR ''n'', give None), (CHR ''s'', bind_reader g (\<lambda>x. give (Some x)))]"

definition get_component :: "component reader" where
  "get_component = get_tag [(CHR ''r'', give RootDir), (CHR ''c'', give CurDir), (CHR ''p'', give ParentDir),
     (CHR ''n'', bind_reader get_string (\<lambda>s. give (Normal s)))]"

definition get_endpoint :: "endpoint reader" where
  "get_endpoint = get_tag [(CHR ''u'', bind_reader (get_many get_component) (\<lambda>p. give (Unix p))),
     (CHR ''t'', bind_reader get_string (\<lambda>a. give (Tcp a)))]"

definition get_status :: "agent_status reader" where
  "get_status = get_tag [(CHR ''s'', give Spawning), (CHR ''r'', give Running), (CHR ''i'', give Idle),
     (CHR ''k'', give Killed), (CHR ''d'', give Drained), (CHR ''o'', give Done), (CHR ''f'', give Failed),
     (CHR ''c'', give Crashed)]"

definition get_spec :: "spawn_spec reader" where
  "get_spec =
     bind_reader (get_opt get_string) (\<lambda>label.
     bind_reader (get_opt (get_many get_component)) (\<lambda>front.
     bind_reader get_string (\<lambda>prompt.
     bind_reader (get_opt get_string) (\<lambda>model.
     bind_reader (get_opt get_string) (\<lambda>provider.
     bind_reader (get_opt (get_many get_string)) (\<lambda>allow.
     bind_reader get_bool (\<lambda>isolation.
     bind_reader get_bool (\<lambda>inherit.
     bind_reader get_bool (\<lambda>interactive.
     bind_reader (get_opt get_string) (\<lambda>config.
     bind_reader (get_opt get_string) (\<lambda>src.
     bind_reader (get_opt (get_many get_component)) (\<lambda>resume.
     bind_reader get_bool (\<lambda>supervised.
     bind_reader get_bool (\<lambda>ndjson.
     give \<lparr>sp_label = label, sp_frontmatter_path = front, sp_initial_prompt = prompt, sp_model = model,
       sp_provider = provider, sp_tool_allowlist = allow, sp_isolation_worktree = isolation,
       sp_inherit_hooks = inherit, sp_interactive = interactive, sp_inherited_hooks_config = config,
       sp_source = src, sp_resume_session = resume,
       sp_permission_posture = (if supervised then Supervised else Unattended),
       sp_drive_protocol = (if ndjson then Ndjson else Acp)\<rparr>))))))))))))))"

definition get_record :: "agent_record reader" where
  "get_record =
     bind_reader get_string (\<lambda>k.
     bind_reader get_string (\<lambda>name.
     bind_reader get_status (\<lambda>s.
     bind_reader get_string (\<lambda>started.
     bind_reader (get_many get_component) (\<lambda>dir.
     bind_reader get_endpoint (\<lambda>ep.
     bind_reader (get_many get_component) (\<lambda>wd.
     bind_reader get_spec (\<lambda>spec.
     give \<lparr>ar_id = k, ar_name = name, ar_status = s, ar_started_at = started, ar_session_dir = dir,
       ar_endpoint = ep, ar_working_dir = wd, ar_spec = spec\<rparr>))))))))"

text \<open>A reader reads what the printer prints, and leaves what follows.\<close>

definition reads :: "'a reader \<Rightarrow> ('a \<Rightarrow> string) \<Rightarrow> bool" where
  "reads g f \<longleftrightarrow> (\<forall>x a. g (f x @ a) = Some (x, a))"

lemma readsD: "reads g f \<Longrightarrow> g (f x @ a) = Some (x, a)"
  by (simp add: reads_def)

lemma bind_reads: "reads g f \<Longrightarrow> bind_reader g k (f x @ a) = k x a"
  by (simp add: bind_reader_def readsD)

lemma get_str_put: "length s \<le> n \<Longrightarrow> get_str n (put_str s @ a) = Some (s, a)"
proof (induction s arbitrary: n)
  case (Cons c s)
  then show ?case by (cases n) auto
qed (cases n; simp)

lemma length_put_str: "length s \<le> length (put_str s)"
  by (induction s) auto

lemma reads_string: "reads get_string put_str"
  unfolding reads_def get_string_def using get_str_put length_put_str by (simp add: trans_le_add1)

lemma get_list_put: "reads g f \<Longrightarrow> length xs \<le> n \<Longrightarrow> get_list n g (put_list f xs @ a) = Some (xs, a)"
proof (induction xs arbitrary: n)
  case (Cons x xs)
  then show ?case by (cases n) (auto simp: readsD)
qed (cases n; simp)

lemma length_put_list: "length xs \<le> length (put_list f xs)"
  by (induction xs) auto

lemma reads_many: "reads g f \<Longrightarrow> reads (get_many g) (put_list f)"
  unfolding reads_def get_many_def
  using get_list_put [of g f] length_put_list [of _ f] by (simp add: reads_def trans_le_add1)

lemma reads_bool: "reads get_bool put_bool"
  unfolding reads_def
proof (intro allI)
  show "get_bool (put_bool x @ a) = Some (x, a)" for x a by (cases x) (simp_all add: get_bool_def give_def)
qed

lemma reads_opt: "reads g f \<Longrightarrow> reads (get_opt g) (put_opt f)"
  unfolding reads_def
proof (intro allI)
  assume "\<forall>x a. g (f x @ a) = Some (x, a)"
  then show "get_opt g (put_opt f x @ a) = Some (x, a)" for x a
    by (cases x) (simp_all add: get_opt_def give_def bind_reader_def)
qed

lemma reads_component: "reads get_component put_component"
  unfolding reads_def
proof (intro allI)
  show "get_component (put_component x @ a) = Some (x, a)" for x a
    by (cases x) (simp_all add: get_component_def give_def bind_reads [OF reads_string])
qed

lemma reads_endpoint: "reads get_endpoint put_endpoint"
  unfolding reads_def
proof (intro allI)
  show "get_endpoint (put_endpoint x @ a) = Some (x, a)" for x a
    by (cases x) (simp_all add: get_endpoint_def give_def bind_reads [OF reads_string]
        bind_reads [OF reads_many [OF reads_component]])
qed

lemma reads_status: "reads get_status put_status"
  unfolding reads_def
proof (intro allI)
  show "get_status (put_status x @ a) = Some (x, a)" for x a
    by (cases x) (simp_all add: get_status_def give_def)
qed

lemmas field_reads =
  bind_reads [OF reads_string] bind_reads [OF reads_bool] bind_reads [OF reads_endpoint]
  bind_reads [OF reads_status] bind_reads [OF reads_many [OF reads_component]]
  bind_reads [OF reads_opt [OF reads_string]] bind_reads [OF reads_opt [OF reads_many [OF reads_string]]]
  bind_reads [OF reads_opt [OF reads_many [OF reads_component]]]

lemma posture_read: "(if p = Supervised then Supervised else Unattended) = p"
  by (cases p) auto

lemma protocol_read: "(if p = Ndjson then Ndjson else Acp) = p"
  by (cases p) auto

lemma reads_spec: "reads get_spec put_spec"
  unfolding reads_def
proof (intro allI)
  show "get_spec (put_spec x @ a) = Some (x, a)" for x a
    by (simp add: put_spec_def get_spec_def field_reads give_def posture_read protocol_read)
qed

lemma reads_record: "reads get_record put_record"
  unfolding reads_def
proof (intro allI)
  show "get_record (put_record x @ a) = Some (x, a)" for x a
    by (simp add: put_record_def get_record_def field_reads bind_reads [OF reads_spec] give_def)
qed

definition ex_store :: agent_store where
  "ex_store = \<lparr>as_base = [RootDir, Normal ''agents''],
     as_encode = (\<lambda>r. Some (put_record r)),
     as_decode = (\<lambda>s. map_option fst (get_record s))\<rparr>"

lemma ex_store_faithful: "json_faithful ex_store"
  using readsD [OF reads_record, of _ "[]"] by (simp add: json_faithful_def ex_store_def)

section \<open>A concrete daemon\<close>

definition ex_su :: supervisor where
  "ex_su = \<lparr>su_endpoint = Unix [RootDir, Normal ''ctl''], su_network = None, su_store = ex_store,
     su_agent_runtime_dir = [RootDir, Normal ''run''], su_workspace_root = [RootDir, Normal ''w''],
     su_uuid = (\<lambda>n. map of_nat [n, 0, 0, 0, 0, 0, 0, 0]), su_keep = None\<rparr>"

definition ex_env :: step_env where
  "ex_env = \<lparr>en_fs = \<lparr>sf_exists = (\<lambda>_. False), sf_is_dir = (\<lambda>_. False), sf_read_dir = (\<lambda>_. None)\<rparr>,
     en_worktree = (\<lambda>p n. Ok (p @ [Normal n], n)), en_simple = ''tree'', en_socket = ''0123456789'',
     en_io = working, en_now = ''now'', en_pid = 1, en_uptime = 0\<rparr>"

definition ex_spec :: spawn_spec where
  "ex_spec = \<lparr>sp_label = None, sp_frontmatter_path = None, sp_initial_prompt = ''go'', sp_model = None,
     sp_provider = None, sp_tool_allowlist = None, sp_isolation_worktree = True, sp_inherit_hooks = True,
     sp_interactive = False, sp_inherited_hooks_config = None, sp_source = None, sp_resume_session = None,
     sp_permission_posture = Supervised, sp_drive_protocol = Ndjson\<rparr>"

definition ex_id :: string where
  "ex_id = ''000000000000''"

definition ex_rec :: agent_record where
  "ex_rec = \<lparr>ar_id = ex_id, ar_name = ''agent-000000000000'', ar_status = Spawning, ar_started_at = ''now'',
     ar_session_dir = [RootDir, Normal ''agents'', Normal ex_id],
     ar_endpoint = Unix [RootDir, Normal ''run'', Normal ''01234567-agent.sock''],
     ar_working_dir = [RootDir, Normal ''w'', Normal ''tree''], ar_spec = ex_spec\<rparr>"

definition ex_wt :: worktree where
  "ex_wt = ([RootDir, Normal ''w''], ''tree'')"

definition ex_sock :: path where
  "ex_sock = [RootDir, Normal ''run'', Normal ''01234567-agent.sock'']"

text \<open>The daemon started on an empty disk, and its state after one spawn.\<close>

definition ex_start :: server where
  "ex_start = boot ex_su working_io working []"

definition ex_spawned :: server where
  "ex_spawned = fst (handle_request ex_su ex_env (Spawn ex_spec) ex_start)"

lemma request_step: "sup_step su sv (Request req) env (snd (handle_request su env req sv)) (fst (handle_request su env req sv))"
  by (rule sup_step.request) simp

lemma ex_rec_fields: "ar_id ex_rec = ex_id" "ar_status ex_rec = Spawning" "unix_socket_path ex_rec = Some ex_sock"
  by (simp_all add: ex_rec_def unix_socket_path_def ex_sock_def)

text \<open>What is read of a state here, evaluated once.\<close>

definition digest :: "server \<Rightarrow> task list \<times> (string \<times> agent_record) list \<times> (string \<times> nat) list \<times>
    worktree list \<times> nat \<times> nat list" where
  "digest sv = (sv_tasks sv, rg_by_id (sv_registry sv), rg_pids (sv_registry sv), sv_made sv, sv_drawn sv,
     sv_signals sv)"

lemma ex_spawned_state:
  "digest ex_spawned =
     ([Launching ex_rec (Some ex_wt) (Spawned ex_id (Unix ex_sock))], [(ex_id, ex_rec)], [], [ex_wt], 1, [])"
  by code_simp

lemma ex_tasks: "sv_tasks ex_spawned = [Launching ex_rec (Some ex_wt) (Spawned ex_id (Unix ex_sock))]"
  using ex_spawned_state by (simp add: digest_def)

lemma ex_records: "record_of ex_spawned k = (if k = ex_id then Some ex_rec else None)"
  using ex_spawned_state by (simp add: digest_def)

lemma ex_record: "record_of ex_spawned ex_id = Some ex_rec"
  by (simp add: ex_records)

lemma ex_pids: "pid_of (sv_registry ex_spawned) k = None"
  using ex_spawned_state by (simp add: digest_def pid_of_def)

lemma ex_made: "sv_made ex_spawned = [ex_wt]"
  using ex_spawned_state by (simp add: digest_def)

lemma ex_drawn: "sv_drawn ex_spawned = 1"
  using ex_spawned_state by (simp add: digest_def)

lemma ex_signals: "sv_signals ex_spawned = []"
  using ex_spawned_state by (simp add: digest_def)

lemma ex_fresh: "fresh_draws ex_su [] 1"
  by code_simp

lemma ex_filed: "filed (su_store ex_su) []"
  by (simp add: filed_def load_manifest_def dir_files_def)

lemma ex_reachable: "reachable ex_su [] ex_spawned"
  unfolding reachable_def ex_spawned_def ex_start_def
  by (rule exI [of _ working_io], rule exI [of _ working], rule sup_run.there [OF sup_run.here request_step]) simp

lemma reachable_step: "reachable su d sv \<Longrightarrow> sup_step su sv ev env reply sv' \<Longrightarrow> reachable su d sv'"
  by (auto simp: reachable_def intro: sup_run.there)

lemma reachable_fresh_start:
  assumes "reachable su d sv" "fresh_draws su d (sv_drawn sv')" "sup_run su ok sv sv'"
  shows "fresh_draws su d (sv_drawn sv)"
proof -
  have "sv_drawn sv \<le> sv_drawn sv'"
    by (rule run_invariant [OF assms(3)]) (use step_draws in \<open>auto intro: order_trans\<close>)
  then show ?thesis using fresh_draws_mono assms(2) by blast
qed

text \<open>The agent is killed while its worker is being launched.\<close>

definition ex_killed :: server where
  "ex_killed = fst (handle_request ex_su ex_env (Kill ex_id) ex_spawned)"

lemma kill_effect:
  assumes "record_of sv k = Some r"
  shows "snd (handle_request su env (Kill k) sv) = Some KillAck"
    and "record_of (fst (handle_request su env (Kill k) sv)) k = Some (r\<lparr>ar_status := Killed\<rparr>)"
    and "sv_tasks (fst (handle_request su env (Kill k) sv)) = sv_tasks sv"
    and "sv_drawn (fst (handle_request su env (Kill k) sv)) = sv_drawn sv"
    and "sv_signals (fst (handle_request su env (Kill k) sv)) = sv_signals sv @ tracked_pids sv k"
  using assms
  by (simp_all add: handle_request_def kill_agent_def Let_def set_status_def sup_frame update_conv'
      signal_worker_signals)

lemma ex_killed_record: "record_of ex_killed ex_id = Some (ex_rec\<lparr>ar_status := Killed\<rparr>)"
  unfolding ex_killed_def by (rule kill_effect(2) [OF ex_record])

lemma ex_killed_tasks: "sv_tasks ex_killed = [Launching ex_rec (Some ex_wt) (Spawned ex_id (Unix ex_sock))]"
  unfolding ex_killed_def kill_effect(3) [OF ex_record] by (rule ex_tasks)

lemma ex_killed_drawn: "sv_drawn ex_killed = 1"
  unfolding ex_killed_def kill_effect(4) [OF ex_record] by (rule ex_drawn)

lemma ex_killed_reachable: "reachable ex_su [] ex_killed"
  unfolding ex_killed_def by (rule reachable_step [OF ex_reachable request_step])

text \<open>The worker is up, and waited for.\<close>

definition ex_tracked :: server where
  "ex_tracked =
     (let sv1 = ex_spawned\<lparr>sv_tasks := [Launched ex_rec (Some ex_wt) (Spawned ex_id (Unix ex_sock)) 7]\<rparr>;
          (sv2, t) = track_worker ex_su ex_env ex_rec (Some ex_wt) 7 sv1
      in sv2\<lparr>sv_tasks := [t]\<rparr>)"

lemma ex_launched:
  "sup_step ex_su ex_spawned (LaunchOk 0 7) ex_env None
     (ex_spawned\<lparr>sv_tasks := [Launched ex_rec (Some ex_wt) (Spawned ex_id (Unix ex_sock)) 7]\<rparr>)"
  using sup_step.launch_ok [of 0 ex_spawned ex_rec "Some ex_wt" "Spawned ex_id (Unix ex_sock)" 7 ex_su ex_env]
  by (simp add: ex_tasks)

lemma ex_tracked_reachable: "reachable ex_su [] ex_tracked"
proof -
  let ?sv1 = "ex_spawned\<lparr>sv_tasks := [Launched ex_rec (Some ex_wt) (Spawned ex_id (Unix ex_sock)) 7]\<rparr>"
  obtain sv2 t where T: "track_worker ex_su ex_env ex_rec (Some ex_wt) 7 ?sv1 = (sv2, t)"
    by (cases "track_worker ex_su ex_env ex_rec (Some ex_wt) 7 ?sv1")
  have "sup_step ex_su ?sv1 (Track 0) ex_env (Some (Spawned ex_id (Unix ex_sock))) (sv2\<lparr>sv_tasks := (sv_tasks ?sv1)[0 := t]\<rparr>)"
    by (rule sup_step.track [OF _ _ T]) simp_all
  moreover have "sv2\<lparr>sv_tasks := (sv_tasks ?sv1)[0 := t]\<rparr> = ex_tracked"
    by (simp add: ex_tracked_def T)
  ultimately show ?thesis
    using reachable_step [OF reachable_step [OF ex_reachable ex_launched]] by simp
qed

lemma ex_tracked_state:
  "sv_tasks ex_tracked = [Monitoring ex_id 7 (Some ex_sock) (Some ex_wt)]" "sv_drawn ex_tracked = 1"
  "record_of ex_tracked ex_id = Some (ex_rec\<lparr>ar_status := Running\<rparr>)"
proof -
  let ?sv1 = "ex_spawned\<lparr>sv_tasks := [Launched ex_rec (Some ex_wt) (Spawned ex_id (Unix ex_sock)) 7]\<rparr>"
  obtain sv2 t where T: "track_worker ex_su ex_env ex_rec (Some ex_wt) 7 ?sv1 = (sv2, t)"
    by (cases "track_worker ex_su ex_env ex_rec (Some ex_wt) 7 ?sv1")
  note effect = track_worker_effect [OF T]
  have "t = Monitoring ex_id 7 (Some ex_sock) (Some ex_wt)" using effect(3) by (simp add: ex_rec_fields)
  then show "sv_tasks ex_tracked = [Monitoring ex_id 7 (Some ex_sock) (Some ex_wt)]"
    by (simp add: ex_tracked_def T)
  show "sv_drawn ex_tracked = 1" using effect(6) ex_drawn by (simp add: ex_tracked_def T)
  show "record_of ex_tracked ex_id = Some (ex_rec\<lparr>ar_status := Running\<rparr>)"
    using effect(1) [of ex_id] ex_record by (simp add: ex_tracked_def T ex_rec_fields)
qed

section \<open>The claims\<close>

text \<open>
  (C21) A terminal status is final: once an agent is killed, drained, done, failed or crashed, then
  in every later state of the daemon, whatever is requested and however the tasks interleave,
  its record is gone or still terminal, with all its other fields as they were; and the only
  statuses that can replace the terminal one are those of a kill and of a launch that failed.
\<close>

theorem terminal_agents_stay_terminal:
  assumes "filed (su_store su) d" "reachable su d sv" "record_of sv k = Some r" "\<not> live (ar_status r)"
    and "sup_run su (\<lambda>_. True) sv sv'" "fresh_draws su d (sv_drawn sv')" "record_of sv' k = Some r'"
  shows "\<not> live (ar_status r') \<and> r' = r\<lparr>ar_status := ar_status r'\<rparr> \<and>
    ar_status r' \<in> {ar_status r, Killed, Failed}"
proof -
  have "fresh_draws su d (sv_drawn sv)" by (rule reachable_fresh_start [OF assms(2,6,5)])
  then have "watched su d sv" by (rule reachable_watched [OF _ assms(1,2)])
  then show ?thesis using terminal_run [OF assms(5) _ assms(6,3,4,7)] by auto
qed

theorem terminal_agents_stay_terminal_witness:
  "\<exists>sv' r'. sup_run ex_su (\<lambda>_. True) ex_killed sv' \<and> record_of sv' ex_id = Some r' \<and>
     ar_status r' = Failed \<and> \<not> live (ar_status r') \<and>
     r' = (ex_rec\<lparr>ar_status := Killed\<rparr>)\<lparr>ar_status := ar_status r'\<rparr>"
proof -
  let ?sv1 = "ex_killed\<lparr>sv_tasks := remove_task 0 (sv_tasks ex_killed)\<rparr>"
  let ?sv' = "launch_failed ex_su ex_env ex_rec (Some ex_wt) ?sv1"
  have "sup_step ex_su ex_killed (LaunchErr 0) ex_env (Some (Spawned ex_id (Unix ex_sock))) ?sv'"
    by (rule sup_step.launch_err) (simp_all add: ex_killed_tasks)
  then have run: "sup_run ex_su (\<lambda>_. True) ex_killed ?sv'" by (auto intro: sup_run.intros)
  have look: "record_of ?sv' ex_id = Some (ex_rec\<lparr>ar_status := Failed\<rparr>)"
    by (simp add: launch_failed_effect ex_killed_record) (simp add: ex_rec_def)
  have drawn: "fresh_draws ex_su [] (sv_drawn ?sv')"
    using ex_fresh by (simp add: launch_failed_effect ex_killed_drawn)
  have "\<not> live (ar_status (ex_rec\<lparr>ar_status := Killed\<rparr>))" by simp
  from terminal_agents_stay_terminal [OF ex_filed ex_killed_reachable ex_killed_record this run drawn look]
  show ?thesis using run look by (intro exI [of _ ?sv'] exI [of _ "ex_rec\<lparr>ar_status := Failed\<rparr>"]) simp
qed





text \<open>
  (C25) A request that is answered with an error has changed no record, no tracked pid, no manifest
  and no task of an agent. In particular a respawn that fails, at whichever of its stages,
  leaves the old agent and its worker as they are.
\<close>

theorem failed_requests_change_nothing:
  assumes "sup_step su sv ev env (Some (ErrorReply e)) sv'" "is_request ev \<or> (\<exists>i. ev = Supersede i)"
  shows "sv_registry sv' = sv_registry sv \<and>
    (\<forall>t k. task_agent t = Some k \<longrightarrow> (t \<in> set (sv_tasks sv') \<longleftrightarrow> t \<in> set (sv_tasks sv)))"
  by (rule failed_step [OF assms])

theorem failed_requests_change_nothing_witness:
  "sv_registry (fst (handle_request ex_su ex_env (Respawn ''x'') ex_spawned)) = sv_registry ex_spawned"
proof -
  have "record_of ex_spawned ''x'' = None" by (simp add: ex_records ex_id_def)
  then have "snd (handle_request ex_su ex_env (Respawn ''x'') ex_spawned) = Some (ErrorReply (AgentNotFound ''x''))"
    by (simp add: handle_request_def respawn_agent_def agent_get_def)
  then have "sup_step ex_su ex_spawned (Request (Respawn ''x'')) ex_env (Some (ErrorReply (AgentNotFound ''x'')))
      (fst (handle_request ex_su ex_env (Respawn ''x'') ex_spawned))"
    using request_step [of ex_su ex_spawned "Respawn ''x''" ex_env] by simp
  from failed_requests_change_nothing [OF this] show ?thesis by simp
qed

text \<open>
  (C23) No worktree is lost: unless they are kept on purpose, every worktree that the daemon made has
  been asked to be removed exactly once, or a launch or a worker that is still under way has
  it in its care; a daemon at rest has asked for the removal of all of them.
\<close>

theorem no_worktree_is_lost:
  assumes "\<not> keep_worktrees_requested (su_keep su)" "reachable su d sv"
  shows "mset (sv_made sv) = mset (sv_removed sv) + held_worktrees (sv_tasks sv)"
  using reachable_balanced [OF assms] by (simp add: balanced_def)

theorem no_worktree_is_lost_witness:
  "\<not> keep_worktrees_requested (su_keep ex_su) \<and> sv_made ex_spawned = [ex_wt] \<and>
   mset (sv_made ex_spawned) = mset (sv_removed ex_spawned) + held_worktrees (sv_tasks ex_spawned)"
proof -
  have keep: "\<not> keep_worktrees_requested (su_keep ex_su)"
    by (simp add: keep_worktrees_requested_def ex_su_def)
  show ?thesis using keep ex_made no_worktree_is_lost [OF keep ex_reachable] by blast
qed

text \<open>
  (C24) In network mode the daemon hands out the ports from the base up to 65535, each at most once,
  and then answers with an error, for as many calls as the counter does not wrap.
\<close>

theorem ports_are_never_reused:
  assumes "su_network su = Some net" "unat (nc_agent_port_base net) + length us \<le> 2 ^ 32"
  shows "distinct (handed_out (port_calls su us 0)) \<and>
    port_calls su us 0 = map (\<lambda>i. agent_port net (unat (nc_agent_port_base net) + i)) [0..<length us]"
  using port_calls_distinct [OF assms] port_calls_nth [OF assms(1), of 0 us] assms(2) by simp

theorem ports_are_never_reused_witness:
  "port_calls (ex_su\<lparr>su_network := Some \<lparr>nc_advertise_host = ''h'', nc_agent_port_base = 65534\<rparr>\<rparr>) [''u'', ''u'', ''u''] 0 =
     [Ok (Tcp ''h:65534''), Ok (Tcp ''h:65535''), Err (Internal ''agent port range exhausted'')]"
proof -
  let ?net = "\<lparr>nc_advertise_host = ''h'', nc_agent_port_base = 65534\<rparr>"
  let ?us = "[''u'', ''u'', ''u'']"
  have "su_network (ex_su\<lparr>su_network := Some ?net\<rparr>) = Some ?net" by simp
  moreover have "unat (nc_agent_port_base ?net) + length ?us \<le> 2 ^ 32" by simp
  ultimately have "port_calls (ex_su\<lparr>su_network := Some ?net\<rparr>) ?us 0 =
      map (\<lambda>i. agent_port ?net (unat (nc_agent_port_base ?net) + i)) [0..<length ?us]"
    using ports_are_never_reused by blast
  moreover have "map (\<lambda>i. agent_port ?net (unat (nc_agent_port_base ?net) + i)) [0..<length ?us] =
      [Ok (Tcp ''h:65534''), Ok (Tcp ''h:65535''), Err (Internal ''agent port range exhausted'')]"
    by (simp add: agent_port_def upt_rec nat_str_big nat_str_small digit_chars)
  ultimately show ?thesis by simp
qed

text \<open>
  (C22) Nothing is forgotten over a restart: after any run in which the disk worked, a new daemon on
  the same disk has exactly the records that the old one had, those of agents that were
  running or spawning marked as crashed and all others unchanged.
\<close>

theorem restart_finds_every_agent:
  assumes "json_faithful (su_store su)" "store_wf (su_store su) d" "fresh_draws su d (sv_drawn sv)"
    and "sup_run su (\<lambda>env. en_io env = working) (boot su working_io working d) sv"
  shows "record_of (boot su working_io working (rg_disk (sv_registry sv))) k = map_option crash (record_of sv k)"
  by (rule restart_finds [OF assms])

theorem restart_finds_every_agent_witness:
  "record_of (boot ex_su working_io working (rg_disk (sv_registry ex_spawned))) ex_id =
     Some (ex_rec\<lparr>ar_status := Crashed\<rparr>)"
proof -
  have json: "json_faithful (su_store ex_su)" using ex_store_faithful by (simp add: ex_su_def)
  have wf: "store_wf (su_store ex_su) []" using ex_filed by (simp add: store_wf_def)
  have fresh: "fresh_draws ex_su [] (sv_drawn ex_spawned)" using ex_fresh ex_drawn by simp
  have "sup_run ex_su (\<lambda>env. en_io env = working) (boot ex_su working_io working []) ex_spawned"
    unfolding ex_spawned_def ex_start_def
    by (rule sup_run.there [OF sup_run.here request_step]) (simp add: ex_env_def)
  from restart_finds_every_agent [OF json wf fresh this, of ex_id]
  show ?thesis by (simp add: ex_record crash_def swept_def ex_rec_def)
qed

section \<open>What the daemon misses\<close>

text \<open>
  A kill that arrives while the worker is being launched finds no pid and signals nothing; the
  worker is then launched and tracked under an agent that counts as killed, and runs on.
\<close>

lemma kill_during_launch_is_lost:
  "\<exists>sv. reachable ex_su [] sv \<and> record_of sv ex_id = Some (ex_rec\<lparr>ar_status := Killed\<rparr>) \<and>
     sv_tasks sv = [Monitoring ex_id 7 (Some ex_sock) (Some ex_wt)] \<and> sv_signals sv = []"
proof -
  let ?sv1 = "ex_killed\<lparr>sv_tasks := [Launched ex_rec (Some ex_wt) (Spawned ex_id (Unix ex_sock)) 7]\<rparr>"
  have launch: "sup_step ex_su ex_killed (LaunchOk 0 7) ex_env None ?sv1"
    using sup_step.launch_ok [of 0 ex_killed ex_rec "Some ex_wt" "Spawned ex_id (Unix ex_sock)" 7 ex_su ex_env]
    by (simp add: ex_killed_tasks)
  obtain sv2 t where T: "track_worker ex_su ex_env ex_rec (Some ex_wt) 7 ?sv1 = (sv2, t)"
    by (cases "track_worker ex_su ex_env ex_rec (Some ex_wt) 7 ?sv1")
  let ?sv = "sv2\<lparr>sv_tasks := (sv_tasks ?sv1)[0 := t]\<rparr>"
  have "sup_step ex_su ?sv1 (Track 0) ex_env (Some (Spawned ex_id (Unix ex_sock))) ?sv"
    by (rule sup_step.track [OF _ _ T]) simp_all
  then have reach: "reachable ex_su [] ?sv"
    by (rule reachable_step [OF reachable_step [OF ex_killed_reachable launch]])
  have "sv_signals ex_killed = []"
    unfolding ex_killed_def kill_effect(5) [OF ex_record] by (simp add: ex_signals tracked_pids_def ex_pids)
  moreover have "record_of sv2 ex_id = Some (ex_rec\<lparr>ar_status := Killed\<rparr>)"
    using track_worker_effect(1) [OF T, of ex_id] ex_killed_record by (simp add: ex_rec_def)
  moreover have "t = Monitoring ex_id 7 (Some ex_sock) (Some ex_wt)"
    using track_worker_effect(3) [OF T] by (simp add: ex_rec_def unix_socket_path_def ex_sock_def)
  moreover have "sv_signals sv2 = sv_signals ex_killed" using track_worker_effect(9) [OF T] by simp
  ultimately show ?thesis using reach by (intro exI [of _ ?sv]) simp
qed

text \<open>An idle agent is not swept at a restart: it stays idle, and nothing attends to it.\<close>

lemma idle_survives_a_restart:
  assumes "store_wf (su_store su) d" "stored (su_store su) d k = Some r" "ar_status r = Idle"
  shows "record_of (boot su working_io sio d) k = Some r \<and> sv_tasks (boot su working_io sio d) = []"
  using assms by (simp add: boot_lookup crash_def swept_def)

text \<open>A drained agent is terminal, and yet it is not removed without force.\<close>

lemma drained_needs_force:
  assumes "map_of (rg_by_id g) k = Some r" "ar_status r = Drained"
  shows "registry_remove io k False g = (Err (InvalidState ''rm'' k Drained), g)"
  using assms by (simp add: registry_remove_def)

text \<open>The error of an exhausted port range is not permanent: at the end of the counter's range a port is handed out again.\<close>

lemma ports_wrap:
  assumes "su_network su = Some net"
  shows "fst (next_endpoint su u (of_nat (2 ^ 32 - unat (nc_agent_port_base net)))) =
    Ok (Tcp (nc_advertise_host net @ '':0''))"
proof -
  define b where "b = unat (nc_agent_port_base net)"
  have "b < 65536" using unsigned_less [of "nc_agent_port_base net"] by (simp add: b_def)
  have "(ucast (nc_agent_port_base net) :: u32) + of_nat (2 ^ 32 - b) = of_nat (b + (2 ^ 32 - b))"
    unfolding of_nat_add b_def by simp
  also have "b + (2 ^ 32 - b) = 2 ^ 32" using \<open>b < 65536\<close> by simp
  finally have "(ucast (nc_agent_port_base net) :: u32) + of_nat (2 ^ 32 - b) = 0" by simp
  then show ?thesis
    by (simp add: next_endpoint_def assms Let_def b_def [symmetric] nat_str_small digit_chars del: of_nat_diff)
qed

end
