(* ===== verification/Breaker.thy ===== *)
theory Breaker
  imports Prelude
begin

text \<open>
  The per-route circuit breaker (\<open>crates/caliban-model-router/src/breaker.rs\<close>) and its
  policy (\<open>config.rs\<close>).

  An instant is a number of milliseconds on the monotonic clock, so
  \<open>now.duration_since(t)\<close> is the truncated difference. Each public operation is one step:
  the atomics it touches are read and written together. The counter of successful probes is a
  number, which the invariant bounds below the policy's 32 bit field.
\<close>

section \<open>Policy\<close>

(* map: src/crates/caliban-model-router/src/config.rs 186-195 BreakerPolicy *)
record breaker_policy =
  bp_failure_threshold :: nat
  bp_window :: nat
  bp_cooldown :: nat
  bp_half_open_probes :: nat

(* map: src/crates/caliban-model-router/src/config.rs 200-207 BreakerPolicy::disabled *)
definition policy_disabled :: breaker_policy where
  "policy_disabled = \<lparr>bp_failure_threshold = u32_max, bp_window = 60000, bp_cooldown = 0,
     bp_half_open_probes = 1\<rparr>"

(* map: src/crates/caliban-model-router/src/config.rs 211-213 BreakerPolicy::is_disabled *)
definition is_disabled :: "breaker_policy \<Rightarrow> bool" where
  "is_disabled p = (bp_failure_threshold p = u32_max)"

definition min_enabled_cooldown :: nat where
  "min_enabled_cooldown = 1000"

definition default_failure_threshold :: nat where
  "default_failure_threshold = 5"

(* map: src/crates/caliban-model-router/src/config.rs 219-224 BreakerPolicy::floored *)
definition floored :: "breaker_policy \<Rightarrow> breaker_policy" where
  "floored p =
     (if \<not> is_disabled p \<and> bp_cooldown p < min_enabled_cooldown
      then p\<lparr>bp_cooldown := min_enabled_cooldown\<rparr> else p)"

(* map: src/crates/caliban-model-router/src/config.rs 250-259 BreakerDefaults *)
record breaker_defaults =
  bd_failure_threshold :: "nat option"
  bd_window_secs :: "nat option"
  bd_cooldown_secs :: "nat option"
  bd_half_open_probes :: "nat option"

(* map: src/crates/caliban-model-router/src/config.rs 235-247 BreakerWire *)
datatype breaker_wire = Toggle bool | Table breaker_defaults

(* map: src/crates/caliban-model-router/src/config.rs 274-293 BreakerDefaults::to_policy *)
definition to_policy :: "breaker_defaults \<Rightarrow> breaker_policy" where
  "to_policy d =
     (let configured = bd_window_secs d \<noteq> None \<or> bd_cooldown_secs d \<noteq> None \<or>
                       bd_half_open_probes d \<noteq> None;
          fallback_threshold = (if configured then default_failure_threshold else u32_max)
      in floored
        \<lparr>bp_failure_threshold = unwrap_or fallback_threshold (bd_failure_threshold d),
         bp_window = 1000 * unwrap_or 60 (bd_window_secs d),
         bp_cooldown = 1000 * unwrap_or 30 (bd_cooldown_secs d),
         bp_half_open_probes = unwrap_or 1 (bd_half_open_probes d)\<rparr>)"

(* map: src/crates/caliban-model-router/src/config.rs 295-317 BreakerDefaults::merge_with *)
fun breaker_merge_with :: "breaker_defaults \<Rightarrow> breaker_wire \<Rightarrow> breaker_policy" where
  "breaker_merge_with d (Toggle False) = policy_disabled"
| "breaker_merge_with d (Toggle True) = to_policy d"
| "breaker_merge_with d (Table t) = floored
     \<lparr>bp_failure_threshold = unwrap_or default_failure_threshold
        (or_opt (bd_failure_threshold t) (bd_failure_threshold d)),
      bp_window = 1000 * unwrap_or 60 (or_opt (bd_window_secs t) (bd_window_secs d)),
      bp_cooldown = 1000 * unwrap_or 30 (or_opt (bd_cooldown_secs t) (bd_cooldown_secs d)),
      bp_half_open_probes = unwrap_or 1 (or_opt (bd_half_open_probes t) (bd_half_open_probes d))\<rparr>"

section \<open>State and operations\<close>

(* map: src/crates/caliban-model-router/src/breaker.rs 21-32 BreakerState *)
datatype breaker_state = Closed | Tripped nat | HalfOpen

(* map: src/crates/caliban-model-router/src/breaker.rs 34-44 BreakerState::name *)
fun breaker_state_name :: "breaker_state \<Rightarrow> string" where
  "breaker_state_name Closed = ''closed''"
| "breaker_state_name (Tripped _) = ''tripped''"
| "breaker_state_name HalfOpen = ''half_open''"

(* map: src/crates/caliban-model-router/src/breaker.rs 65-77 Inner *)
record breaker =
  bk_policy :: breaker_policy
  bk_state :: breaker_state
  bk_failures :: "nat list"
  bk_probe_inflight :: bool
  bk_probe_successes :: nat

(* map: src/crates/caliban-model-router/src/breaker.rs 82-92 CircuitBreaker::new *)
definition breaker_new :: "breaker_policy \<Rightarrow> breaker" where
  "breaker_new p = \<lparr>bk_policy = p, bk_state = Closed, bk_failures = [],
     bk_probe_inflight = False, bk_probe_successes = 0\<rparr>"

(* map: src/crates/caliban-model-router/src/breaker.rs 97-124 CircuitBreaker::state_at *)
definition state_at :: "nat \<Rightarrow> breaker \<Rightarrow> breaker_state \<times> breaker" where
  "state_at now b =
     (case bk_state b of
        Tripped since \<Rightarrow>
          if now - since \<ge> bp_cooldown (bk_policy b)
          then (HalfOpen, b\<lparr>bk_state := HalfOpen\<rparr>) else (Tripped since, b)
      | s \<Rightarrow> (s, b))"

(* map: src/crates/caliban-model-router/src/breaker.rs 136-150 CircuitBreaker::try_admit_at *)
definition try_admit_at :: "nat \<Rightarrow> breaker \<Rightarrow> bool \<times> breaker" where
  "try_admit_at now b =
     (case state_at now b of
        (Closed, b') \<Rightarrow> (True, b')
      | (Tripped _, b') \<Rightarrow> (False, b')
      | (HalfOpen, b') \<Rightarrow>
          if bk_probe_inflight b' then (False, b') else (True, b'\<lparr>bk_probe_inflight := True\<rparr>))"

(* map: src/crates/caliban-model-router/src/breaker.rs 183-192 CircuitBreaker::close *)
definition breaker_close :: "breaker \<Rightarrow> breaker" where
  "breaker_close b = b\<lparr>bk_state := Closed, bk_probe_successes := 0, bk_probe_inflight := False,
     bk_failures := []\<rparr>"

(* map: src/crates/caliban-model-router/src/breaker.rs 152-180 CircuitBreaker::observe_success_at *)
definition observe_success_at :: "nat \<Rightarrow> breaker \<Rightarrow> breaker" where
  "observe_success_at now b =
     (case state_at now b of
        (HalfOpen, b') \<Rightarrow>
          (let needed = max 1 (bp_half_open_probes (bk_policy b'));
               prior = bk_probe_successes b';
               b'' = b'\<lparr>bk_probe_successes := prior + 1, bk_probe_inflight := False\<rparr>
           in if prior + 1 \<ge> needed then breaker_close b'' else b'')
      | (Closed, b') \<Rightarrow> breaker_close b'
      | (Tripped _, b') \<Rightarrow> b')"

(* map: src/crates/caliban-model-router/src/breaker.rs 200-202 CircuitBreaker::release_probe *)
definition release_probe :: "breaker \<Rightarrow> breaker" where
  "release_probe b = b\<lparr>bk_probe_inflight := False\<rparr>"

definition trip :: "nat \<Rightarrow> breaker \<Rightarrow> breaker" where
  "trip now b = b\<lparr>bk_probe_successes := 0, bk_probe_inflight := False, bk_state := Tripped now\<rparr>"

(* map: src/crates/caliban-model-router/src/breaker.rs 206-248 CircuitBreaker::observe_failure_at *)
definition observe_failure_at :: "nat \<Rightarrow> breaker \<Rightarrow> breaker" where
  "observe_failure_at now b =
     (if is_disabled (bk_policy b) then b
      else
        (case state_at now b of
           (HalfOpen, b') \<Rightarrow> trip now b'
         | (_, b') \<Rightarrow>
             (let f = dropWhile (\<lambda>t. now - t > bp_window (bk_policy b')) (bk_failures b') @ [now];
                  b'' = b'\<lparr>bk_failures := f\<rparr>
              in if length f mod 4294967296 \<ge> bp_failure_threshold (bk_policy b') then trip now b''
                 else b'')))"

(* map: src/crates/caliban-model-router/src/breaker.rs 250-254 CircuitBreaker::admits_traffic *)
definition admits_traffic :: "nat \<Rightarrow> breaker \<Rightarrow> bool \<times> breaker" where
  "admits_traffic now b =
     (let (s, b') = state_at now b in ((case s of Tripped _ \<Rightarrow> False | _ \<Rightarrow> True), b'))"

(* map: src/crates/caliban-model-router/src/breaker.rs 47-57 BreakerSnapshot *)
record breaker_snapshot =
  bs_state :: string
  bs_failure_count :: nat
  bs_since :: "nat option"
  bs_cooldown_remaining :: "nat option"

(* map: src/crates/caliban-model-router/src/breaker.rs 256-278 CircuitBreaker::snapshot *)
definition breaker_snapshot_at :: "nat \<Rightarrow> breaker \<Rightarrow> breaker_snapshot \<times> breaker" where
  "breaker_snapshot_at now b =
     (let (s, b') = state_at now b;
          (since, remaining) =
            (case s of
               Tripped t \<Rightarrow> (Some (now - t), Some (bp_cooldown (bk_policy b') - (now - t)))
             | _ \<Rightarrow> (None, None))
      in (\<lparr>bs_state = breaker_state_name s, bs_failure_count = sat_u32 (length (bk_failures b')),
           bs_since = since, bs_cooldown_remaining = remaining\<rparr>, b'))"

section \<open>The machine\<close>

text \<open>The operations as events on a shared breaker, each with its answer, if it has one.\<close>

datatype breaker_event = Admit nat | Observe nat | Success nat | Failure nat | Release

fun event_time :: "breaker_event \<Rightarrow> nat option" where
  "event_time (Admit t) = Some t"
| "event_time (Observe t) = Some t"
| "event_time (Success t) = Some t"
| "event_time (Failure t) = Some t"
| "event_time Release = None"

inductive breaker_step :: "breaker \<Rightarrow> breaker_event \<Rightarrow> bool \<Rightarrow> breaker \<Rightarrow> bool" where
  step_admit: "try_admit_at t b = (r, b') \<Longrightarrow> breaker_step b (Admit t) r b'"
| step_observe: "admits_traffic t b = (r, b') \<Longrightarrow> breaker_step b (Observe t) r b'"
| step_success: "breaker_step b (Success t) True (observe_success_at t b)"
| step_failure: "breaker_step b (Failure t) True (observe_failure_at t b)"
| step_release: "breaker_step b Release True (release_probe b)"

inductive_simps breaker_step_simps [loop_simps]:
  "breaker_step b (Admit t) r b'"
  "breaker_step b (Observe t) r b'"
  "breaker_step b (Success t) r b'"
  "breaker_step b (Failure t) r b'"
  "breaker_step b Release r b'"

inductive_cases breaker_stepE: "breaker_step b e r b'"

inductive breaker_run :: "breaker \<Rightarrow> (breaker_event \<times> bool) list \<Rightarrow> breaker \<Rightarrow> bool" where
  run_Nil: "breaker_run b [] b"
| run_Cons: "breaker_step b e r b1 \<Longrightarrow> breaker_run b1 es b2 \<Longrightarrow> breaker_run b ((e, r) # es) b2"

inductive_cases breaker_run_ConsE: "breaker_run b ((e, r) # es) b'"
inductive_cases breaker_run_NilE: "breaker_run b [] b'"

code_pred (modes: i \<Rightarrow> i \<Rightarrow> o \<Rightarrow> o \<Rightarrow> bool) breaker_step .

lemma breaker_step_total: "\<exists>r b'. breaker_step b e r b'"
proof (cases e)
  case (Admit t)
  then show ?thesis by (cases "try_admit_at t b") (auto simp: breaker_step_simps)
next
  case (Observe t)
  then show ?thesis by (cases "admits_traffic t b") (auto simp: breaker_step_simps)
qed (auto simp: breaker_step_simps)

section \<open>The invariant\<close>

definition breaker_inv :: "breaker \<Rightarrow> bool" where
  "breaker_inv b \<longleftrightarrow>
     (case bk_state b of
        HalfOpen \<Rightarrow> bk_probe_successes b < max 1 (bp_half_open_probes (bk_policy b))
      | _ \<Rightarrow> \<not> bk_probe_inflight b \<and> bk_probe_successes b = 0) \<and>
     (bk_state b = Closed \<longrightarrow>
        length (bk_failures b) < max 1 (bp_failure_threshold (bk_policy b))) \<and>
     bp_failure_threshold (bk_policy b) \<le> u32_max"

lemma breaker_inv_new: "bp_failure_threshold p \<le> u32_max \<Longrightarrow> breaker_inv (breaker_new p)"
  by (simp add: breaker_inv_def breaker_new_def)

lemma state_at_policy [simp]: "bk_policy (snd (state_at now b)) = bk_policy b"
  by (simp add: state_at_def split: breaker_state.split)

lemma state_at_state: "state_at now b = (s, b') \<Longrightarrow> bk_state b' = s"
  by (auto simp: state_at_def split: breaker_state.splits if_splits)

lemma state_at_inv: "state_at now b = (s, b') \<Longrightarrow> breaker_inv b \<Longrightarrow> breaker_inv b'"
  by (auto simp: state_at_def breaker_inv_def split: breaker_state.splits if_splits)

lemma breaker_inv_close: "breaker_inv b \<Longrightarrow> breaker_inv (breaker_close b)"
  by (simp add: breaker_inv_def breaker_close_def)

lemma breaker_inv_trip: "breaker_inv b \<Longrightarrow> breaker_inv (trip now b)"
  by (simp add: breaker_inv_def trip_def)

lemma admit_inv: "try_admit_at t b = (r, b') \<Longrightarrow> breaker_inv b \<Longrightarrow> breaker_inv b'"
  using state_at_inv [of t b] state_at_state [of t b]
  by (auto simp: try_admit_at_def breaker_inv_def split: prod.splits breaker_state.splits if_splits)

lemma success_inv:
  assumes "breaker_inv b"
  shows "breaker_inv (observe_success_at t b)"
proof -
  obtain s b' where st: "state_at t b = (s, b')" by fastforce
  then have "breaker_inv b'" "bk_state b' = s"
    using state_at_inv state_at_state assms by blast+
  then show ?thesis
    using breaker_inv_close [of b']
    by (cases s)
       (auto simp: observe_success_at_def st Let_def breaker_close_def, auto simp: breaker_inv_def)
qed

lemma evict_length: "length (dropWhile P xs @ [x]) \<le> Suc (length xs)"
  using length_dropWhile_le [of P xs] by simp

lemma failure_inv:
  assumes "breaker_inv b"
  shows "breaker_inv (observe_failure_at t b)"
proof (cases "is_disabled (bk_policy b)")
  case False
  obtain s b' where st: "state_at t b = (s, b')" by fastforce
  then have inv: "breaker_inv b'" "bk_state b' = s"
    using state_at_inv state_at_state assms by blast+
  let ?f = "dropWhile (\<lambda>u. t - u > bp_window (bk_policy b')) (bk_failures b') @ [t]"
  have cast: "length ?f mod 4294967296 = length ?f" if "s = Closed"
  proof (rule mod_less)
    have "length (bk_failures b') < max 1 (bp_failure_threshold (bk_policy b'))"
        "bp_failure_threshold (bk_policy b') \<le> 4294967295"
      using inv that by (auto simp: breaker_inv_def u32_max_def)
    then show "length ?f < 4294967296"
      using evict_length [of "\<lambda>u. t - u > bp_window (bk_policy b')" "bk_failures b'" t] by linarith
  qed
  have push: "breaker_inv (b'\<lparr>bk_failures := ?f\<rparr>)"
    if "\<not> bp_failure_threshold (bk_policy b') \<le> length ?f mod 4294967296"
    using inv that cast by (cases s) (auto simp: breaker_inv_def)
  have tr: "breaker_inv (trip t (b'\<lparr>bk_failures := xs\<rparr>))" for xs
    using inv(1) by (simp add: breaker_inv_def trip_def)
  show ?thesis
    using False push tr [of ?f] breaker_inv_trip [OF inv(1)]
    by (cases s) (auto simp: observe_failure_at_def st Let_def simp del: length_append)
qed (use assms in \<open>simp add: observe_failure_at_def\<close>)

lemma release_inv: "breaker_inv b \<Longrightarrow> breaker_inv (release_probe b)"
  by (auto simp: breaker_inv_def release_probe_def split: breaker_state.splits)

lemma step_inv: "breaker_step b e r b' \<Longrightarrow> breaker_inv b \<Longrightarrow> breaker_inv b'"
proof (induction rule: breaker_step.induct)
  case (step_observe t b r b')
  then show ?case
    using state_at_inv [of t b] by (auto simp: admits_traffic_def split: prod.splits)
qed (auto intro: admit_inv success_inv failure_inv release_inv)

lemma run_inv: "breaker_run b es b' \<Longrightarrow> breaker_inv b \<Longrightarrow> breaker_inv b'"
  by (induction rule: breaker_run.induct) (auto dest: step_inv)


section \<open>One probe at a time\<close>

text \<open>The events that resolve a probe.\<close>

fun resolves :: "breaker_event \<Rightarrow> bool" where
  "resolves (Admit _) = False"
| "resolves (Observe _) = False"
| "resolves _ = True"

lemma half_open_stays:
  assumes "breaker_step b e r b'" "\<not> resolves e" "bk_state b = HalfOpen" "bk_probe_inflight b"
  shows "bk_state b' = HalfOpen \<and> bk_probe_inflight b' \<and> (case e of Admit _ \<Rightarrow> \<not> r | _ \<Rightarrow> True)"
  using assms
  by (cases e) (auto simp: breaker_step_simps try_admit_at_def admits_traffic_def state_at_def)

definition admitted :: "breaker_event \<times> bool \<Rightarrow> bool" where
  "admitted er = (case er of (Admit _, r) \<Rightarrow> r | _ \<Rightarrow> False)"

lemma no_second_probe:
  "breaker_run b es b' \<Longrightarrow> bk_state b = HalfOpen \<Longrightarrow> bk_probe_inflight b \<Longrightarrow>
   list_all (\<lambda>(e, _). \<not> resolves e) es \<Longrightarrow> list_all (\<lambda>er. \<not> admitted er) es"
proof (induction rule: breaker_run.induct)
  case (run_Cons b e r b1 es b2)
  have "bk_state b1 = HalfOpen \<and> bk_probe_inflight b1 \<and> (case e of Admit _ \<Rightarrow> \<not> r | _ \<Rightarrow> True)"
    using run_Cons.prems by (intro half_open_stays [OF run_Cons.hyps(1)]) auto
  then show ?case
    using run_Cons.IH run_Cons.prems by (cases e) (auto simp: admitted_def)
qed simp

text \<open>
  The recovery window lets one probe through: once a half-open breaker has admitted a
  call, no other call is admitted, at whatever time and however many ask, until that probe is
  resolved by a success, a failure or a release.
\<close>

theorem half_open_single_probe:
  assumes "try_admit_at t b = (True, b1)" and "bk_state b1 = HalfOpen"
    and "breaker_run b1 es b'" and "list_all (\<lambda>(e, _). \<not> resolves e) es"
  shows "list_all (\<lambda>er. \<not> admitted er) es"
proof -
  have "bk_probe_inflight b1"
    using assms(1,2) state_at_state [of t b]
    by (auto simp: try_admit_at_def split: prod.splits breaker_state.splits if_splits)
  with assms show ?thesis by (intro no_second_probe)
qed

section \<open>Out of rotation\<close>

lemma state_at_tripped:
  "bk_state b = Tripped since \<Longrightarrow> t < since + bp_cooldown (bk_policy b) \<Longrightarrow>
   0 < bp_cooldown (bk_policy b) \<Longrightarrow> state_at t b = (Tripped since, b)"
  by (auto simp: state_at_def)

text \<open>The events of one cooldown, which began at \<open>t0\<close>.\<close>

definition during :: "nat \<Rightarrow> nat \<Rightarrow> breaker_event \<Rightarrow> bool" where
  "during t0 cooldown e =
     (case event_time e of None \<Rightarrow> True | Some t \<Rightarrow> t0 \<le> t \<and> t < t0 + cooldown)"

lemma tripped_stays:
  assumes "breaker_step b e r b'" "bk_state b = Tripped since" "t0 \<le> since"
    and "during t0 (bp_cooldown (bk_policy b)) e"
  shows "\<not> admitted (e, r) \<and> bk_policy b' = bk_policy b \<and>
    (\<exists>since' \<ge> t0. bk_state b' = Tripped since')"
proof -
  have st: "state_at t b = (Tripped since, b)" if "event_time e = Some t" for t
    using assms(2-4) that by (intro state_at_tripped) (auto simp: during_def)
  show ?thesis
    using assms st
    by (cases e)
       (auto simp: breaker_step_simps try_admit_at_def admits_traffic_def observe_success_at_def
         observe_failure_at_def release_probe_def trip_def Let_def admitted_def during_def)
qed

lemma tripped_run:
  "breaker_run b es b' \<Longrightarrow> bk_state b = Tripped since \<Longrightarrow> t0 \<le> since \<Longrightarrow>
   list_all (\<lambda>(e, _). during t0 (bp_cooldown (bk_policy b)) e) es \<Longrightarrow>
   list_all (\<lambda>er. \<not> admitted er) es \<and> (\<exists>since' \<ge> t0. bk_state b' = Tripped since')"
proof (induction arbitrary: since rule: breaker_run.induct)
  case (run_Cons b e r b1 es b2)
  from run_Cons.prems have "during t0 (bp_cooldown (bk_policy b)) e" by simp
  from tripped_stays [OF run_Cons.hyps(1) run_Cons.prems(1,2) this]
  obtain since' where "\<not> admitted (e, r)" "bk_policy b1 = bk_policy b" "t0 \<le> since'"
      "bk_state b1 = Tripped since'"
    by blast
  with run_Cons.IH [of since'] run_Cons.prems show ?case by simp
qed auto

text \<open>
  A tripped breaker stays out of rotation for its whole cooldown: before the cooldown has
  elapsed no call is admitted and no success, however late its request was admitted, closes
  the breaker.
\<close>

theorem tripped_out_of_rotation:
  assumes "breaker_run b es b'" and "bk_state b = Tripped since"
    and "list_all (\<lambda>(e, _). during since (bp_cooldown (bk_policy b)) e) es"
  shows "list_all (\<lambda>er. \<not> admitted er) es \<and> (\<exists>since' \<ge> since. bk_state b' = Tripped since')"
  using tripped_run [OF assms(1,2) order_refl assms(3)] .

section \<open>Tripping\<close>

text \<open>Failures one after the other on a healthy route.\<close>

definition fail_all :: "nat list \<Rightarrow> breaker \<Rightarrow> breaker" where
  "fail_all ts b = fold observe_failure_at ts b"

lemma fail_once:
  assumes "\<not> is_disabled (bk_policy b)" and "bk_state b = Closed"
    and "\<forall>u \<in> set (bk_failures b). t - u \<le> bp_window (bk_policy b)"
    and "length (bk_failures b) < u32_max"
  shows "observe_failure_at t b =
    (let b' = b\<lparr>bk_failures := bk_failures b @ [t]\<rparr> in
     if bp_failure_threshold (bk_policy b) \<le> length (bk_failures b) + 1 then trip t b' else b')"
proof -
  have "dropWhile (\<lambda>u. bp_window (bk_policy b) < t - u) (bk_failures b) = bk_failures b"
    using assms(3) by (cases "bk_failures b") auto
  then show ?thesis
    using assms by (simp add: observe_failure_at_def state_at_def Let_def u32_max_def)
qed

text \<open>
  A healthy route is taken out of rotation by the failure that reaches the threshold
  within the window, not before and not later: fewer failures leave it closed, with every
  failure on record.
\<close>

theorem breaker_trips_at_threshold:
  assumes "\<not> is_disabled p" and "0 < bp_failure_threshold p" and "bp_failure_threshold p \<le> u32_max"
    and "\<forall>u \<in> set ts. \<forall>v \<in> set ts. v - u \<le> bp_window p"
    and "length ts \<le> bp_failure_threshold p"
  shows "bk_state (fail_all ts (breaker_new p)) =
    (if length ts = bp_failure_threshold p then Tripped (last ts) else Closed)"
proof -
  have "fail_all ts (breaker_new p) =
      (if length ts = bp_failure_threshold p then trip (last ts) ((breaker_new p)\<lparr>bk_failures := ts\<rparr>)
       else (breaker_new p)\<lparr>bk_failures := ts\<rparr>)"
    using assms(4,5)
  proof (induction ts rule: rev_induct)
    case Nil
    then show ?case using assms(2) by (simp add: fail_all_def breaker_new_def)
  next
    case (snoc t ts)
    then have ih: "fail_all ts (breaker_new p) = (breaker_new p)\<lparr>bk_failures := ts\<rparr>" by simp
    have "observe_failure_at t ((breaker_new p)\<lparr>bk_failures := ts\<rparr>) =
      (let b' = (breaker_new p)\<lparr>bk_failures := ts @ [t]\<rparr> in
       if bp_failure_threshold p \<le> length ts + 1 then trip t b' else b')"
      using fail_once [of "(breaker_new p)\<lparr>bk_failures := ts\<rparr>" t] snoc.prems assms(1,3)
      by (simp add: breaker_new_def)
    then show ?case
      using ih snoc.prems(2) by (simp add: fail_all_def Let_def)
  qed
  then show ?thesis by (simp add: trip_def breaker_new_def)
qed

section \<open>Policies\<close>

text \<open>
  Every enabled breaker read from a configuration has a cooldown of at least a second, and
  a table always enables it; but \<open>breaker = true\<close> on a route without defaults, which
  asks for a breaker, yields one that never trips.
\<close>

theorem configured_breakers:
  "(is_disabled (breaker_merge_with d wire) \<or>
      min_enabled_cooldown \<le> bp_cooldown (breaker_merge_with d wire)) \<and>
   is_disabled (breaker_merge_with
      \<lparr>bd_failure_threshold = None, bd_window_secs = None, bd_cooldown_secs = None,
       bd_half_open_probes = None\<rparr> (Toggle True))"
proof -
  have "is_disabled (floored p) \<or> min_enabled_cooldown \<le> bp_cooldown (floored p)" for p
    by (auto simp: floored_def)
  moreover have "is_disabled policy_disabled"
    by (simp add: is_disabled_def policy_disabled_def)
  ultimately have "is_disabled (breaker_merge_with d wire) \<or>
      min_enabled_cooldown \<le> bp_cooldown (breaker_merge_with d wire)"
    by (cases "(d, wire)" rule: breaker_merge_with.cases) (simp_all add: to_policy_def Let_def)
  then show ?thesis
    by (simp add: to_policy_def is_disabled_def floored_def)
qed

lemma disabled_never_trips:
  "is_disabled (bk_policy b) \<Longrightarrow> observe_failure_at t b = b"
  by (simp add: observe_failure_at_def)

section \<open>A sample run\<close>

definition sample_policy :: breaker_policy where
  "sample_policy = \<lparr>bp_failure_threshold = 2, bp_window = 100, bp_cooldown = 1000,
     bp_half_open_probes = 1\<rparr>"

lemmas breaker_defs = sample_policy_def breaker_new_def try_admit_at_def state_at_def
  observe_failure_at_def observe_success_at_def trip_def is_disabled_def u32_max_def
  release_probe_def breaker_close_def

definition sample_tripped :: breaker where
  "sample_tripped = \<lparr>bk_policy = sample_policy, bk_state = Tripped 20, bk_failures = [10, 20],
     bk_probe_inflight = False, bk_probe_successes = 0\<rparr>"

lemma sample_trip_run:
  "breaker_run (breaker_new sample_policy) [(Failure 10, True), (Failure 20, True)] sample_tripped"
proof -
  have "sample_tripped = observe_failure_at 20 (observe_failure_at 10 (breaker_new sample_policy))"
    by (simp add: breaker_defs sample_tripped_def)
  then show ?thesis
    by (auto intro!: breaker_run.intros simp: breaker_step_simps)
qed


theorem half_open_single_probe_witness:
  "fst (try_admit_at 1020 sample_tripped) \<and>
   list_all (\<lambda>er. \<not> admitted er) [(Admit 1021, False), (Admit 9000, False)]"
proof -
  let ?b = "sample_tripped\<lparr>bk_state := HalfOpen, bk_probe_inflight := True\<rparr>"
  have a: "try_admit_at 1020 sample_tripped = (True, ?b)"
    by (simp add: sample_tripped_def breaker_defs)
  have "breaker_run ?b [(Admit 1021, False), (Admit 9000, False)] ?b"
    by (auto intro!: breaker_run.intros simp: breaker_step_simps sample_tripped_def breaker_defs)
  from half_open_single_probe [OF a _ this] show ?thesis using a by simp
qed

theorem tripped_out_of_rotation_witness:
  "list_all (\<lambda>er. \<not> admitted er) [(Success 500, True), (Admit 900, False)]"
proof -
  have "breaker_run sample_tripped [(Success 500, True), (Admit 900, False)] sample_tripped"
    by (auto intro!: breaker_run.intros(2) [of _ _ _ sample_tripped] breaker_run.intros(1)
        simp: breaker_step_simps sample_tripped_def breaker_defs)
  moreover have "bk_state sample_tripped = Tripped 20" by (simp add: sample_tripped_def)
  ultimately show ?thesis
    by (rule conjunct1 [OF tripped_out_of_rotation])
       (simp add: during_def sample_tripped_def sample_policy_def)
qed

theorem breaker_trips_at_threshold_witness:
  "bk_state (fail_all [10, 20] (breaker_new sample_policy)) = Tripped 20"
  using breaker_trips_at_threshold [of sample_policy "[10, 20]"]
  by (simp add: sample_policy_def is_disabled_def u32_max_def)

end
