(* ===== verification/Router.thy ===== *)
theory Router
  imports Messages Breaker
begin

text \<open>
  The model router's configuration and resolution (\<open>crates/caliban-model-router\<close>):
  capabilities and needs (\<open>capabilities.rs\<close>), route entries with their defaults
  (\<open>config.rs\<close>), the validation of a router (\<open>lib.rs\<close>), and the pure pipeline from
  a request to the ordered list of candidate routes with its diagnostics
  (\<open>resolver.rs\<close>).

  A provider is known to the resolver by its capabilities per model. Reading a breaker may
  turn it from tripped to half open, so resolution returns the breakers as it leaves them; all
  are read at one instant.
\<close>

section \<open>Capabilities\<close>

(* map: src/crates/caliban-provider/src/capabilities.rs 40-47 ToolUseCapability *)
datatype tool_use_capability = NoTools | BasicTools | ParallelCalls

(* map: src/crates/caliban-provider/src/capabilities.rs 52-62 PromptCachingCapability *)
datatype prompt_caching = NoCaching | AutomaticCaching | ExplicitCaching nat

(* map: src/crates/caliban-provider/src/capabilities.rs 67-74 SystemPromptCapability *)
datatype system_prompt_capability = SeparateField | SystemRole | DeveloperRole

(* map: src/crates/caliban-provider/src/capabilities.rs 9-35 Capabilities *)
record capabilities =
  cap_max_input_tokens :: nat
  cap_max_output_tokens :: nat
  cap_vision :: bool
  cap_tool_use :: tool_use_capability
  cap_thinking :: bool
  cap_prompt_caching :: prompt_caching
  cap_json_mode :: bool
  cap_streaming :: bool
  cap_stop_sequences :: bool
  cap_top_k :: bool
  cap_system_prompt :: system_prompt_capability
  cap_refusal_field :: bool

(* map: src/crates/caliban-provider/src/capabilities.rs 77-86 ModelInfo *)
record model_info =
  mi_id :: string
  mi_native_id :: string
  mi_display_name :: string
  mi_capabilities :: capabilities

definition model_info_of :: "string \<Rightarrow> string \<Rightarrow> capabilities \<Rightarrow> model_info" where
  "model_info_of i display c = \<lparr>mi_id = i, mi_native_id = i, mi_display_name = display, mi_capabilities = c\<rparr>"

(* map: src/crates/caliban-model-router/src/config.rs 77-86 ToolUseRequirement *)
datatype tool_use_requirement = ReqNone | ReqBasic | ReqParallel

(* map: src/crates/caliban-model-router/src/config.rs 91-93 ToolUseRequirement::is_required *)
definition is_required :: "tool_use_requirement \<Rightarrow> bool" where
  "is_required r = (r \<noteq> ReqNone)"

(* map: src/crates/caliban-model-router/src/config.rs 97-104 ToolUseRequirement::satisfied_by *)
fun satisfied_by :: "tool_use_requirement \<Rightarrow> tool_use_capability \<Rightarrow> bool" where
  "satisfied_by ReqNone c = True"
| "satisfied_by ReqBasic c = (c \<noteq> NoTools)"
| "satisfied_by ReqParallel c = (c = ParallelCalls)"

(* map: src/crates/caliban-model-router/src/config.rs 136-149 CapabilityRequirements *)
record requirements =
  rq_vision :: bool
  rq_thinking_required :: bool
  rq_tool_use :: tool_use_requirement

(* map: src/crates/caliban-model-router/src/capabilities.rs 13-20 DerivedNeeds *)
record needs =
  nd_vision :: bool
  nd_tool_use :: bool
  nd_thinking :: bool

definition is_image :: "content_block \<Rightarrow> bool" where
  "is_image b = (case b of Image _ \<Rightarrow> True | _ \<Rightarrow> False)"

(* map: src/crates/caliban-model-router/src/capabilities.rs 25-40 DerivedNeeds::from_request *)
definition derived_needs :: "request \<Rightarrow> needs" where
  "derived_needs rq = \<lparr>
     nd_vision = list_ex (\<lambda>m. list_ex is_image (msg_content m)) (rq_messages rq),
     nd_tool_use = (rq_tools rq \<noteq> []),
     nd_thinking = (case rq_thinking rq of ThOn _ \<Rightarrow> True | _ \<Rightarrow> False)\<rparr>"

fun bool_str :: "bool \<Rightarrow> string" where
  "bool_str True = ''true''"
| "bool_str False = ''false''"

(* map: src/crates/caliban-model-router/src/capabilities.rs 44-49 DerivedNeeds::render *)
definition needs_render :: "needs \<Rightarrow> string" where
  "needs_render n = ''vision='' @ bool_str (nd_vision n) @ '' tool_use='' @ bool_str (nd_tool_use n) @
     '' thinking='' @ bool_str (nd_thinking n)"

(* map: src/crates/caliban-model-router/src/capabilities.rs 54-65 caps_satisfy_needs *)
definition caps_satisfy_needs :: "capabilities \<Rightarrow> needs \<Rightarrow> bool" where
  "caps_satisfy_needs c n =
     (if nd_vision n \<and> \<not> cap_vision c then False
      else if nd_thinking n \<and> \<not> cap_thinking c then False
      else if nd_tool_use n \<and> cap_tool_use c = NoTools then False
      else True)"

(* map: src/crates/caliban-model-router/src/capabilities.rs 69-80 caps_satisfy_route_requires *)
definition caps_satisfy_route_requires :: "capabilities \<Rightarrow> requirements \<Rightarrow> bool" where
  "caps_satisfy_route_requires c r =
     (if rq_vision r \<and> \<not> cap_vision c then False
      else if rq_thinking_required r \<and> \<not> cap_thinking c then False
      else if \<not> satisfied_by (rq_tool_use r) (cap_tool_use c) then False
      else True)"

(* map: src/crates/caliban-model-router/src/capabilities.rs 87-104 route_requires_consistent_with_needs *)
definition route_requires_consistent :: "requirements \<Rightarrow> needs \<Rightarrow> bool" where
  "route_requires_consistent r n =
     (if rq_vision r \<and> \<not> nd_vision n then False
      else if rq_thinking_required r \<and> \<not> nd_thinking n then False
      else if is_required (rq_tool_use r) \<and> \<not> nd_tool_use n then False
      else True)"

section \<open>Routes\<close>

(* map: src/crates/caliban-model-router/src/config.rs 17-24 EffortLevel *)
datatype effort_level = ELow | EMedium | EHigh

(* map: src/crates/caliban-model-router/src/config.rs 29-35 EffortLevel::as_str *)
fun effort_level_str :: "effort_level \<Rightarrow> string" where
  "effort_level_str ELow = ''low''"
| "effort_level_str EMedium = ''medium''"
| "effort_level_str EHigh = ''high''"

(* map: src/crates/caliban-model-router/src/config.rs 42-53 EffortMap *)
record effort_map =
  em_low :: "string option"
  em_medium :: "string option"
  em_high :: "string option"

(* map: src/crates/caliban-model-router/src/config.rs 59-65 EffortMap::for_level *)
fun for_level :: "effort_map \<Rightarrow> effort_level \<Rightarrow> string" where
  "for_level m ELow = unwrap_or ''low'' (em_low m)"
| "for_level m EMedium = unwrap_or ''medium'' (em_medium m)"
| "for_level m EHigh = unwrap_or ''high'' (em_high m)"

(* map: src/crates/caliban-model-router/src/effort.rs 20-26 effort_level_to_provider *)
fun effort_level_to_provider :: "effort_level \<Rightarrow> effort" where
  "effort_level_to_provider ELow = Low"
| "effort_level_to_provider EMedium = Medium"
| "effort_level_to_provider EHigh = High"

(* map: src/crates/caliban-model-router/src/config.rs 154-166 HedgePolicy *)
datatype hedge_policy = NoHedge | Race nat nat

(* map: src/crates/caliban-model-router/src/config.rs 321-326 HedgeDefaults *)
record hedge_defaults =
  hd_hedge_after_ms :: "nat option"
  hd_max_hedges :: "nat option"

(* map: src/crates/caliban-model-router/src/config.rs 171-182 HedgeWire *)
datatype hedge_wire = HToggle bool | HTable "nat option" "nat option" "nat option"

(* map: src/crates/caliban-model-router/src/config.rs 329-337 HedgeDefaults::to_policy *)
definition hedge_to_policy :: "hedge_defaults \<Rightarrow> hedge_policy" where
  "hedge_to_policy d =
     (case (hd_hedge_after_ms d, hd_max_hedges d) of
        (None, None) \<Rightarrow> NoHedge
      | (after, mx) \<Rightarrow> Race (unwrap_or 1000 after) (unwrap_or 1 mx))"

(* map: src/crates/caliban-model-router/src/config.rs 339-354 HedgeDefaults::merge_with *)
fun hedge_merge_with :: "hedge_defaults \<Rightarrow> hedge_wire \<Rightarrow> hedge_policy" where
  "hedge_merge_with d (HToggle False) = NoHedge"
| "hedge_merge_with d (HToggle True) = hedge_to_policy d"
| "hedge_merge_with d (HTable after mx alias) =
     Race (unwrap_or 1000 (or_opt after (hd_hedge_after_ms d)))
          (unwrap_or 1 (or_opt (or_opt mx alias) (hd_max_hedges d)))"

(* map: src/crates/caliban-model-router/src/config.rs 382-409 RouteEntry *)
record route =
  ro_id :: string
  ro_purpose :: purpose
  ro_provider :: string
  ro_model :: string
  ro_requires :: requirements
  ro_fallback :: "string list option"
  ro_hedge :: hedge_policy
  ro_breaker :: breaker_policy
  ro_effort :: "effort_level option"
  ro_effort_map :: effort_map

(* map: src/crates/caliban-model-router/src/effort.rs 13-15 effective_effort_for *)
definition effective_effort_for :: "route \<Rightarrow> effort_level option \<Rightarrow> effort_level" where
  "effective_effort_for r per_request = unwrap_or EMedium (or_opt per_request (ro_effort r))"

(* map: src/crates/caliban-model-router/src/config.rs 360-378 RawRoute *)
record raw_route =
  rw_id :: "string option"
  rw_purpose :: purpose
  rw_provider :: string
  rw_model :: string
  rw_requires :: "requirements option"
  rw_fallback :: "string list option"
  rw_hedge :: "hedge_wire option"
  rw_breaker :: "breaker_wire option"
  rw_effort :: "effort_level option"
  rw_effort_map :: "effort_map option"

(* map: src/crates/caliban-model-router/src/config.rs 470-479 purpose_slug *)
fun purpose_slug :: "purpose \<Rightarrow> string" where
  "purpose_slug MainLoop = ''main_loop''"
| "purpose_slug Summarization = ''summarization''"
| "purpose_slug FastClassifier = ''fast_classifier''"
| "purpose_slug SubAgent = ''sub_agent''"
| "purpose_slug Embedding = ''embedding''"
| "purpose_slug Other = ''other''"

(* map: src/crates/caliban-model-router/src/config.rs 481-490 derive_id *)
definition derive_id :: "raw_route \<Rightarrow> string" where
  "derive_id raw = unwrap_or
     (rw_provider raw @ '':'' @ rw_model raw @ '':'' @ purpose_slug (rw_purpose raw)) (rw_id raw)"

(* map: src/crates/caliban-model-router/src/config.rs 432-438 RouterConfig *)
record router_config =
  rc_default_purpose :: purpose
  rc_routes :: "route list"

definition default_requirements :: requirements where
  "default_requirements = \<lparr>rq_vision = False, rq_thinking_required = False, rq_tool_use = ReqNone\<rparr>"

(* map: src/crates/caliban-model-router/src/config.rs 493-525 RouterConfig::from_section *)
definition config_from_section ::
  "purpose \<Rightarrow> breaker_defaults \<Rightarrow> hedge_defaults \<Rightarrow> raw_route list \<Rightarrow> router_config" where
  "config_from_section default_purpose bdef hdef raws =
     \<lparr>rc_default_purpose = default_purpose,
      rc_routes = map (\<lambda>raw. \<lparr>
        ro_id = derive_id raw, ro_purpose = rw_purpose raw, ro_provider = rw_provider raw,
        ro_model = rw_model raw, ro_requires = unwrap_or default_requirements (rw_requires raw),
        ro_fallback = rw_fallback raw,
        ro_hedge = (case rw_hedge raw of Some w \<Rightarrow> hedge_merge_with hdef w | None \<Rightarrow> hedge_to_policy hdef),
        ro_breaker = (case rw_breaker raw of Some w \<Rightarrow> breaker_merge_with bdef w | None \<Rightarrow> to_policy bdef),
        ro_effort = rw_effort raw,
        ro_effort_map = unwrap_or \<lparr>em_low = None, em_medium = None, em_high = None\<rparr> (rw_effort_map raw)\<rparr>)
      raws\<rparr>"

section \<open>Errors and validation\<close>

(* map: src/crates/caliban-model-router/src/error.rs 6-42 RouterError *)
datatype router_error =
    EmptyProviders
  | UnknownProvider string
  | DefaultPurposeUnrouted purpose
  | UnknownFallbackId string string
  | NoCandidate purpose string
  | FallbackExhausted "string list" string

text \<open>The display text of the error is the \<open>thiserror\<close> package's: a parameter.\<close>

(* map: src/crates/caliban-model-router/src/error.rs 47-60 RouterError::into_provider_error *)
fun into_provider_error :: "(router_error \<Rightarrow> string) \<Rightarrow> router_error \<Rightarrow> perror" where
  "into_provider_error show (FallbackExhausted t e) = ModelUnavailable (show (FallbackExhausted t e))"
| "into_provider_error show e = InvalidRequest (show e)"

type_synonym breakers = "string \<Rightarrow> breaker option"
type_synonym provider_caps = "string \<Rightarrow> (string \<Rightarrow> capabilities) option"

definition unknown_fallback :: "route list \<Rightarrow> route \<Rightarrow> router_error option" where
  "unknown_fallback routes r =
     (case ro_fallback r of
        None \<Rightarrow> None
      | Some ids \<Rightarrow> map_option (UnknownFallbackId (ro_id r))
          (find (\<lambda>fid. fid \<notin> ro_id ` set routes) ids))"

text \<open>The provider map is a finite map, given with its domain's emptiness test.\<close>

(* map: src/crates/caliban-model-router/src/lib.rs 224-266 ModelRouter::new *)
definition router_new ::
  "purpose \<Rightarrow> route list \<Rightarrow> bool \<Rightarrow> provider_caps \<Rightarrow> (breakers, router_error) result" where
  "router_new default_purpose routes no_providers providers =
     (if no_providers then Err EmptyProviders
      else (case find (\<lambda>r. providers (ro_provider r) = None) routes of
              Some r \<Rightarrow> Err (UnknownProvider (ro_provider r))
            | None \<Rightarrow>
                if \<not> list_ex (\<lambda>r. ro_purpose r = default_purpose) routes
                then Err (DefaultPurposeUnrouted default_purpose)
                else (case find_map (unknown_fallback routes) routes of
                        Some e \<Rightarrow> Err e
                      | None \<Rightarrow> Ok (map_of (rev (map (\<lambda>r. (ro_id r, breaker_new (ro_breaker r))) routes))))))"

section \<open>Resolution\<close>

(* map: src/crates/caliban-model-router/src/capabilities.rs 110-117 CandidateOrigin *)
datatype origin = Primary | FallbackId | ImplicitFallback

(* map: src/crates/caliban-model-router/src/capabilities.rs 122-128 CandidateOrigin::label *)
fun origin_label :: "origin \<Rightarrow> string" where
  "origin_label Primary = ''primary''"
| "origin_label FallbackId = ''fallback''"
| "origin_label ImplicitFallback = ''implicit-fallback''"

(* map: src/crates/caliban-model-router/src/resolver.rs 21-26 Candidate *)
record candidate =
  cd_route_idx :: nat
  cd_route_id :: string
  cd_origin :: origin

(* map: src/crates/caliban-model-router/src/resolver.rs 30-41 DiagnosticEntry *)
record diagnostic =
  dg_route_id :: string
  dg_kept :: bool
  dg_reason :: string
  dg_origin :: "origin option"
  dg_breaker_state :: string

text \<open>The first pass, per route: the breaker's state name, and why the route is not viable.\<close>

definition breaker_name_of :: "breakers \<Rightarrow> nat \<Rightarrow> route \<Rightarrow> string" where
  "breaker_name_of bs now r =
     (case bs (ro_id r) of None \<Rightarrow> ''closed'' | Some b \<Rightarrow> breaker_state_name (fst (state_at now b)))"

(* map: src/crates/caliban-model-router/src/resolver.rs 84-112 resolve_with_diagnostics *)
definition drop_reason :: "breakers \<Rightarrow> provider_caps \<Rightarrow> nat \<Rightarrow> needs \<Rightarrow> route \<Rightarrow> string option" where
  "drop_reason bs providers now n r =
     (if breaker_name_of bs now r = ''tripped'' then Some ''breaker tripped''
      else (case providers (ro_provider r) of
              None \<Rightarrow> Some ''provider not registered''
            | Some caps_of \<Rightarrow>
                (let caps = caps_of (ro_model r) in
                 if \<not> caps_satisfy_needs caps n then Some ''capability mismatch (request needs)''
                 else if \<not> caps_satisfy_route_requires caps (ro_requires r)
                 then Some ''capability mismatch (route requires)''
                 else if \<not> route_requires_consistent (ro_requires r) n
                 then Some ''route requires unmet by request''
                 else None)))"

definition read_breakers :: "nat \<Rightarrow> route list \<Rightarrow> breakers \<Rightarrow> breakers" where
  "read_breakers now routes bs =
     (\<lambda>i. if i \<in> ro_id ` set routes then map_option (\<lambda>b. snd (state_at now b)) (bs i) else bs i)"

(* map: src/crates/caliban-model-router/src/resolver.rs 163-188 resolve_with_diagnostics *)
fun explicit_fallbacks ::
  "route list \<Rightarrow> (nat \<Rightarrow> bool) \<Rightarrow> route \<Rightarrow> nat list \<Rightarrow> string list \<Rightarrow> (nat list, router_error) result" where
  "explicit_fallbacks routes viable primary included [] = Ok []"
| "explicit_fallbacks routes viable primary included (fid # ids) =
     (case position (\<lambda>r. ro_id r = fid) routes of
        None \<Rightarrow> Err (UnknownFallbackId (ro_id primary) fid)
      | Some p \<Rightarrow>
          if p \<in> set included \<or> \<not> viable p
          then explicit_fallbacks routes viable primary included ids
          else map_ok (Cons p) (explicit_fallbacks routes viable primary (included @ [p]) ids))"

(* map: src/crates/caliban-model-router/src/resolver.rs 189-211 resolve_with_diagnostics *)
definition implicit_fallbacks :: "route list \<Rightarrow> (nat \<Rightarrow> bool) \<Rightarrow> purpose \<Rightarrow> nat \<Rightarrow> nat list" where
  "implicit_fallbacks routes viable pur primary_idx =
     filter (\<lambda>i. i \<noteq> primary_idx \<and> ro_purpose (routes ! i) = pur \<and> viable i) [0..<length routes]"

fun purpose_debug :: "purpose \<Rightarrow> string" where
  "purpose_debug MainLoop = ''MainLoop''"
| "purpose_debug Summarization = ''Summarization''"
| "purpose_debug FastClassifier = ''FastClassifier''"
| "purpose_debug SubAgent = ''SubAgent''"
| "purpose_debug Embedding = ''Embedding''"
| "purpose_debug Other = ''Other''"

definition purpose_mismatch :: "route \<Rightarrow> purpose \<Rightarrow> string" where
  "purpose_mismatch r pur = ''purpose mismatch ('' @ purpose_debug (ro_purpose r) @ '' != '' @
     purpose_debug pur @ '')''"

definition mk_candidate :: "route list \<Rightarrow> origin \<Rightarrow> nat \<Rightarrow> candidate" where
  "mk_candidate routes orig i =
     \<lparr>cd_route_idx = i, cd_route_id = ro_id (routes ! i), cd_origin = orig\<rparr>"

(* map: src/crates/caliban-model-router/src/resolver.rs 214-248 resolve_with_diagnostics *)
definition diagnose ::
  "route list \<Rightarrow> (nat \<Rightarrow> string option) \<Rightarrow> (nat \<Rightarrow> string) \<Rightarrow> purpose \<Rightarrow> candidate list \<Rightarrow> nat \<Rightarrow> diagnostic" where
  "diagnose routes reason bname pur ordered i =
     (let r = routes ! i in
      case find (\<lambda>c. cd_route_idx c = i) ordered of
        Some c \<Rightarrow> \<lparr>dg_route_id = ro_id r, dg_kept = True, dg_reason = origin_label (cd_origin c),
                   dg_origin = Some (cd_origin c), dg_breaker_state = bname i\<rparr>
      | None \<Rightarrow> \<lparr>dg_route_id = ro_id r, dg_kept = False,
                  dg_reason = unwrap_or
                    (if ro_purpose r = pur then ''not on this fallback chain'' else purpose_mismatch r pur)
                    (reason i),
                  dg_origin = None, dg_breaker_state = bname i\<rparr>)"

(* map: src/crates/caliban-model-router/src/resolver.rs 67-251 resolve_with_diagnostics *)
definition resolve_with_diagnostics ::
  "route list \<Rightarrow> breakers \<Rightarrow> provider_caps \<Rightarrow> purpose \<Rightarrow> nat \<Rightarrow> request \<Rightarrow>
     (candidate list \<times> diagnostic list, router_error) result" where
  "resolve_with_diagnostics routes bs providers default_purpose now rq =
     (let pur = unwrap_or default_purpose (md_purpose (rq_metadata rq));
          n = derived_needs rq;
          reason = (\<lambda>i. drop_reason bs providers now n (routes ! i));
          viable = (\<lambda>i. reason i = None);
          bname = (\<lambda>i. breaker_name_of bs now (routes ! i))
      in case find (\<lambda>i. ro_purpose (routes ! i) = pur \<and> viable i) [0..<length routes] of
           None \<Rightarrow> Err (NoCandidate pur (needs_render n))
         | Some p \<Rightarrow>
             map_ok (\<lambda>(orig, fs).
                 let ordered = mk_candidate routes Primary p # map (mk_candidate routes orig) fs
                 in (ordered, map (diagnose routes reason bname pur ordered) [0..<length routes]))
               (case ro_fallback (routes ! p) of
                  Some ids \<Rightarrow> map_ok (Pair FallbackId) (explicit_fallbacks routes viable (routes ! p) [p] ids)
                | None \<Rightarrow> Ok (ImplicitFallback, implicit_fallbacks routes viable pur p)))"

(* map: src/crates/caliban-model-router/src/resolver.rs 50-60 resolve_candidates *)
definition resolve_candidates ::
  "route list \<Rightarrow> breakers \<Rightarrow> provider_caps \<Rightarrow> purpose \<Rightarrow> nat \<Rightarrow> request \<Rightarrow>
     (candidate list, router_error) result" where
  "resolve_candidates routes bs providers default_purpose now rq =
     map_ok fst (resolve_with_diagnostics routes bs providers default_purpose now rq)"

section \<open>Properties of resolution\<close>

lemma explicit_fallbacks_ok:
  "explicit_fallbacks routes viable primary included ids = Ok fs \<Longrightarrow>
   distinct fs \<and> set fs \<inter> set included = {} \<and>
   (\<forall>i \<in> set fs. i < length routes \<and> viable i \<and> ro_id (routes ! i) \<in> set ids)"
proof (induction ids arbitrary: included fs)
  case (Cons fid ids)
  then obtain p where p: "position (\<lambda>r. ro_id r = fid) routes = Some p"
    by (auto split: option.splits)
  then have pos: "p < length routes" "ro_id (routes ! p) = fid"
    by (simp_all add: position_Some)
  show ?case
  proof (cases "p \<in> set included \<or> \<not> viable p")
    case True
    then show ?thesis using Cons p by auto
  next
    case False
    then obtain gs where "fs = p # gs" and
      gs: "explicit_fallbacks routes viable primary (included @ [p]) ids = Ok gs"
      using Cons.prems p by auto
    with Cons.IH [OF gs] False pos show ?thesis by auto
  qed
qed simp

lemma find_upt_Some:
  "find P [0..<n] = Some i \<longleftrightarrow> i < n \<and> P i \<and> (\<forall>j < i. \<not> P j)"
  by (auto simp: find_Some_iff)

text \<open>What resolution has settled on before it builds its answer.\<close>

definition viable_at ::
  "route list \<Rightarrow> breakers \<Rightarrow> provider_caps \<Rightarrow> nat \<Rightarrow> request \<Rightarrow> nat \<Rightarrow> bool" where
  "viable_at routes bs providers now rq i \<longleftrightarrow>
     i < length routes \<and> drop_reason bs providers now (derived_needs rq) (routes ! i) = None"

lemma viable_at_caps:
  assumes "viable_at routes bs providers now rq i"
  shows "breaker_name_of bs now (routes ! i) \<noteq> ''tripped'' \<and>
    (\<exists>caps_of. providers (ro_provider (routes ! i)) = Some caps_of \<and>
       caps_satisfy_needs (caps_of (ro_model (routes ! i))) (derived_needs rq) \<and>
       caps_satisfy_route_requires (caps_of (ro_model (routes ! i))) (ro_requires (routes ! i)))"
  using assms by (auto simp: viable_at_def drop_reason_def Let_def split: if_splits option.splits)

definition request_purpose :: "purpose \<Rightarrow> request \<Rightarrow> purpose" where
  "request_purpose default_purpose rq = unwrap_or default_purpose (md_purpose (rq_metadata rq))"

lemma resolve_structure:
  assumes "resolve_with_diagnostics routes bs providers dp now rq = Ok (cs, ds)"
  obtains p fs orig where
    "viable_at routes bs providers now rq p" "ro_purpose (routes ! p) = request_purpose dp rq"
    "\<forall>j < p. \<not> (ro_purpose (routes ! j) = request_purpose dp rq \<and> viable_at routes bs providers now rq j)"
    "cs = mk_candidate routes Primary p # map (mk_candidate routes orig) fs"
    "distinct (p # fs)" "\<forall>i \<in> set fs. viable_at routes bs providers now rq i" "orig \<noteq> Primary"
    "ds = map (diagnose routes (\<lambda>i. drop_reason bs providers now (derived_needs rq) (routes ! i))
       (\<lambda>i. breaker_name_of bs now (routes ! i)) (request_purpose dp rq) cs) [0..<length routes]"
    "ro_fallback (routes ! p) = Some [] \<Longrightarrow> fs = []"
proof -
  define viable where "viable i = (drop_reason bs providers now (derived_needs rq) (routes ! i) = None)" for i
  let ?pur = "request_purpose dp rq"
  obtain p where f: "find (\<lambda>i. ro_purpose (routes ! i) = ?pur \<and> viable i) [0..<length routes] = Some p"
    using assms
    by (auto simp: resolve_with_diagnostics_def Let_def viable_def request_purpose_def split: option.splits)
  then have p: "p < length routes" "ro_purpose (routes ! p) = ?pur" "viable p"
      "\<forall>j < p. \<not> (ro_purpose (routes ! j) = ?pur \<and> viable j)"
    by (simp_all add: find_upt_Some)
  define fb where "fb = (case ro_fallback (routes ! p) of
      Some ids \<Rightarrow> map_ok (Pair FallbackId) (explicit_fallbacks routes viable (routes ! p) [p] ids)
    | None \<Rightarrow> Ok (ImplicitFallback, implicit_fallbacks routes viable ?pur p))"
  have "resolve_with_diagnostics routes bs providers dp now rq =
      map_ok (\<lambda>(orig, fs).
        let ordered = mk_candidate routes Primary p # map (mk_candidate routes orig) fs
        in (ordered, map (diagnose routes (\<lambda>i. drop_reason bs providers now (derived_needs rq) (routes ! i))
             (\<lambda>i. breaker_name_of bs now (routes ! i)) ?pur ordered) [0..<length routes])) fb"
    using f unfolding resolve_with_diagnostics_def Let_def fb_def viable_def [abs_def] request_purpose_def
    by simp
  with assms obtain orig fs where of: "fb = Ok (orig, fs)"
      and cs: "cs = mk_candidate routes Primary p # map (mk_candidate routes orig) fs"
      and ds: "ds = map (diagnose routes (\<lambda>i. drop_reason bs providers now (derived_needs rq) (routes ! i))
       (\<lambda>i. breaker_name_of bs now (routes ! i)) ?pur cs) [0..<length routes]"
    by (cases fb) (auto simp: Let_def)
  have fs: "distinct (p # fs) \<and> (\<forall>i \<in> set fs. i < length routes \<and> viable i) \<and> orig \<noteq> Primary"
  proof (cases "ro_fallback (routes ! p)")
    case None
    with of p(1) show ?thesis by (auto simp: fb_def implicit_fallbacks_def)
  next
    case (Some ids)
    then have "explicit_fallbacks routes viable (routes ! p) [p] ids = Ok fs" "orig = FallbackId"
      using of by (auto simp: fb_def)
    with explicit_fallbacks_ok [of routes viable "routes ! p" "[p]" ids fs] show ?thesis by auto
  qed
  have "fs = []" if "ro_fallback (routes ! p) = Some []"
    using of that by (simp add: fb_def)
  with p fs cs ds show ?thesis
    by (intro that [of p orig fs]) (auto simp: viable_at_def viable_def)
qed

text \<open>
  (C29) What resolution returns: a non-empty list without repetition, whose head is the first
  route of the request's purpose that can serve it, and every element of which can: its
  breaker is not tripped, its provider is registered and its capabilities cover what the
  request needs and what the route requires. The diagnostics hold one entry per route, kept
  exactly for the candidates, and an empty fallback list leaves the primary alone.
\<close>

theorem resolve_candidates_sound:
  assumes "resolve_with_diagnostics routes bs providers dp now rq = Ok (cs, ds)"
  shows "cs \<noteq> [] \<and> distinct (map cd_route_idx cs) \<and>
    (\<forall>c \<in> set cs. viable_at routes bs providers now rq (cd_route_idx c)) \<and>
    find (\<lambda>i. ro_purpose (routes ! i) = request_purpose dp rq \<and> viable_at routes bs providers now rq i)
      [0..<length routes] = Some (cd_route_idx (hd cs)) \<and>
    map dg_kept ds = map (\<lambda>i. i \<in> cd_route_idx ` set cs) [0..<length routes] \<and>
    (ro_fallback (routes ! cd_route_idx (hd cs)) = Some [] \<longrightarrow> length cs = 1)"
  using assms
proof (rule resolve_structure, goal_cases)
  case (1 p fs orig)
  have idx: "map cd_route_idx cs = p # fs"
    using 1(4) by (simp add: mk_candidate_def comp_def)
  have kept: "dg_kept (diagnose routes r b pur cs i) = (i \<in> cd_route_idx ` set cs)" for r b pur i
    by (auto simp: diagnose_def Let_def find_None_iff split: option.splits dest!: find_SomeD)
  have "cd_route_idx (hd cs) = p" using 1(4) by (simp add: mk_candidate_def)
  moreover have "p < length routes" using 1(1) by (simp add: viable_at_def)
  ultimately show ?case
    using 1 idx kept by (auto simp: find_upt_Some mk_candidate_def comp_def)
qed

text \<open>The identifiers known to a validated router.\<close>

lemma unknown_fallback_None:
  "unknown_fallback routes r = None \<Longrightarrow> ro_fallback r = Some ids \<Longrightarrow> set ids \<subseteq> ro_id ` set routes"
  by (auto simp: unknown_fallback_def find_None_iff)

lemma find_map_None: "find_map f xs = None \<longleftrightarrow> (\<forall>x \<in> set xs. f x = None)"
  by (induction xs) (auto split: option.splits)

lemma explicit_fallbacks_known:
  "set ids \<subseteq> ro_id ` set routes \<Longrightarrow> is_ok (explicit_fallbacks routes viable primary included ids)"
proof (induction ids arbitrary: included)
  case (Cons fid ids)
  then have "position (\<lambda>r. ro_id r = fid) routes \<noteq> None"
    by (auto simp: position_None)
  then show ?case using Cons by (auto simp: is_ok_iff)
qed simp

text \<open>
  A router that passed validation has a breaker for every route, and its resolution fails
  in one way only: no route can serve the request. An unknown fallback identifier is caught
  when the router is built, never while it is running.
\<close>

theorem validated_router_resolves:
  assumes "router_new dp routes no_providers providers = Ok bs0"
  shows "dom bs0 = ro_id ` set routes \<and>
    (\<exists>r \<in> set routes. ro_purpose r = dp) \<and>
    (case resolve_with_diagnostics routes bs providers dp now rq of
       Ok _ \<Rightarrow> True
     | Err e \<Rightarrow> e = NoCandidate (request_purpose dp rq) (needs_render (derived_needs rq)))"
proof -
  have fb: "find_map (unknown_fallback routes) routes = None"
      and ex: "\<exists>r \<in> set routes. ro_purpose r = dp"
      and bs0: "bs0 = map_of (rev (map (\<lambda>r. (ro_id r, breaker_new (ro_breaker r))) routes))"
    using assms by (auto simp: router_new_def list_ex_iff split: if_splits option.splits)
  have dom: "dom bs0 = ro_id ` set routes"
    by (force simp: bs0 dom_map_of_conv_image_fst)
  let ?viable = "\<lambda>i. drop_reason bs providers now (derived_needs rq) (routes ! i) = None"
  have known: "is_ok (explicit_fallbacks routes ?viable (routes ! p) [p] ids)"
    if "p < length routes" "ro_fallback (routes ! p) = Some ids" for p ids
    using that fb unknown_fallback_None [of routes "routes ! p" ids]
    by (intro explicit_fallbacks_known) (auto simp: find_map_None)
  have "case resolve_with_diagnostics routes bs providers dp now rq of
       Ok _ \<Rightarrow> True
     | Err e \<Rightarrow> e = NoCandidate (request_purpose dp rq) (needs_render (derived_needs rq))"
  proof (cases "find (\<lambda>i. ro_purpose (routes ! i) = request_purpose dp rq \<and> ?viable i) [0..<length routes]")
    case None
    then show ?thesis by (simp add: resolve_with_diagnostics_def Let_def request_purpose_def)
  next
    case (Some p)
    then have "p < length routes" by (simp add: find_upt_Some)
    with known [of p] Some show ?thesis
      by (cases "ro_fallback (routes ! p)")
         (auto simp: resolve_with_diagnostics_def Let_def request_purpose_def is_ok_iff)
  qed
  with dom ex show ?thesis by blast
qed

section \<open>A sample router\<close>

definition sample_caps :: capabilities where
  "sample_caps = \<lparr>cap_max_input_tokens = 1000, cap_max_output_tokens = 100, cap_vision = False,
     cap_tool_use = BasicTools, cap_thinking = False, cap_prompt_caching = NoCaching,
     cap_json_mode = False, cap_streaming = True, cap_stop_sequences = True, cap_top_k = False,
     cap_system_prompt = SeparateField, cap_refusal_field = False\<rparr>"

definition sample_route :: "string \<Rightarrow> route" where
  "sample_route i = \<lparr>ro_id = i, ro_purpose = MainLoop, ro_provider = ''p'', ro_model = ''m'',
     ro_requires = default_requirements, ro_fallback = None, ro_hedge = NoHedge,
     ro_breaker = policy_disabled, ro_effort = None,
     ro_effort_map = \<lparr>em_low = None, em_medium = None, em_high = None\<rparr>\<rparr>"

definition sample_routes :: "route list" where
  "sample_routes = [sample_route ''a'', sample_route ''b'']"

definition sample_providers :: provider_caps where
  "sample_providers = [''p'' \<mapsto> (\<lambda>_. sample_caps)]"

definition sample_request :: request where
  "sample_request = (request_builder ''m'')\<lparr>rq_messages := [msg_user_text ''hi'']\<rparr>"

lemmas sample_router_defs = sample_routes_def sample_route_def sample_providers_def sample_caps_def
  sample_request_def request_builder_def msg_user_text_def text_cb_def derived_needs_def
  default_requirements_def

lemma sample_drop: "drop_reason (\<lambda>_. None) sample_providers 0 (derived_needs sample_request) (sample_route i) = None"
  by (simp add: drop_reason_def breaker_name_of_def sample_router_defs Let_def caps_satisfy_needs_def
      caps_satisfy_route_requires_def route_requires_consistent_def is_required_def is_image_def)

lemma sample_resolve:
  "\<exists>ds. resolve_with_diagnostics sample_routes (\<lambda>_. None) sample_providers MainLoop 0 sample_request =
     Ok ([mk_candidate sample_routes Primary 0, mk_candidate sample_routes ImplicitFallback 1], ds)"
proof -
  have pur: "md_purpose (rq_metadata sample_request) = None"
    by (simp add: sample_request_def request_builder_def)
  have r: "sample_routes ! 0 = sample_route ''a''" "sample_routes ! Suc 0 = sample_route ''b''"
      "length sample_routes = 2"
    by (simp_all add: sample_routes_def)
  have ro: "ro_purpose (sample_route i) = MainLoop" "ro_fallback (sample_route i) = None" for i
    by (simp_all add: sample_route_def)
  have upt: "[0..<2] = [0, Suc 0]" by (simp add: upt_rec)
  have imp: "implicit_fallbacks sample_routes (\<lambda>i. drop_reason (\<lambda>_. None) sample_providers 0
      (derived_needs sample_request) (sample_routes ! i) = None) MainLoop 0 = [1]"
    by (simp add: implicit_fallbacks_def r upt sample_drop ro)
  show ?thesis
    by (simp add: resolve_with_diagnostics_def Let_def pur r upt sample_drop ro imp)
qed

theorem resolve_candidates_sound_witness:
  "distinct (map cd_route_idx
     [mk_candidate sample_routes Primary 0, mk_candidate sample_routes ImplicitFallback 1])"
proof -
  obtain ds where "resolve_with_diagnostics sample_routes (\<lambda>_. None) sample_providers MainLoop 0 sample_request =
     Ok ([mk_candidate sample_routes Primary 0, mk_candidate sample_routes ImplicitFallback 1], ds)"
    using sample_resolve by blast
  from resolve_candidates_sound [OF this] show ?thesis by blast
qed

theorem validated_router_resolves_witness:
  "\<exists>bs0. dom bs0 = {''a'', ''b''} \<and> router_new MainLoop sample_routes False sample_providers = Ok bs0"
proof -
  obtain bs0 where "router_new MainLoop sample_routes False sample_providers = Ok bs0"
    by (auto simp: router_new_def sample_routes_def sample_route_def sample_providers_def
        unknown_fallback_def)
  moreover from validated_router_resolves [OF this] have "dom bs0 = {''a'', ''b''}"
    by (auto simp: sample_routes_def sample_route_def)
  ultimately show ?thesis by blast
qed

end
