(* ===== verification/Dispatch.thy ===== *)
theory Dispatch
  imports Router "HOL-Library.Multiset"
begin

text \<open>
  The dispatch loops of the model router (\<open>crates/caliban-model-router/src\<close>): sequential
  fallback and hedged segments for \<open>complete\<close>, sequential fallback for \<open>stream\<close>
  (\<open>dispatch.rs\<close>), the race driver (\<open>hedging.rs\<close>), the statistics
  (\<open>lib.rs\<close>), the classification of errors (\<open>fallback.rs\<close>) and the stripping
  of cache markers (\<open>cache.rs\<close>).

  The providers, the clock and the display of errors are the fields of an environment; the
  world they act on is threaded through. A race is driven by a schedule, the order in which
  attempts complete, outcomes are received and the hedge timer fires; a schedule that stops
  before the race is decided leaves the call pending, which is the result \<open>None\<close>.
\<close>

section \<open>Classification, markers, statistics\<close>

(* map: src/crates/caliban-model-router/src/fallback.rs 11-29 is_fatal_for_route *)
fun is_fatal_for_route :: "perror \<Rightarrow> bool" where
  "is_fatal_for_route (ModelUnavailable _) = True"
| "is_fatal_for_route (RateLimit _) = True"
| "is_fatal_for_route (ContextTooLong _ _) = True"
| "is_fatal_for_route (ServerError _ _) = True"
| "is_fatal_for_route (UpstreamServerFault _) = True"
| "is_fatal_for_route (Network _) = True"
| "is_fatal_for_route (StreamInterrupted _) = True"
| "is_fatal_for_route (StreamIdle _) = True"
| "is_fatal_for_route (Auth _) = False"
| "is_fatal_for_route (InvalidRequest _) = False"
| "is_fatal_for_route (ContentFilterError _) = False"
| "is_fatal_for_route Cancelled = False"
| "is_fatal_for_route (Adapter _) = False"

(* map: src/crates/caliban-model-router/src/cache.rs 25-46 strip_block *)
fun strip_block :: "content_block \<Rightarrow> nat \<times> content_block" where
  "strip_block (Text t) =
     (if tb_cache_control t \<noteq> None then (1, Text (t\<lparr>tb_cache_control := None\<rparr>)) else (0, Text t))"
| "strip_block (Image i) =
     (if ib_cache_control i \<noteq> None then (1, Image (i\<lparr>ib_cache_control := None\<rparr>)) else (0, Image i))"
| "strip_block b = (0, b)"

definition strip_tool :: "tool_decl \<Rightarrow> nat \<times> tool_decl" where
  "strip_tool t = (if td_cache_control t \<noteq> None then (1, t\<lparr>td_cache_control := None\<rparr>) else (0, t))"

(* map: src/crates/caliban-model-router/src/cache.rs 9-23 strip_cache_markers *)
definition strip_cache_markers :: "request \<Rightarrow> nat \<times> request" where
  "strip_cache_markers rq =
     (sat_u32 (sum_list (map (\<lambda>m. sum_list (map (fst \<circ> strip_block) (msg_content m))) (rq_messages rq)) +
               sum_list (map (fst \<circ> strip_tool) (rq_tools rq))),
      rq\<lparr>rq_messages := map (\<lambda>m. m\<lparr>msg_content := map (snd \<circ> strip_block) (msg_content m)\<rparr>) (rq_messages rq),
         rq_tools := map (snd \<circ> strip_tool) (rq_tools rq)\<rparr>)"

(* map: src/crates/caliban-model-router/src/lib.rs 82-102 RouteUsage *)
record route_usage =
  ru_call_count :: nat
  ru_input_tokens :: nat
  ru_output_tokens :: nat
  ru_cache_read :: nat
  ru_cache_creation :: nat
  ru_failures :: nat
  ru_hedge_losses :: nat
  ru_hedge_wins :: nat
  ru_fallback_engaged :: nat

definition route_usage_default :: route_usage where
  "route_usage_default = \<lparr>ru_call_count = 0, ru_input_tokens = 0, ru_output_tokens = 0,
     ru_cache_read = 0, ru_cache_creation = 0, ru_failures = 0, ru_hedge_losses = 0,
     ru_hedge_wins = 0, ru_fallback_engaged = 0\<rparr>"

(* map: src/crates/caliban-model-router/src/lib.rs 116-119 StatsInner *)
record stats =
  st_per_route :: "string \<Rightarrow> route_usage option"
  st_cache_markers_cleared :: nat

definition stats_default :: stats where
  "stats_default = \<lparr>st_per_route = \<lambda>_. None, st_cache_markers_cleared = 0\<rparr>"

definition on_entry :: "string \<Rightarrow> (route_usage \<Rightarrow> route_usage) \<Rightarrow> stats \<Rightarrow> stats" where
  "on_entry i f s = s\<lparr>st_per_route :=
     (st_per_route s)(i \<mapsto> f (unwrap_or route_usage_default (st_per_route s i)))\<rparr>"

(* map: src/crates/caliban-model-router/src/lib.rs 125-134 StatsHandle::record_success *)
definition record_success :: "string \<Rightarrow> usage \<Rightarrow> stats \<Rightarrow> stats" where
  "record_success i u = on_entry i (\<lambda>e. e\<lparr>
     ru_call_count := ru_call_count e + 1,
     ru_input_tokens := ru_input_tokens e + unat (input_tokens u),
     ru_output_tokens := ru_output_tokens e + unat (output_tokens u),
     ru_cache_read := ru_cache_read e + unat (unwrap_or 0 (cache_read u)),
     ru_cache_creation := ru_cache_creation e + unat (unwrap_or 0 (cache_creation u))\<rparr>)"

(* map: src/crates/caliban-model-router/src/lib.rs 136-140 StatsHandle::record_failure *)
definition record_failure :: "string \<Rightarrow> stats \<Rightarrow> stats" where
  "record_failure i = on_entry i (\<lambda>e. e\<lparr>ru_failures := ru_failures e + 1\<rparr>)"

(* map: src/crates/caliban-model-router/src/lib.rs 142-146 StatsHandle::record_hedge_loss *)
definition record_hedge_loss :: "string \<Rightarrow> stats \<Rightarrow> stats" where
  "record_hedge_loss i = on_entry i (\<lambda>e. e\<lparr>ru_hedge_losses := ru_hedge_losses e + 1\<rparr>)"

(* map: src/crates/caliban-model-router/src/lib.rs 148-152 StatsHandle::record_hedge_win *)
definition record_hedge_win :: "string \<Rightarrow> stats \<Rightarrow> stats" where
  "record_hedge_win i = on_entry i (\<lambda>e. e\<lparr>ru_hedge_wins := ru_hedge_wins e + 1\<rparr>)"

(* map: src/crates/caliban-model-router/src/lib.rs 154-158 StatsHandle::record_fallback_engaged *)
definition record_fallback_engaged :: "string \<Rightarrow> stats \<Rightarrow> stats" where
  "record_fallback_engaged i = on_entry i (\<lambda>e. e\<lparr>ru_fallback_engaged := ru_fallback_engaged e + 1\<rparr>)"

(* map: src/crates/caliban-model-router/src/lib.rs 160-163 StatsHandle::record_cache_markers_cleared *)
definition record_cache_markers_cleared :: "nat \<Rightarrow> stats \<Rightarrow> stats" where
  "record_cache_markers_cleared n s = s\<lparr>st_cache_markers_cleared := st_cache_markers_cleared s + n\<rparr>"

section \<open>State and environment\<close>

type_synonym message_stream = "(stream_event, perror) result list"

datatype race_event = RTimer | RComplete nat | RRecv

record 'w renv =
  re_complete :: "string \<Rightarrow> request \<Rightarrow> 'w \<Rightarrow> (response, perror) result \<times> 'w"
  re_stream :: "string \<Rightarrow> request \<Rightarrow> 'w \<Rightarrow> (message_stream, perror) result \<times> 'w"
  re_now :: "'w \<Rightarrow> nat"
  re_show :: "router_error \<Rightarrow> string"
  re_show_err :: "perror \<Rightarrow> string"
  re_schedule :: "'w \<Rightarrow> race_event list"

record 'w rstate =
  rs_breakers :: breakers
  rs_stats :: stats
  rs_world :: 'w

text \<open>Operations on the breaker of a route; a validated router has one for each.\<close>

definition on_breaker :: "string \<Rightarrow> (breaker \<Rightarrow> breaker) \<Rightarrow> 'w rstate \<Rightarrow> 'w rstate" where
  "on_breaker i f s = s\<lparr>rs_breakers := (rs_breakers s)(i := map_option f (rs_breakers s i))\<rparr>"

definition on_stats :: "(stats \<Rightarrow> stats) \<Rightarrow> 'w rstate \<Rightarrow> 'w rstate" where
  "on_stats f s = s\<lparr>rs_stats := f (rs_stats s)\<rparr>"

definition now_of :: "'w renv \<Rightarrow> 'w rstate \<Rightarrow> nat" where
  "now_of env s = re_now env (rs_world s)"

definition admit :: "'w renv \<Rightarrow> string \<Rightarrow> 'w rstate \<Rightarrow> bool \<times> 'w rstate" where
  "admit env i s =
     (case rs_breakers s i of
        None \<Rightarrow> (True, s)
      | Some b \<Rightarrow> (let (ok, b') = try_admit_at (now_of env s) b
                  in (ok, s\<lparr>rs_breakers := (rs_breakers s)(i \<mapsto> b')\<rparr>)))"

definition observe_ok :: "'w renv \<Rightarrow> string \<Rightarrow> 'w rstate \<Rightarrow> 'w rstate" where
  "observe_ok env i s = on_breaker i (observe_success_at (now_of env s)) s"

definition observe_err :: "'w renv \<Rightarrow> string \<Rightarrow> 'w rstate \<Rightarrow> 'w rstate" where
  "observe_err env i s = on_breaker i (observe_failure_at (now_of env s)) s"

definition has_effort :: "request \<Rightarrow> bool" where
  "has_effort rq = (case rq_effort rq of None \<Rightarrow> False | Some e \<Rightarrow> e \<noteq> EffortAuto)"

(* map: src/crates/caliban-model-router/src/dispatch.rs 26-53 ModelRouter::rewrite_for_route *)
definition rewrite_for_route :: "request \<Rightarrow> route \<Rightarrow> bool \<Rightarrow> 'w rstate \<Rightarrow> request \<times> 'w rstate" where
  "rewrite_for_route base r cross_route s =
     (let rq = base\<lparr>rq_model := ro_model r\<rparr>;
          rq1 = (case ro_effort r of
                   Some level \<Rightarrow> if \<not> has_effort rq
                     then rq\<lparr>rq_effort := Some (effort_level_to_provider level)\<rparr> else rq
                 | None \<Rightarrow> rq)
      in if cross_route then
           (let (cleared, rq2) = strip_cache_markers rq1
            in (rq2, if cleared > 0 then on_stats (record_cache_markers_cleared cleared) s else s))
         else (rq1, s))"

section \<open>The race\<close>

text \<open>
  The state of \<open>race_hedged\<close> over the routes of a segment: how many attempts were
  launched, which of them hold an admission and run, the outcomes sent and not yet received,
  the losers in the order received, and whether the hedge timer is armed.
\<close>

record race =
  ra_launched :: nat
  ra_running :: "nat list"
  ra_queue :: "(nat \<times> (response, perror) result) list"
  ra_losers :: "(nat \<times> (response, perror) result) list"
  ra_timer :: bool

datatype 'w race_next =
    Racing race "'w rstate"
  | Decided nat "(response, perror) result" "(nat \<times> (response, perror) result) list" nat "'w rstate"

text \<open>What a race is run over: the routes of the segment with their prepared requests.\<close>

type_synonym segment = "(route \<times> request) list"

definition seg_id :: "segment \<Rightarrow> nat \<Rightarrow> string" where
  "seg_id seg k = ro_id (fst (seg ! k))"

text \<open>
  Launching attempt \<open>k\<close> spawns the task of lines 174 to 200 of \<open>dispatch.rs\<close>: it
  asks its breaker first, and a route that does not admit it reports \<open>Cancelled\<close> at once.
\<close>

(* map: src/crates/caliban-model-router/src/dispatch.rs 174-190 ModelRouter::dispatch_complete *)
definition race_launch :: "'w renv \<Rightarrow> segment \<Rightarrow> nat \<Rightarrow> race \<Rightarrow> 'w rstate \<Rightarrow> race \<times> 'w rstate" where
  "race_launch env seg k ra s =
     (let (ok, s') = admit env (seg_id seg k) s
      in if ok then (ra\<lparr>ra_running := ra_running ra @ [k]\<rparr>, s')
         else (ra\<lparr>ra_queue := ra_queue ra @ [(k, Err Cancelled)]\<rparr>, s'))"

definition race_max_extra :: "hedge_policy \<Rightarrow> nat \<Rightarrow> nat" where
  "race_max_extra policy n =
     (case policy of NoHedge \<Rightarrow> 0 | Race _ max_hedges \<Rightarrow> min max_hedges (n - 1))"

definition can_launch :: "nat \<Rightarrow> nat \<Rightarrow> race \<Rightarrow> bool" where
  "can_launch max_extra n ra \<longleftrightarrow> ra_launched ra - 1 < max_extra \<and> ra_launched ra < n"

(* map: src/crates/caliban-model-router/src/hedging.rs 54-89 race_hedged *)
definition race_start :: "'w renv \<Rightarrow> hedge_policy \<Rightarrow> segment \<Rightarrow> 'w rstate \<Rightarrow> race \<times> 'w rstate" where
  "race_start env policy seg s =
     race_launch env seg 0
       \<lparr>ra_launched = 1, ra_running = [], ra_queue = [], ra_losers = [],
        ra_timer = (race_max_extra policy (length seg) > 0)\<rparr> s"

text \<open>Launch the next attempt if the policy allows it, then re-arm or drop the timer.\<close>

definition race_hedge :: "'w renv \<Rightarrow> segment \<Rightarrow> nat \<Rightarrow> race \<Rightarrow> 'w rstate \<Rightarrow> race \<times> 'w rstate" where
  "race_hedge env seg max_extra ra s =
     (let k = ra_launched ra;
          (ra1, s1) = race_launch env seg k (ra\<lparr>ra_launched := k + 1\<rparr>) s
      in (ra1\<lparr>ra_timer := can_launch max_extra (length seg) ra1\<rparr>, s1))"

text \<open>Losers still running when a winner is received are cancelled and give their probe back.\<close>

(* map: src/crates/caliban-model-router/src/hedging.rs 164-170 cancel_others *)
definition race_cancel :: "segment \<Rightarrow> race \<Rightarrow> 'w rstate \<Rightarrow> 'w rstate" where
  "race_cancel seg ra s = fold (\<lambda>k. on_breaker (seg_id seg k) release_probe) (ra_running ra) s"

(* map: src/crates/caliban-model-router/src/hedging.rs 91-161 race_hedged *)
fun race_step :: "'w renv \<Rightarrow> segment \<Rightarrow> nat \<Rightarrow> race_event \<Rightarrow> race \<Rightarrow> 'w rstate \<Rightarrow> 'w race_next" where
  "race_step env seg max_extra (RComplete k) ra s =
     (if k \<in> set (ra_running ra) then
        (let (res, w') = re_complete env (ro_provider (fst (seg ! k))) (snd (seg ! k)) (rs_world s)
         in Racing (ra\<lparr>ra_running := remove1 k (ra_running ra), ra_queue := ra_queue ra @ [(k, res)]\<rparr>)
              (s\<lparr>rs_world := w'\<rparr>))
      else Racing ra s)"
| "race_step env seg max_extra RTimer ra s =
     (if ra_timer ra \<and> ra_queue ra = [] then
        (if can_launch max_extra (length seg) ra
         then (case race_hedge env seg max_extra ra s of (ra', s') \<Rightarrow> Racing ra' s')
         else Racing (ra\<lparr>ra_timer := False\<rparr>) s)
      else Racing ra s)"
| "race_step env seg max_extra RRecv ra s =
     (case ra_queue ra of
        [] \<Rightarrow> Racing ra s
      | (k, res) # q \<Rightarrow>
          (case res of
             Ok resp \<Rightarrow> Decided k (Ok resp) (ra_losers ra) (ra_launched ra) (race_cancel seg ra s)
           | Err e \<Rightarrow>
               (let ra1 = ra\<lparr>ra_queue := q, ra_losers := ra_losers ra @ [(k, Err e)]\<rparr> in
                if length (ra_losers ra1) = ra_launched ra1 then
                  (if ra_timer ra1 \<and> can_launch max_extra (length seg) ra1
                   then (case race_hedge env seg max_extra ra1 s of (ra', s') \<Rightarrow> Racing ra' s')
                   else Decided k (Err e) (ra_losers ra) (ra_launched ra1) s)
                else Racing ra1 s)))"

fun race_run ::
  "'w renv \<Rightarrow> segment \<Rightarrow> nat \<Rightarrow> race_event list \<Rightarrow> race \<Rightarrow> 'w rstate \<Rightarrow>
     (nat \<times> (response, perror) result \<times> (nat \<times> (response, perror) result) list \<times> nat \<times> 'w rstate) option" where
  "race_run env seg max_extra [] ra s = None"
| "race_run env seg max_extra (e # es) ra s =
     (case race_step env seg max_extra e ra s of
        Racing ra' s' \<Rightarrow> race_run env seg max_extra es ra' s'
      | Decided k res losers launched s' \<Rightarrow> Some (k, res, losers, launched, s'))"

(* map: src/crates/caliban-model-router/src/hedging.rs 40-62 race_hedged *)
definition race_hedged ::
  "'w renv \<Rightarrow> hedge_policy \<Rightarrow> segment \<Rightarrow> 'w rstate \<Rightarrow>
     (nat \<times> (response, perror) result \<times> (nat \<times> (response, perror) result) list \<times> nat \<times> 'w rstate) option" where
  "race_hedged env policy seg s =
     (let (ra, s') = race_start env policy seg s
      in race_run env seg (race_max_extra policy (length seg)) (re_schedule env (rs_world s)) ra s')"

section \<open>Dispatch\<close>

(* map: src/crates/caliban-model-router/src/lib.rs 188-194 ModelRouter *)
record model_router =
  mr_default_purpose :: purpose
  mr_routes :: "route list"
  mr_providers :: provider_caps

definition router_resolve ::
  "'w renv \<Rightarrow> model_router \<Rightarrow> request \<Rightarrow> 'w rstate \<Rightarrow> (candidate list, router_error) result \<times> 'w rstate" where
  "router_resolve env mr rq s =
     (resolve_candidates (mr_routes mr) (rs_breakers s) (mr_providers mr) (mr_default_purpose mr)
        (now_of env s) rq,
      s\<lparr>rs_breakers := read_breakers (now_of env s) (mr_routes mr) (rs_breakers s)\<rparr>)"

definition probe_busy :: "string \<Rightarrow> perror" where
  "probe_busy i = ModelUnavailable (i @ '': circuit breaker half-open, recovery probe already in flight'')"

datatype ('a, 'w) dispatched = Return "('a, perror) result" "'w rstate" | Advance perror "'w rstate"

text \<open>
  One sequential attempt: the breaker is asked, the provider called, its answer recorded.
  \<open>followed\<close> says that candidates follow.
\<close>

(* map: src/crates/caliban-model-router/src/dispatch.rs 81-142 ModelRouter::dispatch_complete *)
definition attempt_complete ::
  "'w renv \<Rightarrow> request \<Rightarrow> route \<Rightarrow> bool \<Rightarrow> bool \<Rightarrow> 'w rstate \<Rightarrow> (response, 'w) dispatched" where
  "attempt_complete env rq r cross_route followed s =
     (let i = ro_id r;
          engaged = (\<lambda>s. if followed then on_stats (record_fallback_engaged i) s else s);
          (ok, s1) = admit env i s
      in if \<not> ok then Advance (probe_busy i) (engaged s1)
         else
           (let (rq', s2) = rewrite_for_route rq r cross_route s1;
                (res, w') = re_complete env (ro_provider r) rq' (rs_world s2);
                s3 = s2\<lparr>rs_world := w'\<rparr>
            in case res of
                 Ok resp \<Rightarrow>
                   Return (Ok resp) (observe_ok env i (on_stats (record_success i (cr_usage resp)) s3))
               | Err e \<Rightarrow>
                   (let s4 = observe_err env i (on_stats (record_failure i) s3)
                    in if is_fatal_for_route e then Advance e (engaged s4) else Return (Err e) s4)))"

text \<open>The requests of a hedge segment are prepared before any attempt starts.\<close>

(* map: src/crates/caliban-model-router/src/dispatch.rs 149-159 ModelRouter::dispatch_complete *)
fun prepare_segment ::
  "request \<Rightarrow> bool \<Rightarrow> route list \<Rightarrow> 'w rstate \<Rightarrow> segment \<times> 'w rstate" where
  "prepare_segment rq cross [] s = ([], s)"
| "prepare_segment rq cross (r # rs) s =
     (let (rq', s1) = rewrite_for_route rq r cross s;
          (seg, s2) = prepare_segment rq True rs s1
      in ((r, rq') # seg, s2))"

(* map: src/crates/caliban-model-router/src/dispatch.rs 205-213 ModelRouter::dispatch_complete *)
definition record_losers ::
  "'w renv \<Rightarrow> segment \<Rightarrow> (nat \<times> (response, perror) result) list \<Rightarrow> 'w rstate \<Rightarrow> 'w rstate" where
  "record_losers env seg losers s =
     fold (\<lambda>(k, res) s. if res = Err Cancelled then s
         else observe_err env (seg_id seg k) (on_stats (record_failure (seg_id seg k)) s)) losers s"

definition loss_ids ::
  "segment \<Rightarrow> nat \<Rightarrow> (nat \<times> (response, perror) result) list \<Rightarrow> nat \<Rightarrow> string list" where
  "loss_ids seg winner losers launched =
     map (seg_id seg)
       (filter (\<lambda>k. k \<noteq> winner \<and> k \<notin> fst ` {l \<in> set losers. snd l = Err Cancelled}) [0..<launched])"

(* map: src/crates/caliban-model-router/src/dispatch.rs 143-274 ModelRouter::dispatch_complete *)
definition attempt_segment ::
  "'w renv \<Rightarrow> request \<Rightarrow> hedge_policy \<Rightarrow> route list \<Rightarrow> bool \<Rightarrow> bool \<Rightarrow> 'w rstate \<Rightarrow>
     (response, 'w) dispatched option" where
  "attempt_segment env rq policy rs cross_route followed s =
     (let (seg, s1) = prepare_segment rq cross_route rs s in
      case race_hedged env policy seg s1 of
        None \<Rightarrow> None
      | Some (winner, res, losers, launched, s2) \<Rightarrow>
          (let s3 = record_losers env seg losers s2; wid = seg_id seg winner in
           Some (case res of
             Ok resp \<Rightarrow>
               (let s4 = observe_ok env wid (on_stats (record_success wid (cr_usage resp)) s3);
                    ids = loss_ids seg winner losers launched
                in Return (Ok resp)
                     (if ids \<noteq> [] then on_stats (fold record_hedge_loss ids \<circ> record_hedge_win wid) s4 else s4))
           | Err e \<Rightarrow>
               (let s4 = (if e = Cancelled then s3
                          else observe_err env wid (on_stats (record_failure wid) s3))
                in if is_fatal_for_route e \<or> e = Cancelled
                   then Advance e (if followed then on_stats (record_fallback_engaged wid) s4 else s4)
                   else Return (Err e) s4))))"

definition segment_len :: "hedge_policy \<Rightarrow> nat \<Rightarrow> nat" where
  "segment_len policy remaining =
     min remaining (1 + (case policy of Race _ max_hedges \<Rightarrow> max_hedges | NoHedge \<Rightarrow> 0))"

definition exhausted :: "'w renv \<Rightarrow> string list \<Rightarrow> perror option \<Rightarrow> perror" where
  "exhausted env tried last_err = into_provider_error (re_show env)
     (FallbackExhausted tried (case last_err of Some e \<Rightarrow> re_show_err env e | None \<Rightarrow> ''no error captured''))"

text \<open>The loop over the candidates' routes; \<open>first\<close> says that none has been tried.\<close>

(* map: src/crates/caliban-model-router/src/dispatch.rs 66-286 ModelRouter::dispatch_complete *)
function dispatch_loop ::
  "'w renv \<Rightarrow> request \<Rightarrow> route list \<Rightarrow> bool \<Rightarrow> string list \<Rightarrow> perror option \<Rightarrow> 'w rstate \<Rightarrow>
     ((response, perror) result \<times> 'w rstate) option" where
  "dispatch_loop env rq [] first tried last_err s = Some (Err (exhausted env tried last_err), s)"
| "dispatch_loop env rq (r # rs) first tried last_err s =
     (let tried' = tried @ [ro_id r]; cross_route = (\<not> first); remaining = length (r # rs) in
      if remaining = 1 \<or> ro_hedge r = NoHedge then
        (case attempt_complete env rq r cross_route (rs \<noteq> []) s of
           Return res s' \<Rightarrow> Some (res, s')
         | Advance e s' \<Rightarrow> dispatch_loop env rq rs False tried' (Some e) s')
      else
        (let n = segment_len (ro_hedge r) remaining in
         case attempt_segment env rq (ro_hedge r) (take n (r # rs)) cross_route (n < remaining) s of
           None \<Rightarrow> None
         | Some (Return res s') \<Rightarrow> Some (res, s')
         | Some (Advance e s') \<Rightarrow> dispatch_loop env rq (drop n (r # rs)) False tried' (Some e) s'))"
  by pat_completeness auto
termination
  by (relation "measure (\<lambda>(env, rq, rs, first, tried, last_err, s). length rs)")
     (auto simp: segment_len_def)

(* map: src/crates/caliban-model-router/src/dispatch.rs 57-65 ModelRouter::dispatch_complete *)
definition dispatch_complete ::
  "'w renv \<Rightarrow> model_router \<Rightarrow> request \<Rightarrow> 'w rstate \<Rightarrow> ((response, perror) result \<times> 'w rstate) option" where
  "dispatch_complete env mr rq s =
     (let (cands, s1) = router_resolve env mr rq s in
      case cands of
        Err e \<Rightarrow> Some (Err (into_provider_error (re_show env) e), s1)
      | Ok cs \<Rightarrow> dispatch_loop env rq (map (\<lambda>c. mr_routes mr ! cd_route_idx c) cs) True [] None s1)"

(* map: src/crates/caliban-model-router/src/dispatch.rs 300-346 ModelRouter::dispatch_stream *)
fun stream_loop ::
  "'w renv \<Rightarrow> request \<Rightarrow> route list \<Rightarrow> bool \<Rightarrow> string list \<Rightarrow> perror option \<Rightarrow> 'w rstate \<Rightarrow>
     (message_stream, perror) result \<times> 'w rstate" where
  "stream_loop env rq [] first tried last_err s = (Err (exhausted env tried last_err), s)"
| "stream_loop env rq (r # rs) first tried last_err s =
     (let i = ro_id r;
          (rq', s1) = rewrite_for_route rq r (\<not> first) s;
          (res, w') = re_stream env (ro_provider r) rq' (rs_world s1);
          s2 = s1\<lparr>rs_world := w'\<rparr>
      in case res of
           Ok str \<Rightarrow> (Ok str, observe_ok env i (on_stats (record_success i 0) s2))
         | Err e \<Rightarrow>
             (let s3 = observe_err env i (on_stats (record_failure i) s2) in
              if is_fatal_for_route e
              then stream_loop env rq rs False (tried @ [i]) (Some e)
                     (if rs \<noteq> [] then on_stats (record_fallback_engaged i) s3 else s3)
              else (Err e, s3)))"

(* map: src/crates/caliban-model-router/src/dispatch.rs 292-299 ModelRouter::dispatch_stream *)
definition dispatch_stream ::
  "'w renv \<Rightarrow> model_router \<Rightarrow> request \<Rightarrow> 'w rstate \<Rightarrow> (message_stream, perror) result \<times> 'w rstate" where
  "dispatch_stream env mr rq s =
     (let (cands, s1) = router_resolve env mr rq s in
      case cands of
        Err e \<Rightarrow> (Err (into_provider_error (re_show env) e), s1)
      | Ok cs \<Rightarrow> stream_loop env rq (map (\<lambda>c. mr_routes mr ! cd_route_idx c) cs) True [] None s1)"

section \<open>Cache markers\<close>

fun has_marker :: "content_block \<Rightarrow> bool" where
  "has_marker (Text t) = (tb_cache_control t \<noteq> None)"
| "has_marker (Image i) = (ib_cache_control i \<noteq> None)"
| "has_marker _ = False"

fun marked_inside :: "content_block \<Rightarrow> bool" where
  "marked_inside (ToolResult _ bs _) = (\<exists>b \<in> set bs. has_marker b)"
| "marked_inside _ = False"

lemma strip_block_clears: "\<not> has_marker (snd (strip_block b))"
  by (cases b) simp_all

lemma strip_block_inside: "marked_inside (snd (strip_block b)) = marked_inside b"
  by (cases b) simp_all

lemma strip_block_idem: "\<not> has_marker b \<Longrightarrow> strip_block b = (0, b)"
  by (cases b) simp_all

lemma strip_tool_clears: "td_cache_control (snd (strip_tool t)) = None"
  by (simp add: strip_tool_def)

text \<open>
  Crossing to another route, every marker on a block of a message and on a tool is
  cleared, and stripping twice changes nothing. But a marker inside the content of a tool
  result survives, although the function is documented to strip every marker.
\<close>

theorem strip_cache_markers_clears_top_level:
  "(\<forall>m \<in> set (rq_messages (snd (strip_cache_markers rq))). \<forall>b \<in> set (msg_content m).
      \<not> has_marker b) \<and>
   (\<forall>t \<in> set (rq_tools (snd (strip_cache_markers rq))). td_cache_control t = None) \<and>
   strip_cache_markers (snd (strip_cache_markers rq)) = (0, snd (strip_cache_markers rq)) \<and>
   list_ex (\<lambda>m. list_ex marked_inside (msg_content m)) (rq_messages (snd (strip_cache_markers rq))) =
   list_ex (\<lambda>m. list_ex marked_inside (msg_content m)) (rq_messages rq)"
proof -
  have twice: "strip_block (snd (strip_block b)) = (0, snd (strip_block b))" for b
    by (intro strip_block_idem strip_block_clears)
  have twice_tool: "strip_tool (snd (strip_tool t)) = (0, snd (strip_tool t))" for t
    by (simp add: strip_tool_def)
  have "strip_cache_markers (snd (strip_cache_markers rq)) = (0, snd (strip_cache_markers rq))"
    by (simp add: strip_cache_markers_def comp_def twice twice_tool sat_u32_def)
  then show ?thesis
    using strip_block_clears strip_tool_clears
    by (auto simp: strip_cache_markers_def list_ex_iff strip_block_inside)
qed

definition sample_marked :: request where
  "sample_marked = sample_request\<lparr>rq_messages := [\<lparr>msg_role = User, msg_content =
     [ToolResult ''t'' [Text \<lparr>tb_text = ''x'', tb_cache_control = Some Ephemeral\<rparr>] False]\<rparr>]\<rparr>"

theorem strip_cache_markers_clears_top_level_witness:
  "list_ex (\<lambda>m. list_ex marked_inside (msg_content m))
     (rq_messages (snd (strip_cache_markers sample_marked)))"
  using strip_cache_markers_clears_top_level [of sample_marked]
  by (simp add: sample_marked_def)

section \<open>The race never gets stuck\<close>

text \<open>
  Every launched attempt is in exactly one place, running, sent or lost, and an undecided race
  has attempts that are not lost.
\<close>

definition race_inv :: "nat \<Rightarrow> nat \<Rightarrow> race \<Rightarrow> bool" where
  "race_inv max_extra n ra \<longleftrightarrow>
     mset (ra_running ra) + mset (map fst (ra_queue ra)) + mset (map fst (ra_losers ra)) =
       mset [0..<ra_launched ra] \<and>
     1 \<le> ra_launched ra \<and> ra_launched ra \<le> 1 + max_extra \<and> ra_launched ra \<le> n \<and>
     length (ra_losers ra) < ra_launched ra"

lemma race_launch_fields:
  "race_launch env seg k ra s = (ra', s') \<Longrightarrow>
   mset (ra_running ra') + mset (map fst (ra_queue ra')) =
     mset (ra_running ra) + mset (map fst (ra_queue ra)) + {#k#} \<and>
   ra_losers ra' = ra_losers ra \<and> ra_launched ra' = ra_launched ra \<and> ra_timer ra' = ra_timer ra"
  by (auto simp: race_launch_def split: prod.splits if_splits)

lemma race_start_inv:
  "0 < n \<Longrightarrow> race_start env policy seg s = (ra, s') \<Longrightarrow> race_inv max_extra n ra"
  using race_launch_fields [of env seg 0 _ s ra s'] by (auto simp: race_start_def race_inv_def)

lemma race_hedge_inv:
  assumes "race_hedge env seg max_extra ra s = (ra', s')"
    and "mset (ra_running ra) + mset (map fst (ra_queue ra)) + mset (map fst (ra_losers ra)) =
       mset [0..<ra_launched ra]"
    and "can_launch max_extra n ra" and "1 \<le> ra_launched ra"
    and "length (ra_losers ra) \<le> ra_launched ra"
  shows "race_inv max_extra n ra'"
proof -
  obtain ra1 where l: "race_launch env seg (ra_launched ra) (ra\<lparr>ra_launched := ra_launched ra + 1\<rparr>) s = (ra1, s')"
      and ra': "ra' = ra1\<lparr>ra_timer := can_launch max_extra (length seg) ra1\<rparr>"
    using assms(1) by (auto simp: race_hedge_def Let_def split: prod.splits)
  from race_launch_fields [OF l] assms(2-5) show ?thesis
    by (auto simp: race_inv_def ra' can_launch_def ac_simps)
qed

lemma race_step_inv:
  assumes "race_inv max_extra (length seg) ra"
    and "race_step env seg max_extra e ra s = Racing ra' s'"
  shows "race_inv max_extra (length seg) ra'"
proof (cases e)
  case (RComplete k)
  with assms show ?thesis
    by (auto simp: race_inv_def mset_remove1 split: prod.splits if_splits)
next
  case RTimer
  with assms show ?thesis
    using race_hedge_inv [of env seg max_extra ra s ra' s' "length seg"]
    by (auto simp: race_inv_def split: prod.splits if_splits)
next
  case RRecv
  show ?thesis
  proof (cases "ra_queue ra")
    case Nil
    with assms RRecv show ?thesis by simp
  next
    case (Cons kr q)
    obtain k res where kr: "kr = (k, res)" by fastforce
    with assms(2) RRecv Cons obtain err where res: "res = Err err"
      by (cases res) auto
    let ?ra1 = "ra\<lparr>ra_queue := q, ra_losers := ra_losers ra @ [(k, Err err)]\<rparr>"
    have part: "mset (ra_running ?ra1) + mset (map fst (ra_queue ?ra1)) + mset (map fst (ra_losers ?ra1)) =
        mset [0..<ra_launched ?ra1]"
      using assms(1) Cons kr by (simp add: race_inv_def)
    show ?thesis
    proof (cases "length (ra_losers ?ra1) = ra_launched ?ra1")
      case True
      with assms(2) RRecv Cons kr res have "can_launch max_extra (length seg) ?ra1"
          "race_hedge env seg max_extra ?ra1 s = (ra', s')"
        by (auto simp: Let_def split: prod.splits if_splits)
      with part True assms(1) show ?thesis
        by (intro race_hedge_inv [of env seg max_extra ?ra1 s ra' s']) (auto simp: race_inv_def)
    next
      case False
      with assms RRecv Cons kr res part show ?thesis
        by (auto simp: race_inv_def Let_def)
    qed
  qed
qed

fun race_after ::
  "'w renv \<Rightarrow> segment \<Rightarrow> nat \<Rightarrow> race_event list \<Rightarrow> race \<Rightarrow> 'w rstate \<Rightarrow> 'w race_next" where
  "race_after env seg max_extra [] ra s = Racing ra s"
| "race_after env seg max_extra (e # es) ra s =
     (case race_step env seg max_extra e ra s of
        Racing ra' s' \<Rightarrow> race_after env seg max_extra es ra' s'
      | d \<Rightarrow> d)"

lemma race_run_after:
  "race_run env seg max_extra es ra s =
     (case race_after env seg max_extra es ra s of
        Racing _ _ \<Rightarrow> None | Decided k res losers n s' \<Rightarrow> Some (k, res, losers, n, s'))"
  by (induction es arbitrary: ra s) (auto split: race_next.splits)

lemma race_after_inv:
  "race_inv max_extra (length seg) ra \<Longrightarrow> race_after env seg max_extra es ra s = Racing ra' s' \<Longrightarrow>
   race_inv max_extra (length seg) ra'"
proof (induction es arbitrary: ra s)
  case (Cons e es)
  then show ?case
    using race_step_inv [of max_extra seg ra env e s] by (auto split: race_next.splits)
qed simp

lemma race_step_launched:
  "race_inv max_extra (length seg) ra \<Longrightarrow>
   race_step env seg max_extra e ra s = Decided k res losers n s' \<Longrightarrow>
   n = ra_launched ra \<and> (k, res) \<in> set (ra_queue ra)"
  by (cases e) (auto simp: Let_def split: prod.splits if_splits list.splits result.splits)

text \<open>
  (C31) A race in progress is never stuck: whatever the schedule has done so far, some attempt
  is still running or an outcome is waiting to be received; and no schedule launches more than
  one attempt and the permitted hedges, nor more than the segment has routes. When it is
  decided, the same bound holds for the attempts reported as launched.
\<close>

theorem race_never_stuck:
  assumes "seg \<noteq> []" and "race_start env policy seg s = (ra0, s0)"
    and "max_extra = race_max_extra policy (length seg)"
  shows "case race_after env seg max_extra es ra0 s0 of
      Racing ra s' \<Rightarrow> (ra_running ra \<noteq> [] \<or> ra_queue ra \<noteq> []) \<and>
        ra_launched ra \<le> 1 + max_extra \<and> ra_launched ra \<le> length seg
    | Decided k res losers n s' \<Rightarrow> n \<le> 1 + max_extra \<and> n \<le> length seg \<and> k < n"
proof -
  have inv0: "race_inv max_extra (length seg) ra0"
    using assms by (intro race_start_inv [of _ env policy seg s ra0 s0]) auto
  show ?thesis
  proof (cases "race_after env seg max_extra es ra0 s0")
    case (Racing ra s')
    then have inv: "race_inv max_extra (length seg) ra" using race_after_inv [OF inv0] by blast
    then have "ra_running ra \<noteq> [] \<or> ra_queue ra \<noteq> []"
      by (auto simp: race_inv_def dest: arg_cong [of _ _ size])
    with Racing inv show ?thesis by (simp add: race_inv_def)
  next
    case (Decided k res losers n s')
    have "n \<le> 1 + max_extra \<and> n \<le> length seg \<and> k < n" using Decided inv0
    proof (induction es arbitrary: ra0 s0)
      case (Cons e es)
      show ?case
      proof (cases "race_step env seg max_extra e ra0 s0")
        case (Racing ra1 s1)
        then show ?thesis using Cons race_step_inv by fastforce
      next
        case (Decided k' res' losers' n' s'')
        then have "(k, res) \<in> set (ra_queue ra0)" "n = ra_launched ra0"
          using Cons.prems race_step_launched by fastforce+
        moreover have "k \<in># mset [0..<ra_launched ra0]" if "(k, res) \<in> set (ra_queue ra0)"
          using that Cons.prems(2) unfolding race_inv_def
          by (metis (no_types, lifting) fst_conv image_eqI set_map set_mset_mset union_iff)
        ultimately show ?thesis using Cons.prems(2) by (auto simp: race_inv_def)
      qed
    qed simp
    with Decided show ?thesis by simp
  qed
qed

section \<open>Which errors surface\<close>

lemma attempt_complete_Return:
  "attempt_complete env rq r cross followed s = Return (Err e) s' \<Longrightarrow> \<not> is_fatal_for_route e"
  by (auto simp: attempt_complete_def Let_def split: prod.splits result.splits if_splits)

lemma attempt_segment_Return:
  "attempt_segment env rq policy rs cross followed s = Some (Return (Err e) s') \<Longrightarrow>
   \<not> is_fatal_for_route e"
  by (auto simp: attempt_segment_def Let_def split: prod.splits result.splits if_splits option.splits)

lemma dispatch_loop_errors:
  "dispatch_loop env rq rs first tried last_err s = Some (Err e, s') \<Longrightarrow>
   \<not> is_fatal_for_route e \<or> (\<exists>t l. e = exhausted env t l)"
proof (induction env rq rs first tried last_err s rule: dispatch_loop.induct)
  case (2 env rq r rs first tried last_err s)
  show ?case
  proof (cases "length (r # rs) = 1 \<or> ro_hedge r = NoHedge")
    case True
    then show ?thesis
      using 2 attempt_complete_Return by (fastforce simp: Let_def split: dispatched.splits)
  next
    case False
    then show ?thesis
      using "2.IH"(2) [OF refl refl refl False refl] "2.prems" attempt_segment_Return
      by (fastforce simp: Let_def split: dispatched.splits option.splits)
  qed
qed auto

text \<open>
  What a caller of the router sees: a provider's fault that another route might not have,
  such as a rate limit, a server error or a lost connection, never surfaces as it is. Either
  the error is the user's own (authentication, an invalid request, a filter, a cancellation,
  an adapter's), returned at once, or it reports that the candidates are exhausted, or that
  none could be resolved.
\<close>

theorem dispatch_complete_errors:
  assumes "dispatch_complete env mr rq s = Some (Err e, s')"
  shows "is_fatal_for_route e = False \<or> (\<exists>tried last_err. e = exhausted env tried last_err)"
proof (cases "router_resolve env mr rq s")
  case (Pair cands s1)
  show ?thesis
  proof (cases cands)
    case (Ok cs)
    then show ?thesis using assms Pair dispatch_loop_errors by (fastforce simp: dispatch_complete_def)
  next
    case (Err re)
    then have e: "e = into_provider_error (re_show env) re"
      using assms Pair by (simp add: dispatch_complete_def)
    have "\<not> is_fatal_for_route (into_provider_error f re)" if "\<And>t l. re \<noteq> FallbackExhausted t l" for f
      using that by (cases re) auto
    moreover have "re \<noteq> FallbackExhausted t l" for t l
    proof -
      have "resolve_with_diagnostics routes bs ps dp now rq \<noteq> Err (FallbackExhausted t l)"
        for routes bs ps dp now
      proof -
        have "explicit_fallbacks routes v p inc ids \<noteq> Err (FallbackExhausted t l)" for v p inc ids
          by (induction routes v p inc ids rule: explicit_fallbacks.induct) (auto split: option.splits)
        then show ?thesis
          by (auto simp: resolve_with_diagnostics_def Let_def split: option.splits)
      qed
      then show ?thesis
        using Err Pair by (auto simp: router_resolve_def resolve_candidates_def)
    qed
    ultimately show ?thesis using e by blast
  qed
qed

section \<open>The probe gate\<close>

definition gate_busy :: "breaker \<Rightarrow> bool" where
  "gate_busy b \<longleftrightarrow> bk_state b = HalfOpen \<and> bk_probe_inflight b"

lemma admit_busy:
  "rs_breakers s i = Some b \<Longrightarrow> gate_busy b \<Longrightarrow> admit env i s = (False, s)"
  by (simp add: admit_def gate_busy_def try_admit_at_def state_at_def fun_upd_idem)

text \<open>
  A recovering route with a probe in flight: \<open>complete\<close> passes it over without a call
  and without touching its breaker, but \<open>stream\<close> never asks the breaker. It calls the
  provider whatever the gate says, so the agent's own turns are not limited to one probe.
\<close>

theorem stream_ignores_probe_gate:
  assumes "rs_breakers s (ro_id r) = Some b" and "gate_busy b"
  shows "attempt_complete env rq r cross False s = Advance (probe_busy (ro_id r)) s \<and>
    fst (stream_loop env rq [r] True [] None s) =
      (case re_stream env (ro_provider r) (fst (rewrite_for_route rq r False s)) (rs_world s) of
         (Ok str, _) \<Rightarrow> Ok str
       | (Err e, _) \<Rightarrow> Err (if is_fatal_for_route e then exhausted env [ro_id r] (Some e) else e))"
proof -
  have w: "rs_world (snd (rewrite_for_route rq r False s)) = rs_world s"
    by (simp add: rewrite_for_route_def Let_def)
  show ?thesis
    using admit_busy [OF assms, of env] w
    by (auto simp: attempt_complete_def Let_def split: prod.splits result.splits)
qed

section \<open>Sample dispatches\<close>

definition sample_resp :: response where
  "sample_resp = \<lparr>cr_id = ''r'', cr_model = ''m'', cr_message = msg_assistant_text ''ok'',
     cr_stop_reason = EndTurn, cr_stop_sequence = None, cr_usage = 0\<rparr>"

text \<open>A world that counts the calls; the clock stands still; every call succeeds.\<close>

definition sample_env :: "race_event list \<Rightarrow> nat renv" where
  "sample_env sched = \<lparr>re_complete = \<lambda>_ _ w. (Ok sample_resp, w + 1), re_stream = \<lambda>_ _ w. (Ok [], w + 1),
     re_now = \<lambda>_. 0, re_show = \<lambda>_. ''exhausted'', re_show_err = \<lambda>_. ''e'', re_schedule = \<lambda>_. sched\<rparr>"

definition half_open :: "bool \<Rightarrow> breaker" where
  "half_open busy = (breaker_new sample_policy)\<lparr>bk_state := HalfOpen, bk_probe_inflight := busy\<rparr>"

definition sample_state :: "bool \<Rightarrow> nat rstate" where
  "sample_state busy = \<lparr>rs_breakers = [''a'' \<mapsto> breaker_new sample_policy, ''b'' \<mapsto> half_open busy],
     rs_stats = stats_default, rs_world = 0\<rparr>"

theorem stream_ignores_probe_gate_witness:
  "attempt_complete (sample_env []) sample_request (sample_route ''b'') True False (sample_state True) =
     Advance (probe_busy ''b'') (sample_state True) \<and>
   fst (stream_loop (sample_env []) sample_request [sample_route ''b''] True [] None (sample_state True)) = Ok []"
proof -
  have id: "ro_id (sample_route ''b'') = ''b''" by (simp add: sample_route_def)
  have "rs_breakers (sample_state True) (ro_id (sample_route ''b'')) = Some (half_open True)"
    by (simp add: sample_state_def id)
  moreover have "gate_busy (half_open True)" by (simp add: gate_busy_def half_open_def)
  ultimately show ?thesis
    using stream_ignores_probe_gate [of "sample_state True" "sample_route ''b''" "half_open True"
        "sample_env []" sample_request True]
    by (simp add: id) (simp add: sample_env_def)
qed

definition hedged :: "route \<Rightarrow> route" where
  "hedged r = r\<lparr>ro_hedge := Race 50 1\<rparr>"

text \<open>
  A leaked probe: the hedge to a recovering route \<open>b\<close> finishes while the primary's
  success is already queued. The driver takes the primary's outcome, cancels only attempts that
  still run, and drops the queued one: nothing observes it and nothing releases its slot. With
  no call in flight the route stays half open and busy, so no later call is admitted to it.
\<close>

theorem finished_hedge_leaks_probe:
  "\<exists>s' b. attempt_segment (sample_env [RTimer, RComplete 0, RComplete 1, RRecv]) sample_request (Race 50 1)
      [hedged (sample_route ''a''), sample_route ''b''] False False (sample_state False) =
      Some (Return (Ok sample_resp) s') \<and>
    rs_breakers s' ''b'' = Some b \<and> gate_busy b \<and> (\<forall>t. fst (try_admit_at t b) = False)"
proof -
  have adm: "fst (try_admit_at t (half_open True)) = False" for t
    by (simp add: half_open_def try_admit_at_def state_at_def)
  have busy: "gate_busy (half_open True)" by (simp add: gate_busy_def half_open_def)
  have "\<exists>s'. attempt_segment (sample_env [RTimer, RComplete 0, RComplete 1, RRecv]) sample_request (Race 50 1)
      [hedged (sample_route ''a''), sample_route ''b''] False False (sample_state False) =
      Some (Return (Ok sample_resp) s') \<and> rs_breakers s' ''b'' = Some (half_open True)"
    by (simp add: attempt_segment_def race_hedged_def race_start_def race_launch_def race_max_extra_def
        race_hedge_def race_cancel_def can_launch_def seg_id_def admit_def now_of_def Let_def
        rewrite_for_route_def has_effort_def on_stats_def on_breaker_def observe_ok_def record_losers_def
        loss_ids_def strip_cache_markers_def sat_u32_def hedged_def sample_route_def sample_env_def
        sample_state_def half_open_def breaker_defs sample_request_def request_builder_def
        msg_user_text_def text_cb_def sample_resp_def)
  then show ?thesis using adm busy by blast
qed

definition sample_down_env :: "nat renv" where
  "sample_down_env = (sample_env [])\<lparr>re_complete := \<lambda>_ _ w. (Err (ServerError 503 ''down''), w + 1)\<rparr>"

definition sample_router :: model_router where
  "sample_router = \<lparr>mr_default_purpose = MainLoop, mr_routes = sample_routes,
     mr_providers = sample_providers\<rparr>"

lemma sample_attempt_down:
  assumes "rs_breakers s = (\<lambda>_. None)"
  shows "\<exists>s'. attempt_complete sample_down_env rq (sample_route i) cross followed s =
      Advance (ServerError 503 ''down'') s' \<and> rs_breakers s' = (\<lambda>_. None) \<and> rs_world s' = rs_world s + 1"
proof -
  obtain rq' s2 where rw: "rewrite_for_route rq (sample_route i) cross s = (rq', s2)" by fastforce
  then have s2: "rs_breakers s2 = (\<lambda>_. None)" "rs_world s2 = rs_world s"
    using assms by (auto simp: rewrite_for_route_def Let_def on_stats_def split: prod.splits if_splits)
  have adm: "admit sample_down_env x s = (True, s)" for x
    using assms by (simp add: admit_def)
  have call: "re_complete sample_down_env x y w = (Err (ServerError 503 ''down''), w + 1)" for x y w
    by (simp add: sample_down_env_def)
  show ?thesis
    by (simp add: attempt_complete_def adm rw call Let_def s2 observe_err_def on_breaker_def
        on_stats_def fun_upd_idem)
qed

lemma sample_dispatch_down:
  "\<exists>s'. dispatch_complete sample_down_env sample_router sample_request
     \<lparr>rs_breakers = \<lambda>_. None, rs_stats = stats_default, rs_world = 0\<rparr> =
   Some (Err (exhausted sample_down_env [''a'', ''b''] (Some (ServerError 503 ''down''))), s') \<and>
   rs_world s' = 2"
proof -
  let ?s = "\<lparr>rs_breakers = \<lambda>_. None, rs_stats = stats_default, rs_world = 0\<rparr> :: nat rstate"
  let ?rs = "[sample_route ''a'', sample_route ''b'']"
  have ro: "ro_id (sample_route i) = i" "ro_hedge (sample_route i) = NoHedge" for i
    by (simp_all add: sample_route_def)
  obtain ds where res: "resolve_with_diagnostics sample_routes (\<lambda>_. None) sample_providers MainLoop 0 sample_request =
     Ok ([mk_candidate sample_routes Primary 0, mk_candidate sample_routes ImplicitFallback 1], ds)"
    using sample_resolve by blast
  have "read_breakers 0 sample_routes (\<lambda>_. None) = (\<lambda>_. None)"
    by (simp add: read_breakers_def fun_eq_iff)
  moreover have "re_now sample_down_env 0 = 0" by (simp add: sample_down_env_def sample_env_def)
  moreover have "sample_routes ! 0 = sample_route ''a''" "sample_routes ! Suc 0 = sample_route ''b''"
    by (simp_all add: sample_routes_def)
  ultimately have start: "dispatch_complete sample_down_env sample_router sample_request ?s =
      dispatch_loop sample_down_env sample_request ?rs True [] None ?s"
    by (simp add: dispatch_complete_def router_resolve_def resolve_candidates_def sample_router_def
        now_of_def res mk_candidate_def)
  obtain s1 where s1: "attempt_complete sample_down_env sample_request (sample_route ''a'') False True ?s =
      Advance (ServerError 503 ''down'') s1" "rs_breakers s1 = (\<lambda>_. None)" "rs_world s1 = 1"
    using sample_attempt_down [of ?s sample_request "''a''" False True] by auto
  obtain s2 where s2: "attempt_complete sample_down_env sample_request (sample_route ''b'') True False s1 =
      Advance (ServerError 503 ''down'') s2" "rs_world s2 = 2"
    using sample_attempt_down [OF s1(2), of sample_request "''b''" True False] s1(3) by auto
  show ?thesis unfolding start by (simp add: Let_def ro s1(1) s2)
qed

theorem dispatch_complete_errors_witness:
  "\<exists>tried last_err. exhausted sample_down_env [''a'', ''b''] (Some (ServerError 503 ''down'')) =
     exhausted sample_down_env tried last_err \<and>
   is_fatal_for_route (exhausted sample_down_env tried last_err)"
proof -
  obtain s' where "dispatch_complete sample_down_env sample_router sample_request
     \<lparr>rs_breakers = \<lambda>_. None, rs_stats = stats_default, rs_world = 0\<rparr> =
   Some (Err (exhausted sample_down_env [''a'', ''b''] (Some (ServerError 503 ''down''))), s')"
    using sample_dispatch_down by blast
  from dispatch_complete_errors [OF this] show ?thesis
    by (auto simp: exhausted_def)
qed

theorem race_never_stuck_witness:
  "\<exists>ra0 s0. race_start (sample_env []) (Race 50 1)
     [(sample_route ''a'', sample_request), (sample_route ''b'', sample_request)] (sample_state False) = (ra0, s0) \<and>
   (case race_after (sample_env []) [(sample_route ''a'', sample_request), (sample_route ''b'', sample_request)]
      1 [RTimer, RTimer, RComplete 0] ra0 s0 of
      Racing ra _ \<Rightarrow> ra_launched ra \<le> 2 | Decided _ _ _ n _ \<Rightarrow> n \<le> 2)"
proof -
  let ?seg = "[(sample_route ''a'', sample_request), (sample_route ''b'', sample_request)]"
  obtain ra0 s0 where st: "race_start (sample_env []) (Race 50 1) ?seg (sample_state False) = (ra0, s0)"
    by fastforce
  have "1 = race_max_extra (Race 50 1) (length ?seg)" by (simp add: race_max_extra_def)
  from race_never_stuck [OF _ st this, of "[RTimer, RTimer, RComplete 0]"] st show ?thesis
    by (intro exI [of _ ra0] exI [of _ s0])
       (auto simp del: race_after.simps split: race_next.splits)
qed

end
