(* ===== verification/Compact.thy ===== *)
theory Compact
  imports Hooks Dispatch
begin

text \<open>
  The compaction of a long history (\<open>crates/caliban-agent-core/src/compact.rs\<close>): the token
  estimate, the pairing of tool calls with their results, the choice of a clean boundary, the
  shrinking of oversized blocks, and the four compactors.

  The printing of JSON values is a parameter, and so is the target size of a window, a product
  of floating-point numbers. A compactor is an action on the world, since one of them calls a
  provider.
\<close>

section \<open>Estimates\<close>

definition text_len :: "content_block \<Rightarrow> nat" where
  "text_len b = (case b of Text t \<Rightarrow> length (tb_text t) | _ \<Rightarrow> 0)"

definition block_chars :: "(json \<Rightarrow> string) \<Rightarrow> content_block \<Rightarrow> nat" where
  "block_chars print b =
     (case b of
        Text t \<Rightarrow> length (tb_text t)
      | ToolResult i content err \<Rightarrow> sum_list (map text_len content)
      | Thinking t \<Rightarrow> length (th_thinking t)
      | ToolUse tu \<Rightarrow> length (print (tu_input tu)) + length (tu_name tu)
      | Image _ \<Rightarrow> 0)"

(* map: src/crates/caliban-agent-core/src/compact.rs 260-286 estimate_tokens *)
definition estimate_tokens :: "(json \<Rightarrow> string) \<Rightarrow> message list \<Rightarrow> nat" where
  "estimate_tokens print messages =
     sat_u32 (sum_list (map (\<lambda>m. sum_list (map (block_chars print) (msg_content m))) messages) div 4)"

section \<open>Pairs of calls and results\<close>

definition all_blocks :: "message list \<Rightarrow> content_block list" where
  "all_blocks messages = concat (map msg_content messages)"

definition use_ids :: "message list \<Rightarrow> string list" where
  "use_ids messages = map tu_id (List.map_filter block_tool_use (all_blocks messages))"

definition answered_ids :: "message list \<Rightarrow> string list" where
  "answered_ids messages = List.map_filter block_result_id (all_blocks messages)"

fun keep_block :: "string list \<Rightarrow> string list \<Rightarrow> content_block \<Rightarrow> bool" where
  "keep_block uses results (ToolResult i _ _) = (i \<in> set uses)"
| "keep_block uses results (ToolUse tu) = (tu_id tu \<in> set results)"
| "keep_block uses results _ = True"

(* map: src/crates/caliban-agent-core/src/compact.rs 62-103 sanitize_tool_pairs *)
definition sanitize_tool_pairs :: "message list \<Rightarrow> message list" where
  "sanitize_tool_pairs messages =
     (let uses = use_ids messages; results = answered_ids messages in
      filter (\<lambda>m. msg_content m \<noteq> [])
        (map (\<lambda>m. m\<lparr>msg_content := filter (keep_block uses results) (msg_content m)\<rparr>) messages))"

section \<open>A clean boundary\<close>

definition is_clean_turn :: "message \<Rightarrow> bool" where
  "is_clean_turn m \<longleftrightarrow> msg_role m = User \<and> result_ids m = []"

(* map: src/crates/caliban-agent-core/src/compact.rs 117-133 clean_tail_start *)
definition clean_tail_start :: "message list \<Rightarrow> nat \<Rightarrow> nat" where
  "clean_tail_start body desired =
     (let ideal = length body - desired in
      case find (\<lambda>i. is_clean_turn (body ! i)) [ideal..<length body] of
        Some i \<Rightarrow> i
      | None \<Rightarrow>
          (case find (\<lambda>i. is_clean_turn (body ! i)) (rev [0..<ideal]) of
             Some i \<Rightarrow> i
           | None \<Rightarrow> 0))"

section \<open>Shrinking blocks\<close>

text \<open>The loop that moves a cut back to a character boundary.\<close>

fun cut_point :: "string \<Rightarrow> nat \<Rightarrow> nat" where
  "cut_point s 0 = 0"
| "cut_point s (Suc n) = (if is_char_boundary s (Suc n) then Suc n else cut_point s n)"

(* map: src/crates/caliban-agent-core/src/compact.rs 373-386 cap_text *)
definition cap_text :: "string \<Rightarrow> nat \<Rightarrow> string" where
  "cap_text s cap =
     (if length s \<le> cap then s
      else (let e = cut_point s cap in
        take e s @ nl @ ''['' @ ellipsis @ '' '' @ nat_str (length s - e) @
        '' chars truncated by in-window compaction '' @ ellipsis @ '']''))"

(* map: src/crates/caliban-agent-core/src/compact.rs 320-369 cap_block *)
fun cap_block :: "(json \<Rightarrow> string) \<Rightarrow> nat \<Rightarrow> content_block \<Rightarrow> content_block" where
  "cap_block print cap (Text t) = Text (t\<lparr>tb_text := cap_text (tb_text t) cap\<rparr>)"
| "cap_block print cap (ToolResult i content err) = ToolResult i (map (cap_block print cap) content) err"
| "cap_block print cap (ToolUse tu) =
     (let s = print (tu_input tu) in
      if length s > cap
      then ToolUse (tu\<lparr>tu_input := JObject
             [(''_elided_during_compaction'', JBool True),
              (''_original_input_chars'', JNumber (nat_str (length s)))]\<rparr>)
      else ToolUse tu)"
| "cap_block print cap (Thinking t) =
     (if length (th_thinking t) > cap
      then text_cb (''[earlier reasoning elided during compaction: '' @
             nat_str (length (th_thinking t)) @ '' chars]'')
      else Thinking t)"
| "cap_block print cap (Image i) = Image i"

(* map: src/crates/caliban-agent-core/src/compact.rs 310-318 cap_blocks *)
definition cap_blocks :: "(json \<Rightarrow> string) \<Rightarrow> message list \<Rightarrow> nat \<Rightarrow> message list" where
  "cap_blocks print messages cap =
     map (\<lambda>m. m\<lparr>msg_content := map (cap_block print cap) (msg_content m)\<rparr>) messages"

fun truncate_loop :: "(json \<Rightarrow> string) \<Rightarrow> message list \<Rightarrow> nat \<Rightarrow> nat \<Rightarrow> message list" where
  "truncate_loop print messages max_tokens cap =
     (let out = cap_blocks print messages cap in
      if cap > 256 \<and> estimate_tokens print out > max_tokens
      then truncate_loop print messages max_tokens (cap div 2)
      else out)"

declare truncate_loop.simps [simp del]

(* map: src/crates/caliban-agent-core/src/compact.rs 294-304 truncate_in_window *)
definition truncate_in_window :: "(json \<Rightarrow> string) \<Rightarrow> message list \<Rightarrow> nat \<Rightarrow> message list" where
  "truncate_in_window print messages max_tokens = truncate_loop print messages max_tokens 8192"

section \<open>The compactors\<close>

(* map: src/crates/caliban-agent-core/src/compact.rs 18-35 Compaction *)
record compaction =
  cm_messages :: "message list"
  cm_usage :: "usage option"

definition compaction_free :: "message list \<Rightarrow> compaction" where
  "compaction_free messages = \<lparr>cm_messages = messages, cm_usage = None\<rparr>"

(* map: src/crates/caliban-agent-core/src/compact.rs 39-54 Compactor *)
record 'w compactor =
  cp_compact :: "message list \<Rightarrow> capabilities \<Rightarrow> ('w, compaction option) action"
  cp_strategy_name :: string

(* map: src/crates/caliban-agent-core/src/compact.rs 392-405 NoopCompactor *)
definition noop_compactor :: "'w compactor" where
  "noop_compactor = \<lparr>cp_compact = \<lambda>_ _ w. (Ok None, w), cp_strategy_name = ''Noop''\<rparr>"

subsection \<open>MicroCompactor\<close>

(* map: src/crates/caliban-agent-core/src/compact.rs 246-257 supersession_key *)
definition supersession_key :: "(json \<Rightarrow> string) \<Rightarrow> string \<Rightarrow> json \<Rightarrow> string option" where
  "supersession_key print tool_name input =
     (if tool_name = ''Read'' then json_get_str input ''file_path''
      else if tool_name = ''Grep'' \<or> tool_name = ''Glob'' then Some (print input)
      else if tool_name = ''WebFetch'' then json_get_str input ''url''
      else None)"

text \<open>
  The hash maps of the passes are association lists with the latest insertion in front, so that
  \<^const>\<open>map_of\<close> is \<open>get\<close>.
\<close>

definition errored_map :: "message list \<Rightarrow> (string \<times> bool) list" where
  "errored_map messages =
     rev (List.map_filter
       (\<lambda>b. case b of ToolResult i _ err \<Rightarrow> Some (i, err) | _ \<Rightarrow> None) (all_blocks messages))"

definition latest_map ::
  "(json \<Rightarrow> string) \<Rightarrow> message list \<Rightarrow> ((string \<times> string) \<times> string) list" where
  "latest_map print messages =
     rev (List.map_filter (\<lambda>b. case b of
         ToolUse tu \<Rightarrow>
           (case supersession_key print (tu_name tu) (tu_input tu) of
              None \<Rightarrow> None
            | Some k \<Rightarrow>
                if map_of (errored_map messages) (tu_id tu) = Some False
                then Some ((tu_name tu, k), tu_id tu) else None)
       | _ \<Rightarrow> None) (all_blocks messages))"

definition superseded_map ::
  "(json \<Rightarrow> string) \<Rightarrow> message list \<Rightarrow> (string \<times> (string \<times> string)) list" where
  "superseded_map print messages =
     rev (List.map_filter (\<lambda>b. case b of
         ToolUse tu \<Rightarrow>
           (case supersession_key print (tu_name tu) (tu_input tu) of
              None \<Rightarrow> None
            | Some k \<Rightarrow>
                (case map_of (latest_map print messages) (tu_name tu, k) of
                   None \<Rightarrow> None
                 | Some latest_id \<Rightarrow>
                     if latest_id \<noteq> tu_id tu then Some (tu_id tu, (tu_name tu, k)) else None))
       | _ \<Rightarrow> None) (all_blocks messages))"

fun supersede_block :: "(string \<times> (string \<times> string)) list \<Rightarrow> content_block \<Rightarrow> content_block" where
  "supersede_block spd (ToolResult i content err) =
     (case map_of spd i of
        Some (tool, key) \<Rightarrow> ToolResult i [text_cb (''[superseded: '' @ tool @ ''('' @ key @ '')]'')] err
      | None \<Rightarrow> ToolResult i content err)"
| "supersede_block spd b = b"

(* map: src/crates/caliban-agent-core/src/compact.rs 150-241 MicroCompactor::compact *)
definition micro_compact :: "(json \<Rightarrow> string) \<Rightarrow> message list \<Rightarrow> compaction option" where
  "micro_compact print messages =
     (let spd = superseded_map print messages in
      if spd = [] then None
      else Some (compaction_free
        (map (\<lambda>m. m\<lparr>msg_content := map (supersede_block spd) (msg_content m)\<rparr>) messages)))"

definition micro_compactor :: "(json \<Rightarrow> string) \<Rightarrow> 'w compactor" where
  "micro_compactor print =
     \<lparr>cp_compact = \<lambda>ms _ w. (Ok (micro_compact print ms), w), cp_strategy_name = ''MicroCompactor''\<rparr>"

subsection \<open>DropOldestCompactor\<close>

text \<open>\<open>target_of\<close> is the product of the window and the fraction, cut to an integer.\<close>

definition leading_systems :: "message list \<Rightarrow> message list" where
  "leading_systems = takeWhile (\<lambda>m. msg_role m = System)"

definition history_body :: "message list \<Rightarrow> message list" where
  "history_body = dropWhile (\<lambda>m. msg_role m = System)"

(* map: src/crates/caliban-agent-core/src/compact.rs 428-486 DropOldestCompactor::compact *)
definition drop_oldest ::
  "(json \<Rightarrow> string) \<Rightarrow> (nat \<Rightarrow> nat) \<Rightarrow> nat \<Rightarrow> message list \<Rightarrow> capabilities \<Rightarrow>
   (compaction option, agent_error) result" where
  "drop_oldest print target_of keep_recent_turns messages caps =
     (let window = cap_max_input_tokens caps in
      if window = 0 then Ok None
      else if estimate_tokens print messages \<le> target_of window then Ok None
      else
        (let systems = leading_systems messages;
             body = history_body messages;
             start = clean_tail_start body (keep_recent_turns * 2);
             tail = sanitize_tool_pairs (drop start body);
             tail_budget = window - estimate_tokens print systems;
             tail = (if estimate_tokens print tail > tail_budget
                     then truncate_in_window print tail tail_budget else tail);
             new_messages = systems @ tail
         in if estimate_tokens print new_messages > window
            then Err (Compaction
              ''DropOldestCompactor: kept tail still exceeds max_input_tokens after truncation'')
            else Ok (Some (compaction_free new_messages))))"

definition drop_oldest_compactor :: "(json \<Rightarrow> string) \<Rightarrow> (nat \<Rightarrow> nat) \<Rightarrow> nat \<Rightarrow> 'w compactor" where
  "drop_oldest_compactor print target_of keep =
     \<lparr>cp_compact = \<lambda>ms caps w. (drop_oldest print target_of keep ms caps, w),
      cp_strategy_name = ''DropOldest''\<rparr>"

subsection \<open>SummarizingCompactor\<close>

text \<open>\<open>provider.complete\<close> and the display of its error are parameters.\<close>

fun role_debug :: "role \<Rightarrow> string" where
  "role_debug User = ''User''"
| "role_debug Assistant = ''Assistant''"
| "role_debug System = ''System''"

definition block_texts :: "content_block list \<Rightarrow> string list" where
  "block_texts = List.map_filter (\<lambda>b. case b of Text t \<Rightarrow> Some (tb_text t) | _ \<Rightarrow> None)"

(* map: src/crates/caliban-agent-core/src/compact.rs 580-606 SummarizingCompactor::compact *)
fun render_block :: "(json \<Rightarrow> string) \<Rightarrow> content_block \<Rightarrow> string" where
  "render_block print (Text t) = tb_text t @ nl @ nl"
| "render_block print (ToolUse tu) =
     ''[tool_use '' @ tu_name tu @ ''('' @ print (tu_input tu) @ '')]'' @ nl"
| "render_block print (ToolResult i content err) =
     (if err then ''[tool_result error] '' else ''[tool_result] '') @ concat (block_texts content) @ nl"
| "render_block print (Thinking t) = ''[thinking] '' @ th_thinking t @ nl"
| "render_block print (Image _) = []"

definition render_old :: "(json \<Rightarrow> string) \<Rightarrow> message list \<Rightarrow> string" where
  "render_old print old =
     concat (map (\<lambda>m. ''['' @ role_debug (msg_role m) @ '']'' @ nl @
       concat (map (render_block print) (msg_content m))) old)"

definition summary_prompt :: string where
  "summary_prompt =
     ''Summarize the following conversation concisely, preserving any '' @
     ''tool calls, user goals, and key decisions. Output only the summary text.''"

(* map: src/crates/caliban-agent-core/src/compact.rs 565-628 SummarizingCompactor::compact *)
definition summary_request :: "(json \<Rightarrow> string) \<Rightarrow> string \<Rightarrow> message list \<Rightarrow> request" where
  "summary_request print model old =
     \<lparr>rq_model = model,
      rq_messages = [msg_system_text summary_prompt, msg_user_text (render_old print old)],
      rq_tools = [], rq_tool_choice = ChooseNone, rq_max_tokens = 1024,
      rq_temperature = Some 0x3E99999A, rq_top_p = None, rq_top_k = None,
      rq_stop_sequences = [], rq_thinking = ThAuto, rq_effort = None,
      rq_metadata = \<lparr>md_user_id = None, md_purpose = Some Summarization\<rparr>\<rparr>"

record 'w summarizer =
  sz_print :: "json \<Rightarrow> string"
  sz_complete :: "request \<Rightarrow> 'w \<Rightarrow> (response, perror) result \<times> 'w"
  sz_show_err :: "perror \<Rightarrow> string"
  sz_model :: string
  sz_target_of :: "nat \<Rightarrow> nat"
  sz_keep_recent_turns :: nat

text \<open>The end of \<open>compact\<close>, once the summary is there.\<close>

(* map: src/crates/caliban-agent-core/src/compact.rs 646-675 SummarizingCompactor::compact *)
definition summary_assemble ::
  "(json \<Rightarrow> string) \<Rightarrow> nat \<Rightarrow> message list \<Rightarrow> message list \<Rightarrow> string \<Rightarrow> usage \<Rightarrow>
   (compaction option, agent_error) result" where
  "summary_assemble print window systems recent summary_text usage =
     (let head = systems @ [msg_system_text (''Summary of earlier conversation:'' @ nl @ summary_text)];
          tail = sanitize_tool_pairs recent;
          budget = window - estimate_tokens print head;
          tail = (if estimate_tokens print tail > budget
                  then truncate_in_window print tail budget else tail);
          new_messages = head @ tail
      in if estimate_tokens print new_messages > window
         then Err (Compaction
           ''SummarizingCompactor: result still exceeds max_input_tokens after truncation'')
         else Ok (Some \<lparr>cm_messages = new_messages, cm_usage = Some usage\<rparr>))"

(* map: src/crates/caliban-agent-core/src/compact.rs 515-676 SummarizingCompactor::compact *)
definition summarizing_compact ::
  "'w summarizer \<Rightarrow> message list \<Rightarrow> capabilities \<Rightarrow> ('w, compaction option) action" where
  "summarizing_compact sz messages caps w =
     (let print = sz_print sz; window = cap_max_input_tokens caps in
      if window = 0 then (Ok None, w)
      else if estimate_tokens print messages \<le> sz_target_of sz window then (Ok None, w)
      else
        (let systems = leading_systems messages;
             body = history_body messages;
             start = clean_tail_start body (sz_keep_recent_turns sz * 2);
             old = take start body;
             recent = drop start body
         in if old = [] then
              (if estimate_tokens print messages > window
               then (Ok (Some (compaction_free (systems @
                       truncate_in_window print (sanitize_tool_pairs recent)
                         (window - estimate_tokens print systems)))), w)
               else (Ok None, w))
            else
              (case sz_complete sz (summary_request print (sz_model sz) old) w of
                 (Err e, w') \<Rightarrow> (Err (Compaction (''summarizer call failed: '' @ sz_show_err sz e)), w')
               | (Ok resp, w') \<Rightarrow>
                   (summary_assemble print window systems recent
                      (join nl (block_texts (msg_content (cr_message resp)))) (cr_usage resp), w'))))"

definition summarizing_compactor :: "'w summarizer \<Rightarrow> 'w compactor" where
  "summarizing_compactor sz =
     \<lparr>cp_compact = summarizing_compact sz, cp_strategy_name = ''Summarizing''\<rparr>"

section \<open>Well-formed histories\<close>

text \<open>
  Every message answers exactly the calls of the message before it, in order, and no call is
  left open: this is what the providers demand of a history. The system messages lead and hold
  text only, as \<open>validate\<close> demands.
\<close>

definition call_ids :: "message \<Rightarrow> string list" where
  "call_ids m = map tu_id (tool_uses m)"

fun chained :: "string list \<Rightarrow> message list \<Rightarrow> bool" where
  "chained p [] = True"
| "chained p (m # ms) = (result_ids m = p \<and> chained (call_ids m) ms)"

fun pending_calls :: "string list \<Rightarrow> message list \<Rightarrow> string list" where
  "pending_calls p [] = p"
| "pending_calls p (m # ms) = pending_calls (call_ids m) ms"

definition well_paired :: "message list \<Rightarrow> bool" where
  "well_paired ms \<longleftrightarrow> chained [] ms \<and> pending_calls [] ms = []"

definition systems_lead :: "message list \<Rightarrow> bool" where
  "systems_lead ms \<longleftrightarrow>
     list_all (\<lambda>m. msg_role m \<noteq> System) (history_body ms) \<and>
     list_all (\<lambda>m. msg_role m = System \<longrightarrow> list_all is_text_block (msg_content m)) ms"

definition wf_history :: "message list \<Rightarrow> bool" where
  "wf_history ms \<longleftrightarrow> well_paired ms \<and> systems_lead ms"

lemma chained_append [simp]:
  "chained p (xs @ ys) \<longleftrightarrow> chained p xs \<and> chained (pending_calls p xs) ys"
  by (induction xs arbitrary: p) auto

lemma pending_calls_append [simp]:
  "pending_calls p (xs @ ys) = pending_calls (pending_calls p xs) ys"
  by (induction xs arbitrary: p) auto

lemma well_paired_append: "well_paired xs \<Longrightarrow> well_paired (xs @ ys) = well_paired ys"
  by (simp add: well_paired_def)

lemma well_paired_Nil [simp]: "well_paired []"
  by (simp add: well_paired_def)

text \<open>A message without tool blocks can stand anywhere between two turns.\<close>

definition plain :: "message \<Rightarrow> bool" where
  "plain m \<longleftrightarrow> result_ids m = [] \<and> call_ids m = []"

lemma plain_chained:
  "list_all plain ms \<Longrightarrow> chained [] ms \<and> pending_calls [] ms = []"
  by (induction ms) (auto simp: plain_def)

lemma well_paired_plain: "list_all plain ms \<Longrightarrow> well_paired ms"
  using plain_chained by (auto simp: well_paired_def)

lemma map_filter_Nil: "List.map_filter f xs = [] \<longleftrightarrow> (\<forall>x \<in> set xs. f x = None)"
  by (induction xs) (auto simp: map_filter_simps split: option.splits)

lemma map_filter_cong_map:
  "(\<And>x. x \<in> set xs \<Longrightarrow> map_option h (f (g x)) = map_option h (f x)) \<Longrightarrow>
   map h (List.map_filter f (map g xs)) = map h (List.map_filter f xs)"
proof (induction xs)
  case (Cons a xs)
  have "map_option h (f (g a)) = map_option h (f a)" using Cons.prems by simp
  then show ?case using Cons by (cases "f (g a)"; cases "f a") (simp_all add: map_filter_simps)
qed simp

lemma set_map_filter: "set (List.map_filter f xs) = {y. \<exists>x \<in> set xs. f x = Some y}"
  by (induction xs) (auto simp: map_filter_simps split: option.splits)

lemma text_block_no_tool: "is_text_block b \<Longrightarrow> block_result_id b = None \<and> block_tool_use b = None"
  by (cases b) (simp_all add: is_text_block_def)

lemma plain_text_blocks: "list_all is_text_block (msg_content m) \<Longrightarrow> plain m"
  by (simp add: plain_def result_ids_def call_ids_def tool_uses_def map_filter_Nil list_all_iff
      text_block_no_tool)

lemma plain_texts [simp]:
  "plain (msg_user_text s)" "plain (msg_assistant_text s)" "plain (msg_system_text s)"
  by (auto intro!: plain_text_blocks
      simp: msg_user_text_def msg_assistant_text_def msg_system_text_def text_cb_def is_text_block_def)

lemma systems_body: "leading_systems ms @ history_body ms = ms"
  by (simp add: leading_systems_def history_body_def)

lemma systems_plain: "systems_lead ms \<Longrightarrow> list_all plain (leading_systems ms)"
  by (auto simp: systems_lead_def leading_systems_def list_all_iff intro: plain_text_blocks
      dest!: set_takeWhileD)

lemma body_well_paired: "wf_history ms \<Longrightarrow> well_paired (history_body ms)"
  by (metis systems_body systems_plain well_paired_append well_paired_plain wf_history_def)

lemma systems_lead_appendI:
  assumes "list_all (\<lambda>m. msg_role m = System \<and> list_all is_text_block (msg_content m)) xs"
      "list_all (\<lambda>m. msg_role m \<noteq> System) ys"
  shows "systems_lead (xs @ ys)"
proof -
  have "history_body (xs @ ys) = history_body ys"
    using assms(1) by (simp add: history_body_def list_all_iff dropWhile_append2)
  moreover have "set (history_body ys) \<subseteq> set ys"
    by (auto simp: history_body_def dest: set_dropWhileD)
  ultimately show ?thesis
    using assms by (auto simp: systems_lead_def list_all_iff)
qed

lemma leading_systems_ok:
  "systems_lead ms \<Longrightarrow>
   list_all (\<lambda>m. msg_role m = System \<and> list_all is_text_block (msg_content m)) (leading_systems ms)"
  by (auto simp: systems_lead_def leading_systems_def list_all_iff dest!: set_takeWhileD)

section \<open>What sanitising keeps\<close>

lemma all_blocks_simps [simp]:
  "all_blocks [] = []" "all_blocks (m # ms) = msg_content m @ all_blocks ms"
  by (simp_all add: all_blocks_def)

lemma use_ids_simps [simp]: "use_ids [] = []" "use_ids (m # ms) = call_ids m @ use_ids ms"
  by (simp_all add: use_ids_def call_ids_def tool_uses_def map_filter_append map_filter_simps)

lemma answered_ids_simps [simp]:
  "answered_ids [] = []" "answered_ids (m # ms) = result_ids m @ answered_ids ms"
  by (simp_all add: answered_ids_def result_ids_def map_filter_append map_filter_simps)

lemma chained_ids: "chained p ms \<Longrightarrow> p @ use_ids ms = answered_ids ms @ pending_calls p ms"
proof (induction ms arbitrary: p)
  case (Cons m ms)
  then have "call_ids m @ use_ids ms = answered_ids ms @ pending_calls (call_ids m) ms" by simp
  then show ?case using Cons.prems by simp
qed simp

lemma well_paired_ids: "well_paired ms \<Longrightarrow> use_ids ms = answered_ids ms"
  using chained_ids [of "[]" ms] by (simp add: well_paired_def)

lemma block_tool_use_Some [simp]: "block_tool_use b = Some tu \<longleftrightarrow> b = ToolUse tu"
  by (cases b) auto

lemma block_result_id_Some [simp]: "block_result_id b = Some i \<longleftrightarrow> (\<exists>c e. b = ToolResult i c e)"
  by (cases b) auto

lemma use_ids_iff: "i \<in> set (use_ids ms) \<longleftrightarrow> (\<exists>tu. ToolUse tu \<in> set (all_blocks ms) \<and> i = tu_id tu)"
  by (auto simp: use_ids_def set_map_filter)

lemma answered_ids_iff:
  "i \<in> set (answered_ids ms) \<longleftrightarrow> (\<exists>c e. ToolResult i c e \<in> set (all_blocks ms))"
  by (auto simp: answered_ids_def set_map_filter)

lemma keep_block_id:
  assumes "b \<in> set (all_blocks ms)" "set (use_ids ms) = set (answered_ids ms)"
  shows "keep_block (use_ids ms) (answered_ids ms) b"
proof (cases b)
  case (ToolUse tu)
  then have "tu_id tu \<in> set (use_ids ms)" using assms(1) use_ids_iff by blast
  then show ?thesis using ToolUse assms(2) by simp
next
  case (ToolResult i c e)
  then have "i \<in> set (answered_ids ms)" using assms(1) answered_ids_iff by blast
  then show ?thesis using ToolResult assms(2) by simp
qed simp_all

lemma sanitize_matched:
  assumes "set (use_ids ms) = set (answered_ids ms)"
  shows "sanitize_tool_pairs ms = filter (\<lambda>m. msg_content m \<noteq> []) ms"
proof -
  have "filter (keep_block (use_ids ms) (answered_ids ms)) (msg_content m) = msg_content m"
    if "m \<in> set ms" for m
    using that keep_block_id [OF _ assms] by (auto simp: filter_id_conv all_blocks_def)
  then have "map (\<lambda>m. m\<lparr>msg_content := filter (keep_block (use_ids ms) (answered_ids ms)) (msg_content m)\<rparr>) ms = ms"
    by (intro map_idI) simp
  then show ?thesis by (simp add: sanitize_tool_pairs_def Let_def)
qed

lemma sanitize_well_paired:
  "well_paired ms \<Longrightarrow> sanitize_tool_pairs ms = filter (\<lambda>m. msg_content m \<noteq> []) ms"
  by (rule sanitize_matched) (simp add: well_paired_ids)

lemma chained_drop_empty:
  "chained p (filter (\<lambda>m. msg_content m \<noteq> []) ms) \<and>
   pending_calls p (filter (\<lambda>m. msg_content m \<noteq> []) ms) = pending_calls p ms"
  if "chained p ms"
  using that
proof (induction ms arbitrary: p)
  case (Cons m ms)
  show ?case
  proof (cases "msg_content m = []")
    case True
    then have "result_ids m = []" "call_ids m = []"
      by (simp_all add: result_ids_def call_ids_def tool_uses_def map_filter_simps)
    then show ?thesis using Cons True by simp
  qed (use Cons in auto)
qed simp

lemma sanitize_keeps_well_paired: "well_paired ms \<Longrightarrow> well_paired (sanitize_tool_pairs ms)"
  using chained_drop_empty [of "[]" ms] by (simp add: sanitize_well_paired well_paired_def)

lemma sanitize_roles:
  "m \<in> set (sanitize_tool_pairs ms) \<Longrightarrow> \<exists>m' \<in> set ms. msg_role m = msg_role m'"
  by (auto simp: sanitize_tool_pairs_def Let_def)

lemma all_blocks_filter [simp]: "all_blocks (filter (\<lambda>m. msg_content m \<noteq> []) ms) = all_blocks ms"
  by (induction ms) auto

lemma all_blocks_sanitize:
  "all_blocks (sanitize_tool_pairs ms) =
   filter (keep_block (use_ids ms) (answered_ids ms)) (all_blocks ms)"
  by (simp add: sanitize_tool_pairs_def Let_def) (simp add: all_blocks_def filter_concat comp_def)

lemma sanitize_ids:
  "set (use_ids (sanitize_tool_pairs ms)) = set (use_ids ms) \<inter> set (answered_ids ms)"
  "set (answered_ids (sanitize_tool_pairs ms)) = set (use_ids ms) \<inter> set (answered_ids ms)"
  by (auto simp: use_ids_iff [of _ "sanitize_tool_pairs ms"]
      answered_ids_iff [of _ "sanitize_tool_pairs ms"] all_blocks_sanitize)
     (auto simp: use_ids_iff answered_ids_iff)

lemma sanitize_contents_neq: "m \<in> set (sanitize_tool_pairs ms) \<Longrightarrow> msg_content m \<noteq> []"
  by (auto simp: sanitize_tool_pairs_def Let_def)

text \<open>
  (C27) After \<open>sanitize_tool_pairs\<close> the calls and the results answer each other exactly, in
  any history however malformed: the ids called are the ids answered, and they are those that
  had both before. The blocks kept are those of the input whose partner is there, in order, no
  message is left empty, and sanitising again changes nothing.
\<close>

theorem sanitize_matches_calls_and_results:
  "set (use_ids (sanitize_tool_pairs ms)) = set (answered_ids (sanitize_tool_pairs ms)) \<and>
   set (use_ids (sanitize_tool_pairs ms)) = set (use_ids ms) \<inter> set (answered_ids ms) \<and>
   all_blocks (sanitize_tool_pairs ms) =
     filter (keep_block (use_ids ms) (answered_ids ms)) (all_blocks ms) \<and>
   list_all (\<lambda>m. msg_content m \<noteq> []) (sanitize_tool_pairs ms) \<and>
   sanitize_tool_pairs (sanitize_tool_pairs ms) = sanitize_tool_pairs ms"
proof -
  have "sanitize_tool_pairs (sanitize_tool_pairs ms) =
      filter (\<lambda>m. msg_content m \<noteq> []) (sanitize_tool_pairs ms)"
    by (rule sanitize_matched) (simp add: sanitize_ids)
  also have "\<dots> = sanitize_tool_pairs ms"
    by (simp add: filter_id_conv sanitize_contents_neq)
  finally show ?thesis
    by (simp add: sanitize_ids all_blocks_sanitize list_all_iff sanitize_contents_neq)
qed

section \<open>Shrinking keeps the structure\<close>

text \<open>A change of block contents that keeps the ids keeps a history well formed.\<close>

definition same_shape :: "(content_block \<Rightarrow> content_block) \<Rightarrow> bool" where
  "same_shape f \<longleftrightarrow> (\<forall>b. block_result_id (f b) = block_result_id b \<and>
     map_option tu_id (block_tool_use (f b)) = map_option tu_id (block_tool_use b) \<and>
     (is_text_block b \<longrightarrow> is_text_block (f b)))"

definition on_blocks :: "(content_block \<Rightarrow> content_block) \<Rightarrow> message list \<Rightarrow> message list" where
  "on_blocks f ms = map (\<lambda>m. m\<lparr>msg_content := map f (msg_content m)\<rparr>) ms"

lemma same_shape_ids:
  assumes "same_shape f"
  shows "result_ids (m\<lparr>msg_content := map f (msg_content m)\<rparr>) = result_ids m"
      "call_ids (m\<lparr>msg_content := map f (msg_content m)\<rparr>) = call_ids m"
proof -
  have "map id (List.map_filter block_result_id (map f bs)) = map id (List.map_filter block_result_id bs)" for bs
    using assms by (intro map_filter_cong_map) (simp add: same_shape_def)
  moreover have "map tu_id (List.map_filter block_tool_use (map f bs)) =
      map tu_id (List.map_filter block_tool_use bs)" for bs
    using assms by (intro map_filter_cong_map) (simp add: same_shape_def)
  ultimately show "result_ids (m\<lparr>msg_content := map f (msg_content m)\<rparr>) = result_ids m"
      "call_ids (m\<lparr>msg_content := map f (msg_content m)\<rparr>) = call_ids m"
    by (simp_all add: result_ids_def call_ids_def tool_uses_def)
qed

lemma on_blocks_well_paired:
  assumes "same_shape f"
  shows "well_paired (on_blocks f ms) = well_paired ms"
proof -
  have "chained p (on_blocks f ms) = chained p ms \<and> pending_calls p (on_blocks f ms) = pending_calls p ms" for p
    by (induction ms arbitrary: p) (simp_all add: on_blocks_def same_shape_ids [OF assms])
  then show ?thesis by (simp add: well_paired_def)
qed

lemma on_blocks_roles: "map msg_role (on_blocks f ms) = map msg_role ms"
  by (simp add: on_blocks_def comp_def)

lemma cap_block_same_shape: "same_shape (cap_block print cap)"
  unfolding same_shape_def
proof
  fix b
  show "block_result_id (cap_block print cap b) = block_result_id b \<and>
     map_option tu_id (block_tool_use (cap_block print cap b)) = map_option tu_id (block_tool_use b) \<and>
     (is_text_block b \<longrightarrow> is_text_block (cap_block print cap b))"
    by (cases b) (simp_all add: Let_def is_text_block_def text_cb_def)
qed

lemma supersede_block_same_shape: "same_shape (supersede_block spd)"
  unfolding same_shape_def
proof
  fix b
  show "block_result_id (supersede_block spd b) = block_result_id b \<and>
     map_option tu_id (block_tool_use (supersede_block spd b)) = map_option tu_id (block_tool_use b) \<and>
     (is_text_block b \<longrightarrow> is_text_block (supersede_block spd b))"
    by (cases b) (simp_all add: is_text_block_def split: option.split prod.split)
qed

lemma truncate_in_window_on_blocks:
  "\<exists>cap \<ge> 128. truncate_in_window print ms n = on_blocks (cap_block print cap) ms"
proof -
  have "\<exists>c \<ge> 128. truncate_loop print ms n cap = on_blocks (cap_block print c) ms" if "cap \<ge> 128" for cap
    using that
  proof (induction cap rule: less_induct)
    case (less cap)
    show ?case
    proof (cases "cap > 256 \<and> estimate_tokens print (cap_blocks print ms cap) > n")
      case True
      then have "truncate_loop print ms n cap = truncate_loop print ms n (cap div 2)"
        by (subst truncate_loop.simps) simp
      moreover have "128 \<le> cap div 2" "cap div 2 < cap" using True by auto
      ultimately show ?thesis using less.IH [of "cap div 2"] by simp
    next
      case False
      then have "truncate_loop print ms n cap = cap_blocks print ms cap"
        by (subst truncate_loop.simps) auto
      then show ?thesis using less.prems by (auto simp: cap_blocks_def on_blocks_def)
    qed
  qed
  from this [of 8192] show ?thesis by (simp add: truncate_in_window_def)
qed

lemma truncate_well_paired [simp]:
  "well_paired (truncate_in_window print ms n) = well_paired ms"
  using truncate_in_window_on_blocks [of print ms n] on_blocks_well_paired [OF cap_block_same_shape]
  by auto

lemma truncate_roles: "map msg_role (truncate_in_window print ms n) = map msg_role ms"
  using truncate_in_window_on_blocks [of print ms n] on_blocks_roles by metis

section \<open>The boundary is clean\<close>

lemma clean_tail_start_cases:
  obtains "clean_tail_start body desired < length body"
      "is_clean_turn (body ! clean_tail_start body desired)"
  | "clean_tail_start body desired = 0" "\<And>i. i < length body \<Longrightarrow> \<not> is_clean_turn (body ! i)"
proof -
  define ideal where "ideal = length body - desired"
  consider (after) i where "find (\<lambda>i. is_clean_turn (body ! i)) [ideal..<length body] = Some i"
    | (before) i where "find (\<lambda>i. is_clean_turn (body ! i)) [ideal..<length body] = None"
        "find (\<lambda>i. is_clean_turn (body ! i)) (rev [0..<ideal]) = Some i"
    | (none) "find (\<lambda>i. is_clean_turn (body ! i)) [ideal..<length body] = None"
        "find (\<lambda>i. is_clean_turn (body ! i)) (rev [0..<ideal]) = None"
    by fastforce
  then show ?thesis
  proof cases
    case after
    then show ?thesis using that(1)
      by (auto simp: clean_tail_start_def ideal_def Let_def dest!: find_SomeD)
  next
    case before
    then show ?thesis using that(1)
      by (auto simp: clean_tail_start_def ideal_def Let_def dest!: find_SomeD)
  next
    case none
    have "\<not> is_clean_turn (body ! i)" if "i < length body" for i
      using none that by (cases "i < ideal") (auto simp: find_None_iff)
    then show ?thesis using none that(2)
      by (auto simp: clean_tail_start_def ideal_def Let_def)
  qed
qed

lemma chained_nth_clean:
  assumes "chained p body" "i < length body" "result_ids (body ! i) = []"
  shows "pending_calls p (take i body) = [] \<and> chained [] (drop i body)"
proof -
  have "chained p (take i body @ body ! i # drop (Suc i) body)"
    using assms(1,2) by (simp add: id_take_nth_drop [symmetric])
  then show ?thesis using assms(2,3) by (simp add: Cons_nth_drop_Suc [symmetric])
qed

lemma clean_tail_well_paired:
  assumes "well_paired body"
  shows "well_paired (drop (clean_tail_start body desired) body)"
proof (rule clean_tail_start_cases [of body desired])
  let ?i = "clean_tail_start body desired"
  assume "?i < length body" "is_clean_turn (body ! ?i)"
  then have "pending_calls [] (take ?i body) = [] \<and> chained [] (drop ?i body)"
    using assms by (intro chained_nth_clean) (auto simp: well_paired_def is_clean_turn_def)
  then have "well_paired (take ?i body)"
    using assms by (auto simp: well_paired_def) (metis append_take_drop_id chained_append)
  then show ?thesis using assms by (metis append_take_drop_id well_paired_append)
qed (use assms in simp)

section \<open>The compactor's contract\<close>

text \<open>
  What the agent loop relies on, whichever compactor it is configured with: the history it
  installs in place of a well-formed one is well formed.
\<close>

locale history_compactor =
  fixes compact :: "message list \<Rightarrow> capabilities \<Rightarrow> ('w, compaction option) action"
  assumes keeps_wf:
    "wf_history ms \<Longrightarrow> compact ms caps w = (Ok (Some c), w') \<Longrightarrow> wf_history (cm_messages c)"
begin

text \<open>Installing the outcome, whatever it is, keeps the history well formed.\<close>

lemma installed_wf:
  "wf_history ms \<Longrightarrow>
   wf_history (case compact ms caps w of (Ok (Some c), _) \<Rightarrow> cm_messages c | _ \<Rightarrow> ms)"
  using keeps_wf by (auto split: prod.splits result.splits option.splits)

end

lemma tail_roles:
  assumes "systems_lead ms" "map msg_role tail = map msg_role (sanitize_tool_pairs (drop i (history_body ms)))"
  shows "list_all (\<lambda>m. msg_role m \<noteq> System) tail"
proof -
  have "r \<noteq> System" if "r \<in> set (map msg_role tail)" for r
  proof -
    obtain m where "m \<in> set (sanitize_tool_pairs (drop i (history_body ms)))" "r = msg_role m"
      using \<open>r \<in> set (map msg_role tail)\<close> unfolding assms(2) by auto
    then obtain m' where "m' \<in> set (history_body ms)" "r = msg_role m'"
      by (metis sanitize_roles in_set_dropD)
    then show ?thesis using assms(1) by (auto simp: systems_lead_def list_all_iff)
  qed
  then show ?thesis by (auto simp: list_all_iff)
qed

text \<open>What both window compactors build from a well-formed history is well formed.\<close>

lemma window_wf:
  assumes wf: "wf_history ms"
      and head: "list_all (\<lambda>m. msg_role m = System \<and> list_all is_text_block (msg_content m)) head"
      and tail: "tail = sanitize_tool_pairs (drop (clean_tail_start (history_body ms) n) (history_body ms)) \<or>
        (\<exists>b. tail = truncate_in_window print
          (sanitize_tool_pairs (drop (clean_tail_start (history_body ms) n) (history_body ms))) b)"
  shows "wf_history (head @ tail)"
proof -
  let ?kept = "sanitize_tool_pairs (drop (clean_tail_start (history_body ms) n) (history_body ms))"
  have "well_paired ?kept"
    by (intro sanitize_keeps_well_paired clean_tail_well_paired body_well_paired wf)
  then have "well_paired tail" using tail by auto
  moreover have "list_all plain head"
    using head by (auto simp: list_all_iff intro: plain_text_blocks)
  ultimately have "well_paired (head @ tail)"
    by (simp add: well_paired_append well_paired_plain)
  moreover have "map msg_role tail = map msg_role ?kept" using tail truncate_roles by auto
  then have "systems_lead (head @ tail)"
    using head wf by (intro systems_lead_appendI tail_roles) (auto simp: wf_history_def)
  ultimately show ?thesis by (simp add: wf_history_def)
qed

lemma drop_oldest_shape:
  assumes "drop_oldest print target_of keep ms caps = Ok (Some c)"
  obtains tail where "cm_messages c = leading_systems ms @ tail" "cm_usage c = None"
    "estimate_tokens print (cm_messages c) \<le> cap_max_input_tokens caps"
    "cap_max_input_tokens caps \<noteq> 0" "target_of (cap_max_input_tokens caps) < estimate_tokens print ms"
    "tail = sanitize_tool_pairs (drop (clean_tail_start (history_body ms) (keep * 2)) (history_body ms)) \<or>
     (\<exists>b. tail = truncate_in_window print
       (sanitize_tool_pairs (drop (clean_tail_start (history_body ms) (keep * 2)) (history_body ms))) b)"
proof -
  let ?kept = "sanitize_tool_pairs (drop (clean_tail_start (history_body ms) (keep * 2)) (history_body ms))"
  let ?b = "cap_max_input_tokens caps - estimate_tokens print (leading_systems ms)"
  let ?t = "if estimate_tokens print ?kept > ?b then truncate_in_window print ?kept ?b else ?kept"
  have *: "cap_max_input_tokens caps \<noteq> 0 \<and> \<not> estimate_tokens print ms \<le> target_of (cap_max_input_tokens caps) \<and>
      \<not> estimate_tokens print (leading_systems ms @ ?t) > cap_max_input_tokens caps \<and>
      c = compaction_free (leading_systems ms @ ?t)"
    using assms unfolding drop_oldest_def Let_def by (metis option.inject result.distinct(1) result.inject(1) option.distinct(1))
  show ?thesis
    by (rule that [of ?t]) (use * in \<open>auto simp: compaction_free_def\<close>)
qed

interpretation drop_oldest: history_compactor "cp_compact (drop_oldest_compactor print target_of keep)"
proof
  fix ms caps w c w'
  assume wf: "wf_history ms"
    and "cp_compact (drop_oldest_compactor print target_of keep) ms caps w = (Ok (Some c), w')"
  then have d: "drop_oldest print target_of keep ms caps = Ok (Some c)"
    by (simp add: drop_oldest_compactor_def)
  show "wf_history (cm_messages c)"
    using d
  proof (rule drop_oldest_shape)
    fix tail
    assume *: "cm_messages c = leading_systems ms @ tail"
        "tail = sanitize_tool_pairs (drop (clean_tail_start (history_body ms) (keep * 2)) (history_body ms)) \<or>
         (\<exists>b. tail = truncate_in_window print
           (sanitize_tool_pairs (drop (clean_tail_start (history_body ms) (keep * 2)) (history_body ms))) b)"
    show ?thesis
      unfolding *(1) using wf
      by (intro window_wf [OF wf _ *(2)] leading_systems_ok) (simp add: wf_history_def)
  qed
qed

interpretation micro: history_compactor "cp_compact (micro_compactor print)"
proof
  fix ms :: "message list" and caps w c w'
  assume wf: "wf_history ms" and "cp_compact (micro_compactor print) ms caps w = (Ok (Some c), w')"
  then have c: "cm_messages c = on_blocks (supersede_block (superseded_map print ms)) ms"
    by (auto simp: micro_compactor_def micro_compact_def Let_def compaction_free_def on_blocks_def
        split: if_splits)
  have "history_body (on_blocks f ms) = on_blocks f (history_body ms)" for f
    by (induction ms) (auto simp: on_blocks_def history_body_def)
  moreover have "list_all is_text_block (map (supersede_block spd) bs)" if "list_all is_text_block bs" for bs spd
    using that supersede_block_same_shape [of spd] by (auto simp: same_shape_def list_all_iff)
  ultimately have "systems_lead (cm_messages c)"
    using wf unfolding c by (auto simp: wf_history_def systems_lead_def list_all_iff on_blocks_def)
  then show "wf_history (cm_messages c)"
    using wf unfolding wf_history_def c by (simp add: on_blocks_well_paired supersede_block_same_shape)
qed

interpretation noop: history_compactor "cp_compact noop_compactor"
  by unfold_locales (simp add: noop_compactor_def)

lemma summary_assemble_shape:
  assumes "summary_assemble print window systems recent txt usage = Ok (Some c)"
  shows "\<exists>tail. cm_messages c =
      (systems @ [msg_system_text (''Summary of earlier conversation:'' @ nl @ txt)]) @ tail \<and>
    (tail = sanitize_tool_pairs recent \<or> (\<exists>b. tail = truncate_in_window print (sanitize_tool_pairs recent) b))"
proof -
  let ?head = "systems @ [msg_system_text (''Summary of earlier conversation:'' @ nl @ txt)]"
  let ?kept = "sanitize_tool_pairs recent"
  let ?b = "window - estimate_tokens print ?head"
  let ?t = "if estimate_tokens print ?kept > ?b then truncate_in_window print ?kept ?b else ?kept"
  have "c = \<lparr>cm_messages = ?head @ ?t, cm_usage = Some usage\<rparr>"
    using assms unfolding summary_assemble_def Let_def
    by (metis option.inject result.distinct(1) result.inject(1))
  then show ?thesis by auto
qed

lemma summary_message_ok:
  "list_all (\<lambda>m. msg_role m = System \<and> list_all is_text_block (msg_content m)) [msg_system_text t]"
  by (simp add: msg_system_text_def text_cb_def is_text_block_def)

interpretation summarizing: history_compactor "cp_compact (summarizing_compactor sz)"
proof
  fix ms caps w c w'
  assume wf: "wf_history ms" and c: "cp_compact (summarizing_compactor sz) ms caps w = (Ok (Some c), w')"
  let ?body = "history_body ms"
  let ?start = "clean_tail_start ?body (sz_keep_recent_turns sz * 2)"
  have sys: "list_all (\<lambda>m. msg_role m = System \<and> list_all is_text_block (msg_content m)) (leading_systems ms)"
    using wf by (simp add: leading_systems_ok wf_history_def)
  consider (shrunk) b where "cm_messages c =
        leading_systems ms @ truncate_in_window (sz_print sz) (sanitize_tool_pairs (drop ?start ?body)) b"
    | (summary) sm u where "summary_assemble (sz_print sz) (cap_max_input_tokens caps)
        (leading_systems ms) (drop ?start ?body) sm u = Ok (Some c)"
    using c by (fastforce simp: summarizing_compactor_def summarizing_compact_def Let_def
        compaction_free_def split: if_splits prod.splits result.splits)
  then show "wf_history (cm_messages c)"
  proof cases
    case shrunk
    show ?thesis unfolding shrunk by (rule window_wf [OF wf sys]) blast
  next
    case summary
    then obtain tail where t: "cm_messages c =
        (leading_systems ms @ [msg_system_text (''Summary of earlier conversation:'' @ nl @ sm)]) @ tail"
        "tail = sanitize_tool_pairs (drop ?start ?body) \<or>
         (\<exists>b. tail = truncate_in_window (sz_print sz) (sanitize_tool_pairs (drop ?start ?body)) b)"
      using summary_assemble_shape by blast
    have "list_all (\<lambda>m. msg_role m = System \<and> list_all is_text_block (msg_content m))
        (leading_systems ms @ [msg_system_text (''Summary of earlier conversation:'' @ nl @ sm)])"
      using sys summary_message_ok by (simp only: list_all_append)
    then show ?thesis unfolding t(1) using t(2) by (rule window_wf [OF wf])
  qed
qed

section \<open>Properties of compaction\<close>

definition sample_history :: "message list" where
  "sample_history =
     [msg_system_text ''s'', msg_user_text ''fix it'',
      \<lparr>msg_role = Assistant, msg_content = [ToolUse \<lparr>tu_id = ''a'', tu_name = ''Glob'', tu_input = JNull\<rparr>]\<rparr>,
      \<lparr>msg_role = User, msg_content = [ToolResult ''a'' [text_cb ''old listing''] False]\<rparr>,
      \<lparr>msg_role = Assistant, msg_content = [ToolUse \<lparr>tu_id = ''b'', tu_name = ''Glob'', tu_input = JNull\<rparr>]\<rparr>,
      \<lparr>msg_role = User, msg_content = [ToolResult ''b'' [text_cb ''new listing''] False]\<rparr>]"

lemma sample_history_wf: "wf_history sample_history"
  by (simp add: wf_history_def sample_history_def well_paired_def systems_lead_def history_body_def
      msg_system_text_def msg_user_text_def text_cb_def is_text_block_def result_ids_def call_ids_def
      tool_uses_def map_filter_simps)

text \<open>
  (C26) Every compactor keeps a history well formed: the calls of each message are still answered,
  in order, by the next one, none is left open, and the system messages still lead. This holds
  for the window compactors wherever they cut and however hard they shrink, and for the
  summariser whatever its provider answers.
\<close>

theorem compactors_keep_histories_wf:
  assumes "wf_history ms"
  shows "(drop_oldest print target_of keep ms caps = Ok (Some c) \<longrightarrow> wf_history (cm_messages c)) \<and>
    (micro_compact print ms = Some c \<longrightarrow> wf_history (cm_messages c)) \<and>
    (summarizing_compact sz ms caps w = (Ok (Some c), w') \<longrightarrow> wf_history (cm_messages c))"
  using assms drop_oldest.keeps_wf [of ms print target_of keep caps "()" c "()"]
    micro.keeps_wf [of ms print caps "()" c "()"] summarizing.keeps_wf [of ms sz caps w c w']
  by (auto simp: drop_oldest_compactor_def micro_compactor_def summarizing_compactor_def)

theorem compactors_keep_histories_wf_witness:
  "wf_history sample_history \<and> (\<exists>c. micro_compact (\<lambda>_. ''n'') sample_history = Some c \<and> wf_history (cm_messages c))"
proof -
  obtain c where c: "micro_compact (\<lambda>_. ''n'') sample_history = Some c"
    by (simp add: sample_history_def micro_compact_def superseded_map_def latest_map_def errored_map_def
        map_filter_simps msg_system_text_def msg_user_text_def text_cb_def supersession_key_def)
  then show ?thesis
    using compactors_keep_histories_wf
        [OF sample_history_wf, THEN conjunct2, THEN conjunct1, rule_format, OF c]
      sample_history_wf by simp
qed

lemma on_blocks_ids:
  assumes "same_shape f"
  shows "use_ids (on_blocks f ms) = use_ids ms" "answered_ids (on_blocks f ms) = answered_ids ms"
  by (induction ms) (simp_all add: on_blocks_def same_shape_ids [OF assms])

lemma truncate_ids:
  "use_ids (truncate_in_window print ms n) = use_ids ms"
  "answered_ids (truncate_in_window print ms n) = answered_ids ms"
  using truncate_in_window_on_blocks [of print ms n] on_blocks_ids [OF cap_block_same_shape] by auto

text \<open>
  When \<open>DropOldestCompactor\<close> compacts, the history was over the target and the new one
  is within the model's window. The leading system messages are kept as they are, the calls and
  the results of the rest answer each other, and the rest is what sanitising leaves of the part
  of the conversation from a clean user turn on, or of all of it when there is no such turn,
  possibly with its contents shortened.
\<close>

theorem drop_oldest_fits:
  assumes "drop_oldest print target_of keep ms caps = Ok (Some c)"
  shows "\<exists>tail start. cm_messages c = leading_systems ms @ tail \<and>
    estimate_tokens print (cm_messages c) \<le> cap_max_input_tokens caps \<and>
    target_of (cap_max_input_tokens caps) < estimate_tokens print ms \<and>
    set (use_ids tail) = set (answered_ids tail) \<and>
    map msg_role tail = map msg_role (sanitize_tool_pairs (drop start (history_body ms))) \<and>
    (start < length (history_body ms) \<and> is_clean_turn (history_body ms ! start) \<or>
     start = 0 \<and> (\<forall>m \<in> set (history_body ms). \<not> is_clean_turn m))"
  using assms
proof (rule drop_oldest_shape)
  fix tail
  let ?start = "clean_tail_start (history_body ms) (keep * 2)"
  let ?kept = "sanitize_tool_pairs (drop ?start (history_body ms))"
  assume t: "cm_messages c = leading_systems ms @ tail"
      "estimate_tokens print (cm_messages c) \<le> cap_max_input_tokens caps"
      "target_of (cap_max_input_tokens caps) < estimate_tokens print ms"
      "tail = ?kept \<or> (\<exists>b. tail = truncate_in_window print ?kept b)"
  have "set (use_ids tail) = set (answered_ids tail)"
    using t(4) by (auto simp: truncate_ids sanitize_ids)
  moreover have "map msg_role tail = map msg_role ?kept"
    using t(4) truncate_roles by auto
  moreover have "?start < length (history_body ms) \<and> is_clean_turn (history_body ms ! ?start) \<or>
      ?start = 0 \<and> (\<forall>m \<in> set (history_body ms). \<not> is_clean_turn m)"
    by (rule clean_tail_start_cases [of "history_body ms" "keep * 2"]) (auto simp: in_set_conv_nth)
  ultimately show ?thesis using t by blast
qed

definition long_history :: "message list" where
  "long_history =
     [msg_system_text ''s'', msg_user_text ''one'', msg_assistant_text ''two'', msg_user_text ''three'']"

definition window_caps :: "nat \<Rightarrow> capabilities" where
  "window_caps n = \<lparr>cap_max_input_tokens = n, cap_max_output_tokens = 100, cap_vision = False,
     cap_tool_use = NoTools, cap_thinking = False, cap_prompt_caching = NoCaching,
     cap_json_mode = False, cap_streaming = True, cap_stop_sequences = False, cap_top_k = False,
     cap_system_prompt = SystemRole, cap_refusal_field = False\<rparr>"

lemma long_history_drops:
  "drop_oldest (\<lambda>_. []) (\<lambda>n. n div 2) 0 long_history (window_caps 4) =
     Ok (Some (compaction_free [msg_system_text ''s'', msg_user_text ''three'']))"
proof -
  have est: "estimate_tokens (\<lambda>_. []) long_history = 3"
      "estimate_tokens (\<lambda>_. []) [msg_system_text ''s''] = 0"
      "estimate_tokens (\<lambda>_. []) [msg_user_text ''three''] = 1"
      "estimate_tokens (\<lambda>_. []) [msg_system_text ''s'', msg_user_text ''three''] = 1"
    by (simp_all add: estimate_tokens_def long_history_def block_chars_def msg_system_text_def
        msg_user_text_def msg_assistant_text_def text_cb_def sat_u32_def u32_max_def)
  have parts: "leading_systems long_history = [msg_system_text ''s'']"
      "history_body long_history = [msg_user_text ''one'', msg_assistant_text ''two'', msg_user_text ''three'']"
    by (simp_all add: leading_systems_def history_body_def long_history_def msg_system_text_def
        msg_user_text_def msg_assistant_text_def)
  have "clean_tail_start [msg_user_text ''one'', msg_assistant_text ''two'', msg_user_text ''three''] 0 = 2"
    using plain_texts(1) [of "''three''"]
    by (simp add: clean_tail_start_def is_clean_turn_def plain_def msg_user_text_def)
  moreover have "sanitize_tool_pairs [msg_user_text ''three''] = [msg_user_text ''three'']"
    by (simp add: sanitize_well_paired well_paired_plain) (simp add: msg_user_text_def)
  ultimately show ?thesis
    unfolding drop_oldest_def Let_def parts by (simp add: est window_caps_def)
qed

theorem drop_oldest_fits_witness:
  "\<exists>tail start. cm_messages (compaction_free [msg_system_text ''s'', msg_user_text ''three'']) =
      leading_systems long_history @ tail \<and>
    set (use_ids tail) = set (answered_ids tail) \<and>
    (start < length (history_body long_history) \<and> is_clean_turn (history_body long_history ! start) \<or>
     start = 0 \<and> (\<forall>m \<in> set (history_body long_history). \<not> is_clean_turn m))"
  using drop_oldest_fits [OF long_history_drops] by blast

subsection \<open>What the janitor keeps\<close>

lemma map_of_rev_filter:
  assumes "map_of (rev (List.map_filter f xs)) k = Some v"
  obtains x where "x \<in> set xs" "f x = Some (k, v)"
  using map_of_SomeD [OF assms] by (auto simp: set_map_filter)

lemma errored_map_Some:
  assumes "map_of (errored_map ms) i = Some e"
  shows "\<exists>c. ToolResult i c e \<in> set (all_blocks ms)"
  using assms unfolding errored_map_def
proof (rule map_of_rev_filter)
  fix b
  assume "b \<in> set (all_blocks ms)" "(case b of ToolResult i _ err \<Rightarrow> Some (i, err) | _ \<Rightarrow> None) = Some (i, e)"
  note b = this
  show ?thesis by (cases b) (use b in auto)
qed

lemma latest_map_Some:
  assumes "map_of (latest_map print ms) (tool, key) = Some j"
  obtains tu where "ToolUse tu \<in> set (all_blocks ms)" "tu_name tu = tool" "tu_id tu = j"
    "supersession_key print tool (tu_input tu) = Some key" "map_of (errored_map ms) j = Some False"
proof -
  obtain b where b: "b \<in> set (all_blocks ms)" "(case b of
         ToolUse tu \<Rightarrow>
           (case supersession_key print (tu_name tu) (tu_input tu) of
              None \<Rightarrow> None
            | Some k \<Rightarrow>
                if map_of (errored_map ms) (tu_id tu) = Some False
                then Some ((tu_name tu, k), tu_id tu) else None)
       | _ \<Rightarrow> None) = Some ((tool, key), j)"
    using assms unfolding latest_map_def by (rule map_of_rev_filter)
  show ?thesis by (cases b) (use b that in \<open>auto split: option.split_asm if_split_asm\<close>)
qed

lemma superseded_map_Some:
  assumes "map_of (superseded_map print ms) i = Some (tool, key)"
  obtains tu j where "ToolUse tu \<in> set (all_blocks ms)" "tu_name tu = tool" "tu_id tu = i"
    "supersession_key print tool (tu_input tu) = Some key"
    "map_of (latest_map print ms) (tool, key) = Some j" "j \<noteq> i"
proof -
  obtain b where b: "b \<in> set (all_blocks ms)" "(case b of
         ToolUse tu \<Rightarrow>
           (case supersession_key print (tu_name tu) (tu_input tu) of
              None \<Rightarrow> None
            | Some k \<Rightarrow>
                (case map_of (latest_map print ms) (tu_name tu, k) of
                   None \<Rightarrow> None
                 | Some latest_id \<Rightarrow>
                     if latest_id \<noteq> tu_id tu then Some (tu_id tu, (tu_name tu, k)) else None))
       | _ \<Rightarrow> None) = Some (i, (tool, key))"
    using assms unfolding superseded_map_def by (rule map_of_rev_filter)
  show ?thesis by (cases b) (use b that in \<open>auto split: option.split_asm if_split_asm\<close>)
qed

lemma distinct_use_ids_inj:
  assumes "distinct (use_ids ms)" "ToolUse tu \<in> set (all_blocks ms)" "ToolUse tu' \<in> set (all_blocks ms)"
      "tu_id tu = tu_id tu'"
  shows "tu = tu'"
proof -
  have "inj_on tu_id (set (List.map_filter block_tool_use (all_blocks ms)))"
    using assms(1) by (simp add: use_ids_def distinct_map)
  then show ?thesis using assms(2-) by (auto simp: set_map_filter inj_on_def)
qed

lemma all_blocks_on_blocks: "all_blocks (on_blocks f ms) = map f (all_blocks ms)"
  by (simp add: all_blocks_def on_blocks_def map_concat comp_def)

text \<open>
  The per-turn janitor destroys nothing that is not still there: when it rewrites the result
  of a call, a call of the same tool with the same key has a successful result, and the pass
  leaves that result whole.
\<close>

theorem micro_keeps_newest_success:
  assumes "distinct (use_ids ms)" "micro_compact print ms = Some c"
      "ToolResult i content err \<in> set (all_blocks ms)"
      "ToolResult i content err \<notin> set (all_blocks (cm_messages c))"
  shows "\<exists>tu tu' content'. {ToolUse tu, ToolUse tu', ToolResult (tu_id tu') content' False} \<subseteq> set (all_blocks ms) \<and>
    tu_id tu = i \<and> tu_id tu' \<noteq> i \<and> tu_name tu' = tu_name tu \<and>
    supersession_key print (tu_name tu') (tu_input tu') = supersession_key print (tu_name tu) (tu_input tu) \<and>
    ToolResult (tu_id tu') content' False \<in> set (all_blocks (cm_messages c))"
proof -
  let ?spd = "superseded_map print ms"
  have out: "all_blocks (cm_messages c) = map (supersede_block ?spd) (all_blocks ms)"
    using assms(2) by (auto simp: micro_compact_def Let_def compaction_free_def
        all_blocks_on_blocks [symmetric] on_blocks_def split: if_splits)
  have kept: "ToolResult j c' e \<in> set (all_blocks (cm_messages c))"
    if "ToolResult j c' e \<in> set (all_blocks ms)" "map_of ?spd j = None" for j c' e
    unfolding out using that by (force intro: rev_image_eqI)
  obtain tool key where "map_of ?spd i = Some (tool, key)"
    using assms(3,4) kept by fastforce
  then obtain tu j where tu: "ToolUse tu \<in> set (all_blocks ms)" "tu_name tu = tool" "tu_id tu = i"
      "supersession_key print tool (tu_input tu) = Some key"
      "map_of (latest_map print ms) (tool, key) = Some j" "j \<noteq> i"
    by (rule superseded_map_Some)
  from this(5) obtain tu' where tu': "ToolUse tu' \<in> set (all_blocks ms)" "tu_name tu' = tool" "tu_id tu' = j"
      "supersession_key print tool (tu_input tu') = Some key" "map_of (errored_map ms) j = Some False"
    by (rule latest_map_Some)
  have "map_of ?spd j = None"
  proof (rule ccontr)
    assume "map_of ?spd j \<noteq> None"
    then obtain tool' key' where "map_of ?spd j = Some (tool', key')" by auto
    then obtain tu'' j' where x: "ToolUse tu'' \<in> set (all_blocks ms)" "tu_name tu'' = tool'" "tu_id tu'' = j"
        "supersession_key print tool' (tu_input tu'') = Some key'"
        "map_of (latest_map print ms) (tool', key') = Some j'" "j' \<noteq> j"
      by (rule superseded_map_Some)
    have "tu'' = tu'" using distinct_use_ids_inj [OF assms(1) x(1) tu'(1)] x(3) tu'(3) by simp
    then show False using x tu(5) tu' by simp
  qed
  moreover obtain c' where "ToolResult j c' False \<in> set (all_blocks ms)"
    using errored_map_Some [OF tu'(5)] by blast
  ultimately have "{ToolUse tu, ToolUse tu', ToolResult (tu_id tu') c' False} \<subseteq> set (all_blocks ms)"
      "ToolResult (tu_id tu') c' False \<in> set (all_blocks (cm_messages c))"
    using tu(1) tu'(1,3) kept by simp_all
  then show ?thesis using tu(2,3,4,6) tu'(2,3,4)
    by (intro exI [of _ tu] exI [of _ tu'] exI [of _ c'] conjI) simp_all
qed

lemma sample_history_micro:
  "micro_compact (\<lambda>_. ''n'') sample_history = Some (compaction_free (on_blocks
     (supersede_block [(''a'', (''Glob'', ''n''))]) sample_history))"
  by (simp add: sample_history_def micro_compact_def superseded_map_def latest_map_def errored_map_def
      map_filter_simps msg_system_text_def msg_user_text_def text_cb_def supersession_key_def on_blocks_def)

theorem micro_keeps_newest_success_witness:
  "\<exists>tu tu' content'. {ToolUse tu, ToolUse tu', ToolResult (tu_id tu') content' False} \<subseteq> set (all_blocks sample_history) \<and>
    tu_id tu = ''a'' \<and> tu_id tu' \<noteq> ''a'' \<and> tu_name tu' = tu_name tu"
proof -
  have "distinct (use_ids sample_history)"
    by (simp add: sample_history_def call_ids_def tool_uses_def map_filter_simps msg_system_text_def
        msg_user_text_def text_cb_def)
  moreover have "ToolResult ''a'' [text_cb ''old listing''] False \<in> set (all_blocks sample_history)"
    by (simp add: sample_history_def)
  moreover have "ToolResult ''a'' [text_cb ''old listing''] False \<notin>
      set (all_blocks (on_blocks (supersede_block [(''a'', (''Glob'', ''n''))]) sample_history))"
    by (simp add: all_blocks_on_blocks sample_history_def text_cb_def msg_system_text_def msg_user_text_def)
  ultimately show ?thesis
    using micro_keeps_newest_success [OF _ sample_history_micro]
    unfolding compaction_free_def by simp blast
qed

text \<open>
  The janitor never touches the results of the built-in \<open>Read\<close> tool: it identifies the
  file of a \<open>Read\<close> call by the member \<open>file_path\<close> of the input, which the tool's schema
  does not have (its member is \<open>path\<close>). A history that reads one file any number of times
  in this way is left as it is.
\<close>

theorem micro_ignores_path_reads:
  assumes "list_all (\<lambda>tu. tu_name tu = ''Read'' \<and> json_get (tu_input tu) ''file_path'' = None)
    (List.map_filter block_tool_use (all_blocks ms))"
  shows "micro_compact print ms = None"
proof -
  have "superseded_map print ms = []"
    unfolding superseded_map_def rev_is_Nil_conv map_filter_Nil
  proof
    fix b
    assume "b \<in> set (all_blocks ms)"
    then have "tu_name tu = ''Read'' \<and> json_get (tu_input tu) ''file_path'' = None" if "b = ToolUse tu" for tu
      using assms that by (auto simp: list_all_iff set_map_filter)
    then show "(case b of
         ToolUse tu \<Rightarrow>
           (case supersession_key print (tu_name tu) (tu_input tu) of
              None \<Rightarrow> None
            | Some k \<Rightarrow>
                (case map_of (latest_map print ms) (tu_name tu, k) of
                   None \<Rightarrow> None
                 | Some latest_id \<Rightarrow>
                     if latest_id \<noteq> tu_id tu then Some (tu_id tu, (tu_name tu, k)) else None))
       | _ \<Rightarrow> None) = None"
      by (cases b) (simp_all add: supersession_key_def json_get_str_def)
  qed
  then show ?thesis by (simp add: micro_compact_def)
qed

definition read_call :: "string \<Rightarrow> message" where
  "read_call i = \<lparr>msg_role = Assistant, msg_content =
     [ToolUse \<lparr>tu_id = i, tu_name = ''Read'', tu_input = JObject [(''path'', JString ''f.txt'')]\<rparr>]\<rparr>"

definition read_answer :: "string \<Rightarrow> string \<Rightarrow> message" where
  "read_answer i s = \<lparr>msg_role = User, msg_content = [ToolResult i [text_cb s] False]\<rparr>"

theorem micro_ignores_path_reads_witness:
  "micro_compact (\<lambda>_. ''n'')
     [read_call ''a'', read_answer ''a'' ''v1'', read_call ''b'', read_answer ''b'' ''v2''] = None"
  by (rule micro_ignores_path_reads)
     (simp add: read_call_def read_answer_def map_filter_simps)

end
