(* ===== verification/TurnStream.thy ===== *)
theory TurnStream
  imports Compact
begin

text \<open>
  One provider response: the retry of the opening call (\<open>retry.rs\<close>), the idle watchdog
  and the collector of the provider crate (\<open>stream.rs\<close>), and the accumulator and the
  latency markers of a turn (\<open>stream/turn.rs\<close>).

  The backoff, a product of floating-point numbers with random jitter, and the JSON parser are
  parameters. Waiting for something that never happens is the value \<^const>\<open>None\<close>.
\<close>

section \<open>Retrying a call\<close>

(* map: src/crates/caliban-agent-core/src/retry.rs 9-33 RetryPolicy *)
record retry_policy =
  rp_max_attempts :: nat
  rp_initial_backoff :: nat
  rp_backoff_multiplier :: u32
  rp_max_backoff :: nat
  rp_jitter :: bool

(* map: src/crates/caliban-agent-core/src/retry.rs 24-34 RetryPolicy::default *)
definition retry_default :: retry_policy where
  "retry_default =
     \<lparr>rp_max_attempts = 3, rp_initial_backoff = 500,
      rp_backoff_multiplier = 0x40000000, rp_max_backoff = 30000, rp_jitter = True\<rparr>"

(* map: src/crates/caliban-agent-core/src/retry.rs 36-45 RetryPolicy::no_retry *)
definition no_retry :: retry_policy where
  "no_retry = retry_default\<lparr>rp_max_attempts := 1\<rparr>"

(* map: src/crates/caliban-agent-core/src/retry.rs 47-60 is_retryable *)
fun is_retryable :: "perror \<Rightarrow> bool" where
  "is_retryable (RateLimit _) = True"
| "is_retryable (Network _) = True"
| "is_retryable (StreamInterrupted _) = True"
| "is_retryable (ServerError st _) = (500 \<le> st \<and> st \<le> 599)"
| "is_retryable _ = False"

text \<open>
  What a wait does to the world: the clock of a sleep runs down, or the cancellation token ends
  it (\<^const>\<open>False\<close>).
\<close>

record 'w waiting =
  wt_cancelled :: "'w \<Rightarrow> bool"
  wt_backoff :: "retry_policy \<Rightarrow> nat \<Rightarrow> 'w \<Rightarrow> nat"
  wt_sleep :: "nat \<Rightarrow> 'w \<Rightarrow> bool \<times> 'w"

(* map: src/crates/caliban-agent-core/src/retry.rs 91-103 sleep_for *)
definition sleep_for :: "'w waiting \<Rightarrow> retry_policy \<Rightarrow> perror \<Rightarrow> nat \<Rightarrow> 'w \<Rightarrow> nat" where
  "sleep_for wt policy e attempt w =
     (case e of RateLimit (Some d) \<Rightarrow> d | _ \<Rightarrow> wt_backoff wt policy attempt w)"

(* map: src/crates/caliban-agent-core/src/retry.rs 120-148 with_retry *)
function retry_loop ::
  "'w waiting \<Rightarrow> retry_policy \<Rightarrow> ('w \<Rightarrow> (('a, perror) result \<times> 'w) option) \<Rightarrow>
   nat \<Rightarrow> perror option \<Rightarrow> 'w \<Rightarrow> (('a, perror) result \<times> 'w) option" where
  "retry_loop wt policy f attempt last_err w =
     (if attempt > rp_max_attempts policy
      then Some (Err (unwrap_or (Adapter ''retry exhausted'') last_err), w)
      else if wt_cancelled wt w then Some (Err Cancelled, w)
      else
        (case f w of
           None \<Rightarrow> None
         | Some (Ok v, w1) \<Rightarrow> Some (Ok v, w1)
         | Some (Err e, w1) \<Rightarrow>
             if \<not> is_retryable e \<or> attempt = rp_max_attempts policy then Some (Err e, w1)
             else
               (case wt_sleep wt (sleep_for wt policy e attempt w1) w1 of
                  (True, w2) \<Rightarrow> retry_loop wt policy f (attempt + 1) (Some e) w2
                | (False, w2) \<Rightarrow> Some (Err Cancelled, w2))))"
  by pat_completeness auto

termination retry_loop
  by (relation "measure (\<lambda>(wt, policy, f, attempt, last_err, w). Suc (rp_max_attempts policy) - attempt)") auto

declare retry_loop.simps [simp del]

(* map: src/crates/caliban-agent-core/src/retry.rs 105-149 with_retry *)
definition with_retry ::
  "'w waiting \<Rightarrow> retry_policy \<Rightarrow> ('w \<Rightarrow> (('a, perror) result \<times> 'w) option) \<Rightarrow> 'w \<Rightarrow>
   (('a, perror) result \<times> 'w) option" where
  "with_retry wt policy f w = retry_loop wt policy f 1 None w"

section \<open>The watched stream\<close>

text \<open>
  A response as it arrives: each item with the milliseconds since the one before it, and the
  milliseconds of silence before the end, \<^const>\<open>None\<close> when the end never comes.
\<close>

type_synonym stream_item = "(stream_event, perror) result"

record timed_stream =
  ts_items :: "(nat \<times> stream_item) list"
  ts_end :: "nat option"

(* map: src/crates/caliban-provider/src/stream.rs 280-286 WatchedStream::active_idle *)
definition active_idle :: "nat \<Rightarrow> nat \<Rightarrow> bool \<Rightarrow> nat" where
  "active_idle idle prefill first_chunk_seen = (if first_chunk_seen then idle else prefill)"

text \<open>
  The timer is armed one millisecond past the limit. An item that arrives by the limit is passed
  on; a longer silence is ended by the error, with what has elapsed.
\<close>

(* map: src/crates/caliban-provider/src/stream.rs 289-348 WatchedStream::poll_next *)
fun watch :: "nat \<Rightarrow> nat \<Rightarrow> bool \<Rightarrow> (nat \<times> stream_item) list \<Rightarrow> nat option \<Rightarrow> (nat \<times> stream_item) list" where
  "watch idle prefill seen [] fin =
     (let limit = active_idle idle prefill seen in
      case fin of
        Some gap \<Rightarrow> if gap \<le> limit then [] else [(limit + 1, Err (StreamIdle (limit + 1)))]
      | None \<Rightarrow> [(limit + 1, Err (StreamIdle (limit + 1)))])"
| "watch idle prefill seen ((gap, item) # rest) fin =
     (let limit = active_idle idle prefill seen in
      if gap \<le> limit then (gap, item) # watch idle prefill True rest fin
      else [(limit + 1, Err (StreamIdle (limit + 1)))])"

(* map: src/crates/caliban-provider/src/stream.rs 236-278 WatchedStream::new *)
definition watched_stream :: "nat \<Rightarrow> nat \<Rightarrow> timed_stream \<Rightarrow> timed_stream" where
  "watched_stream idle prefill s =
     \<lparr>ts_items = watch idle prefill False (ts_items s) (ts_end s), ts_end = Some 0\<rparr>"

section \<open>The accumulator of a turn\<close>

(* map: src/crates/caliban-agent-core/src/stream/turn.rs 62-79 ActiveBlock *)
datatype active_block =
    ActiveText string
  | ActiveThinking string string
  | ActiveToolUse string string string

(* map: src/crates/caliban-agent-core/src/stream/turn.rs 82-89 MessageAccumulator *)
record accumulator =
  ma_message_id :: string
  ma_model :: string
  ma_blocks :: "content_block list"
  ma_active :: "active_block option list"
  ma_stop_reason :: "stop_reason option"
  ma_usage :: usage

(* map: src/crates/caliban-agent-core/src/stream/turn.rs 92-101 MessageAccumulator::new *)
definition acc_new :: accumulator where
  "acc_new = \<lparr>ma_message_id = [], ma_model = [], ma_blocks = [], ma_active = [],
     ma_stop_reason = None, ma_usage = 0\<rparr>"

text \<open>\<open>Vec::resize\<close> to a greater length.\<close>

definition grow :: "nat \<Rightarrow> 'a \<Rightarrow> 'a list \<Rightarrow> 'a list" where
  "grow n x xs = xs @ replicate (n - length xs) x"

(* map: src/crates/caliban-agent-core/src/stream/turn.rs 103-115 MessageAccumulator::ensure_index *)
definition ensure_index :: "nat \<Rightarrow> accumulator \<Rightarrow> accumulator" where
  "ensure_index i acc =
     (if length (ma_active acc) \<le> i
      then acc\<lparr>ma_active := grow (i + 1) None (ma_active acc),
               ma_blocks := take (i + 1) (grow (i + 1) (text_cb []) (ma_blocks acc))\<rparr>
      else acc)"

definition tool_input :: "(string \<Rightarrow> json option) \<Rightarrow> string \<Rightarrow> json" where
  "tool_input parse buf = (if buf = [] then JObject [] else unwrap_or (JObject []) (parse buf))"

definition opt_signature :: "string \<Rightarrow> string option" where
  "opt_signature s = (if s \<noteq> [] then Some s else None)"

fun finish_block :: "(string \<Rightarrow> json option) \<Rightarrow> active_block \<Rightarrow> content_block" where
  "finish_block parse (ActiveText s) = text_cb s"
| "finish_block parse (ActiveThinking s sig) = Thinking \<lparr>th_thinking = s, th_signature = opt_signature sig\<rparr>"
| "finish_block parse (ActiveToolUse i name buf) =
     ToolUse \<lparr>tu_id = i, tu_name = name, tu_input = tool_input parse buf\<rparr>"

(* map: src/crates/caliban-agent-core/src/stream/turn.rs 117-150 MessageAccumulator::finalize_block *)
definition finalize_block :: "(string \<Rightarrow> json option) \<Rightarrow> nat \<Rightarrow> accumulator \<Rightarrow> accumulator" where
  "finalize_block parse i acc =
     (if i \<ge> length (ma_active acc) then acc
      else
        (case ma_active acc ! i of
           None \<Rightarrow> acc
         | Some a \<Rightarrow>
             (let acc' = acc\<lparr>ma_active := (ma_active acc)[i := None]\<rparr> in
              if i < length (ma_blocks acc')
              then acc'\<lparr>ma_blocks := (ma_blocks acc')[i := finish_block parse a]\<rparr>
              else acc')))"

fun is_empty_text :: "content_block \<Rightarrow> bool" where
  "is_empty_text (Text t) = (tb_text t = [])"
| "is_empty_text _ = False"

(* map: src/crates/caliban-agent-core/src/stream/turn.rs 152-168 MessageAccumulator::into_message *)
definition into_message :: "accumulator \<Rightarrow> message" where
  "into_message acc =
     \<lparr>msg_role = Assistant, msg_content = filter (\<lambda>b. \<not> is_empty_text b) (ma_blocks acc)\<rparr>"

text \<open>What a start event puts in the slot, and what a delta does to the block in it.\<close>

fun opened :: "content_type \<Rightarrow> active_block option" where
  "opened CtText = Some (ActiveText [])"
| "opened CtThinking = Some (ActiveThinking [] [])"
| "opened (CtToolUse i name) = Some (ActiveToolUse i name [])"
| "opened CtImage = None"

fun extended :: "delta \<Rightarrow> active_block \<Rightarrow> active_block option" where
  "extended (DText s) (ActiveText t) = Some (ActiveText (t @ s))"
| "extended (DThinking s) (ActiveThinking t g) = Some (ActiveThinking (t @ s) g)"
| "extended (DSignature s) (ActiveThinking t g) = Some (ActiveThinking t (g @ s))"
| "extended (DToolUseInputJson s) (ActiveToolUse i n b) = Some (ActiveToolUse i n (b @ s))"
| "extended _ _ = None"

(* map: src/crates/caliban-agent-core/src/stream/mod.rs 1814-1936 Agent::stream_until_done_with_settings *)
fun acc_event :: "(string \<Rightarrow> json option) \<Rightarrow> stream_event \<Rightarrow> accumulator \<Rightarrow> accumulator" where
  "acc_event parse (MessageStart i model) acc = acc\<lparr>ma_message_id := i, ma_model := model\<rparr>"
| "acc_event parse (ContentBlockStart i ct) acc =
     (let acc' = ensure_index i acc in
      case opened ct of
        None \<Rightarrow> acc'
      | Some a \<Rightarrow> acc'\<lparr>ma_active := (ma_active acc')[i := Some a]\<rparr>)"
| "acc_event parse (Delta i d) acc =
     (if i \<ge> length (ma_active acc) then acc
      else
        (case ma_active acc ! i of
           None \<Rightarrow> acc
         | Some a \<Rightarrow>
             (case extended d a of
                None \<Rightarrow> acc
              | Some a' \<Rightarrow> acc\<lparr>ma_active := (ma_active acc)[i := Some a']\<rparr>)))"
| "acc_event parse (ContentBlockStop i) acc = finalize_block parse i acc"
| "acc_event parse (MessageDelta sr u) acc =
     acc\<lparr>ma_stop_reason := or_opt sr (ma_stop_reason acc),
         ma_usage := ma_usage acc + unwrap_or 0 u\<rparr>"
| "acc_event parse MessageStop acc = acc"
| "acc_event parse Ping acc = acc"

section \<open>The collector of the provider crate\<close>

record collector =
  co_blocks :: "content_block list"
  co_types :: "content_type list"
  co_text :: "string list"
  co_json :: "string list"
  co_sig :: "string list"
  co_stop :: "stop_reason option"
  co_usage :: usage

definition collector_new :: collector where
  "collector_new = \<lparr>co_blocks = [], co_types = [], co_text = [], co_json = [], co_sig = [],
     co_stop = None, co_usage = 0\<rparr>"

definition collector_grow :: "nat \<Rightarrow> collector \<Rightarrow> collector" where
  "collector_grow i c =
     (if length (co_blocks c) \<le> i
      then c\<lparr>co_blocks := grow (i + 1) (text_cb []) (co_blocks c),
             co_types := grow (i + 1) CtText (co_types c),
             co_text := grow (i + 1) [] (co_text c),
             co_json := grow (i + 1) [] (co_json c),
             co_sig := grow (i + 1) [] (co_sig c)\<rparr>
      else c)"

text \<open>The block that a stop event finishes, with the buffers it takes.\<close>

(* map: src/crates/caliban-provider/src/stream.rs 161-199 collect_message *)
definition collect_stop ::
  "(string \<Rightarrow> (json, string) result) \<Rightarrow> nat \<Rightarrow> collector \<Rightarrow> (collector, perror) result" where
  "collect_stop parse i c =
     (case co_types c ! i of
        CtText \<Rightarrow>
          Ok (c\<lparr>co_text := (co_text c)[i := []],
                co_blocks := (co_blocks c)[i := text_cb (co_text c ! i)]\<rparr>)
      | CtThinking \<Rightarrow>
          Ok (c\<lparr>co_text := (co_text c)[i := []], co_sig := (co_sig c)[i := []],
                co_blocks := (co_blocks c)[i := Thinking
                  \<lparr>th_thinking = co_text c ! i, th_signature = opt_signature (co_sig c ! i)\<rparr>]\<rparr>)
      | CtToolUse tid name \<Rightarrow>
          map_ok (\<lambda>v. c\<lparr>co_json := (co_json c)[i := []],
              co_blocks := (co_blocks c)[i := ToolUse \<lparr>tu_id = tid, tu_name = name, tu_input = v\<rparr>]\<rparr>)
            (if co_json c ! i = [] then Ok (JObject [])
             else map_err (\<lambda>e. InvalidRequest (''tool_use input json parse error: '' @ e))
               (parse (co_json c ! i)))
      | CtImage \<Rightarrow>
          Err (InvalidRequest ''streaming Image blocks are not supported in collect_message''))"

(* map: src/crates/caliban-provider/src/stream.rs 118-211 collect_message *)
fun collect_event ::
  "(string \<Rightarrow> (json, string) result) \<Rightarrow> stream_event \<Rightarrow> collector \<Rightarrow> (collector, perror) result" where
  "collect_event parse (MessageStart _ _) c = Ok c"
| "collect_event parse Ping c = Ok c"
| "collect_event parse MessageStop c = Ok c"
| "collect_event parse (ContentBlockStart i ct) c =
     (let c' = collector_grow i c in Ok (c'\<lparr>co_types := (co_types c')[i := ct]\<rparr>))"
| "collect_event parse (Delta i d) c =
     (if i \<ge> length (co_types c)
      then Err (InvalidRequest (''Delta event for uninitialized block index '' @ nat_str i))
      else Ok
        (case d of
           DText s \<Rightarrow> c\<lparr>co_text := (co_text c)[i := co_text c ! i @ s]\<rparr>
         | DThinking s \<Rightarrow> c\<lparr>co_text := (co_text c)[i := co_text c ! i @ s]\<rparr>
         | DToolUseInputJson s \<Rightarrow> c\<lparr>co_json := (co_json c)[i := co_json c ! i @ s]\<rparr>
         | DSignature s \<Rightarrow> c\<lparr>co_sig := (co_sig c)[i := co_sig c ! i @ s]\<rparr>))"
| "collect_event parse (ContentBlockStop i) c =
     (if i \<ge> length (co_types c)
      then Err (InvalidRequest (''ContentBlockStop for uninitialized block index '' @ nat_str i))
      else collect_stop parse i c)"
| "collect_event parse (MessageDelta sr u) c =
     Ok (c\<lparr>co_stop := or_opt sr (co_stop c), co_usage := co_usage c + unwrap_or 0 u\<rparr>)"

fun collect_loop ::
  "(string \<Rightarrow> (json, string) result) \<Rightarrow> stream_item list \<Rightarrow> collector \<Rightarrow> (collector, perror) result" where
  "collect_loop parse [] c = Ok c"
| "collect_loop parse (Err e # rest) c = Err e"
| "collect_loop parse (Ok ev # rest) c =
     (case collect_event parse ev c of Err e \<Rightarrow> Err e | Ok c' \<Rightarrow> collect_loop parse rest c')"

(* map: src/crates/caliban-provider/src/stream.rs 101-223 collect_message *)
definition collect_message ::
  "(string \<Rightarrow> (json, string) result) \<Rightarrow> stream_item list \<Rightarrow>
   (message \<times> stop_reason \<times> usage, perror) result" where
  "collect_message parse items =
     map_ok (\<lambda>c. (\<lparr>msg_role = Assistant, msg_content = co_blocks c\<rparr>,
                 unwrap_or EndTurn (co_stop c), co_usage c))
       (collect_loop parse items collector_new)"

section \<open>Latency markers\<close>

text \<open>Instants and durations are nanoseconds here.\<close>

(* map: src/crates/caliban-agent-core/src/stream/turn.rs 20-26 TurnTiming *)
record turn_timing =
  tt_request_sent_at :: nat
  tt_first_delta_at :: "nat option"
  tt_last_delta_at :: "nat option"
  tt_delta_count :: nat

(* map: src/crates/caliban-agent-core/src/stream/turn.rs 29-36 TurnTiming::start *)
definition timing_start :: "nat \<Rightarrow> turn_timing" where
  "timing_start now = \<lparr>tt_request_sent_at = now, tt_first_delta_at = None, tt_last_delta_at = None,
     tt_delta_count = 0\<rparr>"

(* map: src/crates/caliban-agent-core/src/stream/turn.rs 38-43 TurnTiming::observe_delta *)
definition observe_delta :: "nat \<Rightarrow> turn_timing \<Rightarrow> turn_timing" where
  "observe_delta now t = t\<lparr>tt_first_delta_at := or_opt (tt_first_delta_at t) (Some now),
     tt_last_delta_at := Some now, tt_delta_count := tt_delta_count t + 1\<rparr>"

(* map: src/crates/caliban-agent-core/src/stream/turn.rs 45-48 TurnTiming::ttft *)
definition ttft :: "turn_timing \<Rightarrow> nat option" where
  "ttft t = map_option (\<lambda>f. f - tt_request_sent_at t) (tt_first_delta_at t)"

(* map: src/crates/caliban-agent-core/src/stream/turn.rs 50-55 TurnTiming::tbt *)
definition tbt :: "turn_timing \<Rightarrow> nat option" where
  "tbt t =
     (case (tt_first_delta_at t, tt_last_delta_at t) of
        (Some f, Some l) \<Rightarrow> if tt_delta_count t \<ge> 2 then Some ((l - f) div (tt_delta_count t - 1)) else None
      | _ \<Rightarrow> None)"

section \<open>Properties of the retry\<close>

lemma retry_loop_returns:
  assumes "\<And>w. f w \<noteq> None"
  shows "retry_loop wt policy f a le w \<noteq> None"
proof (induction "Suc (rp_max_attempts policy) - a" arbitrary: a le w rule: less_induct)
  case less
  obtain r1 w1 where f: "f w = Some (r1, w1)" using assms [of w] by auto
  have "retry_loop wt policy f (a + 1) le' w' \<noteq> None" if "a \<le> rp_max_attempts policy" for le' w'
    using that by (intro less) simp
  then show ?case
    by (subst retry_loop.simps)
       (auto simp: f not_less split: prod.splits result.splits bool.splits)
qed

lemma retry_loop_calls:
  assumes one: "\<And>w r w'. f w = Some (r, w') \<Longrightarrow> calls w' = calls w + (1 :: nat)"
      and sleeps: "\<And>d w. calls (snd (wt_sleep wt d w)) = calls w"
      and run: "retry_loop wt policy f a le w = Some (r, w')" and a: "a \<le> rp_max_attempts policy"
  shows "calls w' \<le> calls w + (Suc (rp_max_attempts policy) - a) \<and>
    (\<forall>e. r = Err e \<longrightarrow> is_retryable e \<longrightarrow> calls w' = calls w + (Suc (rp_max_attempts policy) - a))"
  using run a
proof (induction "Suc (rp_max_attempts policy) - a" arbitrary: a le w rule: less_induct)
  case less
  note run = less.prems(1) [unfolded retry_loop.simps [of wt policy f a le w]] and a = less.prems(2)
  consider (cancelled) "wt_cancelled wt w"
    | (call) r1 w1 where "\<not> wt_cancelled wt w" "f w = Some (r1, w1)"
    using run a by (auto split: if_splits option.splits)
  then show ?case
  proof cases
    case cancelled
    then show ?thesis using run a by auto
  next
    case call
    have c1: "calls w1 = calls w + 1" using one call(2) by blast
    show ?thesis
    proof (cases "\<exists>e. r1 = Err e \<and> is_retryable e \<and> a \<noteq> rp_max_attempts policy")
      case False
      then have "r = r1 \<and> w' = w1"
        using run a call by (auto split: result.splits if_splits)
      then show ?thesis using False c1 a by auto
    next
      case True
      then obtain e where e: "r1 = Err e" "is_retryable e" "a \<noteq> rp_max_attempts policy" by blast
      obtain ok w2 where sl: "wt_sleep wt (sleep_for wt policy e a w1) w1 = (ok, w2)" by fastforce
      have c2: "calls w2 = calls w + 1" using sleeps [of "sleep_for wt policy e a w1" w1] sl c1 by simp
      show ?thesis
      proof (cases ok)
        case True
        then have "retry_loop wt policy f (a + 1) (Some e) w2 = Some (r, w')"
          using run a call e sl by auto
        moreover have lt: "Suc (rp_max_attempts policy) - (a + 1) < Suc (rp_max_attempts policy) - a"
            "a + 1 \<le> rp_max_attempts policy" using a e(3) by auto
        ultimately have "calls w' \<le> calls w2 + (Suc (rp_max_attempts policy) - (a + 1)) \<and>
            (\<forall>e. r = Err e \<longrightarrow> is_retryable e \<longrightarrow>
               calls w' = calls w2 + (Suc (rp_max_attempts policy) - (a + 1)))"
          using less.hyps by blast
        moreover have "calls w2 + (Suc (rp_max_attempts policy) - (a + 1)) =
            calls w + (Suc (rp_max_attempts policy) - a)"
          using c2 lt by simp
        ultimately show ?thesis by simp
      next
        case False
        then have "r = Err Cancelled \<and> w' = w2" using run a call e sl by auto
        then show ?thesis using c2 a by auto
      qed
    qed
  qed
qed

text \<open>
  \<open>with_retry\<close> makes at most \<open>max_attempts\<close> calls, counted by any counter that
  each call increments and that sleeping leaves alone. It gives a transient error back only
  after making all of them, and if the calls return, it returns.
\<close>

theorem with_retry_attempts:
  assumes "\<And>w r w'. f w = Some (r, w') \<Longrightarrow> calls w' = calls w + (1 :: nat)"
      "\<And>d w. calls (snd (wt_sleep wt d w)) = calls w" "rp_max_attempts policy \<ge> 1"
  shows "(with_retry wt policy f w = Some (r, w') \<longrightarrow>
      calls w' \<le> calls w + rp_max_attempts policy \<and>
      (\<forall>e. r = Err e \<and> is_retryable e \<longrightarrow> calls w' = calls w + rp_max_attempts policy)) \<and>
    ((\<forall>w. f w \<noteq> None) \<longrightarrow> with_retry wt policy f w \<noteq> None)"
proof -
  have "calls w' \<le> calls w + (Suc (rp_max_attempts policy) - 1) \<and>
      (\<forall>e. r = Err e \<longrightarrow> is_retryable e \<longrightarrow> calls w' = calls w + (Suc (rp_max_attempts policy) - 1))"
    if "retry_loop wt policy f 1 None w = Some (r, w')"
    by (rule retry_loop_calls [OF _ _ that]) (use assms in blast)+
  then show ?thesis
    using retry_loop_returns [of f wt policy 1 None w] by (auto simp: with_retry_def)
qed

definition counting_wait :: "nat waiting" where
  "counting_wait = \<lparr>wt_cancelled = \<lambda>_. False, wt_backoff = \<lambda>_ _ _. 0, wt_sleep = \<lambda>_ n. (True, n)\<rparr>"

theorem with_retry_attempts_witness:
  "with_retry counting_wait retry_default (\<lambda>n. Some (Err (Network ''reset'') :: (unit, perror) result, n + 1)) 0 =
     Some (Err (Network ''reset''), 3) \<and> (3 :: nat) \<le> 0 + rp_max_attempts retry_default"
proof -
  have run: "with_retry counting_wait retry_default
      (\<lambda>n. Some (Err (Network ''reset'') :: (unit, perror) result, n + 1)) 0 = Some (Err (Network ''reset''), 3)"
    by (simp add: with_retry_def retry_loop.simps counting_wait_def retry_default_def)
  then show ?thesis
    using with_retry_attempts [where f = "\<lambda>n. Some (Err (Network ''reset'') :: (unit, perror) result, n + 1)"
        and calls = id and wt = counting_wait and policy = retry_default and w = 0 and w' = 3]
    by (simp add: counting_wait_def retry_default_def)
qed

section \<open>Properties of the watchdog\<close>

definition idle_error :: "nat \<Rightarrow> nat \<times> stream_item" where
  "idle_error limit = (limit + 1, Err (StreamIdle (limit + 1)))"

lemma watch_gaps: "(gap, item) \<in> set (watch idle prefill seen xs fin) \<Longrightarrow> gap \<le> max idle prefill + 1"
  by (induction idle prefill seen xs fin rule: watch.induct)
     (auto simp: Let_def active_idle_def split: if_splits option.splits)

lemma watch_prefix:
  "(\<exists>n. watch idle prefill seen xs fin = take n xs @ [idle_error idle] \<or>
        watch idle prefill seen xs fin = take n xs @ [idle_error prefill]) \<or>
   watch idle prefill seen xs fin = xs"
proof (induction idle prefill seen xs fin rule: watch.induct)
  case (1 idle prefill seen fin)
  show ?case by (auto simp: Let_def active_idle_def idle_error_def split: option.splits)
next
  case (2 idle prefill seen gap item rest fin)
  show ?case
  proof (cases "gap \<le> active_idle idle prefill seen")
    case True
    then have *: "watch idle prefill seen ((gap, item) # rest) fin = (gap, item) # watch idle prefill True rest fin"
      by simp
    consider (idle) n where "watch idle prefill True rest fin = take n rest @ [idle_error idle]"
      | (prefill) n where "watch idle prefill True rest fin = take n rest @ [idle_error prefill]"
      | (all) "watch idle prefill True rest fin = rest"
      using 2 True by auto
    then show ?thesis
    proof cases
      case idle
      then have "(gap, item) # watch idle prefill True rest fin = take (Suc n) ((gap, item) # rest) @ [idle_error idle]"
        by simp
      then show ?thesis unfolding * by blast
    next
      case prefill
      then have "(gap, item) # watch idle prefill True rest fin = take (Suc n) ((gap, item) # rest) @ [idle_error prefill]"
        by simp
      then show ?thesis unfolding * by blast
    next
      case all
      then show ?thesis unfolding * by simp
    qed
  next
    case False
    then have "watch idle prefill seen ((gap, item) # rest) fin = [idle_error (active_idle idle prefill seen)]"
      by (simp add: idle_error_def Let_def)
    then have "watch idle prefill seen ((gap, item) # rest) fin = take 0 rest @ [idle_error idle] \<or>
        watch idle prefill seen ((gap, item) # rest) fin = take 0 rest @ [idle_error prefill]"
      by (cases seen) (simp_all only: active_idle_def if_True if_False take_0 append_Nil simp_thms)
    then show ?thesis by (metis take_0)
  qed
qed

lemma watch_in_time:
  "list_all (\<lambda>(gap, _). gap \<le> idle) xs \<Longrightarrow> fin = Some g \<Longrightarrow> g \<le> idle \<Longrightarrow> watch idle prefill True xs fin = xs"
  by (induction xs) (auto simp: active_idle_def)

text \<open>
  A watched stream never keeps its consumer waiting: it ends, and between two items there
  are at most the greater of the two limits and a millisecond, whatever the provider does. It
  gives the provider's items unchanged up to the first silence that exceeds the limit in force,
  and then reports the silence as its last item; a stream whose first item comes within the
  prefill budget and whose other items and end come within the idle limit is not touched.
\<close>

theorem watchdog_bounds_silence:
  "ts_end (watched_stream idle prefill s) \<noteq> None \<and>
   list_all (\<lambda>(gap, _). gap \<le> max idle prefill + 1) (ts_items (watched_stream idle prefill s)) \<and>
   ((\<exists>n. ts_items (watched_stream idle prefill s) = take n (ts_items s) @ [idle_error idle] \<or>
         ts_items (watched_stream idle prefill s) = take n (ts_items s) @ [idle_error prefill]) \<or>
    ts_items (watched_stream idle prefill s) = ts_items s) \<and>
   (\<forall>gap item rest g. ts_items s = (gap, item) # rest \<and> gap \<le> prefill \<and>
      list_all (\<lambda>(gap, _). gap \<le> idle) rest \<and> ts_end s = Some g \<and> g \<le> idle \<longrightarrow>
      ts_items (watched_stream idle prefill s) = ts_items s)"
proof (intro conjI allI impI)
  show "ts_end (watched_stream idle prefill s) \<noteq> None" by (simp add: watched_stream_def)
  show "list_all (\<lambda>(gap, _). gap \<le> max idle prefill + 1) (ts_items (watched_stream idle prefill s))"
    by (auto simp: list_all_iff watched_stream_def dest!: watch_gaps)
  show "(\<exists>n. ts_items (watched_stream idle prefill s) = take n (ts_items s) @ [idle_error idle] \<or>
         ts_items (watched_stream idle prefill s) = take n (ts_items s) @ [idle_error prefill]) \<or>
    ts_items (watched_stream idle prefill s) = ts_items s"
    using watch_prefix [of idle prefill False "ts_items s" "ts_end s"] by (simp add: watched_stream_def)
  fix gap item rest g
  assume "ts_items s = (gap, item) # rest \<and> gap \<le> prefill \<and>
      list_all (\<lambda>(gap, _). gap \<le> idle) rest \<and> ts_end s = Some g \<and> g \<le> idle"
  then show "ts_items (watched_stream idle prefill s) = ts_items s"
    using watch_in_time by (auto simp: watched_stream_def active_idle_def)
qed

theorem watchdog_bounds_silence_witness:
  "ts_items (watched_stream 10 100 \<lparr>ts_items = [(90, Ok Ping), (5, Ok MessageStop)], ts_end = Some 0\<rparr>) =
     [(90, Ok Ping), (5, Ok MessageStop)]"
  using watchdog_bounds_silence
    [of 10 100 "\<lparr>ts_items = [(90, Ok Ping), (5, Ok MessageStop)], ts_end = Some 0\<rparr>"] by simp

section \<open>The two assemblers agree\<close>

text \<open>An event is regular when the block it is for is in the state that the event expects.\<close>

definition block_open :: "accumulator \<Rightarrow> nat \<Rightarrow> bool" where
  "block_open acc i \<longleftrightarrow> i < length (ma_active acc) \<and> ma_active acc ! i \<noteq> None"

fun input_parses :: "(string \<Rightarrow> json option) \<Rightarrow> active_block \<Rightarrow> bool" where
  "input_parses parse (ActiveToolUse _ _ buf) = (buf = [] \<or> parse buf \<noteq> None)"
| "input_parses parse _ = True"

fun regular :: "(string \<Rightarrow> json option) \<Rightarrow> stream_event \<Rightarrow> accumulator \<Rightarrow> bool" where
  "regular parse (ContentBlockStart i ct) acc = (ct \<noteq> CtImage \<and> \<not> block_open acc i)"
| "regular parse (Delta i d) acc =
     (block_open acc i \<and> (case ma_active acc ! i of None \<Rightarrow> False | Some a \<Rightarrow> extended d a \<noteq> None))"
| "regular parse (ContentBlockStop i) acc =
     (block_open acc i \<and> (case ma_active acc ! i of None \<Rightarrow> False | Some a \<Rightarrow> input_parses parse a))"
| "regular parse _ acc = True"

fun regular_stream :: "(string \<Rightarrow> json option) \<Rightarrow> stream_event list \<Rightarrow> accumulator \<Rightarrow> bool" where
  "regular_stream parse [] acc = True"
| "regular_stream parse (ev # evs) acc =
     (regular parse ev acc \<and> regular_stream parse evs (acc_event parse ev acc))"

definition acc_events :: "(string \<Rightarrow> json option) \<Rightarrow> stream_event list \<Rightarrow> accumulator \<Rightarrow> accumulator" where
  "acc_events parse evs acc = fold (acc_event parse) evs acc"

definition parse_ok :: "(string \<Rightarrow> (json, string) result) \<Rightarrow> string \<Rightarrow> json option" where
  "parse_ok p s = (case p s of Ok v \<Rightarrow> Some v | Err _ \<Rightarrow> None)"

fun slot_rel :: "active_block option \<Rightarrow> content_type \<Rightarrow> string \<Rightarrow> string \<Rightarrow> string \<Rightarrow> bool" where
  "slot_rel None t x j g = (x = [] \<and> j = [] \<and> g = [])"
| "slot_rel (Some (ActiveText y)) CtText x j g = (x = y \<and> j = [] \<and> g = [])"
| "slot_rel (Some (ActiveThinking y h)) CtThinking x j g = (x = y \<and> j = [] \<and> g = h)"
| "slot_rel (Some (ActiveToolUse i n b)) (CtToolUse i' n') x j g =
     (i = i' \<and> n = n' \<and> x = [] \<and> j = b \<and> g = [])"
| "slot_rel (Some _) _ x j g = False"

definition sim :: "collector \<Rightarrow> accumulator \<Rightarrow> bool" where
  "sim c a \<longleftrightarrow>
     (let n = length (ma_active a) in
      length (co_blocks c) = n \<and> length (co_types c) = n \<and> length (co_text c) = n \<and>
      length (co_json c) = n \<and> length (co_sig c) = n \<and> co_blocks c = ma_blocks a \<and>
      co_stop c = ma_stop_reason a \<and> co_usage c = ma_usage a \<and>
      (\<forall>i < n. slot_rel (ma_active a ! i) (co_types c ! i) (co_text c ! i) (co_json c ! i) (co_sig c ! i)))"

lemma length_grow [simp]: "length (grow n x xs) = max n (length xs)"
  by (simp add: grow_def)

lemma nth_grow: "i < max n (length xs) \<Longrightarrow> grow n x xs ! i = (if i < length xs then xs ! i else x)"
  by (auto simp: grow_def nth_append)

lemma sim_grow:
  assumes "sim c a"
  shows "sim (collector_grow i c) (ensure_index i a) \<and> i < length (ma_active (ensure_index i a)) \<and>
    (\<not> block_open a i \<longrightarrow> ma_active (ensure_index i a) ! i = None)"
  using assms
  by (auto simp: sim_def Let_def collector_grow_def ensure_index_def nth_grow block_open_def)

lemma sim_start:
  assumes "sim c a" "i < length (ma_active a)" "ma_active a ! i = None" "opened ct = Some b"
  shows "sim (c\<lparr>co_types := (co_types c)[i := ct]\<rparr>) (a\<lparr>ma_active := (ma_active a)[i := Some b]\<rparr>)"
proof -
  have "slot_rel None (co_types c ! i) (co_text c ! i) (co_json c ! i) (co_sig c ! i)"
    using assms(1-3) by (auto simp: sim_def Let_def)
  then have "slot_rel (Some b) ct (co_text c ! i) (co_json c ! i) (co_sig c ! i)"
    using assms(4) by (cases ct) auto
  then show ?thesis using assms(1,2) by (auto simp: sim_def Let_def nth_list_update)
qed

lemma sim_delta:
  assumes "sim c a" "regular parse (Delta i d) a"
  shows "\<exists>c'. collect_event p (Delta i d) c = Ok c' \<and> sim c' (acc_event parse (Delta i d) a)"
proof -
  obtain b b' where b: "i < length (ma_active a)" "ma_active a ! i = Some b" "extended d b = Some b'"
    using assms(2) by (auto simp: block_open_def)
  then have rel: "slot_rel (Some b) (co_types c ! i) (co_text c ! i) (co_json c ! i) (co_sig c ! i)"
    using assms(1) by (auto simp: sim_def Let_def)
  have "i < length (co_types c)" using assms(1) b(1) by (simp add: sim_def Let_def)
  moreover have "sim (case d of
           DText s \<Rightarrow> c\<lparr>co_text := (co_text c)[i := co_text c ! i @ s]\<rparr>
         | DThinking s \<Rightarrow> c\<lparr>co_text := (co_text c)[i := co_text c ! i @ s]\<rparr>
         | DToolUseInputJson s \<Rightarrow> c\<lparr>co_json := (co_json c)[i := co_json c ! i @ s]\<rparr>
         | DSignature s \<Rightarrow> c\<lparr>co_sig := (co_sig c)[i := co_sig c ! i @ s]\<rparr>)
      (a\<lparr>ma_active := (ma_active a)[i := Some b']\<rparr>)"
    using assms(1) b rel
    by (cases d; cases b; cases "co_types c ! i") (auto simp: sim_def Let_def nth_list_update)
  ultimately show ?thesis using b by auto
qed

lemma sim_stop:
  assumes "sim c a" "regular (parse_ok p) (ContentBlockStop i) a"
  shows "\<exists>c'. collect_event p (ContentBlockStop i) c = Ok c' \<and>
    sim c' (acc_event (parse_ok p) (ContentBlockStop i) a)"
proof -
  obtain b where b: "i < length (ma_active a)" "ma_active a ! i = Some b" "input_parses (parse_ok p) b"
    using assms(2) by (auto simp: block_open_def)
  then have rel: "slot_rel (Some b) (co_types c ! i) (co_text c ! i) (co_json c ! i) (co_sig c ! i)"
    using assms(1) by (auto simp: sim_def Let_def)
  have len: "i < length (co_types c)" "i < length (ma_blocks a)"
    using assms(1) b(1) by (auto simp: sim_def Let_def)
  let ?a = "a\<lparr>ma_active := (ma_active a)[i := None], ma_blocks := (ma_blocks a)[i := finish_block (parse_ok p) b]\<rparr>"
  have "\<exists>c'. collect_stop p i c = Ok c' \<and> sim c' ?a"
  proof (cases b)
    case (ActiveText s)
    then show ?thesis using rel assms(1) b(1)
      by (cases "co_types c ! i") (auto simp: collect_stop_def sim_def Let_def nth_list_update)
  next
    case (ActiveThinking s g)
    then show ?thesis using rel assms(1) b(1)
      by (cases "co_types c ! i") (auto simp: collect_stop_def sim_def Let_def nth_list_update)
  next
    case (ActiveToolUse tid name buf)
    then have t: "co_types c ! i = CtToolUse tid name" "co_json c ! i = buf" "co_text c ! i = []" "co_sig c ! i = []"
      using rel by (cases "co_types c ! i"; auto)+
    have "\<exists>v. (if buf = [] then Ok (JObject [])
        else map_err (\<lambda>e. InvalidRequest (''tool_use input json parse error: '' @ e)) (p buf)) = Ok v \<and>
        v = tool_input (parse_ok p) buf"
      using b(3) ActiveToolUse by (auto simp: tool_input_def parse_ok_def split: result.splits)
    then show ?thesis using ActiveToolUse t assms(1) b(1)
      by (auto simp: collect_stop_def sim_def Let_def nth_list_update split: if_splits)
  qed
  then show ?thesis using b len by (auto simp: finalize_block_def Let_def)
qed

lemma sim_step:
  assumes "sim c a" "regular (parse_ok p) ev a"
  shows "\<exists>c'. collect_event p ev c = Ok c' \<and> sim c' (acc_event (parse_ok p) ev a)"
proof (cases ev)
  case (ContentBlockStart i ct)
  then obtain b where "opened ct = Some b" using assms(2) by (cases ct) auto
  then show ?thesis
    using sim_grow [OF assms(1), of i] assms(2) ContentBlockStart sim_start by (auto simp: Let_def)
next
  case (Delta i d)
  then show ?thesis using sim_delta assms by blast
next
  case (ContentBlockStop i)
  then show ?thesis using sim_stop assms by blast
qed (use assms in \<open>auto simp: sim_def Let_def\<close>)

lemma sim_run:
  "sim c a \<Longrightarrow> regular_stream (parse_ok p) evs a \<Longrightarrow>
   \<exists>c'. collect_loop p (map Ok evs) c = Ok c' \<and> sim c' (acc_events (parse_ok p) evs a)"
proof (induction evs arbitrary: c a)
  case (Cons ev evs)
  then obtain c' where "collect_event p ev c = Ok c'" "sim c' (acc_event (parse_ok p) ev a)"
    using sim_step by (metis regular_stream.simps(2))
  then show ?case using Cons by (auto simp: acc_events_def)
qed (simp add: acc_events_def)

text \<open>
  The agent loop's accumulator and the provider crate's \<open>collect_message\<close> assemble the
  same message, stop reason and usage from every regular stream of events (blocks opened before
  their deltas and closed once, deltas of the block's type, inputs that parse), but for the empty
  text blocks, which only the loop drops; on such a stream the collector never fails.
\<close>

theorem accumulator_agrees_with_collector:
  assumes "regular_stream (parse_ok p) evs acc_new"
  shows "\<exists>m. collect_message p (map Ok evs) =
      Ok (m, unwrap_or EndTurn (ma_stop_reason (acc_events (parse_ok p) evs acc_new)),
          ma_usage (acc_events (parse_ok p) evs acc_new)) \<and>
    into_message (acc_events (parse_ok p) evs acc_new) =
      m\<lparr>msg_content := filter (\<lambda>b. \<not> is_empty_text b) (msg_content m)\<rparr>"
proof -
  have "sim collector_new acc_new" by (simp add: sim_def collector_new_def acc_new_def)
  then obtain c where c: "collect_loop p (map Ok evs) collector_new = Ok c"
      "sim c (acc_events (parse_ok p) evs acc_new)"
    using sim_run assms by blast
  then show ?thesis
    by (intro exI [of _ "\<lparr>msg_role = Assistant, msg_content = co_blocks c\<rparr>"])
       (simp add: collect_message_def sim_def Let_def into_message_def)
qed

definition sample_events :: "stream_event list" where
  "sample_events =
     [MessageStart ''m'' ''model'', ContentBlockStart 0 CtText, Delta 0 (DText ''hi''), ContentBlockStop 0,
      ContentBlockStart 1 (CtToolUse ''t'' ''Read''), ContentBlockStop 1,
      MessageDelta (Some ToolUseStop) None, MessageStop]"

theorem accumulator_agrees_with_collector_witness:
  "\<exists>m. collect_message (\<lambda>_. Err ''no'') (map Ok sample_events) = Ok (m, ToolUseStop, 0) \<and>
    into_message (acc_events (parse_ok (\<lambda>_. Err ''no'')) sample_events acc_new) =
      m\<lparr>msg_content := filter (\<lambda>b. \<not> is_empty_text b) (msg_content m)\<rparr>"
proof -
  have "regular_stream (parse_ok (\<lambda>_. Err ''no'')) sample_events acc_new"
    by (simp add: sample_events_def acc_new_def block_open_def ensure_index_def grow_def finalize_block_def Let_def)
  moreover have "unwrap_or EndTurn (ma_stop_reason (acc_events (parse_ok (\<lambda>_. Err ''no'')) sample_events acc_new)) = ToolUseStop"
      "ma_usage (acc_events (parse_ok (\<lambda>_. Err ''no'')) sample_events acc_new) = 0"
    by (simp_all add: sample_events_def acc_events_def acc_new_def ensure_index_def grow_def finalize_block_def Let_def)
  ultimately show ?thesis
    using accumulator_agrees_with_collector [of "\<lambda>_. Err ''no''" sample_events] by simp
qed

end
