(* ===== verification/Permissions.thy ===== *)
theory Permissions
  imports Matcher
begin

text \<open>
  Permission rules: the data and the built-in rules (\<open>caliban-config-types\<close>), the
  session's runtime rules, the evaluation of a rule set and \<open>PermissionsHook\<close>
  (\<open>caliban-agent-core/src/permissions.rs\<close>), and the permission mode with its startup
  gate (\<open>permission_mode.rs\<close>, \<open>plan_mode.rs\<close>).

  The definitions take the match predicate of \<open>Matcher\<close>, fixed to a workspace and to
  the glob package, as an argument \<open>mt\<close>.
\<close>

section \<open>Rules\<close>

(* map: src/crates/caliban-config-types/src/permissions.rs 14-24 Action *)
datatype rule_action = RAllow | RDeny | RAsk

(* map: src/crates/caliban-config-types/src/permissions.rs 27-43 Rule *)
record rule =
  rl_tool :: string
  rl_action :: rule_action
  rl_comment :: "string option"
  rl_reason :: "string option"
  rl_expires_at :: "int option"

definition plain_rule :: "string \<Rightarrow> rule_action \<Rightarrow> rule" where
  "plain_rule t a =
     \<lparr>rl_tool = t, rl_action = a, rl_comment = None, rl_reason = None, rl_expires_at = None\<rparr>"

lemma plain_rule_sel [simp]:
  "rl_tool (plain_rule t a) = t" "rl_action (plain_rule t a) = a"
  "rl_comment (plain_rule t a) = None" "rl_reason (plain_rule t a) = None"
  by (simp_all add: plain_rule_def)

(* map: src/crates/caliban-config-types/src/permissions.rs 53-77 default_rules *)
definition default_rules :: "rule list" where
  "default_rules = map (\<lambda>(t, a). plain_rule t a)
     [(''Read'', RAllow),
      (''Grep'', RAllow),
      (''Glob'', RAllow),
      (''WebFetch'', RAsk),
      (''Bash'', RAsk),
      (''Write'', RAsk),
      (''Edit'', RAsk),
      (''TodoWrite'', RAllow),
      (''EnterPlanMode'', RAllow),
      (''ExitPlanMode'', RAllow),
      (''*'', RAsk)]"

type_synonym matcher = "string \<Rightarrow> tool_ctx \<Rightarrow> bool"

(* map: src/crates/caliban-agent-core/src/permissions.rs 161-163 rule_matches *)
definition rule_matches :: "matcher \<Rightarrow> rule \<Rightarrow> tool_ctx \<Rightarrow> bool" where
  "rule_matches mt r ctx = mt (rl_tool r) ctx"

(* map: src/crates/caliban-agent-core/src/permissions.rs 168-171 evaluate_rules *)
definition evaluate_rules :: "matcher \<Rightarrow> rule list \<Rightarrow> tool_ctx \<Rightarrow> rule option" where
  "evaluate_rules mt rules ctx = find (\<lambda>r. rule_matches mt r ctx) rules"

section \<open>Runtime rules\<close>

(* map: src/crates/caliban-agent-core/src/permissions.rs 36-42 RuntimeRule *)
record runtime_rule =
  rr_pattern :: string
  rr_action :: rule_action

type_synonym rule_store = "runtime_rule list"

(* map: src/crates/caliban-agent-core/src/permissions.rs 56-58 RuntimeRuleStore::new *)
definition store_new :: rule_store where
  "store_new = []"

(* map: src/crates/caliban-agent-core/src/permissions.rs 69-74 RuntimeRuleStore::add *)
definition store_add :: "runtime_rule \<Rightarrow> rule_store \<Rightarrow> rule_store" where
  "store_add r s = s @ [r]"

(* map: src/crates/caliban-agent-core/src/permissions.rs 83-88 RuntimeRuleStore::snapshot *)
definition store_snapshot :: "rule_store \<Rightarrow> runtime_rule list" where
  "store_snapshot s = s"

(* map: src/crates/caliban-agent-core/src/permissions.rs 99-106 RuntimeRuleStore::remove *)
definition store_remove :: "nat \<Rightarrow> rule_store \<Rightarrow> runtime_rule option \<times> rule_store" where
  "store_remove i s =
     (if i < length s then (Some (s ! i), take i s @ drop (i + 1) s) else (None, s))"

fun first_runtime :: "matcher \<Rightarrow> runtime_rule list \<Rightarrow> tool_ctx \<Rightarrow> rule_action option" where
  "first_runtime mt [] ctx = None"
| "first_runtime mt (r # rs) ctx =
     (if rule_matches mt (plain_rule (rr_pattern r) (rr_action r)) ctx then Some (rr_action r)
      else first_runtime mt rs ctx)"

(* map: src/crates/caliban-agent-core/src/permissions.rs 116-131 RuntimeRuleStore::evaluate *)
definition store_evaluate :: "matcher \<Rightarrow> rule_store \<Rightarrow> tool_ctx \<Rightarrow> rule_action option" where
  "store_evaluate mt s ctx = first_runtime mt (rev s) ctx"

text \<open>
  The contract of an overlay of rules: the newest rule that matches a call decides it, and a
  rule that does not match leaves the decision as it was.
\<close>

locale rule_overlay =
  fixes empty :: 's
    and add :: "'r \<Rightarrow> 's \<Rightarrow> 's"
    and eval :: "'s \<Rightarrow> 'c \<Rightarrow> 'a option"
    and applies :: "'r \<Rightarrow> 'c \<Rightarrow> bool"
    and act :: "'r \<Rightarrow> 'a"
  assumes eval_empty: "eval empty c = None"
    and eval_add: "eval (add r s) c = (if applies r c then Some (act r) else eval s c)"
begin

definition added :: "'r list \<Rightarrow> 's" where
  "added rs = fold add rs empty"

lemma eval_fold:
  "eval (fold add rs s) c =
     (case find (\<lambda>r. applies r c) (rev rs) of Some r \<Rightarrow> Some (act r) | None \<Rightarrow> eval s c)"
proof (induction rs arbitrary: s)
  case (Cons r rs)
  show ?case
    by (simp add: Cons.IH find_append eval_add split: option.splits)
qed simp

lemma eval_added:
  "eval (added rs) c = map_option act (find (\<lambda>r. applies r c) (rev rs))"
  by (simp add: added_def eval_fold eval_empty split: option.splits)

lemma newest_wins:
  "applies r c \<Longrightarrow> \<forall>r' \<in> set later. \<not> applies r' c \<Longrightarrow>
   eval (fold add (earlier @ r # later) s) c = Some (act r)"
  by (simp only: eval_fold) (simp add: find_append find_None_iff option.case_eq_if)

end

definition runtime_applies :: "matcher \<Rightarrow> runtime_rule \<Rightarrow> tool_ctx \<Rightarrow> bool" where
  "runtime_applies mt r ctx = mt (rr_pattern r) ctx"

lemma store_evaluate_find:
  "store_evaluate mt s ctx = map_option rr_action (find (\<lambda>r. runtime_applies mt r ctx) (rev s))"
proof -
  have "first_runtime mt rs ctx =
      map_option rr_action (find (\<lambda>r. runtime_applies mt r ctx) rs)" for rs
    by (induction rs) (simp_all add: rule_matches_def runtime_applies_def)
  then show ?thesis by (simp add: store_evaluate_def)
qed

interpretation overlay: rule_overlay store_new store_add "store_evaluate mt" "runtime_applies mt"
  rr_action for mt
  by unfold_locales
     (simp_all add: store_evaluate_find store_new_def store_add_def)

lemma store_fold_add: "fold store_add rs s = s @ rs"
  by (induction rs arbitrary: s) (simp_all add: store_add_def)

section \<open>Modes\<close>

(* map: src/crates/caliban-config-types/src/permission_mode.rs 14-34 PermissionMode *)
datatype permission_mode = Default | AcceptEdits | Plan | Auto | DontAsk | BypassPermissions

(* map: src/crates/caliban-config-types/src/permission_mode.rs 38-48 PermissionMode::next *)
fun mode_next :: "permission_mode \<Rightarrow> permission_mode" where
  "mode_next Default = AcceptEdits"
| "mode_next AcceptEdits = Plan"
| "mode_next Plan = Auto"
| "mode_next Auto = DontAsk"
| "mode_next DontAsk = BypassPermissions"
| "mode_next BypassPermissions = Default"

(* map: src/crates/caliban-config-types/src/permission_mode.rs 51-61 PermissionMode::prev *)
fun mode_prev :: "permission_mode \<Rightarrow> permission_mode" where
  "mode_prev Default = BypassPermissions"
| "mode_prev AcceptEdits = Default"
| "mode_prev Plan = AcceptEdits"
| "mode_prev Auto = Plan"
| "mode_prev DontAsk = Auto"
| "mode_prev BypassPermissions = DontAsk"

(* map: src/crates/caliban-config-types/src/permission_mode.rs 65-75 PermissionMode::chip *)
fun mode_chip :: "permission_mode \<Rightarrow> string" where
  "mode_chip Default = []"
| "mode_chip AcceptEdits = [CHR 0xE2, CHR 0x9C, CHR 0x8E] @ '' accept edits''"
| "mode_chip Plan = [CHR 0xF0, CHR 0x9F, CHR 0x93, CHR 0x8B] @ '' plan''"
| "mode_chip Auto = [CHR 0xF0, CHR 0x9F, CHR 0xA4, CHR 0x96] @ '' auto''"
| "mode_chip DontAsk = [CHR 0xE2, CHR 0x8F, CHR 0xAD] @ '' don'' @ [CHR 0x27] @ ''t ask''"
| "mode_chip BypassPermissions = [CHR 0xE2, CHR 0x9A, CHR 0xA0] @ '' bypass''"

(* map: src/crates/caliban-config-types/src/permission_mode.rs 82-92 PermissionMode::parse *)
definition mode_parse :: "string \<Rightarrow> (permission_mode, string) result" where
  "mode_parse s =
     (if s = ''default'' then Ok Default
      else if s = ''acceptEdits'' then Ok AcceptEdits
      else if s = ''plan'' then Ok Plan
      else if s = ''auto'' then Ok Auto
      else if s = ''dontAsk'' then Ok DontAsk
      else if s = ''bypassPermissions'' then Ok BypassPermissions
      else Err s)"

(* map: src/crates/caliban-config-types/src/permission_mode.rs 96-105 PermissionMode::as_str *)
fun mode_as_str :: "permission_mode \<Rightarrow> string" where
  "mode_as_str Default = ''default''"
| "mode_as_str AcceptEdits = ''acceptEdits''"
| "mode_as_str Plan = ''plan''"
| "mode_as_str Auto = ''auto''"
| "mode_as_str DontAsk = ''dontAsk''"
| "mode_as_str BypassPermissions = ''bypassPermissions''"

abbreviation sq :: string where
  "sq \<equiv> [CHR 0x27]"

(* map: src/crates/caliban-agent-core/src/permission_mode.rs 81-100 resolve_startup_mode *)
definition resolve_startup_mode ::
  "string option \<Rightarrow> string option \<Rightarrow> bool \<Rightarrow> (permission_mode, string) result" where
  "resolve_startup_mode cli settings_default_mode bypass_latch =
     (case (case cli of
              Some s \<Rightarrow> map_err (\<lambda>bad. ''--permission-mode: unknown mode '' @ sq @ bad @ sq) (mode_parse s)
            | None \<Rightarrow>
                (case settings_default_mode of
                   Some s \<Rightarrow> map_err (\<lambda>bad. ''permissions.default_mode: unknown mode '' @ sq @ bad @ sq)
                               (mode_parse s)
                 | None \<Rightarrow> Ok Default)) of
        Err e \<Rightarrow> Err e
      | Ok mode \<Rightarrow>
          if mode = BypassPermissions \<and> \<not> bypass_latch
          then Err ''bypassPermissions requires --allow-dangerously-skip-permissions''
          else Ok mode)"

(* map: src/crates/caliban-agent-core/src/permission_mode.rs 107-113 is_file_edit_tool *)
definition is_file_edit_tool :: "string \<Rightarrow> bool" where
  "is_file_edit_tool name = (name \<in> {''Write'', ''Edit'', ''MultiEdit'', ''NotebookEdit''})"

(* map: src/crates/caliban-agent-core/src/plan_mode.rs 33-41 is_plan_control_tool *)
definition is_plan_control_tool :: "string \<Rightarrow> bool" where
  "is_plan_control_tool name = (name \<in> {''EnterPlanMode'', ''ExitPlanMode''})"

lemma mode_parse_Ok [perm_simps]: "mode_parse s = Ok m \<longleftrightarrow> s = mode_as_str m"
  by (cases m) (auto simp: mode_parse_def)

lemma mode_as_str_inject [simp]: "mode_as_str m = mode_as_str m' \<longleftrightarrow> m = m'"
  by (metis mode_parse_Ok result.inject(1))

lemma mode_next_reaches: "\<exists>k \<le> 5. (mode_next ^^ k) m = m'"
proof -
  have "\<exists>k \<in> {0, 1, 2, 3, 4, 5}. (mode_next ^^ k) m = m'"
    by (cases m; cases m'; simp add: numeral_eq_Suc)
  then obtain k where "k \<in> {0, 1, 2, 3, 4, 5 :: nat}" "(mode_next ^^ k) m = m'" by blast
  moreover from this(1) have "k \<le> 5" by auto
  ultimately show ?thesis by blast
qed

text \<open>
  The six names are the modes' only spellings, in both directions, and the Shift+Tab
  cycle visits every mode: \<open>prev\<close> undoes \<open>next\<close>, and from any mode every other is
  at most five steps away.
\<close>

theorem mode_round_trip_and_cycle:
  "(mode_parse s = Ok m) = (s = mode_as_str m) \<and>
   mode_prev (mode_next m) = m \<and> mode_next (mode_prev m) = m \<and>
   (\<exists>k \<le> 5. (mode_next ^^ k) m = m')"
proof -
  have "mode_prev (mode_next m) = m" "mode_next (mode_prev m) = m"
    by (cases m; simp)+
  then show ?thesis using mode_next_reaches mode_parse_Ok by blast
qed

lemma mode_parse_cases:
  obtains (ok) m where "mode_parse s = Ok m" "s = mode_as_str m"
  | (err) "mode_parse s = Err s" "\<And>m. s \<noteq> mode_as_str m"
proof (cases "mode_parse s")
  case (Ok m)
  then show ?thesis using ok mode_parse_Ok by blast
next
  case (Err e)
  then have "mode_parse s = Err s" by (auto simp: mode_parse_def split: if_splits)
  then show ?thesis using err mode_parse_Ok [of s] by force
qed

text \<open>
  The startup gate: without the confirmation flag no combination of command line and
  settings starts in \<open>bypassPermissions\<close>; otherwise the command line wins over the
  settings, a mode that does not parse is an error, and nothing given means the default mode.
\<close>

theorem startup_mode_gate:
  "(resolve_startup_mode cli settings latch = Ok m) =
     ((if m = BypassPermissions then latch else True) \<and>
      (case or_opt cli settings of None \<Rightarrow> m = Default | Some s \<Rightarrow> s = mode_as_str m))"
proof (cases "or_opt cli settings")
  case None
  then show ?thesis
    by (cases cli; cases settings) (auto simp: resolve_startup_mode_def)
next
  case (Some s)
  show ?thesis
  proof (cases s rule: mode_parse_cases)
    case (ok m0)
    with Some show ?thesis
      by (cases cli; cases settings) (auto simp: resolve_startup_mode_def)
  next
    case err
    with Some show ?thesis
      by (cases cli; cases settings) (auto simp: resolve_startup_mode_def)
  qed
qed

section \<open>The hook\<close>

text \<open>
  The ask handler resolves a call whose rule is \<open>Ask\<close>. Without a terminal it denies with a
  hint on how to allow the tool, or allows everything under \<open>--auto-allow\<close>.
\<close>

type_synonym 'w ask_handler = "tool_ctx \<Rightarrow> 'w \<Rightarrow> hook_decision \<times> 'w"

(* map: src/crates/caliban-agent-core/src/permissions.rs 215-228 non_interactive_deny_message *)
definition non_interactive_deny_message :: "string \<Rightarrow> string" where
  "non_interactive_deny_message tool_name =
     (let head = ''permission denied: '' @ sq @ tool_name @ sq @
                 '' requires interactive approval (no TTY)'';
          hint =
            (if is_file_edit_tool tool_name then
               ''re-run with '' @ quoted ''--permission-mode acceptEdits'' @
               '' to auto-allow file edits, or '' @
               quoted (''--allow '' @ sq @ ''<Tool>(<glob>)'' @ sq) @ '' for a narrower rule''
             else if tool_name = ''Bash'' then
               ''re-run with '' @ quoted (''--allow '' @ sq @ ''Bash(<glob>)'' @ sq) @
               '' to allow specific commands, or '' @ quoted ''--auto-allow'' @
               '' to allow all Ask-rule tools (dangerous)''
             else
               ''re-run with '' @ quoted (''--allow '' @ sq @ ''<Tool>'' @ sq) @
               '' to allow this tool, or '' @ quoted ''--auto-allow'' @
               '' to allow all Ask-rule tools (dangerous)'')
      in head @ ''; '' @ hint)"

(* map: src/crates/caliban-agent-core/src/permissions.rs 190-208 NonInteractiveAskHandler *)
definition non_interactive_ask :: "bool \<Rightarrow> 'w ask_handler" where
  "non_interactive_ask auto_allow ctx w =
     (if auto_allow then (Allow, w)
      else (AskDenied (non_interactive_deny_message (tc_tool_name ctx)), w))"

text \<open>
  \<open>PermissionsHook\<close>. The runtime rules are shared with the modal, so they are read from the
  world, by \<open>ph_runtime\<close>.
\<close>

(* map: src/crates/caliban-agent-core/src/permissions.rs 233-243 PermissionsHook *)
record 'w permissions_hook =
  ph_rules :: "rule list"
  ph_runtime :: "'w \<Rightarrow> rule_store"
  ph_ask :: "'w ask_handler"
  ph_inner :: "'w hooks"

fun first_rule :: "matcher \<Rightarrow> rule list \<Rightarrow> tool_ctx \<Rightarrow>
    rule_action \<times> string option \<times> string option" where
  "first_rule mt [] ctx = (RDeny, None, None)"
| "first_rule mt (r # rs) ctx =
     (if rule_matches mt r ctx then (rl_action r, rl_comment r, rl_reason r)
      else first_rule mt rs ctx)"

(* map: src/crates/caliban-agent-core/src/permissions.rs 288-306 PermissionsHook::evaluate_with_rule *)
definition evaluate_with_rule ::
  "matcher \<Rightarrow> 'w permissions_hook \<Rightarrow> tool_ctx \<Rightarrow> 'w \<Rightarrow>
     rule_action \<times> string option \<times> string option" where
  "evaluate_with_rule mt ph ctx w =
     (case store_evaluate mt (ph_runtime ph w) ctx of
        Some action \<Rightarrow> (action, None, None)
      | None \<Rightarrow> first_rule mt (ph_rules ph) ctx)"

(* map: src/crates/caliban-agent-core/src/permissions.rs 280-282 PermissionsHook::evaluate *)
definition perm_evaluate :: "matcher \<Rightarrow> 'w permissions_hook \<Rightarrow> tool_ctx \<Rightarrow> 'w \<Rightarrow> rule_action" where
  "perm_evaluate mt ph ctx w = fst (evaluate_with_rule mt ph ctx w)"

(* map: src/crates/caliban-agent-core/src/permissions.rs 309-315 action_str *)
fun action_str :: "rule_action \<Rightarrow> string" where
  "action_str RAllow = ''allow''"
| "action_str RDeny = ''deny''"
| "action_str RAsk = ''ask''"

definition perm_ctx_of :: "tool_ctx \<Rightarrow> string \<Rightarrow> string option \<Rightarrow> perm_ctx" where
  "perm_ctx_of ctx action comment =
     \<lparr>pc_turn_index = tc_turn_index ctx, pc_tool_use_id = tc_tool_use_id ctx,
      pc_tool_name = tc_tool_name ctx, pc_input = tc_input ctx,
      pc_rule_action = action, pc_rule_comment = comment\<rparr>"

text \<open>An observer event whose error is logged and ignored.\<close>

definition notify :: "(perm_ctx \<Rightarrow> ('w, unit) action) \<Rightarrow> perm_ctx \<Rightarrow> 'w \<Rightarrow> 'w" where
  "notify ev pc w = snd (ev pc w)"

(* map: src/crates/caliban-agent-core/src/permissions.rs 319-361 PermissionsHook::before_tool *)
definition permissions_before_tool ::
  "matcher \<Rightarrow> 'w permissions_hook \<Rightarrow> tool_ctx \<Rightarrow> ('w, hook_decision) action" where
  "permissions_before_tool mt ph ctx w =
     (let (action, comment, reason) = evaluate_with_rule mt ph ctx w in
      case action of
        RAllow \<Rightarrow> hk_before_tool (ph_inner ph) ctx w
      | RDeny \<Rightarrow>
          (let w1 = notify (hk_permission_denied (ph_inner ph))
                      (perm_ctx_of ctx (action_str RDeny) comment) w;
               deny_msg = unwrap_or (''permission denied for tool '' @ sq @ tc_tool_name ctx @ sq) reason
           in (Ok (Deny deny_msg), w1))
      | RAsk \<Rightarrow>
          (let pc = perm_ctx_of ctx (action_str RAsk) comment;
               w1 = notify (hk_permission_request (ph_inner ph)) pc w;
               (decision, w2) = ph_ask ph ctx w1
           in (case decision of
                 Deny _ \<Rightarrow> (Ok decision, notify (hk_permission_denied (ph_inner ph)) pc w2)
               | AskDenied _ \<Rightarrow> (Ok decision, notify (hk_permission_denied (ph_inner ph)) pc w2)
               | _ \<Rightarrow> (Ok decision, w2))))"

text \<open>Every other event goes to the inner hooks.\<close>

(* map: src/crates/caliban-agent-core/src/permissions.rs 317-380 PermissionsHook *)
definition permissions_hooks :: "matcher \<Rightarrow> 'w permissions_hook \<Rightarrow> 'w hooks" where
  "permissions_hooks mt ph =
     (ph_inner ph)\<lparr>hk_before_tool := permissions_before_tool mt ph, hk_is_noop := False\<rparr>"

section \<open>What the rules decide\<close>

text \<open>
  The abstract decision: one list, the runtime rules from the newest, then the configured
  rules; the first that matches decides and a call that none matches is denied.
\<close>

definition effective_rules :: "'w permissions_hook \<Rightarrow> 'w \<Rightarrow> rule list" where
  "effective_rules ph w =
     map (\<lambda>r. plain_rule (rr_pattern r) (rr_action r)) (rev (ph_runtime ph w)) @ ph_rules ph"

lemma first_rule_find:
  "fst (first_rule mt rs ctx) =
     (case find (\<lambda>r. rule_matches mt r ctx) rs of None \<Rightarrow> RDeny | Some r \<Rightarrow> rl_action r)"
  by (induction rs) auto

lemma find_map_runtime:
  "find (\<lambda>r. rule_matches mt r ctx) (map (\<lambda>r. plain_rule (rr_pattern r) (rr_action r)) rs) =
     map_option (\<lambda>r. plain_rule (rr_pattern r) (rr_action r))
       (find (\<lambda>r. runtime_applies mt r ctx) rs)"
  by (induction rs) (simp_all add: rule_matches_def runtime_applies_def)

lemma perm_evaluate_effective:
  "perm_evaluate mt ph ctx w =
     (case evaluate_rules mt (effective_rules ph w) ctx of
        None \<Rightarrow> RDeny | Some r \<Rightarrow> rl_action r)"
  by (simp add: perm_evaluate_def evaluate_with_rule_def store_evaluate_find evaluate_rules_def
      effective_rules_def find_append find_map_runtime first_rule_find split: option.splits)

text \<open>
  The hook's decision is the first match of the effective rule list, and deny when there
  is none: it fails closed, the runtime rules come first and the newest of them first of all.
\<close>

theorem perm_evaluate_first_match:
  "perm_evaluate mt ph ctx w =
     (case evaluate_rules mt (effective_rules ph w) ctx of
        None \<Rightarrow> RDeny | Some r \<Rightarrow> rl_action r)"
  by (rule perm_evaluate_effective)

text \<open>
  An answer given in the modal takes effect on the next call: after \<open>add\<close> the new rule
  decides every call it matches, whatever was added before and whatever the configuration
  says, until a newer matching rule is added; and removing it restores the store.
\<close>

theorem newest_runtime_rule_wins:
  assumes "ph_runtime ph w = fold store_add (earlier @ r # later) store_new"
    and "runtime_applies mt r ctx" and "\<forall>r' \<in> set later. \<not> runtime_applies mt r' ctx"
  shows "evaluate_with_rule mt ph ctx w = (rr_action r, None, None) \<and>
         store_remove (length earlier) (ph_runtime ph w) =
           (Some r, fold store_add (earlier @ later) store_new)"
proof -
  have "store_evaluate mt (ph_runtime ph w) ctx = Some (rr_action r)"
    unfolding assms(1) using assms(2,3) by (rule overlay.newest_wins)
  moreover have "store_remove (length earlier) (ph_runtime ph w) =
      (Some r, fold store_add (earlier @ later) store_new)"
    unfolding assms(1) store_fold_add store_new_def by (simp add: store_remove_def)
  ultimately show ?thesis by (simp add: evaluate_with_rule_def)
qed

text \<open>The matcher the hook runs with, and its catch-all.\<close>

definition ws_matcher :: "globset \<Rightarrow> string \<Rightarrow> matcher" where
  "ws_matcher gs ws pattern ctx = matches_with_workspace gs pattern ctx ws"

lemma ws_matcher_star [simp]: "ws_matcher gs ws ''*'' ctx"
  by (simp add: ws_matcher_def matches_with_workspace_def split_pattern_def paren_open_def
      split_colon_def)

definition sample_perms :: "nat permissions_hook" where
  "sample_perms = \<lparr>ph_rules = default_rules,
     ph_runtime = \<lambda>_. [\<lparr>rr_pattern = ''*'', rr_action = RDeny\<rparr>, \<lparr>rr_pattern = ''*'', rr_action = RAllow\<rparr>],
     ph_ask = non_interactive_ask False, ph_inner = noop_hooks\<rparr>"

theorem newest_runtime_rule_wins_witness:
  "evaluate_with_rule (ws_matcher sample_globset ''/w'') sample_perms sample_call 0 = (RAllow, None, None)"
proof -
  let ?mt = "ws_matcher sample_globset ''/w''"
  let ?r = "\<lparr>rr_pattern = ''*'', rr_action = RAllow\<rparr>"
  have "ph_runtime sample_perms 0 =
      fold store_add ([\<lparr>rr_pattern = ''*'', rr_action = RDeny\<rparr>] @ ?r # []) store_new"
    by (simp add: sample_perms_def store_add_def store_new_def)
  moreover have "runtime_applies ?mt ?r sample_call"
    by (simp add: runtime_applies_def)
  moreover have "\<forall>r' \<in> set []. \<not> runtime_applies ?mt r' sample_call" by simp
  ultimately have "evaluate_with_rule ?mt sample_perms sample_call 0 = (rr_action ?r, None, None)"
    by (rule conjunct1 [OF newest_runtime_rule_wins])
  then show ?thesis by simp
qed

text \<open>
  With the built-in rules at the end of the list the fall-through is dead: some rule
  always matches, so a denial always comes from a rule the operator wrote; a call that only
  the built-in rules match is never denied.
\<close>

theorem default_rules_catch_all:
  assumes "ph_rules ph = rs @ default_rules"
  shows "evaluate_rules (ws_matcher gs ws) (effective_rules ph w) ctx \<noteq> None \<and>
    (perm_evaluate (ws_matcher gs ws) ph ctx w = RDeny \<longrightarrow>
      (\<exists>r \<in> set (effective_rules (ph\<lparr>ph_rules := rs\<rparr>) w). rule_matches (ws_matcher gs ws) r ctx \<and>
         rl_action r = RDeny))"
proof -
  let ?m = "\<lambda>r. rule_matches (ws_matcher gs ws) r ctx"
  let ?top = "effective_rules (ph\<lparr>ph_rules := rs\<rparr>) w"
  have eff: "effective_rules ph w = ?top @ default_rules"
    using assms by (simp add: effective_rules_def)
  have "plain_rule ''*'' RAsk \<in> set default_rules" by (simp add: default_rules_def)
  moreover have "?m (plain_rule ''*'' RAsk)" by (simp add: rule_matches_def)
  ultimately obtain d where d: "find ?m default_rules = Some d"
    by (metis (no_types, lifting) find_None_iff not_None_eq)
  have "\<forall>r \<in> set default_rules. rl_action r \<noteq> RDeny"
    by (simp add: default_rules_def)
  then have "rl_action d \<noteq> RDeny" using find_SomeD [OF d] by blast
  show ?thesis
  proof (cases "find ?m ?top")
    case None
    then have "evaluate_rules (ws_matcher gs ws) (effective_rules ph w) ctx = Some d"
      by (simp add: evaluate_rules_def eff find_append d)
    then show ?thesis using \<open>rl_action d \<noteq> RDeny\<close> by (simp add: perm_evaluate_effective)
  next
    case (Some r)
    then have "evaluate_rules (ws_matcher gs ws) (effective_rules ph w) ctx = Some r"
      by (simp add: evaluate_rules_def eff find_append)
    moreover have "r \<in> set ?top \<and> ?m r" using Some by (rule find_SomeD)
    ultimately show ?thesis by (auto simp: perm_evaluate_effective)
  qed
qed

theorem default_rules_catch_all_witness:
  "evaluate_rules (ws_matcher sample_globset ''/w'') (effective_rules sample_perms 0) sample_call \<noteq> None"
proof -
  have "ph_rules sample_perms = [] @ default_rules" by (simp add: sample_perms_def)
  then show ?thesis by (rule conjunct1 [OF default_rules_catch_all])
qed

text \<open>A configured denial is final: the ask handler and the inner gate are not consulted.\<close>

lemma permissions_deny [perm_simps]:
  "perm_evaluate mt ph ctx w = RDeny \<Longrightarrow>
   \<exists>m. fst (permissions_before_tool mt ph ctx w) = Ok (Deny m)"
  by (auto simp: perm_evaluate_def permissions_before_tool_def Let_def split: prod.splits)

lemma permissions_allow [perm_simps]:
  "perm_evaluate mt ph ctx w = RAllow \<Longrightarrow>
   permissions_before_tool mt ph ctx w = hk_before_tool (ph_inner ph) ctx w"
  by (auto simp: perm_evaluate_def permissions_before_tool_def Let_def split: prod.splits)

lemma permissions_ask [perm_simps]:
  assumes "perm_evaluate mt ph ctx w = RAsk"
  shows "\<exists>w1. fst (permissions_before_tool mt ph ctx w) = Ok (fst (ph_ask ph ctx w1))"
proof -
  obtain comment reason where "evaluate_with_rule mt ph ctx w = (RAsk, comment, reason)"
    using assms by (cases "evaluate_with_rule mt ph ctx w") (auto simp: perm_evaluate_def)
  then have "fst (permissions_before_tool mt ph ctx w) = Ok (fst (ph_ask ph ctx
      (notify (hk_permission_request (ph_inner ph)) (perm_ctx_of ctx ''ask'' comment) w)))"
    by (simp add: permissions_before_tool_def Let_def split: prod.split hook_decision.split)
  then show ?thesis by blast
qed

end
