(* ===== verification/AutoMode.thy ===== *)
theory AutoMode
  imports Permissions "HOL-Library.List_Lexorder" "HOL-Library.Char_ord" "HOL-Library.Multiset"
begin

text \<open>
  The auto-mode classifier (\<open>crates/caliban-agent-core/src/auto_mode.rs\<close>): the static
  pre-pass over four pattern lists, the bounded cache of decisions, the canonical form of a
  call's input, the prompt and the reading of the fast model's answer.

  Parameters stand for the packages: \<open>quote\<close> prints a JSON string, \<open>print\<close> and
  \<open>parse\<close> are \<open>serde_json\<close>, \<open>sha\<close> the digest, and \<open>complete\<close> the
  provider. The library's lexicographic order on strings is Rust's order on them.
\<close>

section \<open>Verdicts and configuration\<close>

(* map: src/crates/caliban-agent-core/src/auto_mode.rs 29-38 AutoVerdict *)
datatype auto_verdict = VAllow | VSoftDeny | VHardDeny

(* map: src/crates/caliban-agent-core/src/auto_mode.rs 41-53 DecisionSource *)
datatype decision_source = StaticRule | Classifier | Cached | DisabledFallback | Fallback

(* map: src/crates/caliban-agent-core/src/auto_mode.rs 56-64 AutoModeDecision *)
record auto_decision =
  ad_verdict :: auto_verdict
  ad_reason :: string
  ad_source :: decision_source

(* map: src/crates/caliban-agent-core/src/auto_mode.rs 79-93 AutoModeConfig *)
record auto_config =
  ac_hard_deny :: "string list"
  ac_soft_deny :: "string list"
  ac_allow :: "string list"
  ac_environment :: "string list"
  ac_disabled :: bool

(* map: src/crates/caliban-agent-core/src/auto_mode.rs 121-131 DefaultsKind *)
datatype defaults_kind = KEnvironment | KAllow | KSoftDeny | KHardDeny

(* map: src/crates/caliban-agent-core/src/auto_mode.rs 101-118 default_patterns *)
fun default_patterns :: "defaults_kind \<Rightarrow> string list" where
  "default_patterns KEnvironment = [''Read'', ''Glob'', ''Grep'']"
| "default_patterns KAllow = [''Bash:cargo test*'', ''Bash:cargo check*'', ''Bash:cargo clippy*'']"
| "default_patterns KSoftDeny = [''Bash:rm *'', ''Bash:mv *'', ''Write:**/.env*'']"
| "default_patterns KHardDeny =
     [''Bash:sudo *'', ''Bash:rm -rf /*'', ''Bash:curl * | sh*'', ''Bash:* | sh*'',
      ''WebFetch:http://*'']"

definition defaults_token :: string where
  "defaults_token = ''$defaults''"

(* map: src/crates/caliban-agent-core/src/auto_mode.rs 161-173 expand_defaults_in_place *)
definition expand_defaults :: "defaults_kind \<Rightarrow> string list \<Rightarrow> string list" where
  "expand_defaults kind list =
     concat (map (\<lambda>entry. if entry = defaults_token then default_patterns kind else [entry]) list)"

(* map: src/crates/caliban-agent-core/src/auto_mode.rs 137-143 AutoModeConfig::with_defaults_expanded *)
definition with_defaults_expanded :: "auto_config \<Rightarrow> auto_config" where
  "with_defaults_expanded c = c\<lparr>
     ac_environment := expand_defaults KEnvironment (ac_environment c),
     ac_allow := expand_defaults KAllow (ac_allow c),
     ac_soft_deny := expand_defaults KSoftDeny (ac_soft_deny c),
     ac_hard_deny := expand_defaults KHardDeny (ac_hard_deny c)\<rparr>"

(* map: src/crates/caliban-agent-core/src/auto_mode.rs 179-194 pattern_matches *)
definition auto_pattern_matches :: "string \<Rightarrow> tool_ctx \<Rightarrow> bool" where
  "auto_pattern_matches pattern ctx =
     (let (tool_pat, arg_pat) = split_pattern pattern in
      if tool_pat \<noteq> ''*'' \<and> \<not> matches_glob tool_pat (tc_tool_name ctx) then False
      else (case arg_pat of
              None \<Rightarrow> True
            | Some glob \<Rightarrow>
                (case first_arg (tc_tool_name ctx) (tc_input ctx) of
                   None \<Rightarrow> False | Some arg \<Rightarrow> matches_glob glob arg)))"

(* map: src/crates/caliban-agent-core/src/auto_mode.rs 175-177 pattern_list_matches *)
definition pattern_list_matches :: "string list \<Rightarrow> tool_ctx \<Rightarrow> bool" where
  "pattern_list_matches list ctx = list_ex (\<lambda>pat. auto_pattern_matches pat ctx) list"

(* map: src/crates/caliban-agent-core/src/auto_mode.rs 147-158 AutoModeConfig::static_match *)
definition static_match :: "auto_config \<Rightarrow> tool_ctx \<Rightarrow> auto_verdict option" where
  "static_match c ctx =
     (if pattern_list_matches (ac_hard_deny c) ctx then Some VHardDeny
      else if pattern_list_matches (ac_soft_deny c) ctx then Some VSoftDeny
      else if pattern_list_matches (ac_allow c) ctx \<or> pattern_list_matches (ac_environment c) ctx
      then Some VAllow
      else None)"

section \<open>The cache\<close>

text \<open>
  The hash map is a partial function; beside it the insertion order. A new key pushes out the
  oldest when the order has grown past the capacity.
\<close>

definition cache_capacity :: nat where
  "cache_capacity = 256"

(* map: src/crates/caliban-agent-core/src/auto_mode.rs 203-210 ClassifierCache *)
record ('k, 'v) cache =
  ca_entries :: "'k \<Rightarrow> 'v option"
  ca_order :: "'k list"

definition cache_empty :: "('k, 'v) cache" where
  "cache_empty = \<lparr>ca_entries = \<lambda>_. None, ca_order = []\<rparr>"

(* map: src/crates/caliban-agent-core/src/auto_mode.rs 213-215 ClassifierCache::get *)
definition cache_get :: "'k \<Rightarrow> ('k, 'v) cache \<Rightarrow> 'v option" where
  "cache_get k c = ca_entries c k"

(* map: src/crates/caliban-agent-core/src/auto_mode.rs 217-227 ClassifierCache::put *)
definition cache_put :: "'k \<Rightarrow> 'v \<Rightarrow> ('k, 'v) cache \<Rightarrow> ('k, 'v) cache" where
  "cache_put k v c =
     (if ca_entries c k = None then
        (let order = ca_order c @ [k] in
         if length order > cache_capacity
         then \<lparr>ca_entries = (ca_entries c)(hd order := None, k := Some v), ca_order = tl order\<rparr>
         else \<lparr>ca_entries = (ca_entries c)(k := Some v), ca_order = order\<rparr>)
      else c\<lparr>ca_entries := (ca_entries c)(k := Some v)\<rparr>)"

(* map: src/crates/caliban-agent-core/src/auto_mode.rs 229-232 ClassifierCache::clear *)
definition cache_clear :: "('k, 'v) cache \<Rightarrow> ('k, 'v) cache" where
  "cache_clear c = \<lparr>ca_entries = \<lambda>_. None, ca_order = []\<rparr>"

text \<open>
  The contract of a bounded cache: an insertion is found at once, an entry is never altered by
  the insertion of another key (it may be dropped), and no more than the capacity are held.
\<close>

locale bounded_cache =
  fixes inv :: "'s \<Rightarrow> bool"
    and empty :: 's
    and get :: "'k \<Rightarrow> 's \<Rightarrow> 'v option"
    and put :: "'k \<Rightarrow> 'v \<Rightarrow> 's \<Rightarrow> 's"
    and keys :: "'s \<Rightarrow> 'k set"
    and cap :: nat
  assumes inv_empty: "inv empty"
    and inv_put: "inv s \<Longrightarrow> inv (put k v s)"
    and get_empty: "get k empty = None"
    and get_put: "inv s \<Longrightarrow> get k (put k v s) = Some v"
    and get_other: "inv s \<Longrightarrow> k' \<noteq> k \<Longrightarrow> get k' (put k v s) \<in> {None, get k' s}"
    and keys_get: "inv s \<Longrightarrow> keys s = {k. get k s \<noteq> None}"
    and bounded: "inv s \<Longrightarrow> finite (keys s) \<and> card (keys s) \<le> cap"
begin

definition filled :: "('k \<times> 'v) list \<Rightarrow> 's" where
  "filled kvs = fold (\<lambda>(k, v). put k v) kvs empty"

lemma inv_fold: "inv s \<Longrightarrow> inv (fold (\<lambda>(k, v). put k v) kvs s)"
  by (induction kvs arbitrary: s) (auto intro: inv_put)

lemma inv_filled: "inv (filled kvs)"
  by (simp add: filled_def inv_fold inv_empty)

lemma filled_bounded: "card {k. get k (filled kvs) \<noteq> None} \<le> cap"
  using bounded [OF inv_filled, of kvs] keys_get [OF inv_filled, of kvs] by simp

text \<open>Whatever a cache returns is the last decision that was put there for the key.\<close>

lemma get_fold:
  "inv s \<Longrightarrow> get k (fold (\<lambda>(k, v). put k v) kvs s) = Some v \<Longrightarrow>
   map_of (rev kvs) k = Some v \<or> (k \<notin> fst ` set kvs \<and> get k s = Some v)"
proof (induction kvs arbitrary: s)
  case (Cons kv kvs)
  obtain k0 v0 where kv: "kv = (k0, v0)" by (cases kv)
  from Cons.prems have "map_of (rev kvs) k = Some v \<or>
      (k \<notin> fst ` set kvs \<and> get k (put k0 v0 s) = Some v)"
    using Cons.IH [OF inv_put [OF Cons.prems(1)], of k0 v0] by (simp add: kv)
  moreover have "map_of (rev kvs) k = None" if "k \<notin> fst ` set kvs"
    using that by (simp add: map_of_eq_None_iff)
  ultimately show ?case
    using get_put [OF Cons.prems(1), of k0 v0] get_other [OF Cons.prems(1), of k k0 v0]
    by (cases "k = k0") (auto simp: kv map_add_Some_iff)
qed simp

lemma filled_sound: "get k (filled kvs) = Some v \<Longrightarrow> map_of (rev kvs) k = Some v"
  using get_fold [OF inv_empty] by (fastforce simp: filled_def get_empty)

end

definition cache_inv :: "('k, 'v) cache \<Rightarrow> bool" where
  "cache_inv c \<longleftrightarrow> distinct (ca_order c) \<and> set (ca_order c) = dom (ca_entries c) \<and>
     length (ca_order c) \<le> cache_capacity"

lemma cache_inv_put:
  assumes "cache_inv c"
  shows "cache_inv (cache_put k v c)"
proof (cases "ca_entries c k")
  case None
  then have "k \<notin> set (ca_order c)" using assms by (auto simp: cache_inv_def)
  then show ?thesis
    using assms None
    by (cases "ca_order c") (auto simp: cache_inv_def cache_put_def Let_def cache_capacity_def)
next
  case (Some v')
  then show ?thesis using assms by (auto simp: cache_inv_def cache_put_def)
qed

interpretation classifier_cache:
  bounded_cache cache_inv cache_empty cache_get cache_put "\<lambda>c. set (ca_order c)" cache_capacity
proof
  show "cache_inv cache_empty"
    by (simp add: cache_inv_def cache_empty_def)
  show "cache_get k cache_empty = None" for k :: 'a
    by (simp add: cache_get_def cache_empty_def)
  fix c :: "('a, 'b) cache" and k k' and v :: 'b
  assume inv: "cache_inv c"
  then show "cache_inv (cache_put k v c)" by (rule cache_inv_put)
  show "cache_get k (cache_put k v c) = Some v"
    by (simp add: cache_get_def cache_put_def Let_def)
  show "k' \<noteq> k \<Longrightarrow> cache_get k' (cache_put k v c) \<in> {None, cache_get k' c}"
    by (simp add: cache_get_def cache_put_def Let_def)
  show "set (ca_order c) = {k. cache_get k c \<noteq> None}"
    using inv by (auto simp: cache_inv_def cache_get_def)
  show "finite (set (ca_order c)) \<and> card (set (ca_order c)) \<le> cache_capacity"
    using inv le_trans [OF card_length, of "ca_order c"] unfolding cache_inv_def by blast
qed

section \<open>The key\<close>

text \<open>
  \<open>canonical_json\<close>: the members are printed in the order of their keys. The keys of an
  object are unique, so sorting the keys and looking each one up is sorting the members.
\<close>

(* map: src/crates/caliban-agent-core/src/auto_mode.rs 248-276 canonical_json *)
fun canonical_json :: "(string \<Rightarrow> string) \<Rightarrow> json \<Rightarrow> string" where
  "canonical_json quote JNull = ''null''"
| "canonical_json quote (JBool b) = (if b then ''true'' else ''false'')"
| "canonical_json quote (JNumber n) = n"
| "canonical_json quote (JString s) = quote s"
| "canonical_json quote (JArray items) =
     ''['' @ join '','' (map (canonical_json quote) items) @ '']''"
| "canonical_json quote (JObject ms) =
     (let printed = map (\<lambda>(k, v). (k, canonical_json quote v)) ms
      in ''{'' @ join '','' (map (\<lambda>k. quote k @ '':'' @ unwrap_or ''null'' (map_of printed k))
           (sort (map fst ms))) @ ''}'')"

(* map: src/crates/caliban-agent-core/src/auto_mode.rs 238-246 cache_key *)
definition cache_key ::
  "(string \<Rightarrow> string) \<Rightarrow> (string \<Rightarrow> 'h) \<Rightarrow> string \<Rightarrow> json \<Rightarrow> string \<times> 'h" where
  "cache_key quote sha tool_name input = (tool_name, sha (canonical_json quote input))"

section \<open>The classifier\<close>

(* map: src/crates/caliban-agent-core/src/auto_mode.rs 423-431 extract_text *)
definition extract_text :: "message \<Rightarrow> string" where
  "extract_text m = concat (map (\<lambda>b. case b of Text t \<Rightarrow> tb_text t | _ \<Rightarrow> []) (msg_content m))"

abbreviation fence :: string where
  "fence \<equiv> [CHR 0x60, CHR 0x60, CHR 0x60]"

definition strip_fences :: "string \<Rightarrow> string" where
  "strip_fences trimmed =
     (let opened = (case or_opt (strip_prefix (fence @ ''json'') trimmed) (strip_prefix fence trimmed) of
                      None \<Rightarrow> trimmed | Some r \<Rightarrow> trim_start r)
      in case strip_suffix fence opened of None \<Rightarrow> trimmed | Some r \<Rightarrow> trim_end r)"

(* map: src/crates/caliban-agent-core/src/auto_mode.rs 437-466 parse_classifier_response *)
definition parse_classifier_response ::
  "(string \<Rightarrow> json option) \<Rightarrow> string \<Rightarrow> (auto_verdict \<times> string) option" where
  "parse_classifier_response parse body =
     (case parse (strip_fences (trim body)) of
        None \<Rightarrow> None
      | Some v \<Rightarrow>
          (case Option.bind (or_opt (json_get v ''decision'') (json_get v ''verdict'')) json_as_str of
             None \<Rightarrow> None
           | Some d \<Rightarrow>
               map_option (\<lambda>verdict. (verdict, unwrap_or [] (json_get_str v ''reason'')))
                 (if d = ''allow'' then Some VAllow
                  else if d = ''soft_deny'' then Some VSoftDeny
                  else if d = ''hard_deny'' then Some VHardDeny
                  else None)))"

definition classifier_input_cap :: nat where
  "classifier_input_cap = 4096"

text \<open>
  \<open>build_prompt\<close>. \<open>String::truncate\<close> panics when the new length is not at a
  character boundary: the result is then \<open>None\<close>.
\<close>

definition string_truncate :: "nat \<Rightarrow> string \<Rightarrow> string option" where
  "string_truncate n s =
     (if length s \<le> n then Some s else if is_char_boundary s n then Some (take n s) else None)"

definition prompt_text :: "string \<Rightarrow> string \<Rightarrow> string" where
  "prompt_text tool_name input_text =
     ''You are a permission classifier for an autonomous coding agent. '' @
     ''Label this tool call as '' @ quoted ''allow'' @ '', '' @ quoted ''soft_deny'' @ '', or '' @
     quoted ''hard_deny'' @ ''. Respond with strict JSON: '' @
     ''{\"decision\":\"allow|soft_deny|hard_deny\",\"reason\":\"'' @ ellipsis @ ''\"}.'' @
     [CHR 0x0A] @ ''tool: '' @ tool_name @ [CHR 0x0A] @ ''input: '' @ input_text"

(* map: src/crates/caliban-agent-core/src/auto_mode.rs 470-484 build_prompt *)
definition build_prompt :: "(json \<Rightarrow> string) \<Rightarrow> string \<Rightarrow> json \<Rightarrow> string option" where
  "build_prompt print tool_name input =
     (let input_text = print input in
      if length input_text > classifier_input_cap
      then map_option (\<lambda>t. prompt_text tool_name (t @ ellipsis @ ''(truncated)''))
             (string_truncate classifier_input_cap input_text)
      else Some (prompt_text tool_name input_text))"

text \<open>
  The classifier object, the packages and the provider it is bound to. The cache is in the
  world: \<open>cl_cache\<close> and \<open>cl_set_cache\<close> read and replace it.
\<close>

(* map: src/crates/caliban-agent-core/src/auto_mode.rs 289-294 AutoModeClassifier *)
record ('w, 'h) classifier =
  cl_model :: string
  cl_config :: auto_config
  cl_cache :: "'w \<Rightarrow> (string \<times> 'h, auto_decision) cache"
  cl_set_cache :: "(string \<times> 'h, auto_decision) cache \<Rightarrow> 'w \<Rightarrow> 'w"
  cl_complete :: "request \<Rightarrow> 'w \<Rightarrow> (message, perror) result \<times> 'w"
  cl_quote :: "string \<Rightarrow> string"
  cl_print :: "json \<Rightarrow> string"
  cl_parse :: "string \<Rightarrow> json option"
  cl_sha :: "string \<Rightarrow> 'h"
  cl_show_err :: "perror \<Rightarrow> string"

definition classifier_request :: "string \<Rightarrow> string \<Rightarrow> request" where
  "classifier_request model prompt =
     \<lparr>rq_model = model, rq_messages = [msg_user_text prompt], rq_tools = [],
      rq_tool_choice = ChooseAuto, rq_max_tokens = 256, rq_temperature = Some 0, rq_top_p = None,
      rq_top_k = None, rq_stop_sequences = [], rq_thinking = ThAuto, rq_effort = None,
      rq_metadata = \<lparr>md_user_id = None, md_purpose = Some FastClassifier\<rparr>\<rparr>"

(* map: src/crates/caliban-agent-core/src/auto_mode.rs 379-420 AutoModeClassifier::classifier_call *)
definition classifier_call ::
  "('w, 'h) classifier \<Rightarrow> tool_ctx \<Rightarrow> 'w \<Rightarrow> (auto_decision \<times> 'w) option" where
  "classifier_call cl ctx w =
     (case build_prompt (cl_print cl) (tc_tool_name ctx) (tc_input ctx) of
        None \<Rightarrow> None
      | Some prompt \<Rightarrow>
          (case cl_complete cl (classifier_request (cl_model cl) prompt) w of
             (Ok resp, w') \<Rightarrow>
               (case parse_classifier_response (cl_parse cl) (extract_text resp) of
                  Some (verdict, reason) \<Rightarrow>
                    Some (\<lparr>ad_verdict = verdict, ad_reason = reason, ad_source = Classifier\<rparr>, w')
                | None \<Rightarrow>
                    Some (\<lparr>ad_verdict = VSoftDeny, ad_reason = ''classifier output malformed'',
                           ad_source = Fallback\<rparr>, w'))
           | (Err e, w') \<Rightarrow>
               Some (\<lparr>ad_verdict = VSoftDeny, ad_reason = ''classifier error: '' @ cl_show_err cl e,
                      ad_source = Fallback\<rparr>, w')))"

definition ctx_key :: "('w, 'h) classifier \<Rightarrow> tool_ctx \<Rightarrow> string \<times> 'h" where
  "ctx_key cl ctx = cache_key (cl_quote cl) (cl_sha cl) (tc_tool_name ctx) (tc_input ctx)"

(* map: src/crates/caliban-agent-core/src/auto_mode.rs 338-377 AutoModeClassifier::classify *)
definition classify ::
  "('w, 'h) classifier \<Rightarrow> tool_ctx \<Rightarrow> 'w \<Rightarrow> (auto_decision \<times> 'w) option" where
  "classify cl ctx w =
     (if ac_disabled (cl_config cl) then
        Some (\<lparr>ad_verdict = VSoftDeny, ad_reason = ''auto mode disabled'',
               ad_source = DisabledFallback\<rparr>, w)
      else
        (let key = ctx_key cl ctx in
         case cache_get key (cl_cache cl w) of
           Some cached \<Rightarrow> Some (cached\<lparr>ad_source := Cached\<rparr>, w)
         | None \<Rightarrow>
             (case static_match (cl_config cl) ctx of
                Some v \<Rightarrow>
                  (let d = \<lparr>ad_verdict = v, ad_reason = ''static rule'', ad_source = StaticRule\<rparr>
                   in Some (d, cl_set_cache cl (cache_put key d (cl_cache cl w)) w))
              | None \<Rightarrow>
                  (case classifier_call cl ctx w of
                     None \<Rightarrow> None
                   | Some (d, w') \<Rightarrow>
                       Some (d, cl_set_cache cl (cache_put key d (cl_cache cl w')) w')))))"

(* map: src/crates/caliban-agent-core/src/auto_mode.rs 331-335 AutoModeClassifier::clear_cache *)
definition clear_cache :: "('w, 'h) classifier \<Rightarrow> 'w \<Rightarrow> 'w" where
  "clear_cache cl w = cl_set_cache cl (cache_clear (cl_cache cl w)) w"

section \<open>Properties\<close>

text \<open>
  The same value up to the order of the members of its objects.
\<close>

inductive same_json :: "json \<Rightarrow> json \<Rightarrow> bool" where
  same_atom: "same_json v v"
| same_array: "list_all2 same_json xs ys \<Longrightarrow> same_json (JArray xs) (JArray ys)"
| same_object:
    "list_all2 (\<lambda>a b. fst a = fst b \<and> same_json (snd a) (snd b)) ms ns \<Longrightarrow> mset ns = mset ns' \<Longrightarrow>
     distinct (map fst ns') \<Longrightarrow> same_json (JObject ms) (JObject ns')"

lemma canonical_object:
  "distinct (map fst ms) \<Longrightarrow> mset ms = mset ns \<Longrightarrow>
   canonical_json quote (JObject ms) = canonical_json quote (JObject ns)"
proof -
  assume d: "distinct (map fst ms)" and m: "mset ms = mset ns"
  let ?pr = "map (\<lambda>(k, v). (k, canonical_json quote v))"
  have "mset (map fst ms) = mset (map fst ns)" using m by simp
  then have sort: "sort (map fst ms) = sort (map fst ns)"
    by (metis mset_sort properties_for_sort sorted_sort)
  have "distinct (map fst ns)"
    using d m by (metis mset_eq_imp_distinct_iff mset_map)
  then have dd: "distinct (map fst (?pr ms))" "distinct (map fst (?pr ns))"
    using d by (simp_all add: comp_def case_prod_unfold)
  have "set (?pr ms) = set (?pr ns)"
    using m by (metis mset_eq_setD mset_map)
  then have "map_of (?pr ms) = map_of (?pr ns)"
    using dd map_of_inject_set by blast
  then show ?thesis by (simp add: sort)
qed

lemma canonical_object_cong:
  assumes "list_all2 (\<lambda>a b. fst a = fst b \<and> canonical_json quote (snd a) = canonical_json quote (snd b)) ms ns"
  shows "canonical_json quote (JObject ms) = canonical_json quote (JObject ns)"
proof -
  have "map fst ms = map fst ns" and
    "map (\<lambda>(k, v). (k, canonical_json quote v)) ms = map (\<lambda>(k, v). (k, canonical_json quote v)) ns"
    using assms by (induction rule: list_all2_induct) auto
  then show ?thesis by simp
qed

lemma same_json_canonical: "same_json a b \<Longrightarrow> canonical_json quote a = canonical_json quote b"
proof (induction rule: same_json.induct)
  case (same_array xs ys)
  then have "map (canonical_json quote) xs = map (canonical_json quote) ys"
    by (induction rule: list_all2_induct) auto
  then show ?case by simp
next
  case (same_object ms ns ns')
  have "list_all2 (\<lambda>a b. fst a = fst b \<and> canonical_json quote (snd a) = canonical_json quote (snd b)) ms ns"
    using same_object.hyps(1) same_object.IH by (auto elim: list_all2_mono)
  then have "canonical_json quote (JObject ms) = canonical_json quote (JObject ns)"
    by (rule canonical_object_cong)
  also have "\<dots> = canonical_json quote (JObject ns')"
    using canonical_object [of ns' ns] same_object.hyps by simp
  finally show ?case .
qed simp

text \<open>
  Two calls of a tool with the same input share one cache entry, however the members of
  the input's objects are ordered at any depth: after a decision has been made for one, the
  other is answered from the cache with the same verdict and reason and no model call.
\<close>

theorem same_input_hits_cache:
  assumes "same_json (tc_input ctx) (tc_input ctx')" and "tc_tool_name ctx' = tc_tool_name ctx"
    and "\<not> ac_disabled (cl_config cl)"
    and "cache_get (ctx_key cl ctx) (cl_cache cl w) = Some d"
  shows "classify cl ctx' w = Some (d\<lparr>ad_source := Cached\<rparr>, w)"
proof -
  have "ctx_key cl ctx' = ctx_key cl ctx"
    using same_json_canonical [OF assms(1)] assms(2) by (simp add: ctx_key_def cache_key_def)
  with assms(3,4) show ?thesis by (simp add: classify_def Let_def)
qed

definition empty_auto_config :: auto_config where
  "empty_auto_config = \<lparr>ac_hard_deny = [], ac_soft_deny = [], ac_allow = [], ac_environment = [],
     ac_disabled = False\<rparr>"

text \<open>A classifier whose world is its cache, bound to a provider that answers \<open>allow\<close>.\<close>

type_synonym sample_cache = "(string \<times> string, auto_decision) cache"

definition sample_classifier :: "(sample_cache, string) classifier" where
  "sample_classifier = \<lparr>cl_model = ''m'', cl_config = empty_auto_config, cl_cache = \<lambda>w. w,
     cl_set_cache = \<lambda>c _. c, cl_complete = \<lambda>_ w. (Err Cancelled, w), cl_quote = \<lambda>s. s,
     cl_print = \<lambda>_. ''{}'', cl_parse = \<lambda>_. None, cl_sha = \<lambda>s. s, cl_show_err = \<lambda>_. ''e''\<rparr>"

definition sample_decision :: auto_decision where
  "sample_decision = \<lparr>ad_verdict = VAllow, ad_reason = ''static rule'', ad_source = StaticRule\<rparr>"

theorem same_input_hits_cache_witness:
  "\<exists>w. classify sample_classifier
     (sample_call\<lparr>tc_input := JObject [(''b'', JNull), (''a'', JBool True)]\<rparr>) w =
     Some (sample_decision\<lparr>ad_source := Cached\<rparr>, w)"
proof -
  let ?c = "sample_call\<lparr>tc_input := JObject [(''a'', JBool True), (''b'', JNull)]\<rparr>"
  let ?c' = "sample_call\<lparr>tc_input := JObject [(''b'', JNull), (''a'', JBool True)]\<rparr>"
  let ?w = "cache_put (ctx_key sample_classifier ?c) sample_decision cache_empty"
  have "same_json (tc_input ?c) (tc_input ?c')"
    by (auto intro!: same_object [of _ "[(''a'', JBool True), (''b'', JNull)]"] same_atom)
  moreover have "tc_tool_name ?c' = tc_tool_name ?c" by simp
  moreover have "\<not> ac_disabled (cl_config sample_classifier)"
    by (simp add: sample_classifier_def empty_auto_config_def)
  moreover have "cache_get (ctx_key sample_classifier ?c) (cl_cache sample_classifier ?w) =
      Some sample_decision"
    using classifier_cache.get_put [OF classifier_cache.inv_empty]
    by (simp add: sample_classifier_def)
  ultimately have "classify sample_classifier ?c' ?w = Some (sample_decision\<lparr>ad_source := Cached\<rparr>, ?w)"
    by (rule same_input_hits_cache)
  then show ?thesis by (rule exI)
qed

text \<open>
  The cache of a session is bounded whatever is classified, and it only ever answers with
  the decision that was last recorded for that very key.
\<close>

theorem classifier_cache_bounded_and_sound:
  "card {k. cache_get k (fold (\<lambda>(k, v). cache_put k v) kvs cache_empty) \<noteq> None} \<le> cache_capacity \<and>
   (case cache_get k (fold (\<lambda>(k, v). cache_put k v) kvs cache_empty) of
      None \<Rightarrow> True | Some v \<Rightarrow> map_of (rev kvs) k = Some v)"
  using classifier_cache.filled_bounded [of kvs] classifier_cache.filled_sound [of k kvs]
  by (simp add: classifier_cache.filled_def split: option.split)

text \<open>
  Nothing but an explicit verdict allows a call: without a cached decision, a failure of
  the provider, an answer that is not the expected JSON and the disabled switch all give a
  soft denial, and a hard-deny or soft-deny pattern wins over every allow pattern and over the
  model.
\<close>

theorem classify_allows_only_explicitly:
  assumes "classify cl ctx w = Some (d, w')" and "ad_verdict d = VAllow"
    and "cache_get (ctx_key cl ctx) (cl_cache cl w) = None"
  shows "\<not> ac_disabled (cl_config cl) \<and>
    \<not> pattern_list_matches (ac_hard_deny (cl_config cl)) ctx \<and>
    \<not> pattern_list_matches (ac_soft_deny (cl_config cl)) ctx \<and>
    (pattern_list_matches (ac_allow (cl_config cl) @ ac_environment (cl_config cl)) ctx \<or>
     (\<exists>rq resp w1 reason. cl_complete cl rq w = (Ok resp, w1) \<and> md_purpose (rq_metadata rq) = Some FastClassifier \<and>
        parse_classifier_response (cl_parse cl) (extract_text resp) = Some (VAllow, reason)))"
proof -
  have dis: "\<not> ac_disabled (cl_config cl)"
    using assms(1,2) by (auto simp: classify_def)
  show ?thesis
  proof (cases "static_match (cl_config cl) ctx")
    case (Some v)
    then have "v = VAllow"
      using assms dis by (auto simp: classify_def Let_def)
    with Some dis show ?thesis
      by (auto simp: static_match_def pattern_list_matches_def split: if_splits)
  next
    case None
    then obtain w1 where "classifier_call cl ctx w = Some (d, w1)"
      using assms dis by (auto simp: classify_def Let_def split: option.splits)
    then obtain prompt resp w2 reason where
      "cl_complete cl (classifier_request (cl_model cl) prompt) w = (Ok resp, w2)"
      "parse_classifier_response (cl_parse cl) (extract_text resp) = Some (VAllow, reason)"
      using assms(2) by (auto simp: classifier_call_def split: option.splits prod.splits result.splits)
    moreover have "md_purpose (rq_metadata (classifier_request (cl_model cl) prompt)) = Some FastClassifier"
      by (simp add: classifier_request_def)
    moreover have "\<not> pattern_list_matches (ac_hard_deny (cl_config cl)) ctx"
        "\<not> pattern_list_matches (ac_soft_deny (cl_config cl)) ctx"
      using None by (auto simp: static_match_def split: if_splits)
    ultimately show ?thesis using dis by blast
  qed
qed

lemma sample_allow_static:
  "classify (sample_classifier\<lparr>cl_config := empty_auto_config\<lparr>ac_environment := [''*'']\<rparr>\<rparr>)
     sample_call cache_empty =
   Some (sample_decision, cache_put (''Bash'', ''{}'') sample_decision cache_empty)"
  by (simp add: classify_def Let_def sample_classifier_def empty_auto_config_def cache_get_def cache_empty_def
      ctx_key_def cache_key_def sample_call_def static_match_def pattern_list_matches_def
      auto_pattern_matches_def split_pattern_def paren_open_def split_colon_def sample_decision_def)

theorem classify_allows_only_explicitly_witness:
  "\<not> pattern_list_matches (ac_hard_deny empty_auto_config) sample_call"
proof -
  have "cache_get (ctx_key (sample_classifier\<lparr>cl_config := empty_auto_config\<lparr>ac_environment := [''*'']\<rparr>\<rparr>)
      sample_call) (cl_cache (sample_classifier\<lparr>cl_config := empty_auto_config\<lparr>ac_environment := [''*'']\<rparr>\<rparr>) cache_empty) = None"
    by (simp add: sample_classifier_def cache_get_def cache_empty_def)
  moreover have "ad_verdict sample_decision = VAllow" by (simp add: sample_decision_def)
  ultimately show ?thesis
    using classify_allows_only_explicitly [OF sample_allow_static] by simp
qed

text \<open>
  Expanding the sentinel is idempotent: no curated pattern is the sentinel itself, so the
  constructor may be handed an expanded configuration.
\<close>

theorem with_defaults_expanded_idem:
  "with_defaults_expanded (with_defaults_expanded c) = with_defaults_expanded c"
proof -
  have fresh: "defaults_token \<notin> set (default_patterns k)" for k
    by (cases k) (simp_all add: defaults_token_def)
  have "expand_defaults k (expand_defaults k xs) = expand_defaults k xs" for k xs
  proof -
    have id: "defaults_token \<notin> set ys \<Longrightarrow> expand_defaults k ys = ys" for ys
      by (induction ys) (auto simp: expand_defaults_def)
    have "defaults_token \<notin> set (expand_defaults k xs)"
      using fresh [of k] by (auto simp: expand_defaults_def split: if_splits)
    then show ?thesis by (rule id)
  qed
  then show ?thesis by (simp add: with_defaults_expanded_def)
qed

text \<open>
  The prompt panics exactly when the printed input is longer than the cap and the cap falls
  inside a multi-byte character, which nothing in the caller prevents: such a call kills the
  task that classifies it instead of being denied.
\<close>

theorem build_prompt_panics_iff:
  "build_prompt print tool_name input = None \<longleftrightarrow>
     length (print input) > classifier_input_cap \<and>
     \<not> is_char_boundary (print input) classifier_input_cap"
  by (simp add: build_prompt_def string_truncate_def Let_def)

end
