(* ===== verification/ToolSurface.thy ===== *)
theory ToolSurface
  imports TurnStream AutoMode "HOL-Library.AList"
begin

text \<open>
  What a turn's request shows the model, and what the tools' answers may cost: the tool registry
  with the filter that defers MCP tools (\<open>registry.rs\<close>, \<open>wire_filter.rs\<close>,
  \<open>mcp_activation.rs\<close>), the paragraph that says so (\<open>deferred_block.rs\<close>), the
  prompt-cache markers (\<open>cache.rs\<close>) and the cap on the size of results
  (\<open>post_process.rs\<close>).

  A registry is the list of its entries in the order of iteration, which a hash map leaves
  open. Writing the overflow of a result to disk is a parameter.
\<close>

section \<open>The activation set\<close>

(* map: src/crates/caliban-agent-core/src/mcp_activation.rs 30-43 McpActivationSet *)
record activation_set =
  as_cap :: nat
  as_lru :: "string list"
  as_active :: "string set"

(* map: src/crates/caliban-agent-core/src/mcp_activation.rs 46-58 McpActivationSet::new *)
definition activation_new :: "nat \<Rightarrow> activation_set" where
  "activation_new cap = \<lparr>as_cap = cap, as_lru = [], as_active = {}\<rparr>"

(* map: src/crates/caliban-agent-core/src/mcp_activation.rs 60-64 McpActivationSet::is_active *)
definition is_active :: "activation_set \<Rightarrow> string \<Rightarrow> bool" where
  "is_active s name = (name \<in> as_active s)"

text \<open>\<open>VecDeque::remove\<close> at the index of the first occurrence is \<^const>\<open>remove1\<close>.\<close>

(* map: src/crates/caliban-agent-core/src/mcp_activation.rs 86-110 McpActivationSet::activate *)
definition activate :: "string \<Rightarrow> activation_set \<Rightarrow> string option \<times> activation_set" where
  "activate name s =
     (if as_cap s = 0 then (None, s)
      else if name \<in> as_active s then (None, s\<lparr>as_lru := name # remove1 name (as_lru s)\<rparr>)
      else
        (let s' = s\<lparr>as_active := insert name (as_active s), as_lru := name # as_lru s\<rparr> in
         if length (as_lru s') > as_cap s'
         then (let evicted = last (as_lru s') in
               (Some evicted, s'\<lparr>as_lru := butlast (as_lru s'), as_active := as_active s' - {evicted}\<rparr>))
         else (None, s')))"

section \<open>The registry\<close>

(* map: src/crates/caliban-agent-core/src/tool.rs 86-170 Tool *)
record 'w tool =
  tl_name :: string
  tl_description :: string
  tl_input_schema :: json
  tl_invoke :: "json \<Rightarrow> string \<Rightarrow> nat \<Rightarrow> 'w \<Rightarrow> tool_outcome \<times> 'w"
  tl_conflict_key :: "json \<Rightarrow> string option"
  tl_is_read_only :: bool
  tl_mutates_files :: bool

type_synonym 'w registry = "(string \<times> 'w tool) list"

(* map: src/crates/caliban-agent-core/src/registry.rs 29-38 ToolRegistry::register *)
definition register :: "'w tool \<Rightarrow> 'w registry \<Rightarrow> 'w registry" where
  "register t r = AList.update (tl_name t) t r"

(* map: src/crates/caliban-agent-core/src/registry.rs 40-43 ToolRegistry::unregister *)
definition unregister :: "string \<Rightarrow> 'w registry \<Rightarrow> 'w tool option \<times> 'w registry" where
  "unregister name r = (map_of r name, AList.delete name r)"

(* map: src/crates/caliban-agent-core/src/registry.rs 45-49 ToolRegistry::get *)
definition registry_get :: "'w registry \<Rightarrow> string \<Rightarrow> 'w tool option" where
  "registry_get r name = map_of r name"

definition tool_decl_of :: "'w tool \<Rightarrow> tool_decl" where
  "tool_decl_of t = \<lparr>td_name = tl_name t, td_description = tl_description t,
     td_input_schema = tl_input_schema t, td_cache_control = None\<rparr>"

(* map: src/crates/caliban-agent-core/src/registry.rs 56-69 ToolRegistry::to_caliban_tools *)
definition to_caliban_tools :: "'w registry \<Rightarrow> tool_decl list" where
  "to_caliban_tools r = map (tool_decl_of \<circ> snd) r"

section \<open>The wire filter\<close>

definition mcp_prefix :: string where
  "mcp_prefix = ''mcp__''"

(* map: src/crates/caliban-agent-core/src/wire_filter.rs 48-53 is_mcp *)
definition is_mcp :: "string \<Rightarrow> bool" where
  "is_mcp name = starts_with mcp_prefix name"

text \<open>\<open>s.find(m)\<close>, as the text before the first occurrence.\<close>

fun before_first :: "string \<Rightarrow> string \<Rightarrow> string option" where
  "before_first m [] = (if m = [] then Some [] else None)"
| "before_first m (c # s) =
     (if starts_with m (c # s) then Some [] else map_option (Cons c) (before_first m s))"

(* map: src/crates/caliban-agent-core/src/wire_filter.rs 55-63 mcp_server_of *)
definition mcp_server_of :: "string \<Rightarrow> string option" where
  "mcp_server_of name = Option.bind (strip_prefix mcp_prefix name) (before_first ''__'')"

(* map: src/crates/caliban-agent-core/src/wire_filter.rs 24-36 WireFilter *)
record wire_filter =
  wf_lazy_mcp :: bool
  wf_active :: activation_set
  wf_eager_servers :: "string list"

text \<open>Whether an entry rides the wire, in the order of the loop's tests.\<close>

definition rides :: "wire_filter \<Rightarrow> string \<Rightarrow> bool" where
  "rides f name =
     (if \<not> is_mcp name then True
      else if \<not> wf_lazy_mcp f then True
      else (case mcp_server_of name of Some s \<Rightarrow> s \<in> set (wf_eager_servers f) | None \<Rightarrow> False) \<or>
           is_active (wf_active f) name)"

(* map: src/crates/caliban-agent-core/src/registry.rs 71-122 ToolRegistry::to_caliban_tools_filtered *)
fun to_caliban_tools_filtered :: "'w registry \<Rightarrow> wire_filter \<Rightarrow> tool_decl list \<times> nat" where
  "to_caliban_tools_filtered [] f = ([], 0)"
| "to_caliban_tools_filtered ((k, t) # r) f =
     (let (tools, dropped) = to_caliban_tools_filtered r f in
      if rides f (tl_name t) then (tool_decl_of t # tools, dropped) else (tools, dropped + 1))"

section \<open>The deferred block\<close>

(* map: src/crates/caliban-agent-core/src/deferred_block.rs 13-20 format_block *)
definition format_block :: "nat \<Rightarrow> string" where
  "format_block dropped =
     ''Some MCP tools are deferred to keep your tool palette lean. '' @
     ''Use the `ToolSearch` tool with a substring query to discover '' @
     ''and activate them when needed; activated tools persist for the '' @
     ''rest of the session. '' @ nat_str dropped @ '' MCP tools are currently deferred.''"

(* map: src/crates/caliban-agent-core/src/deferred_block.rs 34-67 splice_into_messages *)
definition splice_into_messages :: "message list \<Rightarrow> bool \<Rightarrow> nat \<Rightarrow> message list" where
  "splice_into_messages messages lazy_mcp dropped =
     (if \<not> lazy_mcp \<or> dropped = 0 then messages
      else
        (let block = format_block dropped in
         case messages of
           first # rest \<Rightarrow>
             if msg_role first = System
             then (case msg_content first of
                     Text t # bs \<Rightarrow>
                       first\<lparr>msg_content := Text (t\<lparr>tb_text := tb_text t @ nl @ nl @ block\<rparr>) # bs\<rparr> # rest
                   | bs \<Rightarrow> first\<lparr>msg_content := text_cb block # bs\<rparr> # rest)
             else msg_system_text block # messages
         | [] \<Rightarrow> [msg_system_text block]))"

section \<open>Prompt-cache markers\<close>

fun mark_text :: "content_block \<Rightarrow> content_block option" where
  "mark_text (Text t) = Some (Text (t\<lparr>tb_cache_control := Some Ephemeral\<rparr>))"
| "mark_text _ = None"

fun update_first :: "('a \<Rightarrow> 'a option) \<Rightarrow> 'a list \<Rightarrow> 'a list" where
  "update_first f [] = []"
| "update_first f (x # xs) = (case f x of Some y \<Rightarrow> y # xs | None \<Rightarrow> x # update_first f xs)"

definition update_last :: "('a \<Rightarrow> 'a option) \<Rightarrow> 'a list \<Rightarrow> 'a list" where
  "update_last f xs = rev (update_first f (rev xs))"

(* map: src/crates/caliban-agent-core/src/cache.rs 51-61 set_cache_control_on_block *)
fun set_cache_control_on_block :: "content_block \<Rightarrow> content_block" where
  "set_cache_control_on_block (Text t) = Text (t\<lparr>tb_cache_control := Some Ephemeral\<rparr>)"
| "set_cache_control_on_block b = b"

definition mark_system :: "message \<Rightarrow> message option" where
  "mark_system m =
     (if msg_role m = System then Some (m\<lparr>msg_content := update_last mark_text (msg_content m)\<rparr>)
      else None)"

definition mark_user :: "(json \<Rightarrow> string) \<Rightarrow> nat \<Rightarrow> message \<Rightarrow> message option" where
  "mark_user print min_tokens m =
     (if msg_role m = User
      then Some (if estimate_tokens print [m] \<ge> min_tokens \<and> msg_content m \<noteq> []
        then m\<lparr>msg_content := butlast (msg_content m) @
                 [set_cache_control_on_block (last (msg_content m))]\<rparr>
        else m)
      else None)"

(* map: src/crates/caliban-agent-core/src/cache.rs 17-49 apply_prompt_cache *)
definition apply_prompt_cache ::
  "(json \<Rightarrow> string) \<Rightarrow> nat \<Rightarrow> message list \<Rightarrow> tool_decl list \<Rightarrow> message list \<times> tool_decl list" where
  "apply_prompt_cache print min_cache_block_tokens messages tools =
     (let messages' = update_first mark_system messages;
          tools' = (if tools = [] then []
                    else butlast tools @ [(last tools)\<lparr>td_cache_control := Some Ephemeral\<rparr>])
      in (update_last (mark_user print min_cache_block_tokens) messages', tools'))"

section \<open>The cap on results\<close>

definition head_tail_chars :: nat where
  "head_tail_chars = 2048"

text \<open>Joined text of the text blocks of a result (\<open>flatten_content_text\<close> does the same).\<close>

(* map: src/crates/caliban-agent-core/src/stream/mod.rs 242-253 flatten_content_text *)
definition flatten_content_text :: "content_block list \<Rightarrow> string" where
  "flatten_content_text content = join nl (block_texts content)"

definition already_short :: "content_block list \<Rightarrow> bool" where
  "already_short content =
     (case content of
        Text t # _ \<Rightarrow> starts_with ''[truncated:'' (tb_text t) \<or> starts_with ''[superseded:'' (tb_text t)
      | _ \<Rightarrow> False)"

definition cap_placeholder :: "nat \<Rightarrow> string \<Rightarrow> string \<Rightarrow> string" where
  "cap_placeholder max_chars path full =
     (let cs = utf8_chars full;
          full_chars = length cs;
          each = min head_tail_chars (max_chars div 2);
          head = take each cs;
          tail = drop (full_chars - each) cs
      in ''[truncated: '' @ nat_str full_chars @ '' chars, full content at '' @ path @ '']'' @ nl @ nl @
         ''--- head '' @ nat_str (length head) @ '' chars ---'' @ nl @ concat head @ nl @
         ''--- tail '' @ nat_str (length tail) @ '' chars ---'' @ nl @ concat tail)"

text \<open>
  \<open>save\<close> creates the session's directory and writes the file, giving the path or the error;
  an error ends the walk, and the blocks after it stay as they are.
\<close>

(* map: src/crates/caliban-agent-core/src/post_process.rs 84-143 ToolResultCap::cap *)
fun cap_results ::
  "(string \<Rightarrow> string \<Rightarrow> 'w \<Rightarrow> (string, string) result \<times> 'w) \<Rightarrow> nat \<Rightarrow> content_block list \<Rightarrow> 'w \<Rightarrow>
   content_block list \<times> 'w" where
  "cap_results save max_chars [] w = ([], w)"
| "cap_results save max_chars (ToolResult i content err # rest) w =
     (if max_chars = 0 then (ToolResult i content err # rest, w)
      else if already_short content \<or> char_count (flatten_content_text content) \<le> max_chars
      then (let (rest', w') = cap_results save max_chars rest w in (ToolResult i content err # rest', w'))
      else
        (let full = flatten_content_text content in
         case save i full w of
           (Err e, w') \<Rightarrow> (ToolResult i content err # rest, w')
         | (Ok path, w') \<Rightarrow>
             (let (rest', w'') = cap_results save max_chars rest w'
              in (ToolResult i [text_cb (cap_placeholder max_chars path full)] err # rest', w''))))"
| "cap_results save max_chars (b # rest) w =
     (let (rest', w') = cap_results save max_chars rest w in (b # rest', w'))"

section \<open>The activation set is a bounded LRU list\<close>

definition act_inv :: "nat \<Rightarrow> activation_set \<Rightarrow> bool" where
  "act_inv cap s \<longleftrightarrow> as_cap s = cap \<and> as_active s = set (as_lru s) \<and> distinct (as_lru s) \<and>
     length (as_lru s) \<le> cap"

lemma act_inv_new: "act_inv cap (activation_new cap)"
  by (simp add: act_inv_def activation_new_def)

lemma as_lru_new [simp]: "as_lru (activation_new cap) = []"
  by (simp add: activation_new_def)

lemma activate_lru:
  assumes "act_inv cap s"
  shows "act_inv cap (snd (activate name s))"
    and "as_lru (snd (activate name s)) = take cap (name # removeAll name (as_lru s))"
proof -
  consider (off) "cap = 0" | (again) "cap > 0" "name \<in> as_active s"
    | (room) "cap > 0" "name \<notin> as_active s" "length (as_lru s) < cap"
    | (full) "cap > 0" "name \<notin> as_active s" "length (as_lru s) = cap"
    using assms by (force simp: act_inv_def)
  then have "act_inv cap (snd (activate name s)) \<and>
      as_lru (snd (activate name s)) = take cap (name # removeAll name (as_lru s))"
  proof cases
    case again
    then have "length (name # remove1 name (as_lru s)) \<le> cap"
      using assms by (auto simp: act_inv_def length_remove1)
    then show ?thesis
      using again assms by (auto simp: act_inv_def activate_def distinct_remove1_removeAll distinct_removeAll)
  next
    case full
    then obtain ys y where l: "as_lru s = ys @ [y]" by (cases "as_lru s" rule: rev_cases) auto
    then have "length ys < cap" "take cap (name # ys @ [y]) = name # ys" using full by auto
    then show ?thesis
      using full assms l by (auto simp: act_inv_def activate_def Let_def)
  qed (use assms in \<open>auto simp: act_inv_def activate_def Let_def\<close>)
  then show "act_inv cap (snd (activate name s))"
    "as_lru (snd (activate name s)) = take cap (name # removeAll name (as_lru s))" by simp_all
qed

definition activated :: "nat \<Rightarrow> string list \<Rightarrow> activation_set" where
  "activated cap names = fold (\<lambda>n s. snd (activate n s)) names (activation_new cap)"

text \<open>
  The activation set keeps the contract of a bounded store, with the unit value for an active
  name, whenever its cap is positive.
\<close>

interpretation activation: bounded_cache "act_inv (Suc n)" "activation_new (Suc n)"
  "\<lambda>k s. if is_active s k then Some () else None" "\<lambda>k _ s. snd (activate k s)" as_active "Suc n"
proof unfold_locales
  fix s and k k' :: string and v :: unit
  assume inv: "act_inv (Suc n) s"
  note l = activate_lru [OF inv, of k]
  have act: "as_active (snd (activate k s)) = set (take (Suc n) (k # removeAll k (as_lru s)))"
    using l by (simp add: act_inv_def)
  then have sub: "as_active (snd (activate k s)) \<subseteq> insert k (as_active s)"
    using set_take_subset [of "Suc n" "k # removeAll k (as_lru s)"] inv by (auto simp: act_inv_def)
  show "(if is_active (snd (activate k s)) k then Some () else None) = Some v"
    by (simp add: is_active_def act)
  show "k' \<noteq> k \<Longrightarrow> (if is_active (snd (activate k s)) k' then Some () else None) \<in>
      {None, if is_active s k' then Some () else None}"
    using sub by (simp add: is_active_def) blast
  show "as_active s = {k. (if is_active s k then Some () else None) \<noteq> None}"
    by (auto simp: is_active_def)
  show "finite (as_active s) \<and> card (as_active s) \<le> Suc n"
    using inv by (auto simp: act_inv_def distinct_card)
  show "act_inv (Suc n) (snd (activate k s))" by (rule l(1))
qed (auto simp: act_inv_def activation_new_def is_active_def)

text \<open>
  After any sequence of activations the set is the least-recently-used list it means to be:
  each activation moves the name to the front and the tail beyond the cap falls off. The set of
  active names is the set of the list, which has no duplicates and never exceeds the cap, and a
  cap of zero activates nothing.
\<close>

theorem activation_refines_lru:
  "as_lru (activated cap names) = fold (\<lambda>x l. take cap (x # removeAll x l)) names [] \<and>
   as_active (activated cap names) = set (as_lru (activated cap names)) \<and>
   distinct (as_lru (activated cap names)) \<and> length (as_lru (activated cap names)) \<le> cap"
proof -
  have "act_inv cap (fold (\<lambda>n s. snd (activate n s)) names s) \<and>
      as_lru (fold (\<lambda>n s. snd (activate n s)) names s) =
        fold (\<lambda>x l. take cap (x # removeAll x l)) names (as_lru s)" if "act_inv cap s" for s
    using that by (induction names arbitrary: s) (simp_all add: activate_lru)
  from this [OF act_inv_new] show ?thesis
    by (auto simp: activated_def act_inv_def)
qed

section \<open>What rides the wire\<close>

lemma tools_filtered:
  "to_caliban_tools_filtered r f =
     (map (tool_decl_of \<circ> snd) (filter (\<lambda>(k, t). rides f (tl_name t)) r),
      length (filter (\<lambda>(k, t). \<not> rides f (tl_name t)) r))"
  by (induction r f rule: to_caliban_tools_filtered.induct) (auto simp: Let_def split: prod.splits)

text \<open>
  The wire filter drops only MCP tools, only in lazy mode, and only those that are neither
  on an eager server nor activated: what it sends is the registry's list without them, and the
  count it reports is the number of entries it left out.
\<close>

theorem wire_filter_drops:
  "(case to_caliban_tools_filtered r f of (tools, dropped) \<Rightarrow>
      tools = map (tool_decl_of \<circ> snd) (filter (\<lambda>(k, t). rides f (tl_name t)) r) \<and>
      length tools + dropped = length r \<and>
      (\<not> wf_lazy_mcp f \<longrightarrow> tools = to_caliban_tools r)) \<and>
   (\<not> rides f name \<longleftrightarrow> is_mcp name \<and> wf_lazy_mcp f \<and> name \<notin> as_active (wf_active f) \<and>
      (\<forall>srv. mcp_server_of name = Some srv \<longrightarrow> srv \<notin> set (wf_eager_servers f)))"
proof -
  have "length (filter P xs) + length (filter (\<lambda>x. \<not> P x) xs) = length xs" for P and xs :: "('x \<times> 'y) list"
    by (induction xs) auto
  from this [of "\<lambda>(k, t). rides f (tl_name t)" r]
  have "length (filter (\<lambda>(k, t). rides f (tl_name t)) r) +
      length (filter (\<lambda>(k, t). \<not> rides f (tl_name t)) r) = length r"
    by (simp add: case_prod_unfold)
  moreover have "filter (\<lambda>(k, t). rides f (tl_name t)) r = r" if "\<not> wf_lazy_mcp f"
    using that by (auto simp: filter_id_conv rides_def)
  ultimately show ?thesis
    by (auto simp: tools_filtered to_caliban_tools_def rides_def is_active_def split: option.splits)
qed

theorem wire_filter_drops_witness:
  "(case to_caliban_tools_filtered [] \<lparr>wf_lazy_mcp = False, wf_active = activation_new 0, wf_eager_servers = []\<rparr>
      of (tools, dropped) \<Rightarrow> length tools + dropped = length []) \<and>
   \<not> rides \<lparr>wf_lazy_mcp = True, wf_active = activation_new 4, wf_eager_servers = [''git'']\<rparr> ''mcp__db__query''"
proof -
  have "is_mcp ''mcp__db__query''" "mcp_server_of ''mcp__db__query'' = Some ''db''"
    by (simp_all add: is_mcp_def mcp_prefix_def starts_with_def mcp_server_of_def)
  then show ?thesis
    using wire_filter_drops [where r = "[]" and
        f = "\<lparr>wf_lazy_mcp = False, wf_active = activation_new 0, wf_eager_servers = []\<rparr>"]
      wire_filter_drops [where r = "[]" and name = "''mcp__db__query''" and
        f = "\<lparr>wf_lazy_mcp = True, wf_active = activation_new 4, wf_eager_servers = [''git'']\<rparr>"]
    by (simp add: activation_new_def)
qed

section \<open>The request stays well formed\<close>

text \<open>A change within one message that keeps its role, its ids and text blocks text.\<close>

definition same_frame :: "message \<Rightarrow> message \<Rightarrow> bool" where
  "same_frame m m' \<longleftrightarrow> msg_role m' = msg_role m \<and> result_ids m' = result_ids m \<and> call_ids m' = call_ids m \<and>
     (list_all is_text_block (msg_content m) \<longrightarrow> list_all is_text_block (msg_content m'))"

lemma same_frame_refl [simp]: "same_frame m m"
  by (simp add: same_frame_def)

lemma same_frame_role: "same_frame m m' \<Longrightarrow> msg_role m' = msg_role m"
  by (simp add: same_frame_def)

lemma same_frame_wf:
  assumes "list_all2 same_frame ms ms'"
  shows "wf_history ms \<Longrightarrow> wf_history ms'"
proof -
  have "chained p ms = chained p ms' \<and> pending_calls p ms = pending_calls p ms'" for p
    using assms by (induction ms ms' arbitrary: p rule: list_all2_induct) (auto simp: same_frame_def)
  moreover have "list_all2 same_frame (history_body ms) (history_body ms')"
    using assms unfolding history_body_def
    by (induction ms ms' rule: list_all2_induct) (auto simp: same_frame_role)
  ultimately show "wf_history ms \<Longrightarrow> wf_history ms'"
    using assms by (auto simp: wf_history_def well_paired_def systems_lead_def list_all_length
        list_all2_conv_all_nth same_frame_def)
qed

lemma update_first_frame:
  assumes "\<And>m m'. f m = Some m' \<Longrightarrow> same_frame m m'"
  shows "list_all2 same_frame ms (update_first f ms)"
  by (induction ms) (auto simp: list_all2_refl split: option.splits dest: assms)

lemma update_last_frame:
  assumes "\<And>m m'. f m = Some m' \<Longrightarrow> same_frame m m'"
  shows "list_all2 same_frame ms (update_last f ms)"
  using update_first_frame [of f "rev ms"] assms by (simp add: update_last_def list_all2_rev1)

lemma on_content_frame:
  assumes "List.map_filter block_result_id bs = List.map_filter block_result_id (msg_content m)"
      "map tu_id (List.map_filter block_tool_use bs) = map tu_id (List.map_filter block_tool_use (msg_content m))"
      "list_all is_text_block (msg_content m) \<Longrightarrow> list_all is_text_block bs"
  shows "same_frame m (m\<lparr>msg_content := bs\<rparr>)"
  using assms by (simp add: same_frame_def result_ids_def call_ids_def tool_uses_def)

lemma mark_text_first:
  "List.map_filter block_result_id (update_first mark_text bs) = List.map_filter block_result_id bs"
  "List.map_filter block_tool_use (update_first mark_text bs) = List.map_filter block_tool_use bs"
  "list_all is_text_block bs \<Longrightarrow> list_all is_text_block (update_first mark_text bs)"
proof -
  have "block_result_id y = block_result_id b \<and> block_tool_use y = block_tool_use b \<and> is_text_block y"
    if "mark_text b = Some y" for b y
    using that by (cases b) (auto simp: is_text_block_def)
  then show "List.map_filter block_result_id (update_first mark_text bs) = List.map_filter block_result_id bs"
      "List.map_filter block_tool_use (update_first mark_text bs) = List.map_filter block_tool_use bs"
      "list_all is_text_block bs \<Longrightarrow> list_all is_text_block (update_first mark_text bs)"
    by (induction bs) (auto simp: map_filter_simps split: option.splits)
qed

lemma map_filter_rev: "List.map_filter f (rev xs) = rev (List.map_filter f xs)"
  by (induction xs) (auto simp: map_filter_simps map_filter_append split: option.splits)

lemma mark_system_frame: "mark_system m = Some m' \<Longrightarrow> same_frame m m'"
  by (auto simp: mark_system_def update_last_def map_filter_rev mark_text_first
      intro!: on_content_frame split: if_splits)

lemma mark_user_frame: "mark_user print n m = Some m' \<Longrightarrow> same_frame m m'"
proof -
  have b: "block_result_id (set_cache_control_on_block b) = block_result_id b"
      "block_tool_use (set_cache_control_on_block b) = block_tool_use b"
      "is_text_block (set_cache_control_on_block b) = is_text_block b" for b
    by (cases b; simp add: is_text_block_def)+
  have "same_frame m (m\<lparr>msg_content := butlast (msg_content m) @ [set_cache_control_on_block (last (msg_content m))]\<rparr>)"
    if "msg_content m \<noteq> []"
  proof -
    obtain bs b' where "msg_content m = bs @ [b']" by (cases "msg_content m" rule: rev_cases) (use \<open>msg_content m \<noteq> []\<close> in auto)
    then show ?thesis
      by (intro on_content_frame) (simp_all add: map_filter_append map_filter_simps b)
  qed
  then show "mark_user print n m = Some m' \<Longrightarrow> same_frame m m'"
    by (auto simp: mark_user_def split: if_splits)
qed

lemma apply_prompt_cache_wf:
  assumes "wf_history ms"
  shows "wf_history (fst (apply_prompt_cache print n ms tools))"
proof -
  have "wf_history (update_first mark_system ms)"
    using assms same_frame_wf update_first_frame mark_system_frame by blast
  then have "wf_history (update_last (mark_user print n) (update_first mark_system ms))"
    using same_frame_wf update_last_frame mark_user_frame by blast
  then show ?thesis by (simp add: apply_prompt_cache_def Let_def)
qed

lemma wf_history_system_Cons:
  assumes "wf_history ms"
  shows "wf_history (msg_system_text t # ms)"
proof -
  have "plain (msg_system_text t)" by simp
  then show ?thesis
    using assms by (auto simp: wf_history_def well_paired_def plain_def systems_lead_def history_body_def)
      (simp_all add: msg_system_text_def text_cb_def is_text_block_def)
qed

lemma splice_wf:
  assumes "wf_history ms"
  shows "wf_history (splice_into_messages ms lazy dropped)"
proof (cases "lazy \<and> dropped \<noteq> 0 \<and> ms \<noteq> [] \<and> msg_role (hd ms) = System")
  case True
  then obtain m rest where ms: "ms = m # rest" "msg_role m = System" by (cases ms) auto
  let ?b = "format_block dropped"
  have tx: "list_all is_text_block (msg_content m)"
    using assms ms by (simp add: wf_history_def systems_lead_def)
  define m' where "m' = m\<lparr>msg_content := (case msg_content m of
      Text t # bs \<Rightarrow> Text (t\<lparr>tb_text := tb_text t @ nl @ nl @ ?b\<rparr>) # bs | bs \<Rightarrow> text_cb ?b # bs)\<rparr>"
  have "splice_into_messages ms lazy dropped = m' # rest"
    using True ms by (auto simp: splice_into_messages_def m'_def Let_def split: list.splits content_block.splits)
  moreover have "list_all is_text_block (msg_content m')"
    using tx by (auto simp: m'_def is_text_block_def text_cb_def split: list.splits content_block.splits)
  then have "same_frame m m'"
    using tx plain_text_blocks [of m] plain_text_blocks [of m']
    by (simp add: same_frame_def plain_def) (simp add: m'_def)
  then have "list_all2 same_frame (m # rest) (m' # rest)" by (simp add: list_all2_refl)
  ultimately show ?thesis using assms same_frame_wf ms by metis
next
  case False
  then show ?thesis
    using assms wf_history_system_Cons
    by (auto simp: splice_into_messages_def Let_def split: list.splits)
qed

section \<open>What the cap does to results\<close>

definition capped_from :: "nat \<Rightarrow> content_block \<Rightarrow> content_block \<Rightarrow> bool" where
  "capped_from n b b' \<longleftrightarrow> b' = b \<or>
     (\<exists>i content err path. b = ToolResult i content err \<and> n > 0 \<and>
        char_count (flatten_content_text content) > n \<and>
        b' = ToolResult i [text_cb (cap_placeholder n path (flatten_content_text content))] err)"

lemma capped_from_refl [simp]: "capped_from n b b"
  by (simp add: capped_from_def)

lemma cap_results_capped: "list_all2 (capped_from n) bs (fst (cap_results save n bs w))"
proof (induction save n bs w rule: cap_results.induct)
  case (2 save n i content err rest w)
  let ?full = "flatten_content_text content"
  consider (off) "n = 0" | (keep) "n \<noteq> 0" "already_short content \<or> char_count ?full \<le> n"
    | (fails) e w' where "n \<noteq> 0" "\<not> (already_short content \<or> char_count ?full \<le> n)" "save i ?full w = (Err e, w')"
    | (cut) path w' where "n \<noteq> 0" "\<not> (already_short content \<or> char_count ?full \<le> n)" "save i ?full w = (Ok path, w')"
    by (metis result.exhaust surj_pair)
  then show ?case
  proof cases
    case keep
    then show ?thesis using "2.IH"(1) by (simp add: split_beta)
  next
    case cut
    then have "capped_from n (ToolResult i content err) (ToolResult i [text_cb (cap_placeholder n path ?full)] err)"
      by (auto simp: capped_from_def)
    then show ?thesis using cut "2.IH"(2) by (simp add: split_beta)
  qed (simp_all add: list_all2_refl)
qed (auto simp: split_beta)

lemma capped_from_id: "capped_from n b b' \<Longrightarrow> block_result_id b' = block_result_id b"
  by (auto simp: capped_from_def)

lemma placeholder_short: "already_short [text_cb (cap_placeholder n path full)]"
  by (simp add: already_short_def text_cb_def cap_placeholder_def Let_def starts_with_def)

definition saves :: "(string \<Rightarrow> string \<Rightarrow> 'w \<Rightarrow> (string, string) result \<times> 'w) \<Rightarrow> bool" where
  "saves save \<longleftrightarrow> (\<forall>i full w. is_ok (fst (save i full w)))"

lemma cap_results_stable:
  assumes "list_all (\<lambda>b. \<forall>i c e. b = ToolResult i c e \<longrightarrow> already_short c \<or> char_count (flatten_content_text c) \<le> n) bs"
  shows "cap_results save n bs w = (bs, w)"
  using assms by (induction save n bs w rule: cap_results.induct) auto

lemma cap_results_short:
  assumes "saves save" "n > 0"
  shows "list_all (\<lambda>b. \<forall>i c e. b = ToolResult i c e \<longrightarrow> already_short c \<or> char_count (flatten_content_text c) \<le> n)
    (fst (cap_results save n bs w))"
  using assms
proof (induction save n bs w rule: cap_results.induct)
  case (2 save n i content err rest w)
  let ?full = "flatten_content_text content"
  show ?case
  proof (cases "already_short content \<or> char_count ?full \<le> n")
    case True
    then show ?thesis using 2 by (auto simp: split_beta)
  next
    case False
    obtain path w' where s: "save i ?full w = (Ok path, w')"
      using "2.prems"(1) by (metis saves_def is_ok_iff prod.collapse)
    then show ?thesis using 2 False by (auto simp: split_beta placeholder_short)
  qed
qed (auto simp: split_beta)

text \<open>
  The cap changes only what is too long: every block comes out as it went in, or it is a
  result longer than the cap, not yet a placeholder, whose content is replaced by the placeholder
  while its id and its error flag stay. When the overflow can be written, a second pass changes
  nothing.
\<close>

theorem cap_changes_only_long_results:
  "list_all2 (capped_from n) bs (fst (cap_results save n bs w)) \<and>
   map block_result_id (fst (cap_results save n bs w)) = map block_result_id bs \<and>
   (saves save \<longrightarrow>
    fst (cap_results save' n (fst (cap_results save n bs w)) w') = fst (cap_results save n bs w))"
proof (intro conjI impI)
  show 1: "list_all2 (capped_from n) bs (fst (cap_results save n bs w))" by (rule cap_results_capped)
  show "map block_result_id (fst (cap_results save n bs w)) = map block_result_id bs"
    using 1 by (induction rule: list_all2_induct) (auto simp: capped_from_id)
  assume "saves save"
  show "fst (cap_results save' n (fst (cap_results save n bs w)) w') = fst (cap_results save n bs w)"
  proof (cases "n = 0")
    case True
    have "fst (cap_results s 0 xs v) = xs" for s :: "string \<Rightarrow> string \<Rightarrow> 'x \<Rightarrow> (string, string) result \<times> 'x" and xs v
      by (induction s "0 :: nat" xs v rule: cap_results.induct) (auto simp: split_beta)
    then show ?thesis using True by simp
  next
    case False
    then have "n > 0" by simp
    have "cap_results save' n (fst (cap_results save n bs w)) w' = (fst (cap_results save n bs w), w')"
      by (rule cap_results_stable [OF cap_results_short [OF \<open>saves save\<close> \<open>n > 0\<close>]])
    then show ?thesis by simp
  qed
qed

definition sample_save :: "string \<Rightarrow> string \<Rightarrow> nat \<Rightarrow> (string, string) result \<times> nat" where
  "sample_save i full n = (Ok (''/tmp/'' @ i), n + 1)"

theorem cap_changes_only_long_results_witness:
  "saves sample_save \<and>
   fst (cap_results sample_save 2 (fst (cap_results sample_save 2 [ToolResult ''t'' [text_cb ''long''] False] 0)) 0) =
   fst (cap_results sample_save 2 [ToolResult ''t'' [text_cb ''long''] False] 0)"
proof -
  have "saves sample_save" by (simp add: saves_def sample_save_def)
  then show ?thesis
    using cap_changes_only_long_results
      [where n = 2 and save = sample_save and save' = sample_save and w = 0 and w' = 0 and
        bs = "[ToolResult ''t'' [text_cb ''long''] False]"] by blast
qed

end
