(* ===== verification/Recovery.thy ===== *)
theory Recovery
  imports ToolSurface
begin

text \<open>
  The agent and how a turn recovers: the configuration (\<open>agent.rs\<close>), the stop conditions
  and their surface (\<open>stream/mod.rs\<close>), and the recovery state machine
  (\<open>stream/recovery.rs\<close>), which escalates the token budget, injects a continuation,
  compacts on an overlong context, and surrenders.

  Counters of eight bits are natural numbers here; that they stay below their configured caps,
  so that no increment can overflow, is proved. A floating-point setting is its bit pattern.
\<close>

section \<open>Stop conditions\<close>

(* map: src/crates/caliban-agent-core/src/stream/mod.rs 515-555 StopCondition *)
datatype stop_condition =
    EndOfTurn
  | MaxTurnsReached nat
  | SCancelled
  | SProviderError string
  | HookDenied string
  | CompactionFailed string
  | MaxTokensExhausted
  | SRefusal string
  | SContentFilter string
  | SStreamIdle nat
  | ThinkingBudgetExhausted
  | TimeBudgetExceeded nat
  | CostBudgetExceeded "64 word"

(* map: src/crates/caliban-agent-core/src/stream/mod.rs 557-572 StopCondition::is_failure *)
fun is_failure :: "stop_condition \<Rightarrow> bool" where
  "is_failure (SProviderError _) = True"
| "is_failure (HookDenied _) = True"
| "is_failure (CompactionFailed _) = True"
| "is_failure MaxTokensExhausted = True"
| "is_failure (SRefusal _) = True"
| "is_failure (SContentFilter _) = True"
| "is_failure (SStreamIdle _) = True"
| "is_failure ThinkingBudgetExhausted = True"
| "is_failure _ = False"

(* map: src/crates/caliban-agent-core/src/stream/mod.rs 625-634 StopLevel *)
datatype stop_level = LError | LInfo

text \<open>Durations are milliseconds; the formatting of an amount of dollars is a parameter.\<close>

(* map: src/crates/caliban-agent-core/src/stream/mod.rs 583-622 StopCondition::surface *)
fun surface_body :: "(64 word \<Rightarrow> string) \<Rightarrow> stop_condition \<Rightarrow> (string \<times> stop_level) option" where
  "surface_body usd EndOfTurn = None"
| "surface_body usd (SProviderError m) = Some (''provider error: '' @ m, LError)"
| "surface_body usd (HookDenied m) = Some (''hook denied: '' @ m, LError)"
| "surface_body usd (CompactionFailed m) = Some (''compaction failed: '' @ m, LError)"
| "surface_body usd (MaxTurnsReached n) = Some (''max-turns ('' @ nat_str n @ '') reached'', LInfo)"
| "surface_body usd (TimeBudgetExceeded d) =
     Some (''time budget ('' @ nat_str (d div 1000) @ ''s) exceeded'', LInfo)"
| "surface_body usd (CostBudgetExceeded c) = Some (''cost budget ($'' @ usd c @ '') exceeded'', LInfo)"
| "surface_body usd SCancelled = Some (''cancelled'', LInfo)"
| "surface_body usd MaxTokensExhausted =
     Some (''max-tokens recovery exhausted '' @ em_dash @ '' try /effort low to reduce reasoning budget'', LError)"
| "surface_body usd (SRefusal m) = Some (''model refusal: '' @ m, LError)"
| "surface_body usd (SContentFilter m) = Some (''content filter: '' @ m, LError)"
| "surface_body usd (SStreamIdle d) = Some (''stream idle for '' @ nat_str (d div 1000) @ ''s'', LError)"
| "surface_body usd ThinkingBudgetExhausted =
     Some (''thinking budget exhausted '' @ em_dash @
       '' the model kept reasoning without answering; try /effort low to reduce reasoning budget'', LError)"

(* map: src/crates/caliban-agent-core/src/stream/mod.rs 617-648 StopCondition::surface *)
definition surface :: "(64 word \<Rightarrow> string) \<Rightarrow> stop_condition \<Rightarrow> (string \<times> stop_level) option" where
  "surface usd sc = map_option (\<lambda>(body, level). (''[caliban: '' @ body @ '']'', level)) (surface_body usd sc)"

section \<open>The agent\<close>

(* map: src/crates/caliban-agent-core/src/agent.rs 47-163 AgentConfig *)
record agent_config =
  cf_model :: string
  cf_max_tokens :: nat
  cf_temperature :: "u32 option"
  cf_top_p :: "u32 option"
  cf_stop_sequences :: "string list"
  cf_user_id :: "string option"
  cf_max_turns :: nat
  cf_tool_choice :: tool_choice
  cf_escalated_max_tokens :: nat
  cf_max_meta_continuations :: nat
  cf_stream_idle_timeout_ms :: nat
  cf_stream_prefill_timeout_ms :: nat
  cf_max_tokens_recovery :: bool
  cf_auto_compact_threshold :: "u32 option"
  cf_micro_compact_enabled :: bool
  cf_tool_result_cap_chars :: nat
  cf_min_cache_block_tokens :: nat
  cf_lazy_mcp :: bool
  cf_max_active_schemas :: nat
  cf_no_edit_nudge_threshold :: nat
  cf_empty_turn_nudge_max :: nat
  cf_max_turn_thinking_chars :: nat
  cf_time_budget :: "nat option"
  cf_cost_budget_usd :: "64 word option"

(* map: src/crates/caliban-agent-core/src/agent.rs 165-212 AgentConfig::default *)
definition config_default :: agent_config where
  "config_default =
     \<lparr>cf_model = [], cf_max_tokens = 1024, cf_temperature = None, cf_top_p = None,
      cf_stop_sequences = [], cf_user_id = None, cf_max_turns = 50, cf_tool_choice = ChooseAuto,
      cf_escalated_max_tokens = 16384, cf_max_meta_continuations = 3,
      cf_stream_idle_timeout_ms = 90000, cf_stream_prefill_timeout_ms = 300000,
      cf_max_tokens_recovery = True, cf_auto_compact_threshold = Some 0x3F400000,
      cf_micro_compact_enabled = True, cf_tool_result_cap_chars = 50000,
      cf_min_cache_block_tokens = 1024, cf_lazy_mcp = False, cf_max_active_schemas = 24,
      cf_no_edit_nudge_threshold = 10, cf_empty_turn_nudge_max = 2,
      cf_max_turn_thinking_chars = 262144, cf_time_budget = None, cf_cost_budget_usd = None\<rparr>"

text \<open>
  What the agent is built from. The swappable settings (model, effort, thinking, activation set,
  plan mode) live in the world. \<open>ag_open\<close> is the provider's \<open>stream\<close>, with the
  milliseconds until it answers; \<open>ag_over_threshold\<close> compares the utilisation of the window
  with the threshold; \<open>ag_over_budget\<close> compares the price of the usage with the budget;
  \<open>ag_order\<close> is the order in which the runtime lets concurrent calls proceed, which the
  limit on parallel calls only restricts.
\<close>

(* map: src/crates/caliban-agent-core/src/agent.rs 236-293 Agent *)
record 'w agent =
  ag_config :: agent_config
  ag_open :: "request \<Rightarrow> 'w \<Rightarrow> nat option \<times> (timed_stream, perror) result \<times> 'w"
  ag_capabilities :: "string \<Rightarrow> capabilities"
  ag_active_model :: "'w \<Rightarrow> string"
  ag_thinking :: "'w \<Rightarrow> thinking_setting"
  ag_effort :: "'w \<Rightarrow> effort"
  ag_tools :: "'w registry"
  ag_mcp_active :: "'w \<Rightarrow> activation_set"
  ag_mcp_eager_servers :: "string list"
  ag_compactor :: "'w compactor"
  ag_retry :: retry_policy
  ag_hooks :: "'w hooks"
  ag_over_budget :: "(usage \<Rightarrow> 64 word \<Rightarrow> bool) option"
  ag_over_threshold :: "u32 \<Rightarrow> nat \<Rightarrow> nat \<Rightarrow> bool"
  ag_prompt_cache :: bool
  ag_order :: "'w \<Rightarrow> nat list"
  ag_plan_mode :: "('w \<Rightarrow> bool) option"
  ag_post_processor :: "string \<Rightarrow> string"
  ag_waiting :: "'w waiting"
  ag_pass :: "nat \<Rightarrow> 'w \<Rightarrow> 'w"
  ag_now :: "'w \<Rightarrow> nat"
  ag_save :: "string \<Rightarrow> string \<Rightarrow> string \<Rightarrow> 'w \<Rightarrow> (string, string) result \<times> 'w"
  ag_print :: "json \<Rightarrow> string"
  ag_parse :: "string \<Rightarrow> json option"
  ag_show :: "perror \<Rightarrow> string"
  ag_show_hook :: "agent_error \<Rightarrow> string"

abbreviation cancelled :: "'w agent \<Rightarrow> 'w \<Rightarrow> bool" where
  "cancelled ag w \<equiv> wt_cancelled (ag_waiting ag) w"

abbreviation active_caps :: "'w agent \<Rightarrow> 'w \<Rightarrow> capabilities" where
  "active_caps ag w \<equiv> ag_capabilities ag (ag_active_model ag w)"

section \<open>The recovery state\<close>

definition meta_continuation_prompt :: string where
  "meta_continuation_prompt =
     ''Output token limit hit. Resume directly '' @ em_dash @ '' no apology, no recap. '' @
     ''Pick up mid-thought. Break remaining work into smaller pieces.''"

definition refusal_synthetic :: string where
  "refusal_synthetic = ''Model declined to respond.''"

definition content_filter_synthetic :: string where
  "content_filter_synthetic = ''Response blocked by content filter.''"

definition max_consecutive_compact_failures :: nat where
  "max_consecutive_compact_failures = 2"

definition max_forced_continuations :: nat where
  "max_forced_continuations = 3"

(* map: src/crates/caliban-agent-core/src/stream/recovery.rs 37-46 AutoCompactTracking *)
record auto_tracking =
  at_consecutive_failures :: nat
  at_disabled :: bool

(* map: src/crates/caliban-agent-core/src/stream/recovery.rs 64-74 RecoveryAction *)
datatype recovery_action =
    RetryTurn
  | InjectAndContinue "message list"
  | Surrender stop_condition

(* map: src/crates/caliban-agent-core/src/stream/recovery.rs 80-97 RecoveryState *)
record recovery_state =
  rv_stage_a_attempted :: bool
  rv_override_max_tokens :: "nat option"
  rv_meta_continuations :: nat
  rv_attempted_reactive :: bool
  rv_forced_continuations :: nat
  rv_auto_tracking :: auto_tracking

definition recovery_default :: recovery_state where
  "recovery_default =
     \<lparr>rv_stage_a_attempted = False, rv_override_max_tokens = None, rv_meta_continuations = 0,
      rv_attempted_reactive = False, rv_forced_continuations = 0,
      rv_auto_tracking = \<lparr>at_consecutive_failures = 0, at_disabled = False\<rparr>\<rparr>"

(* map: src/crates/caliban-agent-core/src/stream/recovery.rs 11-26 ensure_assistant_note *)
definition ensure_assistant_note :: "message list \<Rightarrow> string \<Rightarrow> message list" where
  "ensure_assistant_note history note =
     (if history \<noteq> [] \<and> msg_role (last history) = Assistant
      then (if msg_content (last history) = [] then butlast history @ [msg_assistant_text note]
            else history)
      else history @ [msg_assistant_text note])"

(* map: src/crates/caliban-agent-core/src/stream/recovery.rs 99-107 RecoveryState::reset_for_new_turn *)
definition reset_for_new_turn :: "recovery_state \<Rightarrow> recovery_state" where
  "reset_for_new_turn r = r\<lparr>rv_stage_a_attempted := False, rv_override_max_tokens := None\<rparr>"

(* map: src/crates/caliban-agent-core/src/stream/recovery.rs 109-112 RecoveryState::effective_max_tokens *)
definition effective_max_tokens :: "recovery_state \<Rightarrow> nat \<Rightarrow> nat" where
  "effective_max_tokens r dflt = unwrap_or dflt (rv_override_max_tokens r)"

(* map: src/crates/caliban-agent-core/src/stream/recovery.rs 119-146 RecoveryState::on_context_too_long *)
definition on_context_too_long ::
  "'w agent \<Rightarrow> recovery_state \<Rightarrow> message list \<Rightarrow> 'w \<Rightarrow> recovery_action \<times> recovery_state \<times> message list \<times> 'w" where
  "on_context_too_long ag r history w =
     (let r' = r\<lparr>rv_attempted_reactive := True\<rparr> in
      case cp_compact (ag_compactor ag) history (active_caps ag w) w of
        (Ok (Some c), w') \<Rightarrow> (RetryTurn, r', cm_messages c, w')
      | (_, w') \<Rightarrow>
          (Surrender (SProviderError ''context too long; compactor declined''), r', history, w'))"

(* map: src/crates/caliban-agent-core/src/stream/recovery.rs 148-152 RecoveryState::reactive_compact_available *)
definition reactive_compact_available :: "recovery_state \<Rightarrow> bool" where
  "reactive_compact_available r = (\<not> rv_attempted_reactive r)"

(* map: src/crates/caliban-agent-core/src/stream/recovery.rs 154-179 RecoveryState::on_max_tokens_pre_dispatch *)
definition on_max_tokens_pre_dispatch ::
  "agent_config \<Rightarrow> stop_reason \<Rightarrow> recovery_state \<Rightarrow> recovery_action option \<times> recovery_state" where
  "on_max_tokens_pre_dispatch cfg sr r =
     (if cf_max_tokens_recovery cfg \<and> sr = MaxTokens \<and> \<not> rv_stage_a_attempted r
      then (Some RetryTurn, r\<lparr>rv_stage_a_attempted := True,
              rv_override_max_tokens := Some (cf_escalated_max_tokens cfg)\<rparr>)
      else (None, r))"

(* map: src/crates/caliban-agent-core/src/stream/recovery.rs 181-192 RecoveryState::turn_is_failure *)
definition turn_is_failure :: "agent_config \<Rightarrow> stop_reason \<Rightarrow> recovery_state \<Rightarrow> bool" where
  "turn_is_failure cfg sr r =
     (sr = Refusal \<or> sr = ContentFilter \<or>
      sr = MaxTokens \<and> cf_max_tokens_recovery cfg \<and> rv_stage_a_attempted r \<and>
        rv_meta_continuations r \<ge> cf_max_meta_continuations cfg)"

(* map: src/crates/caliban-agent-core/src/stream/recovery.rs 194-197 RecoveryState::forced_continuation_available *)
definition forced_continuation_available :: "recovery_state \<Rightarrow> bool" where
  "forced_continuation_available r = (rv_forced_continuations r < max_forced_continuations)"

(* map: src/crates/caliban-agent-core/src/stream/recovery.rs 199-202 RecoveryState::record_forced_continuation *)
definition record_forced_continuation :: "recovery_state \<Rightarrow> recovery_state" where
  "record_forced_continuation r = r\<lparr>rv_forced_continuations := rv_forced_continuations r + 1\<rparr>"

type_synonym 'w input_provider = "'w \<Rightarrow> message list option \<times> 'w"

(* map: src/crates/caliban-agent-core/src/stream/recovery.rs 217-314 RecoveryState::on_stop_reason *)
definition on_stop_reason ::
  "'w agent \<Rightarrow> stop_reason \<Rightarrow> 'w input_provider option \<Rightarrow> recovery_state \<Rightarrow> message list \<Rightarrow> 'w \<Rightarrow>
   recovery_action \<times> recovery_state \<times> message list \<times> 'w" where
  "on_stop_reason ag sr input_source r history w =
     (let cfg = ag_config ag in
      case sr of
        ToolUseStop \<Rightarrow> (InjectAndContinue [], reset_for_new_turn r, history, w)
      | MaxTokens \<Rightarrow>
          if cf_max_tokens_recovery cfg
          then (if rv_meta_continuations r < cf_max_meta_continuations cfg
                then (InjectAndContinue [msg_user_text meta_continuation_prompt],
                      reset_for_new_turn (r\<lparr>rv_meta_continuations := rv_meta_continuations r + 1\<rparr>), history, w)
                else (Surrender MaxTokensExhausted, r, history, w))
          else (Surrender MaxTokensExhausted, r, history, w)
      | Refusal \<Rightarrow>
          (Surrender (SRefusal refusal_synthetic), r, ensure_assistant_note history refusal_synthetic, w)
      | ContentFilter \<Rightarrow>
          (Surrender (SContentFilter content_filter_synthetic), r,
           ensure_assistant_note history content_filter_synthetic, w)
      | _ \<Rightarrow>
          (case input_source of
             None \<Rightarrow> (Surrender EndOfTurn, r, history, w)
           | Some next_input \<Rightarrow>
               (case next_input w of (next, w') \<Rightarrow>
                  if cancelled ag w' then (Surrender SCancelled, r, history, w')
                  else (case next of
                          Some (m # ms) \<Rightarrow> (InjectAndContinue (m # ms), reset_for_new_turn r, history, w')
                        | _ \<Rightarrow> (Surrender EndOfTurn, r, history, w')))))"

end
