(* ===== verification/ModeFilter.thy ===== *)
theory ModeFilter
  imports AutoMode
begin

text \<open>
  \<open>ModeFilter\<close> (\<open>crates/caliban-agent-core/src/mode_filter.rs\<close>): the permission mode
  composed with the permission rules on every tool call. A result of \<open>None\<close> is the panic
  of the task that classifies the call (see \<open>AutoMode\<close>).
\<close>

section \<open>The filter\<close>

(* map: src/crates/caliban-agent-core/src/mode_filter.rs 226-242 rewrite_ask_to_allow *)
fun rewrite_ask_to_allow :: "hook_decision \<Rightarrow> hook_decision" where
  "rewrite_ask_to_allow (AskDenied _) = Allow"
| "rewrite_ask_to_allow other = other"

(* map: src/crates/caliban-agent-core/src/mode_filter.rs 247-252 normalize_ask_denied *)
fun normalize_ask_denied :: "hook_decision \<Rightarrow> hook_decision" where
  "normalize_ask_denied (AskDenied reason) = Deny reason"
| "normalize_ask_denied other = other"

text \<open>The mode is shared with the interface, which stores a new one at any time.\<close>

(* map: src/crates/caliban-agent-core/src/mode_filter.rs 32-37 ModeFilter *)
record ('w, 'h) mode_filter =
  mf_mode :: "'w \<Rightarrow> permission_mode"
  mf_classifier :: "('w, 'h) classifier option"
  mf_inner :: "'w hooks"
  mf_bypass_latch :: bool

(* map: src/crates/caliban-agent-core/src/mode_filter.rs 179-223 ModeFilter::handle_auto *)
definition handle_auto ::
  "('w, 'h) mode_filter \<Rightarrow> tool_ctx \<Rightarrow> 'w \<Rightarrow> ((hook_decision, agent_error) result \<times> 'w) option" where
  "handle_auto mf ctx w =
     (case mf_classifier mf of
        None \<Rightarrow> Some (hk_before_tool (mf_inner mf) ctx w)
      | Some cl \<Rightarrow>
          (case classify cl ctx w of
             None \<Rightarrow> None
           | Some (d, w1) \<Rightarrow>
               (case ad_verdict d of
                  VAllow \<Rightarrow> Some (Ok Allow, w1)
                | VHardDeny \<Rightarrow>
                    (let comment = ''auto-mode hard_deny: '' @ ad_reason d;
                         w2 = notify (hk_permission_denied (mf_inner mf))
                                (perm_ctx_of ctx ''deny'' (Some comment)) w1
                     in Some (Ok (Deny comment), w2))
                | VSoftDeny \<Rightarrow> Some (hk_before_tool (mf_inner mf) ctx w1))))"

definition plan_denied_msg :: "string \<Rightarrow> string" where
  "plan_denied_msg name = ''plan mode: '' @ sq @ name @ sq @ '' is not in the read-only allowlist''"

text \<open>The branches of \<open>before_tool\<close> but for the latched bypass, which returns early.\<close>

(* map: src/crates/caliban-agent-core/src/mode_filter.rs 100-154 ModeFilter::before_tool *)
definition mode_branch ::
  "('w, 'h) mode_filter \<Rightarrow> tool_ctx \<Rightarrow> 'w \<Rightarrow> ((hook_decision, agent_error) result \<times> 'w) option" where
  "mode_branch mf ctx w =
     (let inner = hk_before_tool (mf_inner mf) ctx in
      case mf_mode mf w of
        BypassPermissions \<Rightarrow> Some (inner w)
      | AcceptEdits \<Rightarrow>
          (case inner w of
             (Err e, w') \<Rightarrow> Some (Err e, w')
           | (Ok d, w') \<Rightarrow>
               if is_file_edit_tool (tc_tool_name ctx) then Some (Ok (rewrite_ask_to_allow d), w')
               else Some (Ok d, w'))
      | Plan \<Rightarrow>
          if tc_is_read_only ctx \<or> is_plan_control_tool (tc_tool_name ctx) then Some (inner w)
          else Some (Ok (Deny (plan_denied_msg (tc_tool_name ctx))),
                     notify (hk_permission_denied (mf_inner mf))
                       (perm_ctx_of ctx ''deny'' (Some ''plan mode: read-only'')) w)
      | Auto \<Rightarrow> handle_auto mf ctx w
      | DontAsk \<Rightarrow>
          (case inner w of
             (Err e, w') \<Rightarrow> Some (Err e, w')
           | (Ok d, w') \<Rightarrow> Some (Ok (rewrite_ask_to_allow d), w'))
      | Default \<Rightarrow> Some (inner w))"

(* map: src/crates/caliban-agent-core/src/mode_filter.rs 89-160 ModeFilter::before_tool *)
definition mode_before_tool ::
  "('w, 'h) mode_filter \<Rightarrow> tool_ctx \<Rightarrow> 'w \<Rightarrow> ((hook_decision, agent_error) result \<times> 'w) option" where
  "mode_before_tool mf ctx w =
     (if mf_mode mf w = BypassPermissions \<and> mf_bypass_latch mf then Some (Ok Allow, w)
      else map_option (\<lambda>(r, w'). (map_ok normalize_ask_denied r, w')) (mode_branch mf ctx w))"

section \<open>The sealed gate\<close>

text \<open>
  The contract the dispatcher relies on: the marker of a synthesised denial is internal to the
  permission layer, so a caller need only tell apart three decisions.
\<close>

locale sealed_gate =
  fixes gate :: "tool_ctx \<Rightarrow> 'w \<Rightarrow> ((hook_decision, agent_error) result \<times> 'w) option"
  assumes no_marker: "gate ctx w \<noteq> Some (Ok (AskDenied m), w')"
begin

lemma decisions:
  assumes "gate ctx w = Some (Ok d, w')"
  obtains "d = Allow" | m where "d = Deny m" | v where "d = UpdatedInput v"
  using assms no_marker by (cases d) auto

lemma normalize_id:
  "gate ctx w = Some (Ok d, w') \<Longrightarrow> normalize_ask_denied d = d"
  by (erule decisions) simp_all

lemma stops_iff:
  "gate ctx w = Some (r, w') \<Longrightarrow> stops r \<longleftrightarrow> (\<exists>m. r = Ok (Deny m)) \<or> (\<exists>e. r = Err e)"
  using no_marker by (cases r rule: stops.cases) auto

end

lemma normalize_no_marker: "map_ok normalize_ask_denied r \<noteq> Ok (AskDenied m)"
proof (cases r)
  case (Ok d)
  then show ?thesis by (cases d) simp_all
qed simp

interpretation mode_gate: sealed_gate "mode_before_tool mf" for mf
  by unfold_locales (use normalize_no_marker in \<open>auto simp: mode_before_tool_def\<close>)

section \<open>Properties\<close>

text \<open>
  The marker of a synthesised denial never leaves the permission layer: whatever the mode,
  the classifier and the inner hooks do, the filter answers allow, deny or a rewritten input,
  or an error.
\<close>

theorem mode_filter_seals_marker:
  "mode_before_tool mf ctx w \<noteq> Some (Ok (AskDenied m), w')"
  by (rule mode_gate.no_marker)

text \<open>The filter over the permission rules.\<close>

definition gated :: "matcher \<Rightarrow> 'w permissions_hook \<Rightarrow> ('w, 'h) mode_filter \<Rightarrow> bool" where
  "gated mt ph mf \<longleftrightarrow> mf_inner mf = permissions_hooks mt ph"

lemma gated_before_tool [simp]:
  "gated mt ph mf \<Longrightarrow> hk_before_tool (mf_inner mf) = permissions_before_tool mt ph"
  by (simp add: gated_def permissions_hooks_def)

lemma denied_by_rules:
  assumes "gated mt ph mf" and "perm_evaluate mt ph ctx w = RDeny"
  obtains m w1 where "hk_before_tool (mf_inner mf) ctx w = (Ok (Deny m), w1)"
  using permissions_deny [OF assms(2)] assms(1) prod.collapse
  by (metis gated_before_tool)

lemma deny_rule_denies:
  assumes "gated mt ph mf" and "perm_evaluate mt ph ctx w = RDeny"
    and "mf_mode mf w \<noteq> Auto" and "\<not> (mf_mode mf w = BypassPermissions \<and> mf_bypass_latch mf)"
  shows "\<exists>m w'. mode_before_tool mf ctx w = Some (Ok (Deny m), w')"
proof -
  obtain m w1 where "hk_before_tool (mf_inner mf) ctx w = (Ok (Deny m), w1)"
    using assms(1,2) by (rule denied_by_rules)
  then show ?thesis
    using assms(3,4)
    by (cases "mf_mode mf w") (auto simp: mode_before_tool_def mode_branch_def Let_def)
qed

text \<open>
  (C11) A rule that denies is final in every mode but two: the confirmed bypass, which consults
  nothing, and auto mode, whose classifier is asked before the rules. In particular the modes
  that turn questions into permissions, \<open>acceptEdits\<close> and \<open>dontAsk\<close>, never turn
  a denial into one, whatever text the rule gives as its reason.
\<close>

theorem deny_rule_is_final:
  assumes "gated mt ph mf" and "perm_evaluate mt ph ctx w = RDeny"
    and "mf_mode mf w \<noteq> Auto" and "\<not> (mf_mode mf w = BypassPermissions \<and> mf_bypass_latch mf)"
  shows "\<exists>m w'. mode_before_tool mf ctx w = Some (Ok (Deny m), w')"
  using assms by (rule deny_rule_denies)

definition waives :: "permission_mode \<Rightarrow> tool_ctx \<Rightarrow> bool" where
  "waives mode ctx \<longleftrightarrow> mode = DontAsk \<or> mode = AcceptEdits \<and> is_file_edit_tool (tc_tool_name ctx)"

text \<open>A decision that is a permission under the mode: an answer, or a waived question.\<close>

definition permits :: "permission_mode \<Rightarrow> tool_ctx \<Rightarrow> (hook_decision, agent_error) result \<Rightarrow> bool" where
  "permits mode ctx r \<longleftrightarrow> r = Ok Allow \<or> (waives mode ctx \<and> (\<exists>m. r = Ok (AskDenied m)))"

definition rules_permit ::
  "matcher \<Rightarrow> 'w permissions_hook \<Rightarrow> permission_mode \<Rightarrow> tool_ctx \<Rightarrow> 'w \<Rightarrow> bool" where
  "rules_permit mt ph mode ctx w \<longleftrightarrow>
     (case perm_evaluate mt ph ctx w of
        RDeny \<Rightarrow> False
      | RAllow \<Rightarrow> permits mode ctx (fst (hk_before_tool (ph_inner ph) ctx w))
      | RAsk \<Rightarrow> \<exists>w1. permits mode ctx (Ok (fst (ph_ask ph ctx w1))))"

definition classifier_allows :: "('w, 'h) mode_filter \<Rightarrow> tool_ctx \<Rightarrow> 'w \<Rightarrow> bool" where
  "classifier_allows mf ctx w \<longleftrightarrow>
     (case mf_classifier mf of
        None \<Rightarrow> False
      | Some cl \<Rightarrow> map_option (\<lambda>(d, _). ad_verdict d) (classify cl ctx w) = Some VAllow)"

lemma permissions_permit:
  assumes "permits mode ctx (fst (permissions_before_tool mt ph ctx w))"
  shows "rules_permit mt ph mode ctx w"
proof (cases "perm_evaluate mt ph ctx w")
  case RAllow
  with assms show ?thesis by (simp add: rules_permit_def permissions_allow)
next
  case RDeny
  with assms permissions_deny [OF RDeny] show ?thesis by (auto simp: permits_def)
next
  case RAsk
  with assms permissions_ask [OF RAsk] show ?thesis by (auto simp: rules_permit_def)
qed

lemma normalize_Allow [simp]:
  "normalize_ask_denied d = Allow \<longleftrightarrow> d = Allow" "Allow = normalize_ask_denied d \<longleftrightarrow> d = Allow"
  by (cases d; simp)+

lemma rewrite_Allow [simp]:
  "rewrite_ask_to_allow d = Allow \<longleftrightarrow> d = Allow \<or> (\<exists>m. d = AskDenied m)"
  by (cases d) simp_all

lemma handle_auto_Allow:
  assumes "handle_auto mf ctx w = Some (Ok Allow, w')"
  shows "classifier_allows mf ctx w \<or> (\<exists>w0. fst (hk_before_tool (mf_inner mf) ctx w0) = Ok Allow)"
proof (cases "mf_classifier mf")
  case None
  with assms show ?thesis by (auto simp: handle_auto_def intro!: exI [of _ w])
next
  case (Some cl)
  then obtain d w1 where c: "classify cl ctx w = Some (d, w1)"
    using assms by (auto simp: handle_auto_def split: option.splits)
  show ?thesis
  proof (cases "ad_verdict d")
    case VAllow
    with Some c show ?thesis by (simp add: classifier_allows_def)
  next
    case VSoftDeny
    with Some c assms show ?thesis by (auto simp: handle_auto_def intro!: exI [of _ w1])
  next
    case VHardDeny
    with Some c assms show ?thesis by (simp add: handle_auto_def Let_def)
  qed
qed

lemma mode_branch_Allow:
  assumes "mode_branch mf ctx w = Some (Ok Allow, w')"
  shows "(mf_mode mf w = Auto \<and> classifier_allows mf ctx w) \<or>
    (\<exists>w0. permits (mf_mode mf w) ctx (fst (hk_before_tool (mf_inner mf) ctx w0)))"
proof (cases "mf_mode mf w = Auto")
  case True
  with assms show ?thesis
    using handle_auto_Allow [of mf ctx w w'] by (auto simp: mode_branch_def Let_def permits_def)
next
  case False
  have "permits (mf_mode mf w) ctx (fst (hk_before_tool (mf_inner mf) ctx w))"
    using assms False
    by (cases "mf_mode mf w"; cases "hk_before_tool (mf_inner mf) ctx w"; cases "fst (hk_before_tool (mf_inner mf) ctx w)")
       (auto simp: mode_branch_def Let_def permits_def waives_def split: if_splits)
  then show ?thesis by blast
qed


text \<open>
  Plan mode: a tool with side effects that is not one of the two plan-control tools is
  denied before any rule or hook is consulted, so no rule can allow it; for the others plan
  mode is the default mode.
\<close>

theorem plan_mode_read_only:
  assumes "mf_mode mf w = Plan"
  shows "mode_before_tool mf ctx w =
    (if tc_is_read_only ctx \<or> is_plan_control_tool (tc_tool_name ctx)
     then mode_before_tool (mf\<lparr>mf_mode := \<lambda>_. Default\<rparr>) ctx w
     else Some (Ok (Deny (plan_denied_msg (tc_tool_name ctx))),
            notify (hk_permission_denied (mf_inner mf))
              (perm_ctx_of ctx ''deny'' (Some ''plan mode: read-only'')) w))"
  using assms by (simp add: mode_before_tool_def mode_branch_def Let_def)

section \<open>Concrete filters\<close>

definition sample_filter :: "permission_mode \<Rightarrow> rule list \<Rightarrow> ('w, string) mode_filter" where
  "sample_filter mode rules = \<lparr>mf_mode = \<lambda>_. mode, mf_classifier = None,
     mf_inner = permissions_hooks (ws_matcher sample_globset ''/w'')
       \<lparr>ph_rules = rules, ph_runtime = \<lambda>_. [], ph_ask = non_interactive_ask False,
        ph_inner = noop_hooks\<rparr>,
     mf_bypass_latch = False\<rparr>"

definition sample_rules :: "rule list \<Rightarrow> 'w permissions_hook" where
  "sample_rules rules = \<lparr>ph_rules = rules, ph_runtime = \<lambda>_. [],
     ph_ask = non_interactive_ask False, ph_inner = noop_hooks\<rparr>"

lemma sample_gated:
  "gated (ws_matcher sample_globset ''/w'') (sample_rules rules) (sample_filter mode rules)"
  by (simp add: gated_def sample_filter_def sample_rules_def)

lemma sample_evaluate:
  "perm_evaluate (ws_matcher sample_globset ''/w'') (sample_rules [plain_rule ''*'' a]) ctx w = a"
  by (simp add: perm_evaluate_effective effective_rules_def sample_rules_def evaluate_rules_def
      rule_matches_def)

theorem deny_rule_is_final_witness:
  "\<exists>m w'. mode_before_tool (sample_filter DontAsk [plain_rule ''*'' RDeny]) sample_call (0 :: nat) =
     Some (Ok (Deny m), w')"
proof (rule deny_rule_is_final [OF sample_gated])
  show "perm_evaluate (ws_matcher sample_globset ''/w'') (sample_rules [plain_rule ''*'' RDeny])
      sample_call 0 = RDeny"
    by (rule sample_evaluate)
qed (simp_all add: sample_filter_def)

lemma sample_dont_ask:
  "mode_before_tool (sample_filter DontAsk [plain_rule ''*'' RAsk]) sample_call (0 :: nat) = Some (Ok Allow, 0)"
  by (simp add: mode_before_tool_def mode_branch_def sample_filter_def permissions_hooks_def
      permissions_before_tool_def evaluate_with_rule_def store_evaluate_def rule_matches_def Let_def
      non_interactive_ask_def notify_def noop_hooks_def)


theorem plan_mode_read_only_witness:
  "mode_before_tool (sample_filter Plan [plain_rule ''*'' RAllow]) sample_call (0 :: nat) =
     Some (Ok (Deny (plan_denied_msg ''Bash'')), 0)"
proof -
  have "mf_mode (sample_filter Plan [plain_rule ''*'' RAllow]) (0 :: nat) = Plan"
    by (simp add: sample_filter_def)
  from plan_mode_read_only [OF this, of sample_call] show ?thesis
    by (simp add: sample_call_def is_plan_control_tool_def sample_filter_def permissions_hooks_def
        notify_def noop_hooks_def)
qed

end
