(* ===== verification/AgentLoop.thy ===== *)
theory AgentLoop
  imports Recovery ModeFilter
begin

text \<open>
  The core loop (\<open>stream/mod.rs\<close>, \<open>stream/hook_dispatch.rs\<close>,
  \<open>stream/parallel.rs\<close>, \<open>turn.rs\<close>): one run is a bounded sequence of turns; a turn
  asks the provider, drains its stream, gates the tool calls one after the other, dispatches the
  allowed ones concurrently, puts the results in the history and decides how to go on. An
  attempt at a turn ends by retrying the turn, by advancing to the next, or by ending the run.

  The loop's variables are a record; the events it yields are a field of it, oldest first. The
  cancellation token is read from the world, so any callback may have fired it. Concurrent tool
  calls are atomic steps whose order the runtime chooses, first come first served for calls with
  the same conflict key. Tracing spans are left out.
\<close>

section \<open>Events and state\<close>

(* map: src/crates/caliban-agent-core/src/stream/mod.rs 373-478 TurnEvent *)
datatype turn_event =
    TurnStart nat string string
  | AssistantTextDelta nat nat string
  | AssistantThinkingDelta nat nat string
  | ToolCallStart nat string string
  | ToolCallInputDelta nat string string
  | ToolCallEnd nat string bool "content_block list" string bool
  | TurnEnd nat message "message list" stop_reason usage "nat option" "nat option"
  | RunEnd "message list" usage nat stop_condition nat bool

text \<open>The run-level callbacks of the \<open>Hooks\<close> trait.\<close>

(* map: src/crates/caliban-agent-core/src/hooks.rs 68-91 RunCtx *)
record run_ctx =
  rc_session_id :: string
  rc_workspace_root :: string
  rc_user_message :: "message option"
  rc_prompt_index :: nat

(* map: src/crates/caliban-agent-core/src/hooks.rs 93-107 RunHookOutcome *)
record run_hook_outcome =
  ro_turn_count :: nat
  ro_input_tokens :: u32
  ro_output_tokens :: u32
  ro_success :: bool

(* map: src/crates/caliban-agent-core/src/hooks.rs 356-382 Hooks *)
record 'w run_hooks =
  rh_before_run :: "run_ctx \<Rightarrow> ('w, unit) action"
  rh_after_run :: "run_ctx \<Rightarrow> run_hook_outcome \<Rightarrow> ('w, unit) action"
  rh_after_run_failure :: "run_ctx \<Rightarrow> run_hook_outcome \<Rightarrow> ('w, unit) action"

(* map: src/crates/caliban-agent-core/src/stream/mod.rs 953-972 RunSettings *)
record 'w run_settings =
  rs_session_id :: string
  rs_workspace_root :: string
  rs_prompt_index :: nat
  rs_input_source :: "'w input_provider option"
  rs_run_hooks :: "'w run_hooks"

record 'w loop_state =
  ls_history :: "message list"
  ls_usage :: usage
  ls_recovery :: recovery_state
  ls_turns_completed :: nat
  ls_since_edit :: nat
  ls_without_edit :: nat
  ls_nudge_armed :: bool
  ls_nudge_emitted :: bool
  ls_empty_nudges :: nat
  ls_drain_retries :: nat
  ls_stopped_for :: stop_condition
  ls_events :: "turn_event list"
  ls_world :: 'w

definition yield :: "turn_event list \<Rightarrow> 'w loop_state \<Rightarrow> 'w loop_state" where
  "yield evs ls = ls\<lparr>ls_events := ls_events ls @ evs\<rparr>"

text \<open>\<open>continue 'inner\<close>, \<open>break 'inner\<close> and \<open>break 'outer\<close>.\<close>

datatype 'w flow = FRetry "'w loop_state" | FNext "'w loop_state" | FBreak "'w loop_state"

datatype ('a, 'w) phase = Go 'a "'w loop_state" | Leave "'w flow"

definition stop_with :: "stop_condition \<Rightarrow> 'w loop_state \<Rightarrow> ('a, 'w) phase" where
  "stop_with sc ls = Leave (FBreak (ls\<lparr>ls_stopped_for := sc\<rparr>))"

section \<open>Helpers\<close>

definition stream_result_text_cap :: nat where
  "stream_result_text_cap = 8 * 1024"

(* map: src/crates/caliban-agent-core/src/stream/mod.rs 255-265 capped_result_text *)
definition capped_result_text :: "content_block list \<Rightarrow> nat \<Rightarrow> string \<times> bool" where
  "capped_result_text content max_chars =
     (let full = flatten_content_text content in
      if char_count full > max_chars then (concat (take max_chars (utf8_chars full)), True)
      else (full, False))"

(* map: src/crates/caliban-agent-core/src/stream/mod.rs 273-284 denied_tool_result *)
definition denied_tool_result :: "string \<Rightarrow> string \<Rightarrow> content_block" where
  "denied_tool_result i t = ToolResult i [text_cb t] True"

fun first_missing :: "(string \<times> json) list \<Rightarrow> json list \<Rightarrow> string option" where
  "first_missing obj [] = None"
| "first_missing obj (JString name # rs) =
     (if map_of obj name = None then Some name else first_missing obj rs)"
| "first_missing obj (_ # rs) = first_missing obj rs"

(* map: src/crates/caliban-agent-core/src/stream/mod.rs 24-48 updated_input_is_valid *)
definition updated_input_is_valid :: "json \<Rightarrow> json \<Rightarrow> (unit, string) result" where
  "updated_input_is_valid schema input =
     (case json_as_object input of
        None \<Rightarrow> Err ''rewritten input is not a JSON object''
      | Some obj \<Rightarrow>
          (case Option.bind (json_get schema ''required'') json_as_array of
             None \<Rightarrow> Ok ()
           | Some required \<Rightarrow>
               (case first_missing obj required of
                  Some name \<Rightarrow> Err (''missing required field `'' @ name @ ''`'')
                | None \<Rightarrow> Ok ())))"

text \<open>Only the world matters of a callback whose error is logged.\<close>

definition run_quiet :: "('w, 'a) action \<Rightarrow> 'w \<Rightarrow> 'w" where
  "run_quiet a w = snd (a w)"

(* map: src/crates/caliban-agent-core/src/stream/mod.rs 1024-1092 Agent::maybe_compact *)
definition maybe_compact ::
  "'w agent \<Rightarrow> message list \<Rightarrow> auto_tracking \<Rightarrow> 'w \<Rightarrow> usage \<times> message list \<times> auto_tracking \<times> 'w" where
  "maybe_compact ag history tracking w =
     (let caps = active_caps ag w;
          tokens_before = estimate_tokens (ag_print ag) history;
          should_attempt = (case cf_auto_compact_threshold (ag_config ag) of
             None \<Rightarrow> False
           | Some t \<Rightarrow> \<not> at_disabled tracking \<and> ag_over_threshold ag t tokens_before (max 1 (cap_max_input_tokens caps)))
      in if \<not> should_attempt then (0, history, tracking, w)
         else
           (let ctx = \<lparr>cc_session_id = [], cc_token_count_before = tokens_before,
                        cc_strategy = cp_strategy_name (ag_compactor ag)\<rparr>;
                w1 = run_quiet (hk_pre_compact (ag_hooks ag) ctx) w
            in case cp_compact (ag_compactor ag) history caps w1 of
                 (Err e, w2) \<Rightarrow>
                   (let n = min 255 (at_consecutive_failures tracking + 1)
                    in (0, history, tracking\<lparr>at_consecutive_failures := n,
                          at_disabled := (at_disabled tracking \<or> n \<ge> max_consecutive_compact_failures)\<rparr>, w2))
               | (Ok (Some c), w2) \<Rightarrow>
                   (let outcome = \<lparr>co_token_count_after = estimate_tokens (ag_print ag) (cm_messages c),
                                   co_compacted = True\<rparr>
                    in (unwrap_or 0 (cm_usage c), cm_messages c, tracking\<lparr>at_consecutive_failures := 0\<rparr>,
                        run_quiet (hk_post_compact (ag_hooks ag) ctx outcome) w2))
               | (Ok None, w2) \<Rightarrow>
                   (0, history, tracking\<lparr>at_consecutive_failures := 0\<rparr>,
                    run_quiet (hk_post_compact (ag_hooks ag) ctx
                      \<lparr>co_token_count_after = tokens_before, co_compacted = False\<rparr>) w2)))"

(* map: src/crates/caliban-agent-core/src/stream/mod.rs 1103-1162 Agent::build_request *)
definition build_request :: "'w agent \<Rightarrow> message list \<Rightarrow> nat \<Rightarrow> 'w \<Rightarrow> request" where
  "build_request ag history max_tokens w =
     (let cfg = ag_config ag;
          filt = \<lparr>wf_lazy_mcp = cf_lazy_mcp cfg, wf_active = ag_mcp_active ag w,
                  wf_eager_servers = ag_mcp_eager_servers ag\<rparr>;
          (tools, dropped) = to_caliban_tools_filtered (ag_tools ag) filt;
          spliced = splice_into_messages history (cf_lazy_mcp cfg) dropped;
          (messages, tools') =
            (if ag_prompt_cache ag
             then apply_prompt_cache (ag_print ag) (cf_min_cache_block_tokens cfg) spliced tools
             else (spliced, tools))
      in \<lparr>rq_model = ag_active_model ag w, rq_messages = messages, rq_tools = tools',
          rq_tool_choice = cf_tool_choice cfg, rq_max_tokens = max_tokens,
          rq_temperature = cf_temperature cfg, rq_top_p = cf_top_p cfg, rq_top_k = None,
          rq_stop_sequences = cf_stop_sequences cfg, rq_thinking = ag_thinking ag w,
          rq_effort = Some (ag_effort ag w),
          rq_metadata = \<lparr>md_user_id = cf_user_id cfg, md_purpose = Some MainLoop\<rparr>\<rparr>)"

section \<open>Opening and draining the stream\<close>

text \<open>The wait for the first byte, bounded by the prefill budget unless that is zero.\<close>

(* map: src/crates/caliban-agent-core/src/stream/mod.rs 1663-1702 Agent::stream_until_done_with_settings *)
definition open_call ::
  "'w agent \<Rightarrow> request \<Rightarrow> 'w \<Rightarrow> ((timed_stream, perror) result \<times> 'w) option" where
  "open_call ag req w =
     (let budget = cf_stream_prefill_timeout_ms (ag_config ag) in
      case ag_open ag req w of (latency, r, w') \<Rightarrow>
        if budget = 0 then (if latency = None then None else Some (r, w'))
        else
          (case latency of
             Some l \<Rightarrow> if l \<le> budget then Some (r, w') else Some (Err (StreamIdle budget), ag_pass ag budget w')
           | None \<Rightarrow> Some (Err (StreamIdle budget), ag_pass ag budget w')))"

(* map: src/crates/caliban-agent-core/src/stream/mod.rs 1738-1763 Agent::stream_until_done_with_settings *)
definition watch_provider :: "agent_config \<Rightarrow> timed_stream \<Rightarrow> timed_stream" where
  "watch_provider cfg s =
     (let idle = cf_stream_idle_timeout_ms cfg; prefill = cf_stream_prefill_timeout_ms cfg in
      if idle > 0 then watched_stream idle (if prefill > 0 then prefill else idle) s else s)"

record drain_state =
  ds_acc :: accumulator
  ds_timing :: turn_timing
  ds_emitted :: bool
  ds_thinking_chars :: nat

definition slot :: "accumulator \<Rightarrow> nat \<Rightarrow> active_block option" where
  "slot acc i = (if i \<ge> length (ma_active acc) then None else ma_active acc ! i)"

text \<open>What an event makes the loop yield, and the thinking that it streams.\<close>

fun event_yield :: "nat \<Rightarrow> stream_event \<Rightarrow> accumulator \<Rightarrow> turn_event list" where
  "event_yield turn (MessageStart i model) acc = [TurnStart turn i model]"
| "event_yield turn (ContentBlockStart i (CtToolUse tid name)) acc = [ToolCallStart turn tid name]"
| "event_yield turn (Delta i d) acc =
     (case (slot acc i, d) of
        (Some (ActiveText _), DText s) \<Rightarrow> [AssistantTextDelta turn i s]
      | (Some (ActiveThinking _ _), DThinking s) \<Rightarrow> [AssistantThinkingDelta turn i s]
      | (Some (ActiveToolUse tid _ _), DToolUseInputJson s) \<Rightarrow> [ToolCallInputDelta turn tid s]
      | _ \<Rightarrow> [])"
| "event_yield turn _ acc = []"

fun thinking_streamed :: "stream_event \<Rightarrow> accumulator \<Rightarrow> nat option" where
  "thinking_streamed (Delta i (DThinking s)) acc =
     (case slot acc i of Some (ActiveThinking _ _) \<Rightarrow> Some (char_count s) | _ \<Rightarrow> None)"
| "thinking_streamed _ acc = None"

fun is_content_event :: "stream_event \<Rightarrow> bool" where
  "is_content_event (Delta _ _) = True"
| "is_content_event (ContentBlockStart _ (CtToolUse _ _)) = True"
| "is_content_event _ = False"

fun is_delta_event :: "stream_event \<Rightarrow> bool" where
  "is_delta_event (Delta _ _) = True"
| "is_delta_event _ = False"

(* map: src/crates/caliban-agent-core/src/stream/mod.rs 1814-1936 Agent::stream_until_done_with_settings *)
definition drain_event :: "'w agent \<Rightarrow> stream_event \<Rightarrow> drain_state \<Rightarrow> 'w \<Rightarrow> drain_state" where
  "drain_event ag ev ds w =
     \<lparr>ds_acc = acc_event (ag_parse ag) ev (ds_acc ds),
      ds_timing = (if is_delta_event ev then observe_delta (ag_now ag w) (ds_timing ds) else ds_timing ds),
      ds_emitted = (ds_emitted ds \<or> is_content_event ev),
      ds_thinking_chars = ds_thinking_chars ds + unwrap_or 0 (thinking_streamed ev (ds_acc ds))\<rparr>"

(* map: src/crates/caliban-agent-core/src/stream/mod.rs 1764-1937 Agent::stream_until_done_with_settings *)
fun drain ::
  "'w agent \<Rightarrow> nat \<Rightarrow> (nat \<times> stream_item) list \<Rightarrow> drain_state \<Rightarrow> 'w loop_state \<Rightarrow> (drain_state, 'w) phase" where
  "drain ag turn [] ds ls = Go ds ls"
| "drain ag turn ((gap, item) # rest) ds ls0 =
     (let ls = ls0\<lparr>ls_world := ag_pass ag gap (ls_world ls0)\<rparr> in
      if cancelled ag (ls_world ls) then stop_with SCancelled ls
      else
        (case item of
           Err e \<Rightarrow>
             (case e of
                StreamIdle d \<Rightarrow> stop_with (SStreamIdle d) ls
              | _ \<Rightarrow>
                  if is_retryable e \<and> \<not> ds_emitted ds \<and>
                     ls_drain_retries ls < rp_max_attempts (ag_retry ag) - 1
                  then Leave (FRetry (ls\<lparr>ls_drain_retries := ls_drain_retries ls + 1\<rparr>))
                  else stop_with (SProviderError (ag_show ag e)) ls)
         | Ok ev \<Rightarrow>
             (let ds' = drain_event ag ev ds (ls_world ls);
                  ls' = yield (event_yield turn ev (ds_acc ds)) ls;
                  limit = cf_max_turn_thinking_chars (ag_config ag)
              in if thinking_streamed ev (ds_acc ds) \<noteq> None \<and> limit > 0 \<and> ds_thinking_chars ds' > limit
                 then stop_with ThinkingBudgetExhausted ls'
                 else drain ag turn rest ds' ls')))"

section \<open>Planning the tool calls\<close>

(* map: src/crates/caliban-agent-core/src/stream/parallel.rs 24-47 DispatchPlan *)
datatype dispatch_plan =
    DAllowed (dp_index: nat) (dp_id: string) (dp_name: string) (dp_input: json) (dp_key: "string option")
  | DDenied (dp_index: nat) (dp_result: content_block)

(* map: src/crates/caliban-agent-core/src/stream/mod.rs 1359-1376 ToolPlan *)
datatype tool_plan =
    PlanDenied nat content_block
  | PlanAllowed dispatch_plan bool
  | PlanFatal stop_condition

definition plan_mode_msg :: "string \<Rightarrow> string" where
  "plan_mode_msg name =
     ''Tool '' @ sq @ name @ sq @ '' is not available in plan mode. Use ExitPlanMode to proceed.''"

text \<open>A rewrite of the input is checked against the tool's schema; an invalid one is a denial.\<close>

(* map: src/crates/caliban-agent-core/src/stream/mod.rs 1288-1306 Agent::plan_tool_call *)
definition check_rewrite :: "'w tool option \<Rightarrow> hook_decision \<Rightarrow> hook_decision" where
  "check_rewrite tool d =
     (case d of
        UpdatedInput new_input \<Rightarrow>
          (case tool of
             Some t \<Rightarrow>
               (case updated_input_is_valid (tl_input_schema t) new_input of
                  Ok _ \<Rightarrow> d
                | Err why \<Rightarrow> Deny (''before_tool hook rewrote input to an invalid shape: '' @ why))
           | None \<Rightarrow> d)
      | _ \<Rightarrow> d)"

(* map: src/crates/caliban-agent-core/src/stream/mod.rs 1239-1357 Agent::plan_tool_call *)
definition plan_tool_call ::
  "'w agent \<Rightarrow> string \<Rightarrow> nat \<Rightarrow> nat \<Rightarrow> tool_use_block \<Rightarrow> 'w \<Rightarrow> tool_plan \<times> 'w" where
  "plan_tool_call ag session turn idx tu w =
     (let tool = registry_get (ag_tools ag) (tu_name tu);
          read_only = (case tool of Some t \<Rightarrow> tl_is_read_only t | None \<Rightarrow> False);
          mutates = (case tool of Some t \<Rightarrow> tl_mutates_files t | None \<Rightarrow> False);
          plan_mode = (case ag_plan_mode ag of Some fl \<Rightarrow> fl w | None \<Rightarrow> False)
      in if plan_mode \<and> \<not> (read_only \<or> is_plan_control_tool (tu_name tu))
         then (PlanDenied idx (denied_tool_result (tu_id tu) (plan_mode_msg (tu_name tu))), w)
         else
           (let ctx = \<lparr>tc_session_id = session, tc_turn_index = turn, tc_tool_use_id = tu_id tu,
                        tc_tool_name = tu_name tu, tc_input = tu_input tu, tc_is_read_only = read_only\<rparr>
            in case hk_before_tool (ag_hooks ag) ctx w of
                 (Err e, w1) \<Rightarrow>
                   (PlanFatal (HookDenied (''before_tool hook failed: '' @ ag_show_hook ag e)), w1)
               | (Ok d, w1) \<Rightarrow>
                   (let denied = (\<lambda>msg. (PlanDenied idx (denied_tool_result (tu_id tu) (''Tool call denied: '' @ msg)),
                          run_quiet (hk_after_tool (ag_hooks ag) ctx (Err (Execution (''denied: '' @ msg)))) w1));
                        allowed = (\<lambda>input. (PlanAllowed (DAllowed idx (tu_id tu) (tu_name tu) input
                          (Option.bind tool (\<lambda>t. tl_conflict_key t input))) mutates, w1))
                    in case check_rewrite tool d of
                         Deny msg \<Rightarrow> denied msg
                       | AskDenied msg \<Rightarrow> denied msg
                       | Allow \<Rightarrow> allowed (tu_input tu)
                       | UpdatedInput v \<Rightarrow> allowed v)))"

definition denied_event :: "nat \<Rightarrow> content_block \<Rightarrow> turn_event" where
  "denied_event turn r =
     (case capped_result_text (tr_content r) stream_result_text_cap of (t, trunc) \<Rightarrow>
        ToolCallEnd turn (tr_tool_use_id r) True (tr_content r) t trunc)"

text \<open>Phase 1: the gate is serial, in the order of the message.\<close>

(* map: src/crates/caliban-agent-core/src/stream/mod.rs 2043-2102 Agent::stream_until_done_with_settings *)
fun plan_loop ::
  "'w agent \<Rightarrow> string \<Rightarrow> nat \<Rightarrow> nat \<Rightarrow> content_block list \<Rightarrow> dispatch_plan list \<Rightarrow> string list \<Rightarrow>
   'w loop_state \<Rightarrow> (dispatch_plan list \<times> string list, 'w) phase" where
  "plan_loop ag session turn idx [] plans mutating ls = Go (plans, mutating) ls"
| "plan_loop ag session turn idx (b # bs) plans mutating ls =
     (if cancelled ag (ls_world ls) then stop_with SCancelled ls
      else
        (case b of
           ToolUse tu \<Rightarrow>
             (case plan_tool_call ag session turn idx tu (ls_world ls) of
                (PlanDenied i r, w) \<Rightarrow>
                  plan_loop ag session turn (idx + 1) bs (plans @ [DDenied i r]) mutating
                    (yield [denied_event turn r] (ls\<lparr>ls_world := w\<rparr>))
              | (PlanAllowed p m, w) \<Rightarrow>
                  plan_loop ag session turn (idx + 1) bs (plans @ [p])
                    (if m then mutating @ [tu_id tu] else mutating) (ls\<lparr>ls_world := w\<rparr>)
              | (PlanFatal stop, w) \<Rightarrow> stop_with stop (ls\<lparr>ls_world := w\<rparr>))
         | _ \<Rightarrow> plan_loop ag session turn (idx + 1) bs plans mutating ls))"

section \<open>Dispatching them\<close>

(* map: src/crates/caliban-agent-core/src/stream/hook_dispatch.rs 48-141 dispatch_tool *)
definition dispatch_tool ::
  "'w agent \<Rightarrow> string \<Rightarrow> nat \<Rightarrow> dispatch_plan \<Rightarrow> 'w \<Rightarrow> (content_block, stop_condition) result \<times> 'w" where
  "dispatch_tool ag session turn p w =
     (if cancelled ag w then (Err SCancelled, w)
      else
        (let tool = registry_get (ag_tools ag) (dp_name p);
             ctx = \<lparr>tc_session_id = session, tc_turn_index = turn, tc_tool_use_id = dp_id p,
                    tc_tool_name = dp_name p, tc_input = dp_input p,
                    tc_is_read_only = (case tool of Some t \<Rightarrow> tl_is_read_only t | None \<Rightarrow> False)\<rparr>;
             (outcome, w1) = (case tool of
                None \<Rightarrow> (Err (InvalidInput (''tool not found: '' @ dp_name p)), w)
              | Some t \<Rightarrow> tl_invoke t (dp_input p) (dp_id p) turn w);
             w2 = run_quiet (hk_after_tool (ag_hooks ag) ctx outcome) w1
         in (case outcome of
               Err ToolCancelled \<Rightarrow> (Err SCancelled, w2)
             | Err e \<Rightarrow> (Ok (ToolResult (dp_id p) [text_cb (''Error: '' @ tool_error_str e)] True), w2)
             | Ok content \<Rightarrow> (Ok (ToolResult (dp_id p) content False), w2))))"

text \<open>
  The queue: denials fill their slot, allowed calls are put in the pending set, and a fired
  token ends the loop over the plans there and then.
\<close>

(* map: src/crates/caliban-agent-core/src/stream/mod.rs 2104-2183 Agent::stream_until_done_with_settings *)
fun queue_plans ::
  "bool \<Rightarrow> dispatch_plan list \<Rightarrow> content_block option list \<Rightarrow> dispatch_plan list \<Rightarrow>
   content_block option list \<times> dispatch_plan list \<times> bool" where
  "queue_plans fired [] ordered pending = (ordered, pending, False)"
| "queue_plans fired (DDenied i r # ps) ordered pending =
     queue_plans fired ps (ordered[i := Some r]) pending"
| "queue_plans fired (DAllowed i d n v k # ps) ordered pending =
     (if fired then (ordered, pending, True)
      else queue_plans fired ps ordered (pending @ [DAllowed i d n v k]))"

text \<open>
  The order of the calls: at every step the runtime may choose any pending call whose key no
  earlier pending call has. \<open>build_conflict_locks\<close> makes one first-in-first-out lock for
  each key; the number of permits only restricts which of these orders can happen.
\<close>

(* map: src/crates/caliban-agent-core/src/stream/parallel.rs 49-66 build_conflict_locks *)
definition conflicts :: "dispatch_plan \<Rightarrow> dispatch_plan \<Rightarrow> bool" where
  "conflicts p q \<longleftrightarrow> dp_key p \<noteq> None \<and> dp_key p = dp_key q"

fun eligible :: "dispatch_plan list \<Rightarrow> dispatch_plan list \<Rightarrow> nat \<Rightarrow> nat list" where
  "eligible earlier [] i = []"
| "eligible earlier (p # ps) i =
     (if list_ex (\<lambda>q. conflicts q p) earlier then eligible (p # earlier) ps (i + 1)
      else i # eligible (p # earlier) ps (i + 1))"

definition drop_nth :: "nat \<Rightarrow> 'a list \<Rightarrow> 'a list" where
  "drop_nth i xs = take i xs @ drop (i + 1) xs"

(* map: src/crates/caliban-agent-core/src/stream/mod.rs 2143-2183 Agent::stream_until_done_with_settings *)
function run_order :: "nat list \<Rightarrow> dispatch_plan list \<Rightarrow> dispatch_plan list" where
  "run_order choices ps =
     (if ps = [] then []
      else
        (let el = eligible [] ps 0;
             c = (case choices of [] \<Rightarrow> 0 | c # _ \<Rightarrow> c mod length el);
             i = el ! c
         in if i < length ps then ps ! i # run_order (drop 1 choices) (drop_nth i ps) else []))"
  by pat_completeness auto

termination run_order
  by (relation "measure (\<lambda>(choices, ps). length ps)") (auto simp: drop_nth_def)

declare run_order.simps [simp del]

(* map: src/crates/caliban-agent-core/src/stream/mod.rs 2185-2210 Agent::stream_until_done_with_settings *)
fun run_calls ::
  "'w agent \<Rightarrow> string \<Rightarrow> nat \<Rightarrow> dispatch_plan list \<Rightarrow> content_block option list \<Rightarrow> stop_condition option \<Rightarrow>
   'w loop_state \<Rightarrow> content_block option list \<times> stop_condition option \<times> 'w loop_state" where
  "run_calls ag session turn [] ordered fatal ls = (ordered, fatal, ls)"
| "run_calls ag session turn (p # ps) ordered fatal ls =
     (case dispatch_tool ag session turn p (ls_world ls) of
        (Err stop, w) \<Rightarrow> run_calls ag session turn ps ordered (Some stop) (ls\<lparr>ls_world := w\<rparr>)
      | (Ok r, w) \<Rightarrow>
          (case capped_result_text (tr_content r) stream_result_text_cap of (t, trunc) \<Rightarrow>
             run_calls ag session turn ps (ordered[dp_index p := Some r]) fatal
               (yield [ToolCallEnd turn (dp_id p) (tr_is_error r) (tr_content r) t trunc]
                 (ls\<lparr>ls_world := w\<rparr>))))"

text \<open>Phase 2. The queue's early exit sets the stop condition and goes on with what is pending.\<close>

(* map: src/crates/caliban-agent-core/src/stream/mod.rs 2104-2229 Agent::stream_until_done_with_settings *)
definition dispatch_phase ::
  "'w agent \<Rightarrow> string \<Rightarrow> nat \<Rightarrow> nat \<Rightarrow> dispatch_plan list \<Rightarrow> 'w loop_state \<Rightarrow>
   (content_block option list, 'w) phase" where
  "dispatch_phase ag session turn n plans ls =
     (case queue_plans (cancelled ag (ls_world ls)) plans (replicate n None) [] of
        (ordered, pending, trunc) \<Rightarrow>
          (let ls1 = (if trunc then ls\<lparr>ls_stopped_for := SCancelled\<rparr> else ls);
               order = run_order (ag_order ag (ls_world ls)) pending
           in case run_calls ag session turn order ordered None ls1 of
                (ordered', Some stop, ls2) \<Rightarrow> stop_with stop ls2
              | (ordered', None, ls2) \<Rightarrow> Go ordered' ls2))"

(* map: src/crates/caliban-agent-core/src/stream/mod.rs 1175-1232 Agent::finalize_tool_results *)
definition finalize_tool_results ::
  "'w agent \<Rightarrow> string \<Rightarrow> message \<Rightarrow> content_block option list \<Rightarrow> string list \<Rightarrow> message list \<Rightarrow> 'w \<Rightarrow>
   message list \<times> bool \<times> message list \<times> 'w" where
  "finalize_tool_results ag session assistant ordered mutating history w =
     (let blocks = List.map_filter (\<lambda>x. x) ordered;
          edited = list_ex (\<lambda>b. \<not> tr_is_error b \<and> tr_tool_use_id b \<in> set mutating) blocks;
          cap = cf_tool_result_cap_chars (ag_config ag);
          (blocks', w') = (if cap > 0 \<and> blocks \<noteq> [] then cap_results (ag_save ag session) cap blocks w
                           else (blocks, w));
          results = (if blocks' = [] then [] else [\<lparr>msg_role = User, msg_content = blocks'\<rparr>])
      in (results, edited, history @ assistant # results, w'))"

section \<open>One attempt at a turn\<close>

text \<open>The checks at the top of an attempt; budgets are milliseconds, the clock nanoseconds.\<close>

(* map: src/crates/caliban-agent-core/src/stream/mod.rs 1530-1556 Agent::stream_until_done_with_settings *)
definition turn_guard :: "'w agent \<Rightarrow> nat \<Rightarrow> 'w loop_state \<Rightarrow> stop_condition option" where
  "turn_guard ag started ls =
     (let cfg = ag_config ag; w = ls_world ls in
      if cancelled ag w then Some SCancelled
      else or_opt
        (case cf_time_budget cfg of
           Some b \<Rightarrow> if ag_now ag w - started \<ge> b * 1000000 then Some (TimeBudgetExceeded b) else None
         | None \<Rightarrow> None)
        (case (cf_cost_budget_usd cfg, ag_over_budget ag) of
           (Some b, Some over) \<Rightarrow> if over (ls_usage ls) b then Some (CostBudgetExceeded b) else None
         | _ \<Rightarrow> None))"

(* map: src/crates/caliban-agent-core/src/stream/mod.rs 1558-1569 Agent::stream_until_done_with_settings *)
definition before_turn_phase :: "'w agent \<Rightarrow> nat \<Rightarrow> 'w loop_state \<Rightarrow> (unit, 'w) phase" where
  "before_turn_phase ag turn ls =
     (case hk_before_turn (ag_hooks ag) \<lparr>tn_turn_index = turn, tn_messages = ls_history ls\<rparr> (ls_world ls) of
        (Err e, w) \<Rightarrow> stop_with (HookDenied (''before_turn: '' @ ag_show_hook ag e)) (ls\<lparr>ls_world := w\<rparr>)
      | (Ok _, w) \<Rightarrow> Go () (ls\<lparr>ls_world := w\<rparr>))"

(* map: src/crates/caliban-agent-core/src/stream/mod.rs 1571-1598 Agent::stream_until_done_with_settings *)
definition compact_phase :: "'w agent \<Rightarrow> 'w loop_state \<Rightarrow> 'w loop_state" where
  "compact_phase ag ls =
     (let history = (if cf_micro_compact_enabled (ag_config ag)
                     then (case micro_compact (ag_print ag) (ls_history ls) of
                             Some c \<Rightarrow> cm_messages c | None \<Rightarrow> ls_history ls)
                     else ls_history ls)
      in case maybe_compact ag history (rv_auto_tracking (ls_recovery ls)) (ls_world ls) of
           (u, history', tracking, w) \<Rightarrow>
             ls\<lparr>ls_history := history', ls_usage := ls_usage ls + u, ls_world := w,
                ls_recovery := (ls_recovery ls)\<lparr>rv_auto_tracking := tracking\<rparr>\<rparr>)"

text \<open>Opening the stream. The last equation of the inner case is unreachable in the source.\<close>

(* map: src/crates/caliban-agent-core/src/stream/mod.rs 1704-1736 Agent::stream_until_done_with_settings *)
definition open_failed :: "'w agent \<Rightarrow> perror \<Rightarrow> 'w loop_state \<Rightarrow> (timed_stream, 'w) phase" where
  "open_failed ag e ls =
     (case e of
        Cancelled \<Rightarrow> stop_with SCancelled ls
      | StreamIdle d \<Rightarrow> stop_with (SStreamIdle d) ls
      | ContextTooLong _ _ \<Rightarrow>
          if reactive_compact_available (ls_recovery ls)
          then (case on_context_too_long ag (ls_recovery ls) (ls_history ls) (ls_world ls) of
                  (action, r, history, w) \<Rightarrow>
                    (let ls' = ls\<lparr>ls_recovery := r, ls_history := history, ls_world := w\<rparr> in
                     case action of
                       RetryTurn \<Rightarrow> Leave (FRetry ls')
                     | Surrender stop \<Rightarrow> stop_with stop ls'
                     | InjectAndContinue _ \<Rightarrow> stop_with (ls_stopped_for ls) ls'))
          else stop_with (SProviderError (ag_show ag e)) ls
      | _ \<Rightarrow> stop_with (SProviderError (ag_show ag e)) ls)"

(* map: src/crates/caliban-agent-core/src/stream/mod.rs 1600-1736 Agent::stream_until_done_with_settings *)
definition open_phase :: "'w agent \<Rightarrow> 'w loop_state \<Rightarrow> (timed_stream, 'w) phase option" where
  "open_phase ag ls =
     (let req = build_request ag (ls_history ls)
                  (effective_max_tokens (ls_recovery ls) (cf_max_tokens (ag_config ag))) (ls_world ls)
      in case with_retry (ag_waiting ag) (ag_retry ag) (open_call ag req) (ls_world ls) of
           None \<Rightarrow> None
         | Some (Ok s, w) \<Rightarrow> Some (Go s (ls\<lparr>ls_world := w\<rparr>))
         | Some (Err e, w) \<Rightarrow> Some (open_failed ag e (ls\<lparr>ls_world := w\<rparr>)))"

(* map: src/crates/caliban-agent-core/src/stream/mod.rs 1738-1939 Agent::stream_until_done_with_settings *)
definition drain_phase ::
  "'w agent \<Rightarrow> nat \<Rightarrow> nat \<Rightarrow> timed_stream \<Rightarrow> 'w loop_state \<Rightarrow> (drain_state, 'w) phase option" where
  "drain_phase ag turn sent s ls =
     (let s' = watch_provider (ag_config ag) s;
          ds = \<lparr>ds_acc = acc_new, ds_timing = timing_start sent, ds_emitted = False, ds_thinking_chars = 0\<rparr>
      in case drain ag turn (ts_items s') ds ls of
           Leave f \<Rightarrow> Some (Leave f)
         | Go ds' ls' \<Rightarrow>
             (case ts_end s' of
                None \<Rightarrow> None
              | Some gap \<Rightarrow> Some (Go ds' (ls'\<lparr>ls_world := ag_pass ag gap (ls_world ls')\<rparr>))))"

(* map: src/crates/caliban-agent-core/src/stream/mod.rs 2030-2041 Agent::stream_until_done_with_settings *)
definition post_process :: "(string \<Rightarrow> string) \<Rightarrow> message \<Rightarrow> message" where
  "post_process p m =
     m\<lparr>msg_content := map (\<lambda>b. case b of Text t \<Rightarrow> Text (t\<lparr>tb_text := p (tb_text t)\<rparr>) | _ \<Rightarrow> b) (msg_content m)\<rparr>"

(* map: src/crates/caliban-agent-core/src/stream/mod.rs 2241-2260 Agent::stream_until_done_with_settings *)
definition turn_was_degenerate :: "message \<Rightarrow> usage \<Rightarrow> stop_reason \<Rightarrow> bool" where
  "turn_was_degenerate m u sr \<longleftrightarrow>
     \<not> list_ex (\<lambda>b. case b of ToolUse _ \<Rightarrow> True | Text t \<Rightarrow> trim (tb_text t) \<noteq> [] | _ \<Rightarrow> False) (msg_content m) \<and>
     output_tokens u > 0 \<and> (sr = EndTurn \<or> sr = StopSequence)"

section \<open>Settling a turn\<close>

definition no_edit_nudge :: "nat \<Rightarrow> string" where
  "no_edit_nudge n =
     ''You have taken '' @ nat_str n @ '' turns without editing any files. '' @
     ''If you have already identified the change you need to make, make the edit now rather than '' @
     ''continuing to investigate. If you are still investigating, you can disregard this note.''"

definition empty_turn_nudge :: string where
  "empty_turn_nudge =
     ''Your previous response made no tool call and gave no answer '' @ em_dash @ '' '' @
     ''it contained only internal reasoning. To make progress you must take a concrete action now: '' @
     ''call a tool to work on the task, or, if the task is genuinely complete, state your final '' @
     ''answer as plain text.''"

text \<open>\<open>RetryTurn\<close> is unreachable here too (\<open>on_stop_reason_cases\<close>).\<close>

(* map: src/crates/caliban-agent-core/src/stream/mod.rs 2480-2513 Agent::stream_until_done_with_settings *)
definition decide :: "'w agent \<Rightarrow> 'w run_settings \<Rightarrow> stop_reason \<Rightarrow> 'w loop_state \<Rightarrow> 'w flow" where
  "decide ag st sr ls =
     (case on_stop_reason ag sr (rs_input_source st) (ls_recovery ls) (ls_history ls) (ls_world ls) of
        (action, r, history, w) \<Rightarrow>
          (let ls' = ls\<lparr>ls_recovery := r, ls_history := history, ls_world := w\<rparr> in
           case action of
             InjectAndContinue msgs \<Rightarrow> FNext (ls'\<lparr>ls_history := history @ msgs\<rparr>)
           | Surrender stop \<Rightarrow> FBreak (ls'\<lparr>ls_stopped_for := stop\<rparr>)
           | RetryTurn \<Rightarrow> FBreak ls'))"

definition inject :: "message list \<Rightarrow> 'w loop_state \<Rightarrow> 'w loop_state" where
  "inject msgs ls = ls\<lparr>ls_history := ls_history ls @ msgs,
     ls_recovery := reset_for_new_turn (ls_recovery ls)\<rparr>"

(* map: src/crates/caliban-agent-core/src/stream/mod.rs 2439-2478 Agent::stream_until_done_with_settings *)
definition empty_guard ::
  "'w agent \<Rightarrow> 'w run_settings \<Rightarrow> stop_reason \<Rightarrow> bool \<Rightarrow> 'w loop_state \<Rightarrow> 'w flow" where
  "empty_guard ag st sr degenerate ls =
     (let limit = cf_empty_turn_nudge_max (ag_config ag) in
      if degenerate \<and> rs_input_source st = None \<and> limit > 0
      then (if ls_empty_nudges ls < limit
            then FNext (inject [msg_user_text empty_turn_nudge] (ls\<lparr>ls_empty_nudges := ls_empty_nudges ls + 1\<rparr>))
            else decide ag st sr ls)
      else decide ag st sr (if degenerate then ls else ls\<lparr>ls_empty_nudges := 0\<rparr>))"

(* map: src/crates/caliban-agent-core/src/stream/mod.rs 2414-2437 Agent::stream_until_done_with_settings *)
definition apply_decision ::
  "'w agent \<Rightarrow> 'w run_settings \<Rightarrow> stop_reason \<Rightarrow> bool \<Rightarrow> turn_decision \<Rightarrow> 'w loop_state \<Rightarrow> 'w flow" where
  "apply_decision ag st sr degenerate d ls =
     (case d of
        Continue \<Rightarrow> empty_guard ag st sr degenerate ls
      | ContinueWith msgs \<Rightarrow>
          if forced_continuation_available (ls_recovery ls)
          then FNext (inject msgs (ls\<lparr>ls_recovery := record_forced_continuation (ls_recovery ls)\<rparr>))
          else empty_guard ag st sr degenerate ls
      | Stop \<Rightarrow> FBreak (ls\<lparr>ls_stopped_for := HookDenied ''after_turn: Stop''\<rparr>))"

(* map: src/crates/caliban-agent-core/src/stream/mod.rs 2373-2412 Agent::stream_until_done_with_settings *)
definition settle_turn ::
  "'w agent \<Rightarrow> 'w run_settings \<Rightarrow> stop_reason \<Rightarrow> bool \<Rightarrow> bool \<Rightarrow> turn_decision \<Rightarrow> 'w loop_state \<Rightarrow> 'w flow" where
  "settle_turn ag st sr edited degenerate d ls =
     (if edited then apply_decision ag st sr degenerate d (ls\<lparr>ls_since_edit := 0, ls_nudge_armed := True\<rparr>)
      else
        (let n = ls_since_edit ls + 1;
             ls' = ls\<lparr>ls_since_edit := n, ls_without_edit := max (ls_without_edit ls) n\<rparr>;
             threshold = cf_no_edit_nudge_threshold (ag_config ag);
             terminal = (sr = Refusal \<or> sr = ContentFilter \<or> sr = MaxTokens)
         in if threshold > 0 \<and> n \<ge> threshold \<and> ls_nudge_armed ls \<and> \<not> terminal
            then FNext (inject [msg_user_text (no_edit_nudge n)]
                   (ls'\<lparr>ls_nudge_emitted := True, ls_nudge_armed := False\<rparr>))
            else apply_decision ag st sr degenerate d ls'))"

text \<open>The callback after the turn, with its decision or the error that ends the run.\<close>

(* map: src/crates/caliban-agent-core/src/stream/mod.rs 2274-2332 Agent::stream_until_done_with_settings *)
definition after_turn_hook ::
  "'w agent \<Rightarrow> nat \<Rightarrow> turn_outcome \<Rightarrow> 'w loop_state \<Rightarrow> (turn_decision, agent_error) result \<times> 'w" where
  "after_turn_hook ag turn outcome ls =
     (let ctx = \<lparr>tn_turn_index = turn, tn_messages = ls_history ls\<rparr> in
      if turn_is_failure (ag_config ag) (to_stop_reason outcome) (ls_recovery ls)
      then (Ok Continue, run_quiet (hk_after_turn_failure (ag_hooks ag) ctx outcome) (ls_world ls))
      else hk_after_turn (ag_hooks ag) ctx outcome (ls_world ls))"

(* map: src/crates/caliban-agent-core/src/stream/mod.rs 2262-2371 Agent::stream_until_done_with_settings *)
definition end_turn ::
  "'w agent \<Rightarrow> 'w run_settings \<Rightarrow> nat \<Rightarrow> message \<Rightarrow> message list \<Rightarrow> bool \<Rightarrow> stop_reason \<Rightarrow> usage \<Rightarrow>
   turn_timing \<Rightarrow> 'w loop_state \<Rightarrow> 'w flow" where
  "end_turn ag st turn assistant results edited sr u timing ls =
     (let outcome = \<lparr>to_assistant_message = assistant, to_tool_results = results, to_stop_reason = sr,
                     to_usage = u, to_continue_loop = (sr = ToolUseStop)\<rparr>;
          degenerate = turn_was_degenerate assistant u sr
      in case after_turn_hook ag turn outcome ls of
           (r, w) \<Rightarrow>
             (let ls' = yield [TurnEnd turn assistant results sr u (ttft timing) (tbt timing)]
                    (ls\<lparr>ls_world := w, ls_usage := ls_usage ls + u, ls_turns_completed := ls_turns_completed ls + 1\<rparr>)
              in case r of
                   Err e \<Rightarrow> FBreak (ls'\<lparr>ls_stopped_for := HookDenied (''after_turn: '' @ ag_show_hook ag e)\<rparr>)
                 | Ok d \<Rightarrow> settle_turn ag st sr edited degenerate d ls'))"

section \<open>The loops\<close>

text \<open>What follows the drain: Stage A, the tools, the end of the turn.\<close>

(* map: src/crates/caliban-agent-core/src/stream/mod.rs 1938-2239 Agent::stream_until_done_with_settings *)
definition respond ::
  "'w agent \<Rightarrow> 'w run_settings \<Rightarrow> nat \<Rightarrow> drain_state \<Rightarrow> 'w loop_state \<Rightarrow> 'w flow" where
  "respond ag st turn ds ls =
     (let acc = ds_acc ds;
          sr = unwrap_or EndTurn (ma_stop_reason acc);
          u = ma_usage acc
      in case on_max_tokens_pre_dispatch (ag_config ag) sr (ls_recovery ls) of
           (Some _, r) \<Rightarrow> FRetry (ls\<lparr>ls_recovery := r, ls_usage := ls_usage ls + u\<rparr>)
         | (None, _) \<Rightarrow>
             (let assistant = post_process (ag_post_processor ag) (into_message acc) in
              case plan_loop ag (rs_session_id st) turn 0 (msg_content assistant) [] [] ls of
                Leave f \<Rightarrow> f
              | Go (plans, mutating) ls1 \<Rightarrow>
                  (case dispatch_phase ag (rs_session_id st) turn (length (msg_content assistant)) plans ls1 of
                     Leave f \<Rightarrow> f
                   | Go ordered ls2 \<Rightarrow>
                       (case finalize_tool_results ag (rs_session_id st) assistant ordered mutating
                               (ls_history ls2) (ls_world ls2) of
                          (results, edited, history, w) \<Rightarrow>
                            end_turn ag st turn assistant results edited sr u (ds_timing ds)
                              (ls2\<lparr>ls_history := history, ls_world := w\<rparr>)))))"

(* map: src/crates/caliban-agent-core/src/stream/mod.rs 1738-1763 Agent::stream_until_done_with_settings *)
definition receive ::
  "'w agent \<Rightarrow> 'w run_settings \<Rightarrow> nat \<Rightarrow> nat \<Rightarrow> timed_stream \<Rightarrow> 'w loop_state \<Rightarrow> 'w flow option" where
  "receive ag st turn sent s ls =
     map_option (\<lambda>p. case p of Leave f \<Rightarrow> f | Go ds ls' \<Rightarrow> respond ag st turn ds ls')
       (drain_phase ag turn sent s ls)"

definition exchange ::
  "'w agent \<Rightarrow> 'w run_settings \<Rightarrow> nat \<Rightarrow> 'w loop_state \<Rightarrow> 'w flow option" where
  "exchange ag st turn ls =
     Option.bind (open_phase ag ls) (\<lambda>p. case p of
        Leave f \<Rightarrow> Some f
      | Go s ls' \<Rightarrow> receive ag st turn (ag_now ag (ls_world ls)) s ls')"

(* map: src/crates/caliban-agent-core/src/stream/mod.rs 1529-1737 Agent::stream_until_done_with_settings *)
definition turn_attempt ::
  "'w agent \<Rightarrow> 'w run_settings \<Rightarrow> nat \<Rightarrow> nat \<Rightarrow> 'w loop_state \<Rightarrow> 'w flow option" where
  "turn_attempt ag st started turn ls =
     (case turn_guard ag started ls of
        Some stop \<Rightarrow> Some (FBreak (ls\<lparr>ls_stopped_for := stop\<rparr>))
      | None \<Rightarrow>
          (case before_turn_phase ag turn ls of
             Leave f \<Rightarrow> Some f
           | Go _ ls' \<Rightarrow> exchange ag st turn (compact_phase ag ls')))"

end
