(* ===== verification/AgentRun.thy ===== *)
theory AgentRun
  imports AgentLoop "HOL-Library.Code_Target_Nat"
begin

text \<open>
  The run (\<open>stream/mod.rs\<close>, \<open>turn.rs\<close>): attempts at a turn until one of them is
  not a retry, turns until the limit or a stop, the callbacks around them, and the two wrappers
  that wait for an outcome. The attempts at one turn are bounded by a budget that every retry
  spends; what a run reports about itself is read off the events it yields; and a request is
  only sent for a well-formed history.
\<close>

section \<open>What an attempt may do\<close>

fun ended_turn :: "turn_event \<Rightarrow> nat option" where
  "ended_turn (TurnEnd turn _ _ _ _ _ _) = Some turn"
| "ended_turn _ = None"

fun is_run_end :: "turn_event \<Rightarrow> bool" where
  "is_run_end (RunEnd _ _ _ _ _ _) = True"
| "is_run_end _ = False"

definition within_turn :: "turn_event \<Rightarrow> bool" where
  "within_turn ev \<longleftrightarrow> ended_turn ev = None \<and> \<not> is_run_end ev"

text \<open>What is left of the retries of one turn.\<close>

definition retry_budget :: "'w agent \<Rightarrow> 'w loop_state \<Rightarrow> nat" where
  "retry_budget ag ls =
     (rp_max_attempts (ag_retry ag) - 1 - ls_drain_retries ls) +
     (if rv_stage_a_attempted (ls_recovery ls) then 0 else 1) +
     (if rv_attempted_reactive (ls_recovery ls) then 0 else 1)"

text \<open>Until the run stops, the stop condition is the initial one, or a cancellation.\<close>

definition may_stop_for :: "'w loop_state \<Rightarrow> 'w loop_state \<Rightarrow> bool" where
  "may_stop_for ls ls' \<longleftrightarrow> ls_stopped_for ls' = ls_stopped_for ls \<or> ls_stopped_for ls' = SCancelled"

fun is_max_turns :: "stop_condition \<Rightarrow> bool" where
  "is_max_turns (MaxTurnsReached _) = True"
| "is_max_turns _ = False"

text \<open>Only events of the turn are yielded and the turn is not counted.\<close>

definition quiet :: "'w loop_state \<Rightarrow> 'w loop_state \<Rightarrow> bool" where
  "quiet ls ls' \<longleftrightarrow>
     (\<exists>evs. ls_events ls' = ls_events ls @ evs \<and> list_all within_turn evs) \<and>
     ls_turns_completed ls' = ls_turns_completed ls"

definition steady :: "'w agent \<Rightarrow> 'w loop_state \<Rightarrow> 'w loop_state \<Rightarrow> bool" where
  "steady ag ls ls' \<longleftrightarrow>
     quiet ls ls' \<and> retry_budget ag ls' = retry_budget ag ls \<and> may_stop_for ls ls'"

text \<open>One \<open>TurnEnd\<close> of this turn is yielded, last, and the turn is counted.\<close>

definition counted :: "nat \<Rightarrow> 'w loop_state \<Rightarrow> 'w loop_state \<Rightarrow> bool" where
  "counted turn ls ls' \<longleftrightarrow>
     (\<exists>evs e. ls_events ls' = ls_events ls @ evs @ [e] \<and> list_all within_turn evs \<and>
              ended_turn e = Some turn) \<and>
     ls_turns_completed ls' = ls_turns_completed ls + 1"

fun flow_ok :: "'w agent \<Rightarrow> nat \<Rightarrow> 'w loop_state \<Rightarrow> 'w flow \<Rightarrow> bool" where
  "flow_ok ag turn ls (FRetry ls') = 
     (quiet ls ls' \<and> retry_budget ag ls' < retry_budget ag ls \<and> may_stop_for ls ls')"
| "flow_ok ag turn ls (FNext ls') = (counted turn ls ls' \<and> may_stop_for ls ls')"
| "flow_ok ag turn ls (FBreak ls') =
     ((quiet ls ls' \<or> counted turn ls ls') \<and> \<not> is_max_turns (ls_stopped_for ls'))"

fun phase_ok :: "'w agent \<Rightarrow> nat \<Rightarrow> 'w loop_state \<Rightarrow> ('a, 'w) phase \<Rightarrow> bool" where
  "phase_ok ag turn ls (Go _ ls') = steady ag ls ls'"
| "phase_ok ag turn ls (Leave f) = flow_ok ag turn ls f"

lemma quiet_refl [simp]: "quiet ls ls"
  by (auto simp: quiet_def)

lemma quiet_trans: "quiet ls ls' \<Longrightarrow> quiet ls' ls'' \<Longrightarrow> quiet ls ls''"
  by (force simp: quiet_def)

lemma may_stop_for_refl [simp]: "may_stop_for ls ls"
  by (simp add: may_stop_for_def)

lemma may_stop_for_trans: "may_stop_for ls ls' \<Longrightarrow> may_stop_for ls' ls'' \<Longrightarrow> may_stop_for ls ls''"
  by (auto simp: may_stop_for_def)

lemma steady_refl [simp]: "steady ag ls ls"
  by (simp add: steady_def)

lemma steady_trans: "steady ag ls ls' \<Longrightarrow> steady ag ls' ls'' \<Longrightarrow> steady ag ls ls''"
  by (auto simp: steady_def intro: quiet_trans may_stop_for_trans)

lemma quiet_counted: "quiet ls ls' \<Longrightarrow> counted turn ls' ls'' \<Longrightarrow> counted turn ls ls''"
  by (force simp: quiet_def counted_def)

lemma flow_ok_mono: "steady ag ls ls' \<Longrightarrow> flow_ok ag turn ls' f \<Longrightarrow> flow_ok ag turn ls f"
  by (cases f) (auto simp: steady_def intro: quiet_trans quiet_counted may_stop_for_trans)

lemma phase_ok_mono: "steady ag ls ls' \<Longrightarrow> phase_ok ag turn ls' p \<Longrightarrow> phase_ok ag turn ls p"
  by (cases p) (auto intro: steady_trans flow_ok_mono)

declare may_stop_for_def [simp]

lemma stop_with_ok [simp]:
  "phase_ok ag turn ls (stop_with sc ls') \<longleftrightarrow> (quiet ls ls' \<or> counted turn ls ls') \<and> \<not> is_max_turns sc"
  by (simp add: stop_with_def quiet_def counted_def)

lemma quiet_frame:
  "ls_events ls' = ls_events ls \<Longrightarrow> ls_turns_completed ls' = ls_turns_completed ls \<Longrightarrow> quiet ls ls'"
  by (simp add: quiet_def)

lemma quiet_yield: "list_all within_turn evs \<Longrightarrow> quiet ls (yield evs ls)"
  by (auto simp: quiet_def yield_def)

lemma steady_world [simp]: "steady ag ls (ls\<lparr>ls_world := w\<rparr>)"
  by (simp add: steady_def quiet_frame retry_budget_def may_stop_for_def)

lemma steady_yield: "list_all within_turn evs \<Longrightarrow> steady ag ls (yield evs ls)"
  by (simp add: steady_def quiet_yield) (simp add: yield_def retry_budget_def may_stop_for_def)

lemma steady_frame:
  "ls_events ls' = ls_events ls \<Longrightarrow> ls_turns_completed ls' = ls_turns_completed ls \<Longrightarrow>
   ls_drain_retries ls' = ls_drain_retries ls \<Longrightarrow>
   rv_stage_a_attempted (ls_recovery ls') = rv_stage_a_attempted (ls_recovery ls) \<Longrightarrow>
   rv_attempted_reactive (ls_recovery ls') = rv_attempted_reactive (ls_recovery ls) \<Longrightarrow>
   may_stop_for ls ls' \<Longrightarrow> steady ag ls ls'"
  by (simp add: steady_def quiet_frame retry_budget_def)

subsection \<open>Phase by phase\<close>

lemma before_turn_ok: "phase_ok ag turn ls (before_turn_phase ag turn ls)"
  by (auto simp: before_turn_phase_def quiet_frame split: prod.splits result.splits)

lemma compact_steady: "steady ag ls (compact_phase ag ls)"
  by (auto simp: compact_phase_def Let_def intro!: steady_frame split: prod.splits)

lemma on_context_too_long_result:
  "on_context_too_long ag r history w = (action, r', history', w') \<Longrightarrow>
   r' = r\<lparr>rv_attempted_reactive := True\<rparr> \<and> 
   (action = RetryTurn \<or> (\<exists>stop. action = Surrender stop \<and> \<not> is_max_turns stop))"
  by (auto simp: on_context_too_long_def Let_def split: prod.splits result.splits option.splits)

lemma open_failed_ok: "phase_ok ag turn ls (open_failed ag e ls)"
proof (cases "\<exists>a b. e = ContextTooLong a b \<and> reactive_compact_available (ls_recovery ls)")
  case True
  obtain action r history w
    where x: "on_context_too_long ag (ls_recovery ls) (ls_history ls) (ls_world ls) = (action, r, history, w)"
    by (metis prod_cases4)
  show ?thesis
    using True on_context_too_long_result [OF x]
    by (auto simp: open_failed_def x Let_def quiet_frame reactive_compact_available_def retry_budget_def)
next
  case False
  then show ?thesis by (auto simp: open_failed_def split: perror.splits)
qed

lemma open_ok: "open_phase ag ls = Some p \<Longrightarrow> phase_ok ag turn ls p"
  by (auto simp: open_phase_def Let_def split: option.splits prod.splits result.splits
           intro: phase_ok_mono [OF _ open_failed_ok])

lemma event_yield_within: "list_all within_turn (event_yield turn ev acc)"
  by (induction turn ev acc rule: event_yield.induct)
     (auto simp: within_turn_def split: option.splits active_block.splits delta.splits)

lemma drain_ok: "phase_ok ag turn ls (drain ag turn items ds ls)"
proof (induction ag turn items ds ls rule: drain.induct)
  case (2 ag turn gap item rest ds ls0)
  define ls where "ls = ls0\<lparr>ls_world := ag_pass ag gap (ls_world ls0)\<rparr>"
  have ls: "steady ag ls0 ls" "quiet ls0 ls" by (simp_all add: ls_def quiet_frame)
  show ?case
  proof (cases "cancelled ag (ls_world ls) \<or> (\<exists>e. item = Err e)")
    case True
    then show ?thesis
      using ls by (auto simp: Let_def ls_def [symmetric] split: perror.splits)
        (auto simp: ls_def retry_budget_def quiet_frame)
  next
    case False
    then obtain ev where ev: "item = Ok ev" and live: "\<not> cancelled ag (ls_world ls)"
      by (cases item) auto
    have y: "steady ag ls0 (yield (event_yield turn ev (ds_acc ds)) ls)"
      by (rule steady_trans [OF ls(1) steady_yield [OF event_yield_within]])
    then have q: "quiet ls0 (yield (event_yield turn ev (ds_acc ds)) ls)" by (simp add: steady_def)
    show ?thesis
      using q phase_ok_mono [OF y 2(1) [OF ls_def _ ev refl refl]] live
      by (simp add: ev Let_def ls_def [symmetric])
  qed
qed simp

lemma drain_phase_ok: "drain_phase ag turn sent s ls = Some p \<Longrightarrow> phase_ok ag turn ls p"
  using drain_ok [of ag turn ls "ts_items (watch_provider (ag_config ag) s)"]
  by (auto simp: drain_phase_def Let_def split: phase.splits option.splits)
     (metis phase_ok.simps(1,2) steady_trans steady_world)+

lemma denied_event_within [simp]: "within_turn (denied_event turn r)"
  by (simp add: denied_event_def within_turn_def split: prod.splits)

lemma plan_fatal:
  "plan_tool_call ag session turn idx tu w = (PlanFatal stop, w') \<Longrightarrow> \<not> is_max_turns stop"
  by (auto simp: plan_tool_call_def Let_def split: if_splits prod.splits result.splits hook_decision.splits)

lemma plan_loop_ok: "phase_ok ag turn ls (plan_loop ag session turn idx bs plans mutating ls)"
proof (induction bs arbitrary: idx plans mutating ls)
  case (Cons b bs)
  have "steady ag ls (yield [denied_event turn r] (ls\<lparr>ls_world := w\<rparr>))" for r w
    by (rule steady_trans [OF steady_world steady_yield]) simp
  note onward = phase_ok_mono [OF this Cons.IH] phase_ok_mono [OF steady_world Cons.IH] Cons.IH
  show ?case
    by (auto simp: onward quiet_frame dest: plan_fatal split: content_block.splits prod.splits tool_plan.splits)
qed simp

lemma run_calls_steady:
  "run_calls ag session turn ps ordered fatal ls = (ordered', fatal', ls') \<Longrightarrow> steady ag ls ls'"
proof (induction ps arbitrary: ordered fatal ls)
  case (Cons p ps)
  have "steady ag ls (yield [ToolCallEnd turn i e c t b] (ls\<lparr>ls_world := w\<rparr>))" for i e c t b w
    by (rule steady_trans [OF steady_world steady_yield]) (simp add: within_turn_def)
  then show ?case
    using Cons.prems
    by (auto split: prod.splits result.splits) (metis Cons.IH steady_trans steady_world)+
qed simp

lemma dispatch_tool_stop: "dispatch_tool ag session turn p w = (Err stop, w') \<Longrightarrow> stop = SCancelled"
  by (auto simp: dispatch_tool_def Let_def split: if_splits prod.splits result.splits tool_error.splits)

lemma run_calls_fatal:
  "run_calls ag session turn ps ordered fatal ls = (ordered', fatal', ls') \<Longrightarrow>
   fatal' = fatal \<or> fatal' = Some SCancelled"
  by (induction ps arbitrary: ordered fatal ls)
     (auto split: prod.splits result.splits dest: dispatch_tool_stop)

lemma dispatch_phase_ok: "phase_ok ag turn ls (dispatch_phase ag session turn n plans ls)"
proof -
  obtain ordered pending trunc
    where q: "queue_plans (cancelled ag (ls_world ls)) plans (replicate n None) [] = (ordered, pending, trunc)"
    by (metis prod_cases3)
  define ls1 where "ls1 = (if trunc then ls\<lparr>ls_stopped_for := SCancelled\<rparr> else ls)"
  obtain ordered' fatal ls2
    where r: "run_calls ag session turn (run_order (ag_order ag (ls_world ls)) pending) ordered None ls1 =
                (ordered', fatal, ls2)"
    by (metis prod_cases3)
  have "steady ag ls ls1" by (auto simp: ls1_def intro: steady_frame)
  then have "steady ag ls ls2" by (rule steady_trans [OF _ run_calls_steady [OF r]])
  then show ?thesis
    using run_calls_fatal [OF r]
    by (cases fatal) (auto simp: dispatch_phase_def q Let_def ls1_def [symmetric] r steady_def)
qed

text \<open>A settled turn is not attempted again, and yields nothing more.\<close>

fun settled :: "'w loop_state \<Rightarrow> 'w flow \<Rightarrow> bool" where
  "settled ls (FRetry _) = False"
| "settled ls (FNext ls') =
     (ls_events ls' = ls_events ls \<and> ls_turns_completed ls' = ls_turns_completed ls \<and>
      ls_stopped_for ls' = ls_stopped_for ls)"
| "settled ls (FBreak ls') =
     (ls_events ls' = ls_events ls \<and> ls_turns_completed ls' = ls_turns_completed ls \<and>
      \<not> is_max_turns (ls_stopped_for ls'))"

lemma on_stop_reason_cases:
  "on_stop_reason ag sr src r history w = (action, r', history', w') \<Longrightarrow>
   (\<exists>msgs. action = InjectAndContinue msgs) \<or> (\<exists>stop. action = Surrender stop \<and> \<not> is_max_turns stop)"
  by (auto simp: on_stop_reason_def Let_def
      split: stop_reason.splits if_splits option.splits prod.splits list.splits)

lemma settled_decide: "settled ls (decide ag st sr ls)"
  by (auto simp: decide_def Let_def split: prod.splits recovery_action.splits dest: on_stop_reason_cases)

lemma settled_frame:
  "ls_events ls' = ls_events ls \<Longrightarrow> ls_turns_completed ls' = ls_turns_completed ls \<Longrightarrow>
   ls_stopped_for ls' = ls_stopped_for ls \<Longrightarrow> settled ls' f \<Longrightarrow> settled ls f"
  by (cases f) auto

lemma settled_empty_guard: "settled ls (empty_guard ag st sr degenerate ls)"
  using settled_frame [of "ls\<lparr>ls_empty_nudges := 0\<rparr>" ls, OF _ _ _ settled_decide]
  by (simp add: empty_guard_def Let_def inject_def settled_decide)

lemma settled_apply_decision: "settled ls (apply_decision ag st sr degenerate d ls)"
  by (simp add: apply_decision_def inject_def settled_empty_guard split: turn_decision.splits)

lemma settled_settle_turn: "settled ls (settle_turn ag st sr edited degenerate d ls)"
  by (simp add: settle_turn_def Let_def inject_def)
     (auto intro: settled_frame [OF _ _ _ settled_apply_decision])

lemma end_turn_ok: "flow_ok ag turn ls (end_turn ag st turn assistant results edited sr u timing ls)"
proof -
  define outcome where "outcome = \<lparr>to_assistant_message = assistant, to_tool_results = results,
    to_stop_reason = sr, to_usage = u, to_continue_loop = (sr = ToolUseStop)\<rparr>"
  obtain r w where hook: "after_turn_hook ag turn outcome ls = (r, w)" by force
  define ls' where "ls' = yield [TurnEnd turn assistant results sr u (ttft timing) (tbt timing)]
    (ls\<lparr>ls_world := w, ls_usage := ls_usage ls + u, ls_turns_completed := ls_turns_completed ls + 1\<rparr>)"
  have "counted turn ls ls'" "ls_stopped_for ls' = ls_stopped_for ls"
    by (auto simp: counted_def ls'_def yield_def)
  then have ok: "settled ls' f \<Longrightarrow> flow_ok ag turn ls f" for f
    by (cases f) (auto simp: counted_def)
  have "end_turn ag st turn assistant results edited sr u timing ls =
    (case r of Err e \<Rightarrow> FBreak (ls'\<lparr>ls_stopped_for := HookDenied (''after_turn: '' @ ag_show_hook ag e)\<rparr>)
     | Ok d \<Rightarrow> settle_turn ag st sr edited (turn_was_degenerate assistant u sr) d ls')"
    unfolding end_turn_def Let_def outcome_def [symmetric] hook prod.case ls'_def [symmetric] by (rule refl)
  then show ?thesis by (cases r) (auto intro!: ok settled_settle_turn simp del: flow_ok.simps)
qed

lemma respond_ok: "flow_ok ag turn ls (respond ag st turn ds ls)"
proof (cases "fst (on_max_tokens_pre_dispatch (ag_config ag) (unwrap_or EndTurn (ma_stop_reason (ds_acc ds)))
                (ls_recovery ls))")
  case None
  define assistant where "assistant = post_process (ag_post_processor ag) (into_message (ds_acc ds))"
  let ?plan = "plan_loop ag (rs_session_id st) turn 0 (msg_content assistant) [] [] ls"
  have p: "phase_ok ag turn ls ?plan" by (rule plan_loop_ok)
  show ?thesis
  proof (cases ?plan)
    case (Go pm ls1)
    let ?disp = "dispatch_phase ag (rs_session_id st) turn (length (msg_content assistant)) (fst pm) ls1"
    have d: "phase_ok ag turn ls ?disp" using p Go by (auto intro: phase_ok_mono [OF _ dispatch_phase_ok])
    have "flow_ok ag turn ls (end_turn ag st turn m rs e sr u t (ls2\<lparr>ls_history := h, ls_world := w\<rparr>))"
      if "steady ag ls ls2" for m rs e sr u t ls2 h w
      by (rule flow_ok_mono [OF steady_trans [OF that steady_frame] end_turn_ok]) simp_all
    then show ?thesis
      using None d Go
      by (cases ?disp) (auto simp: respond_def Let_def assistant_def [symmetric]
        split: prod.splits)
  qed (use None p in \<open>auto simp: respond_def Let_def assistant_def [symmetric] split: prod.splits\<close>)
next
  case (Some a)
  then show ?thesis
    by (auto simp: respond_def Let_def on_max_tokens_pre_dispatch_def quiet_frame retry_budget_def
      split: if_splits)
qed

lemma receive_ok: "receive ag st turn sent s ls = Some f \<Longrightarrow> flow_ok ag turn ls f"
proof (unfold receive_def, erule map_option_eq_Some [THEN iffD1, elim_format], elim exE conjE)
  fix p assume p: "drain_phase ag turn sent s ls = Some p"
    and f: "(case p of Leave f \<Rightarrow> f | Go ds ls' \<Rightarrow> respond ag st turn ds ls') = f"
  show "flow_ok ag turn ls f"
    using drain_phase_ok [OF p] f by (cases p) (auto intro: flow_ok_mono [OF _ respond_ok])
qed

lemma exchange_ok: "exchange ag st turn ls = Some f \<Longrightarrow> flow_ok ag turn ls f"
proof (unfold exchange_def, erule bind_eq_Some_conv [THEN iffD1, elim_format], elim exE conjE)
  fix p assume p: "open_phase ag ls = Some p"
    and f: "(case p of Leave f \<Rightarrow> Some f
             | Go s ls' \<Rightarrow> receive ag st turn (ag_now ag (ls_world ls)) s ls') = Some f"
  show "flow_ok ag turn ls f"
    using open_ok [OF p, of turn] f by (cases p) (auto intro: flow_ok_mono receive_ok)
qed

lemma turn_guard_stop: "turn_guard ag started ls = Some stop \<Longrightarrow> \<not> is_max_turns stop"
  by (auto simp: turn_guard_def Let_def or_opt_def split: if_splits option.splits)

lemma attempt_ok: "turn_attempt ag st started turn ls = Some f \<Longrightarrow> flow_ok ag turn ls f"
proof (cases "turn_guard ag started ls")
  case None
  assume a: "turn_attempt ag st started turn ls = Some f"
  show ?thesis
    using before_turn_ok [of ag turn ls] a None compact_steady
    by (cases "before_turn_phase ag turn ls")
       (auto simp: turn_attempt_def intro: flow_ok_mono [OF steady_trans exchange_ok])
qed (auto simp: turn_attempt_def quiet_frame dest: turn_guard_stop)

section \<open>The loops\<close>

(* map: src/crates/caliban-agent-core/src/stream/mod.rs 1525-1529 Agent::stream_until_done_with_settings *)
function inner_loop ::
  "'w agent \<Rightarrow> 'w run_settings \<Rightarrow> nat \<Rightarrow> nat \<Rightarrow> 'w loop_state \<Rightarrow> 'w flow option" where
  "inner_loop ag st started turn ls =
     (case turn_attempt ag st started turn ls of
        Some (FRetry ls') \<Rightarrow> inner_loop ag st started turn ls'
      | res \<Rightarrow> res)"
  by pat_completeness auto

termination inner_loop
  by (relation "measure (\<lambda>(ag, st, started, turn, ls). retry_budget ag ls)") (auto dest: attempt_ok)

declare inner_loop.simps [simp del]

text \<open>\<open>left\<close> counts the iterations that remain.\<close>

(* map: src/crates/caliban-agent-core/src/stream/mod.rs 1514-1529 Agent::stream_until_done_with_settings *)
fun outer_loop ::
  "'w agent \<Rightarrow> 'w run_settings \<Rightarrow> nat \<Rightarrow> nat \<Rightarrow> nat \<Rightarrow> 'w loop_state \<Rightarrow> 'w loop_state option" where
  "outer_loop ag st started 0 turn ls = Some ls"
| "outer_loop ag st started (Suc left) turn ls =
     (case inner_loop ag st started turn (ls\<lparr>ls_drain_retries := 0\<rparr>) of
        Some (FNext ls') \<Rightarrow> outer_loop ag st started left (turn + 1) ls'
      | Some (FBreak ls') \<Rightarrow> Some ls'
      | _ \<Rightarrow> None)"

(* map: src/crates/caliban-agent-core/src/stream/mod.rs 1477-1512 Agent::stream_until_done_with_settings *)
definition loop_init :: "'w agent \<Rightarrow> message list \<Rightarrow> 'w \<Rightarrow> 'w loop_state" where
  "loop_init ag messages w =
     \<lparr>ls_history = messages, ls_usage = 0, ls_recovery = recovery_default, ls_turns_completed = 0,
      ls_since_edit = 0, ls_without_edit = 0, ls_nudge_armed = True, ls_nudge_emitted = False,
      ls_empty_nudges = 0, ls_drain_retries = 0,
      ls_stopped_for = MaxTurnsReached (cf_max_turns (ag_config ag)), ls_events = [], ls_world = w\<rparr>"

(* map: src/crates/caliban-agent-core/src/stream/mod.rs 1443-1460 Agent::stream_until_done_with_settings *)
definition run_ctx_of :: "'w run_settings \<Rightarrow> message list \<Rightarrow> run_ctx" where
  "run_ctx_of st messages =
     \<lparr>rc_session_id = rs_session_id st, rc_workspace_root = rs_workspace_root st,
      rc_user_message = find (\<lambda>m. msg_role m = User) (rev messages),
      rc_prompt_index = rs_prompt_index st\<rparr>"

(* map: src/crates/caliban-agent-core/src/stream/mod.rs 2517-2556 Agent::stream_until_done_with_settings *)
definition finish_run :: "'w run_settings \<Rightarrow> run_ctx \<Rightarrow> 'w loop_state \<Rightarrow> turn_event list \<times> 'w" where
  "finish_run st ctx ls =
     (let failed = is_failure (ls_stopped_for ls);
          outcome = \<lparr>ro_turn_count = ls_turns_completed ls, ro_input_tokens = input_tokens (ls_usage ls),
                     ro_output_tokens = output_tokens (ls_usage ls), ro_success = (\<not> failed)\<rparr>;
          hook = (if failed then rh_after_run_failure (rs_run_hooks st) ctx outcome
                  else rh_after_run (rs_run_hooks st) ctx outcome)
      in (ls_events ls @ [RunEnd (ls_history ls) (ls_usage ls) (ls_turns_completed ls) (ls_stopped_for ls)
                           (ls_without_edit ls) (ls_nudge_emitted ls)],
          run_quiet hook (ls_world ls)))"

(* map: src/crates/caliban-agent-core/src/stream/mod.rs 1425-1476 Agent::stream_until_done_with_settings *)
definition stream_until_done_with_settings ::
  "'w agent \<Rightarrow> message list \<Rightarrow> 'w run_settings \<Rightarrow> 'w \<Rightarrow> (turn_event list \<times> 'w) option" where
  "stream_until_done_with_settings ag messages st w =
     (let ctx = run_ctx_of st messages in
      case rh_before_run (rs_run_hooks st) ctx w of
        (Err e, w1) \<Rightarrow>
          Some ([RunEnd messages 0 0 (HookDenied (''before_run: '' @ ag_show_hook ag e)) 0 False], w1)
      | (Ok _, w1) \<Rightarrow>
          map_option (finish_run st ctx)
            (outer_loop ag st (ag_now ag w1) (cf_max_turns (ag_config ag)) 0 (loop_init ag messages w1)))"

text \<open>The settings that callers without an identity pass; the callbacks are the agent's.\<close>

(* map: src/crates/caliban-agent-core/src/stream/mod.rs 991-1000 RunSettings::default *)
definition settings_default :: "'w run_hooks \<Rightarrow> 'w run_settings" where
  "settings_default rh =
     \<lparr>rs_session_id = [], rs_workspace_root = ''.'', rs_prompt_index = 0, rs_input_source = None,
      rs_run_hooks = rh\<rparr>"

(* map: src/crates/caliban-agent-core/src/stream/mod.rs 496-513 RunOutcome *)
record run_outcome =
  ru_final_messages :: "message list"
  ru_turn_count :: nat
  ru_total_usage :: usage
  ru_stopped_for :: stop_condition
  ru_turns_without_edit :: nat
  ru_no_edit_nudge_emitted :: bool

fun run_end_outcome :: "turn_event \<Rightarrow> run_outcome option" where
  "run_end_outcome (RunEnd h u n sc k b) =
     Some \<lparr>ru_final_messages = h, ru_turn_count = n, ru_total_usage = u, ru_stopped_for = sc,
           ru_turns_without_edit = k, ru_no_edit_nudge_emitted = b\<rparr>"
| "run_end_outcome _ = None"

fun turn_end_outcome :: "turn_event \<Rightarrow> turn_outcome option" where
  "turn_end_outcome (TurnEnd turn m rs sr u a b) =
     Some \<lparr>to_assistant_message = m, to_tool_results = rs, to_stop_reason = sr, to_usage = u,
           to_continue_loop = (sr = ToolUseStop)\<rparr>"
| "turn_end_outcome _ = None"

fun first_some :: "('a \<Rightarrow> 'b option) \<Rightarrow> 'a list \<Rightarrow> 'b option" where
  "first_some f [] = None"
| "first_some f (x # xs) = (case f x of Some y \<Rightarrow> Some y | None \<Rightarrow> first_some f xs)"

(* map: src/crates/caliban-agent-core/src/turn.rs 64-91 Agent::run_until_done *)
definition run_until_done ::
  "'w agent \<Rightarrow> 'w run_hooks \<Rightarrow> message list \<Rightarrow> 'w \<Rightarrow> ((run_outcome, agent_error) result \<times> 'w) option" where
  "run_until_done ag rh messages w =
     map_option (\<lambda>(evs, w').
         (case first_some run_end_outcome evs of
            Some r \<Rightarrow> Ok r
          | None \<Rightarrow> Err (Misconfigured ''stream ended without RunEnd''), w'))
       (stream_until_done_with_settings ag messages (settings_default rh) w)"

text \<open>
  The wrapper drops the stream at the first \<open>TurnEnd\<close>, so that nothing after the first
  turn happens; only when that turn ends the run without one is the stream read to its end.
\<close>

(* map: src/crates/caliban-agent-core/src/turn.rs 24-49 Agent::run_turn *)
definition run_turn ::
  "'w agent \<Rightarrow> 'w run_hooks \<Rightarrow> message list \<Rightarrow> 'w \<Rightarrow> ((turn_outcome, agent_error) result \<times> 'w) option" where
  "run_turn ag rh messages w =
     (let st = settings_default rh;
          ctx = run_ctx_of st messages;
          missing = Err (Misconfigured ''stream ended without TurnEnd'')
      in case rh_before_run rh ctx w of
           (Err e, w1) \<Rightarrow> Some (missing, w1)
         | (Ok _, w1) \<Rightarrow>
             map_option (\<lambda>ls. case first_some turn_end_outcome (ls_events ls) of
                                 Some outcome \<Rightarrow> (Ok outcome, ls_world ls)
                               | None \<Rightarrow> (missing, snd (finish_run st ctx ls)))
               (outer_loop ag st (ag_now ag w1) (min 1 (cf_max_turns (ag_config ag))) 0 (loop_init ag messages w1)))"

section \<open>What a run reports\<close>

text \<open>An invariant of the attempts is an invariant of the run.\<close>

locale turn_invariant =
  fixes ag :: "'w agent" and st :: "'w run_settings" and started :: nat
    and inv :: "nat \<Rightarrow> 'w loop_state \<Rightarrow> bool" and out :: "nat \<Rightarrow> 'w loop_state \<Rightarrow> bool"
  assumes inv_drain: "inv turn ls \<Longrightarrow> inv turn (ls\<lparr>ls_drain_retries := 0\<rparr>)"
    and inv_retry: "inv turn ls \<Longrightarrow> turn_attempt ag st started turn ls = Some (FRetry ls') \<Longrightarrow> inv turn ls'"
    and inv_next: "inv turn ls \<Longrightarrow> turn_attempt ag st started turn ls = Some (FNext ls') \<Longrightarrow> inv (turn + 1) ls'"
    and inv_break: "inv turn ls \<Longrightarrow> turn_attempt ag st started turn ls = Some (FBreak ls') \<Longrightarrow> out turn ls'"
begin

lemma inner_inv:
  "inv turn ls \<Longrightarrow> inner_loop ag st started turn ls = Some f \<Longrightarrow>
   (\<exists>ls'. f = FNext ls' \<and> inv (turn + 1) ls' \<or> f = FBreak ls' \<and> out turn ls')"
proof (induction "retry_budget ag ls" arbitrary: ls rule: less_induct)
  case less
  obtain g where g: "turn_attempt ag st started turn ls = Some g"
    using less.prems(2) by (auto simp: inner_loop.simps [of ag st started turn ls] split: option.splits)
  show ?case
  proof (cases g)
    case (FRetry ls')
    have "retry_budget ag ls' < retry_budget ag ls" using attempt_ok [OF g] by (simp add: FRetry)
    moreover have "inner_loop ag st started turn ls' = Some f"
      using less.prems(2) by (simp add: inner_loop.simps [of ag st started turn ls] g FRetry)
    ultimately show ?thesis using less.hyps inv_retry [OF less.prems(1)] g FRetry by blast
  qed (use less.prems g inv_next inv_break in \<open>auto simp: inner_loop.simps [of ag st started turn ls]\<close>)
qed

lemma outer_inv:
  "inv turn ls \<Longrightarrow> outer_loop ag st started left turn ls = Some ls' \<Longrightarrow>
   inv (turn + left) ls' \<or> (\<exists>k < left. out (turn + k) ls')"
proof (induction left arbitrary: turn ls)
  case (Suc left)
  obtain f where f: "inner_loop ag st started turn (ls\<lparr>ls_drain_retries := 0\<rparr>) = Some f"
    using Suc.prems(2) by (auto split: option.splits)
  then consider ls1 where "f = FNext ls1" "inv (turn + 1) ls1" | ls1 where "f = FBreak ls1" "out turn ls1"
    using inner_inv [OF inv_drain [OF Suc.prems(1)]] by blast
  then show ?case
  proof cases
    case 1
    with Suc.IH [OF 1(2)] Suc.prems(2) f
    have "inv (turn + 1 + left) ls' \<or> (\<exists>k < left. out (turn + 1 + k) ls')" by simp
    then show ?thesis by (metis Suc_less_eq add.assoc add.commute plus_1_eq_Suc)
  next
    case 2
    then have "out (turn + 0) ls'" using Suc.prems(2) f by simp
    then show ?thesis by (metis zero_less_Suc)
  qed
qed simp

end

definition progress :: "'w agent \<Rightarrow> nat \<Rightarrow> 'w loop_state \<Rightarrow> bool" where
  "progress ag turn ls \<longleftrightarrow>
     List.map_filter ended_turn (ls_events ls) = [0..<turn] \<and> \<not> list_ex is_run_end (ls_events ls) \<and>
     ls_turns_completed ls = turn \<and>
     (ls_stopped_for ls = MaxTurnsReached (cf_max_turns (ag_config ag)) \<or> ls_stopped_for ls = SCancelled)"

definition stopped :: "nat \<Rightarrow> 'w loop_state \<Rightarrow> bool" where
  "stopped turn ls \<longleftrightarrow>
     (\<exists>n \<le> turn + 1. List.map_filter ended_turn (ls_events ls) = [0..<n] \<and> ls_turns_completed ls = n) \<and>
     \<not> list_ex is_run_end (ls_events ls) \<and> \<not> is_max_turns (ls_stopped_for ls)"

lemma within_turn_silent:
  "list_all within_turn evs \<Longrightarrow> List.map_filter ended_turn evs = [] \<and> \<not> list_ex is_run_end evs"
  by (induction evs) (auto simp: within_turn_def List.map_filter_def)

lemma ended_not_run_end: "ended_turn e = Some t \<Longrightarrow> \<not> is_run_end e"
  by (cases e) auto

lemma quiet_events:
  "quiet ls ls' \<Longrightarrow> List.map_filter ended_turn (ls_events ls') = List.map_filter ended_turn (ls_events ls) \<and>
   list_ex is_run_end (ls_events ls') = list_ex is_run_end (ls_events ls) \<and>
   ls_turns_completed ls' = ls_turns_completed ls"
  by (auto simp: quiet_def map_filter_append dest: within_turn_silent)

lemma counted_events:
  "counted turn ls ls' \<Longrightarrow>
   List.map_filter ended_turn (ls_events ls') = List.map_filter ended_turn (ls_events ls) @ [turn] \<and>
   list_ex is_run_end (ls_events ls') = list_ex is_run_end (ls_events ls) \<and>
   ls_turns_completed ls' = ls_turns_completed ls + 1"
  by (auto simp: counted_def map_filter_append ended_not_run_end dest: within_turn_silent)

interpretation reporting: turn_invariant ag st started "progress ag" stopped for ag st started
proof unfold_locales
  fix turn ls ls'
  assume p: "progress ag turn ls"
  then show "progress ag turn (ls\<lparr>ls_drain_retries := 0\<rparr>)" by (simp add: progress_def)
  note ends = quiet_events [of ls ls'] counted_events [of turn ls ls']
  show "progress ag turn ls'" if "turn_attempt ag st started turn ls = Some (FRetry ls')"
    using p ends attempt_ok [OF that] by (auto simp: progress_def)
  show "progress ag (turn + 1) ls'" if "turn_attempt ag st started turn ls = Some (FNext ls')"
    using p ends attempt_ok [OF that] by (auto simp: progress_def)
  show "stopped turn ls'" if "turn_attempt ag st started turn ls = Some (FBreak ls')"
    using p ends attempt_ok [OF that] by (fastforce simp: progress_def stopped_def)
qed

lemma outer_loop_reports:
  assumes "outer_loop ag st started (cf_max_turns (ag_config ag)) 0 (loop_init ag messages w) = Some ls"
  shows "\<not> list_ex is_run_end (ls_events ls) \<and>
    List.map_filter ended_turn (ls_events ls) = [0..<ls_turns_completed ls] \<and>
    ls_turns_completed ls \<le> cf_max_turns (ag_config ag) \<and>
    (is_max_turns (ls_stopped_for ls) \<longrightarrow>
       ls_stopped_for ls = MaxTurnsReached (cf_max_turns (ag_config ag)) \<and>
       ls_turns_completed ls = cf_max_turns (ag_config ag))"
proof -
  have "progress ag 0 (loop_init ag messages w)" by (simp add: progress_def loop_init_def List.map_filter_def)
  from reporting.outer_inv [OF this assms] show ?thesis by (auto simp: progress_def stopped_def)
qed

text \<open>
  (C6) A run yields exactly one \<open>RunEnd\<close>, as its last event. The turn count it carries is the
  number of \<open>TurnEnd\<close> events, which come in the order of the turns, and is at most the
  limit; and the limit is only given as the reason when all the turns have been completed.
\<close>

theorem run_reports_its_turns:
  assumes "stream_until_done_with_settings ag messages st w = Some (evs, w')"
  shows "\<exists>body h u n sc k b. evs = body @ [RunEnd h u n sc k b] \<and> \<not> list_ex is_run_end body \<and>
    List.map_filter ended_turn body = [0..<n] \<and> n \<le> cf_max_turns (ag_config ag) \<and>
    (is_max_turns sc \<longrightarrow> sc = MaxTurnsReached (cf_max_turns (ag_config ag)) \<and> n = cf_max_turns (ag_config ag))"
proof (cases "rh_before_run (rs_run_hooks st) (run_ctx_of st messages) w")
  case (Pair r w1)
  show ?thesis
  proof (cases r)
    case (Err e)
    then have "evs = [] @ [RunEnd messages 0 0 (HookDenied (''before_run: '' @ ag_show_hook ag e)) 0 False]"
      using assms Pair by (simp add: stream_until_done_with_settings_def Let_def)
    then show ?thesis
      by (intro exI conjI) (assumption | simp add: List.map_filter_def)+
  next
    case (Ok u)
    then obtain ls
      where ls: "outer_loop ag st (ag_now ag w1) (cf_max_turns (ag_config ag)) 0 (loop_init ag messages w1) = Some ls"
        and evs: "evs = fst (finish_run st (run_ctx_of st messages) ls)"
      using assms Pair by (auto simp: stream_until_done_with_settings_def Let_def)
    show ?thesis
      using outer_loop_reports [OF ls] by (auto simp: evs finish_run_def Let_def)
  qed
qed

section \<open>Every run ends\<close>

lemma open_call_returns: "0 < cf_stream_prefill_timeout_ms (ag_config ag) \<Longrightarrow> open_call ag req w \<noteq> None"
  by (auto simp: open_call_def Let_def split: prod.splits option.splits)

lemma open_phase_returns: "0 < cf_stream_prefill_timeout_ms (ag_config ag) \<Longrightarrow> open_phase ag ls \<noteq> None"
  using retry_loop_returns [OF open_call_returns]
  by (auto simp: open_phase_def with_retry_def Let_def split: option.splits prod.splits result.splits)

lemma drain_phase_returns:
  "0 < cf_stream_idle_timeout_ms (ag_config ag) \<Longrightarrow> drain_phase ag turn sent s ls \<noteq> None"
  by (auto simp: drain_phase_def watch_provider_def watched_stream_def Let_def split: phase.splits)

lemma exchange_returns:
  assumes "0 < cf_stream_idle_timeout_ms (ag_config ag)" "0 < cf_stream_prefill_timeout_ms (ag_config ag)"
  shows "exchange ag st turn ls \<noteq> None"
proof -
  obtain p where "open_phase ag ls = Some p" using open_phase_returns [OF assms(2)] by blast
  then show ?thesis
    using drain_phase_returns [OF assms(1)] by (cases p) (auto simp: exchange_def receive_def)
qed

lemma attempt_returns:
  "0 < cf_stream_idle_timeout_ms (ag_config ag) \<Longrightarrow> 0 < cf_stream_prefill_timeout_ms (ag_config ag) \<Longrightarrow>
   turn_attempt ag st started turn ls \<noteq> None"
  using exchange_returns by (auto simp: turn_attempt_def split: option.splits phase.splits)

lemma inner_loop_returns:
  assumes "0 < cf_stream_idle_timeout_ms (ag_config ag)" "0 < cf_stream_prefill_timeout_ms (ag_config ag)"
  shows "\<exists>ls'. inner_loop ag st started turn ls = Some (FNext ls') \<or> inner_loop ag st started turn ls = Some (FBreak ls')"
proof (induction "retry_budget ag ls" arbitrary: ls rule: less_induct)
  case less
  obtain f where f: "turn_attempt ag st started turn ls = Some f" using attempt_returns [OF assms] by blast
  show ?case
    using less.hyps attempt_ok [OF f]
    by (cases f) (auto simp: inner_loop.simps [of ag st started turn ls] f)
qed

lemma outer_loop_returns:
  assumes "0 < cf_stream_idle_timeout_ms (ag_config ag)" "0 < cf_stream_prefill_timeout_ms (ag_config ag)"
  shows "outer_loop ag st started left turn ls \<noteq> None"
proof (induction left arbitrary: turn ls)
  case (Suc left)
  then show ?case
    using inner_loop_returns [OF assms, of st started turn "ls\<lparr>ls_drain_retries := 0\<rparr>"] by auto
qed simp


section \<open>The wrappers\<close>

lemma first_some_append:
  "first_some f (xs @ ys) = (case first_some f xs of Some y \<Rightarrow> Some y | None \<Rightarrow> first_some f ys)"
  by (induction xs) (auto split: option.splits)

lemma first_some_None: "list_all (\<lambda>x. f x = None) xs \<Longrightarrow> first_some f xs = None"
  by (induction xs) auto

definition extends :: "'w loop_state \<Rightarrow> 'w loop_state \<Rightarrow> bool" where
  "extends ls ls' \<longleftrightarrow> (\<exists>evs. ls_events ls' = ls_events ls @ evs)"

lemma extends_trans: "extends ls ls' \<Longrightarrow> extends ls' ls'' \<Longrightarrow> extends ls ls''"
  by (force simp: extends_def)

lemma extends_steps: "quiet ls ls' \<Longrightarrow> extends ls ls'" "counted turn ls ls' \<Longrightarrow> extends ls ls'"
  by (auto simp: extends_def quiet_def counted_def)

lemma turn_end_outcome_None: "turn_end_outcome e = None \<longleftrightarrow> ended_turn e = None"
  by (cases e) auto

lemma counted_first: "counted turn ls ls' \<Longrightarrow> first_some turn_end_outcome (ls_events ls') \<noteq> None"
  by (auto simp: counted_def first_some_append turn_end_outcome_None split: option.splits)

text \<open>A second instance of the loop's induction: the log of events only grows.\<close>

interpretation logging: turn_invariant ag st started "\<lambda>_. extends ls0" "\<lambda>_. extends ls0" for ag st started ls0
proof unfold_locales
  fix turn :: nat and ls ls'
  assume e: "extends ls0 ls"
  then show "extends ls0 (ls\<lparr>ls_drain_retries := 0\<rparr>)" by (simp add: extends_def)
  show "extends ls0 ls'" if "turn_attempt ag st started turn ls = Some (FRetry ls')"
    using attempt_ok [OF that] e by (auto intro: extends_trans extends_steps)
  show "extends ls0 ls'" if "turn_attempt ag st started turn ls = Some (FNext ls')"
    using attempt_ok [OF that] e by (auto intro: extends_trans extends_steps)
  show "extends ls0 ls'" if "turn_attempt ag st started turn ls = Some (FBreak ls')"
    using attempt_ok [OF that] e by (auto intro: extends_trans extends_steps)
qed

lemma outer_loop_extends: "outer_loop ag st started left turn ls = Some ls' \<Longrightarrow> extends ls ls'"
  using logging.outer_inv [of ls ls ag st started left turn ls'] by (auto simp: extends_def)

lemma inner_next_counted:
  assumes "inner_loop ag st started turn ls = Some (FNext ls')"
  shows "first_some turn_end_outcome (ls_events ls') \<noteq> None"
  using assms
proof (induction "retry_budget ag ls" arbitrary: ls rule: less_induct)
  case less
  obtain g where g: "turn_attempt ag st started turn ls = Some g"
    using less.prems by (auto simp: inner_loop.simps [of ag st started turn ls] split: option.splits)
  show ?case
    using less attempt_ok [OF g] counted_first
    by (cases g) (auto simp: inner_loop.simps [of ag st started turn ls] g)
qed

lemma first_turn_decides:
  assumes "outer_loop ag st started n turn ls = Some ls'"
  shows "\<exists>ls1. outer_loop ag st started (min 1 n) turn ls = Some ls1 \<and>
    first_some turn_end_outcome (ls_events ls') = first_some turn_end_outcome (ls_events ls1)"
proof (cases n)
  case (Suc left)
  obtain f where f: "inner_loop ag st started turn (ls\<lparr>ls_drain_retries := 0\<rparr>) = Some f"
    using assms Suc by (auto split: option.splits)
  show ?thesis
  proof (cases f)
    case (FNext ls1)
    then have "extends ls1 ls'" using assms f outer_loop_extends by (simp add: Suc)
    then show ?thesis
      using inner_next_counted [OF f [unfolded FNext]] f Suc
      by (auto simp: FNext extends_def first_some_append)
  qed (use assms f Suc in auto)
qed (use assms in auto)

lemma turn_end_of_run_end: "first_some turn_end_outcome (evs @ [RunEnd h u n sc k b]) = first_some turn_end_outcome evs"
  by (simp add: first_some_append split: option.splits)

lemma no_run_end_outcome: "\<not> list_ex is_run_end evs \<Longrightarrow> first_some run_end_outcome evs = None"
proof (rule first_some_None)
  assume "\<not> list_ex is_run_end evs"
  moreover have "\<not> is_run_end e \<Longrightarrow> run_end_outcome e = None" for e by (cases e) auto
  ultimately show "list_all (\<lambda>x. run_end_outcome x = None) evs"
    by (auto simp: list_ex_iff list_all_iff)
qed

text \<open>
  The wrappers against the stream of events: \<open>run_until_done\<close> always finds the
  \<open>RunEnd\<close> and never fails, and \<open>run_turn\<close>, which stops reading after one turn,
  returns what the whole run's first \<open>TurnEnd\<close> carries, or fails when there is none.
\<close>

theorem wrappers_read_the_events:
  assumes "stream_until_done_with_settings ag messages (settings_default rh) w = Some (evs, w')"
  shows "(\<exists>body r. evs = body @ [RunEnd (ru_final_messages r) (ru_total_usage r) (ru_turn_count r)
              (ru_stopped_for r) (ru_turns_without_edit r) (ru_no_edit_nudge_emitted r)] \<and>
            run_until_done ag rh messages w = Some (Ok r, w')) \<and>
    map_option fst (run_turn ag rh messages w) =
      Some (case first_some turn_end_outcome evs of
              Some outcome \<Rightarrow> Ok outcome
            | None \<Rightarrow> Err (Misconfigured ''stream ended without TurnEnd''))"
proof (cases "rh_before_run rh (run_ctx_of (settings_default rh) messages) w")
  case (Pair r w1)
  let ?st = "settings_default rh" and ?ctx = "run_ctx_of (settings_default rh) messages"
  have rh: "rs_run_hooks ?st = rh" by (simp add: settings_default_def)
  show ?thesis
  proof (cases r)
    case (Err e)
    then show ?thesis
      using assms Pair
      by (auto simp: stream_until_done_with_settings_def run_until_done_def run_turn_def Let_def rh
          intro!: exI [of _ "[]"])
  next
    case (Ok u)
    then obtain ls
      where ls: "outer_loop ag ?st (ag_now ag w1) (cf_max_turns (ag_config ag)) 0 (loop_init ag messages w1) = Some ls"
        and fin: "finish_run ?st ?ctx ls = (evs, w')"
      using assms Pair by (auto simp: stream_until_done_with_settings_def Let_def rh)
    obtain ls1 where ls1: "outer_loop ag ?st (ag_now ag w1) (min 1 (cf_max_turns (ag_config ag))) 0
        (loop_init ag messages w1) = Some ls1"
      and same: "first_some turn_end_outcome (ls_events ls) = first_some turn_end_outcome (ls_events ls1)"
      using first_turn_decides [OF ls] by blast
    have evs: "evs = ls_events ls @ [RunEnd (ls_history ls) (ls_usage ls) (ls_turns_completed ls)
        (ls_stopped_for ls) (ls_without_edit ls) (ls_nudge_emitted ls)]"
      using fin by (simp add: finish_run_def Let_def)
    have "first_some run_end_outcome (ls_events ls) = None"
      using outer_loop_reports [OF ls] no_run_end_outcome by blast
    then have "run_until_done ag rh messages w = Some (Ok \<lparr>ru_final_messages = ls_history ls,
        ru_turn_count = ls_turns_completed ls, ru_total_usage = ls_usage ls, ru_stopped_for = ls_stopped_for ls,
        ru_turns_without_edit = ls_without_edit ls, ru_no_edit_nudge_emitted = ls_nudge_emitted ls\<rparr>, w')"
      using assms by (simp add: run_until_done_def evs first_some_append)
    moreover have "map_option fst (run_turn ag rh messages w) =
        Some (case first_some turn_end_outcome evs of
              Some outcome \<Rightarrow> Ok outcome | None \<Rightarrow> Err (Misconfigured ''stream ended without TurnEnd''))"
      using Pair Ok ls1 same
      by (auto simp: run_turn_def Let_def evs turn_end_of_run_end split: option.splits)
    ultimately show ?thesis using evs by (metis run_outcome.select_convs)
  qed
qed

text \<open>
  A run whose token has fired before its first turn is a success for \<open>run_until_done\<close>, with
  the condition in the outcome, and a misconfiguration for \<open>run_turn\<close>; neither fails with
  the cancellation that both document, and the run's callback is told that the run succeeded.
\<close>

theorem cancelled_run_is_reported_as_success:
  assumes "rh_before_run rh (run_ctx_of (settings_default rh) messages) w = (Ok (), w1)"
      and "cancelled ag w1" "0 < cf_max_turns (ag_config ag)"
  shows "(\<exists>r. map_option fst (run_until_done ag rh messages w) = Some (Ok r) \<and> ru_stopped_for r = SCancelled \<and>
           ru_final_messages r = messages) \<and>
    map_option fst (run_turn ag rh messages w) = Some (Err (Misconfigured ''stream ended without TurnEnd'')) \<and>
    map_option snd (run_until_done ag rh messages w) =
      Some (snd (rh_after_run rh (run_ctx_of (settings_default rh) messages)
        \<lparr>ro_turn_count = 0, ro_input_tokens = 0, ro_output_tokens = 0, ro_success = True\<rparr> w1))"
proof -
  obtain n where n: "cf_max_turns (ag_config ag) = Suc n" using assms(3) gr0_implies_Suc by blast
  have "inner_loop ag st s t (loop_init ag messages w1) =
    Some (FBreak ((loop_init ag messages w1)\<lparr>ls_stopped_for := SCancelled\<rparr>))" for st s t
    using assms(2) by (simp add: inner_loop.simps turn_attempt_def turn_guard_def loop_init_def)
  moreover have "(loop_init ag messages w1)\<lparr>ls_drain_retries := 0\<rparr> = loop_init ag messages w1"
    by (simp add: loop_init_def)
  ultimately have "outer_loop ag st s (Suc m) 0 (loop_init ag messages w1) =
    Some ((loop_init ag messages w1)\<lparr>ls_stopped_for := SCancelled\<rparr>)" for st s m
    by simp
  then show ?thesis
    using assms(1)
    by (simp add: run_until_done_def run_turn_def stream_until_done_with_settings_def n Let_def
      settings_default_def finish_run_def loop_init_def run_quiet_def zero_usage_def del: outer_loop.simps)
qed

section \<open>A small agent\<close>

text \<open>A model that reads one file and then answers; the world is the cancellation token.\<close>

definition call_stream :: timed_stream where
  "call_stream = \<lparr>ts_items = [(5, Ok (MessageStart ''m1'' ''demo'')),
     (1, Ok (ContentBlockStart 0 (CtToolUse ''t1'' ''Read''))), (1, Ok (ContentBlockStop 0)),
     (1, Ok (MessageDelta (Some ToolUseStop) None)), (1, Ok MessageStop)], ts_end = Some 0\<rparr>"

definition done_stream :: timed_stream where
  "done_stream = \<lparr>ts_items = [(5, Ok (MessageStart ''m2'' ''demo'')),
     (1, Ok (ContentBlockStart 0 CtText)), (1, Ok (Delta 0 (DText ''ok''))), (1, Ok (ContentBlockStop 0)),
     (1, Ok (MessageDelta (Some EndTurn) None)), (1, Ok MessageStop)], ts_end = Some 0\<rparr>"

definition demo_open :: "request \<Rightarrow> bool \<Rightarrow> nat option \<times> (timed_stream, perror) result \<times> bool" where
  "demo_open req w =
     (Some 20, Ok (if list_ex (\<lambda>m. result_ids m \<noteq> []) (rq_messages req) then done_stream else call_stream), w)"

definition demo_tool :: "bool tool" where
  "demo_tool = \<lparr>tl_name = ''Read'', tl_description = [], tl_input_schema = JObject [],
     tl_invoke = \<lambda>_ _ _ w. (Ok [text_cb ''data''], w), tl_conflict_key = \<lambda>_. None,
     tl_is_read_only = True, tl_mutates_files = False\<rparr>"

definition demo_agent :: "bool hooks \<Rightarrow> bool agent" where
  "demo_agent hooks =
     \<lparr>ag_config = config_default\<lparr>cf_max_turns := 4, cf_auto_compact_threshold := None,
        cf_micro_compact_enabled := False, cf_stream_idle_timeout_ms := 9, cf_stream_prefill_timeout_ms := 30,
        cf_tool_result_cap_chars := 0, cf_max_turn_thinking_chars := 0\<rparr>, ag_open = demo_open,
      ag_capabilities = \<lambda>_. sample_caps, ag_active_model = \<lambda>_. ''demo'', ag_thinking = \<lambda>_. ThOff,
      ag_effort = \<lambda>_. EffortAuto, ag_tools = [(''Read'', demo_tool)], ag_mcp_active = \<lambda>_. activation_new 24,
      ag_mcp_eager_servers = [], ag_compactor = noop_compactor, ag_retry = retry_default,
      ag_hooks = hooks, ag_over_budget = None, ag_over_threshold = \<lambda>_ _ _. False, ag_prompt_cache = False,
      ag_order = \<lambda>_. [], ag_plan_mode = None, ag_post_processor = \<lambda>s. s,
      ag_waiting = \<lparr>wt_cancelled = \<lambda>w. w, wt_backoff = \<lambda>_ _ _. 0, wt_sleep = \<lambda>_ w. (True, w)\<rparr>,
      ag_pass = \<lambda>_ w. w, ag_now = \<lambda>_. 0, ag_save = \<lambda>_ _ _ w. (Ok [], w), ag_print = \<lambda>_. [],
      ag_parse = \<lambda>_. None, ag_show = \<lambda>_. [], ag_show_hook = \<lambda>_. []\<rparr>"

definition quiet_run_hooks :: "'w run_hooks" where
  "quiet_run_hooks = \<lparr>rh_before_run = \<lambda>_ w. (Ok (), w), rh_after_run = \<lambda>_ _ w. (Ok (), w),
     rh_after_run_failure = \<lambda>_ _ w. (Ok (), w)\<rparr>"

definition interrupting_hooks :: "bool hooks" where
  "interrupting_hooks = noop_hooks\<lparr>hk_before_tool := \<lambda>_ _. (Ok Allow, True)\<rparr>"

definition demo_run :: "bool hooks \<Rightarrow> (turn_event list \<times> bool) option" where
  "demo_run hooks =
     stream_until_done_with_settings (demo_agent hooks) [msg_user_text ''hi''] (settings_default quiet_run_hooks) False"

definition demo_call :: message where
  "demo_call = \<lparr>msg_role = Assistant,
     msg_content = [ToolUse \<lparr>tu_id = ''t1'', tu_name = ''Read'', tu_input = JObject []\<rparr>]\<rparr>"

definition demo_history :: "message list" where
  "demo_history = [msg_user_text ''hi'', demo_call,
     \<lparr>msg_role = User, msg_content = [ToolResult ''t1'' [text_cb ''data''] False]\<rparr>, msg_assistant_text ''ok'']"

definition demo_events :: "turn_event list" where
  "demo_events =
     [TurnStart 0 ''m1'' ''demo'', ToolCallStart 0 ''t1'' ''Read'',
      ToolCallEnd 0 ''t1'' False [text_cb ''data''] ''data'' False,
      TurnEnd 0 demo_call [demo_history ! 2] ToolUseStop 0 None None,
      TurnStart 1 ''m2'' ''demo'', AssistantTextDelta 1 0 ''ok'',
      TurnEnd 1 (demo_history ! 3) [] EndTurn 0 (Some 0) None]"

lemma demo_run_noop: "demo_run noop_hooks = Some (demo_events @ [RunEnd demo_history 0 2 EndOfTurn 2 False], False)"
  by code_simp

theorem run_reports_its_turns_witness:
  "\<exists>body h u n sc k b. demo_events @ [RunEnd demo_history 0 2 EndOfTurn 2 False] = body @ [RunEnd h u n sc k b] \<and>
     \<not> list_ex is_run_end body \<and> List.map_filter ended_turn body = [0..<n] \<and> n \<le> 4"
  using run_reports_its_turns [OF demo_run_noop [unfolded demo_run_def]]
  by (auto simp: demo_agent_def)


theorem wrappers_read_the_events_witness:
  "\<exists>r. run_until_done (demo_agent noop_hooks) quiet_run_hooks [msg_user_text ''hi''] False = Some (Ok r, False) \<and>
     map_option fst (run_turn (demo_agent noop_hooks) quiet_run_hooks [msg_user_text ''hi''] False) =
       Some (case first_some turn_end_outcome (demo_events @ [RunEnd demo_history 0 2 EndOfTurn 2 False]) of
               Some outcome \<Rightarrow> Ok outcome
             | None \<Rightarrow> Err (Misconfigured ''stream ended without TurnEnd''))"
  using wrappers_read_the_events [OF demo_run_noop [unfolded demo_run_def]] by blast

theorem cancelled_run_is_reported_as_success_witness:
  "map_option fst (run_turn (demo_agent noop_hooks) quiet_run_hooks [] True) =
     Some (Err (Misconfigured ''stream ended without TurnEnd''))"
  using cancelled_run_is_reported_as_success [of quiet_run_hooks "[]" True True "demo_agent noop_hooks"]
  by (simp add: quiet_run_hooks_def demo_agent_def)

text \<open>
  A token that fires while the last call waits for its approval: the call is neither run nor
  answered, and the turn still ends as a turn of tool calls. The history that the run returns
  ends in an open call.
\<close>

theorem cancelled_approval_leaves_open_call:
  "map_option (\<lambda>(evs, _). last evs) (demo_run interrupting_hooks) =
     Some (RunEnd [msg_user_text ''hi'', demo_call] 0 1 SCancelled 1 False) \<and>
   \<not> wf_history [msg_user_text ''hi'', demo_call]"
proof
  show "map_option (\<lambda>(evs, _). last evs) (demo_run interrupting_hooks) =
     Some (RunEnd [msg_user_text ''hi'', demo_call] 0 1 SCancelled 1 False)"
    by code_simp
  show "\<not> wf_history [msg_user_text ''hi'', demo_call]" by code_simp
qed

end
