(* ===== verification/AgentHistory.thy ===== *)
theory AgentHistory
  imports AgentRun
begin

text \<open>
  What the loop does to the history: concurrent calls run once each and in order where they
  conflict, every call of a turn is answered in its place whatever order the calls finish in,
  and so every request carries a well-formed history. The gate of a single call is here too.
\<close>

section \<open>The order of concurrent calls\<close>

lemma eligible_iff:
  "i \<in> set (eligible earlier ps n) \<longleftrightarrow>
   n \<le> i \<and> i < n + length ps \<and> \<not> list_ex (\<lambda>q. conflicts q (ps ! (i - n))) (rev (take (i - n) ps) @ earlier)"
proof (induction ps arbitrary: earlier n)
  case (Cons p ps)
  have later: "i \<in> set (eligible (p # earlier) ps (n + 1)) \<longleftrightarrow>
    n < i \<and> i < n + length (p # ps) \<and>
    \<not> list_ex (\<lambda>q. conflicts q ((p # ps) ! (i - n))) (rev (take (i - n) (p # ps)) @ earlier)"
    by (subst Cons.IH) (cases "n < i", auto simp: nth_Cons' take_Cons')
  show ?case
    using later by (cases "i = n") auto
qed simp

lemma eligible_choice:
  assumes "ps \<noteq> []"
  defines "el \<equiv> eligible [] ps 0"
  shows "el ! (case choices of [] \<Rightarrow> 0 | c # _ \<Rightarrow> c mod length el) \<in> set el"
proof -
  have "el \<noteq> []" using assms by (cases ps) (auto simp: el_def)
  then show ?thesis by (intro nth_mem) (auto split: list.splits)
qed

lemma run_order_step:
  assumes "ps \<noteq> []"
  obtains i where "i < length ps" "\<not> list_ex (\<lambda>q. conflicts q (ps ! i)) (take i ps)"
    "run_order choices ps = ps ! i # run_order (drop 1 choices) (drop_nth i ps)"
proof -
  let ?el = "eligible [] ps 0"
  define i where "i = ?el ! (case choices of [] \<Rightarrow> 0 | c # _ \<Rightarrow> c mod length ?el)"
  have "i \<in> set ?el" unfolding i_def by (rule eligible_choice [OF assms])
  then have "i < length ps" "\<not> list_ex (\<lambda>q. conflicts q (ps ! i)) (take i ps)"
    by (auto simp: eligible_iff list_ex_iff)
  moreover from this have "run_order choices ps = ps ! i # run_order (drop 1 choices) (drop_nth i ps)"
    using assms by (subst run_order.simps) (simp add: Let_def i_def [symmetric])
  ultimately show thesis by (rule that)
qed

lemma mset_split_nth:
  "i < length ps \<Longrightarrow> add_mset (ps ! i) (mset (take i ps) + mset (drop (Suc i) ps)) = mset ps"
  using arg_cong [OF id_take_nth_drop, of i ps mset] by simp

lemma filter_split_nth:
  assumes "i < length ps"
  shows "filter P ps = filter P (take i ps) @ (if P (ps ! i) then [ps ! i] else []) @ filter P (drop (Suc i) ps)"
  using arg_cong [OF id_take_nth_drop [OF assms], of "filter P"] by simp

lemma run_order_runs:
  "mset (run_order choices ps) = mset ps \<and>
   (\<forall>k. filter (\<lambda>p. dp_key p = Some k) (run_order choices ps) = filter (\<lambda>p. dp_key p = Some k) ps)"
proof (induction "length ps" arbitrary: choices ps rule: less_induct)
  case less
  show ?case
  proof (cases "ps = []")
    case False
    then obtain i where i: "i < length ps" and el: "\<not> list_ex (\<lambda>q. conflicts q (ps ! i)) (take i ps)"
      and step: "run_order choices ps = ps ! i # run_order (drop 1 choices) (drop_nth i ps)"
      by (rule run_order_step)
    have "length (drop_nth i ps) < length ps" using i by (simp add: drop_nth_def)
    note IH = less [OF this, of "drop 1 choices"]
    have "filter (\<lambda>p. dp_key p = Some k) (take i ps) = []" if "dp_key (ps ! i) = Some k" for k
      using el that by (auto simp: list_ex_iff conflicts_def filter_empty_conv)
    then show ?thesis
      using IH i step by (auto simp: mset_split_nth filter_split_nth [OF i] drop_nth_def)
  qed (simp add: run_order.simps)
qed


section \<open>Every call is answered in its place\<close>

text \<open>The slots that a message's calls take, with their ids, and the plans that fill them.\<close>

fun call_slots :: "nat \<Rightarrow> content_block list \<Rightarrow> (nat \<times> string) list" where
  "call_slots i [] = []"
| "call_slots i (ToolUse tu # bs) = (i, tu_id tu) # call_slots (i + 1) bs"
| "call_slots i (_ # bs) = call_slots (i + 1) bs"

fun plan_for :: "nat \<times> string \<Rightarrow> dispatch_plan \<Rightarrow> bool" where
  "plan_for (i, d) (DAllowed j d' n v k) = (j = i \<and> d' = d)"
| "plan_for (i, d) (DDenied j r) = (j = i \<and> block_result_id r = Some d)"

fun is_allowed :: "dispatch_plan \<Rightarrow> bool" where
  "is_allowed (DAllowed _ _ _ _ _) = True"
| "is_allowed (DDenied _ _) = False"

lemma plan_tool_call_for:
  "plan_tool_call ag session turn idx tu w = (PlanDenied i r, w') \<Longrightarrow> plan_for (idx, tu_id tu) (DDenied i r)"
  "plan_tool_call ag session turn idx tu w = (PlanAllowed p m, w') \<Longrightarrow> plan_for (idx, tu_id tu) p"
  by (auto simp: plan_tool_call_def Let_def denied_tool_result_def
      split: if_splits prod.splits result.splits hook_decision.splits)

lemma plan_loop_plans:
  "plan_loop ag session turn idx bs plans mutating ls = Go (plans', mutating') ls' \<Longrightarrow>
   \<exists>new. plans' = plans @ new \<and> list_all2 plan_for (call_slots idx bs) new"
proof (induction bs arbitrary: idx plans mutating ls)
  case (Cons b bs)
  show ?case
  proof (cases "\<exists>tu. b = ToolUse tu")
    case True
    then obtain tu where tu: "b = ToolUse tu" by blast
    obtain p w where p: "plan_tool_call ag session turn idx tu (ls_world ls) = (p, w)" by force
    show ?thesis
      using Cons.prems plan_tool_call_for [of ag session turn idx tu "ls_world ls"]
      by (cases p)
         (auto simp: tu p stop_with_def split: if_splits dest!: Cons.IH)
  next
    case False
    then have "plan_loop ag session turn (idx + 1) bs plans mutating ls = Go (plans', mutating') ls'"
      and "call_slots idx (b # bs) = call_slots (idx + 1) bs"
      using Cons.prems by (cases b; auto simp: stop_with_def split: if_splits)+
    then show ?thesis using Cons.IH by metis
  qed
qed simp

lemma call_slots_index:
  "(i, d) \<in> set (call_slots n bs) \<longleftrightarrow>
   n \<le> i \<and> i < n + length bs \<and> (\<exists>tu. bs ! (i - n) = ToolUse tu \<and> tu_id tu = d)"
proof (induction n bs rule: call_slots.induct)
  case (2 n tu bs)
  then show ?case by (cases "i = n") (auto simp: nth_Cons')
qed (auto simp: nth_Cons' le_Suc_eq not_less_eq_eq elim: le_neq_implies_less)

lemma call_slots_sorted: "sorted_wrt (<) (map fst (call_slots n bs))"
  by (induction n bs rule: call_slots.induct) (auto simp: call_slots_index)

lemma plan_for_index: "plan_for s p \<Longrightarrow> dp_index p = fst s"
  by (induction s p rule: plan_for.induct) auto

lemma plans_index: "list_all2 plan_for slots plans \<Longrightarrow> map dp_index plans = map fst slots"
  by (induction slots plans rule: list_all2_induct) (auto dest: plan_for_index)

lemma queue_plans_result:
  assumes "queue_plans fired plans ordered pending = (ordered', pending', False)" "distinct (map dp_index plans)"
  shows "pending' = pending @ filter is_allowed plans \<and> length ordered' = length ordered \<and>
    (\<forall>i r. DDenied i r \<in> set plans \<and> i < length ordered \<longrightarrow> ordered' ! i = Some r) \<and>
    (\<forall>j. j \<notin> dp_index ` set plans \<longrightarrow> ordered' ! j = ordered ! j) \<and>
    (\<forall>p \<in> set plans. is_allowed p \<longrightarrow> ordered' ! dp_index p = ordered ! dp_index p)"
  using assms
proof (induction fired plans ordered pending rule: queue_plans.induct)
  case (2 fired i r ps ordered pending)
  then have "i \<notin> dp_index ` set ps" by auto
  with 2 show ?case by (auto simp: nth_list_update split: if_splits) (metis image_eqI nth_list_update_neq)+
next
  case (3 fired i d n v k ps ordered pending)
  then show ?case by (auto split: if_splits)
qed auto

lemma run_calls_result:
  assumes "run_calls ag session turn ps ordered None ls = (ordered', None, ls')" "distinct (map dp_index ps)"
  shows "length ordered' = length ordered \<and>
    (\<forall>p \<in> set ps. dp_index p < length ordered \<longrightarrow>
       (\<exists>r. ordered' ! dp_index p = Some r \<and> block_result_id r = Some (dp_id p))) \<and>
    (\<forall>j. j \<notin> dp_index ` set ps \<longrightarrow> ordered' ! j = ordered ! j)"
  using assms
proof (induction ps arbitrary: ordered ls)
  case (Cons p ps)
  obtain res w where d: "dispatch_tool ag session turn p (ls_world ls) = (res, w)" by force
  show ?case
  proof (cases res)
    case (Ok r)
    have "block_result_id r = Some (dp_id p)"
      using d by (auto simp: Ok dispatch_tool_def Let_def split: if_splits prod.splits result.splits tool_error.splits)
    moreover obtain evs where
      "run_calls ag session turn ps (ordered[dp_index p := Some r]) None (yield evs (ls\<lparr>ls_world := w\<rparr>)) =
         (ordered', None, ls')"
      using Cons.prems(1) by (auto simp: d Ok split: prod.splits)
    note IH = Cons.IH [OF this]
    ultimately show ?thesis
      using Cons.prems(2) IH by (auto simp: nth_list_update)
  next
    case (Err stop)
    have "run_calls ag session turn ps ordered (Some stop) (ls\<lparr>ls_world := w\<rparr>) = (ordered', None, ls')"
      using Cons.prems(1) by (simp add: d Err)
    then show ?thesis by (auto dest: run_calls_fatal)
  qed
qed simp

definition answered :: "content_block \<Rightarrow> content_block option \<Rightarrow> bool" where
  "answered b r \<longleftrightarrow> (case b of ToolUse tu \<Rightarrow> \<exists>x. r = Some x \<and> block_result_id x = Some (tu_id tu) | _ \<Rightarrow> r = None)"

lemma dispatch_answers:
  assumes plans: "list_all2 plan_for (call_slots 0 bs) plans"
      and q: "queue_plans fired plans (replicate (length bs) None) [] = (ordered, pending, False)"
      and r: "run_calls ag session turn (run_order choices pending) ordered None ls = (ordered', None, ls')"
  shows "list_all2 answered bs ordered'"
proof -
  have dist: "distinct (map dp_index plans)"
    using call_slots_sorted [of 0 bs] by (simp add: plans_index [OF plans] strict_sorted_iff)
  note Q = queue_plans_result [OF q dist]
  have perm: "mset (run_order choices pending) = mset pending" by (simp add: run_order_runs)
  have pend: "pending = filter is_allowed plans" using Q by simp
  have "distinct (map dp_index (run_order choices pending))"
    using dist perm by (metis distinct_map_filter mset_map pend mset_eq_imp_distinct_iff)
  note R = run_calls_result [OF r this]
  have set: "set (run_order choices pending) = {p \<in> set plans. is_allowed p}"
    using mset_eq_setD [OF perm] pend by auto
  have "answered (bs ! i) (ordered' ! i)" if i: "i < length bs" for i
  proof (cases "\<exists>tu. bs ! i = ToolUse tu")
    case True
    then obtain tu where tu: "bs ! i = ToolUse tu" by blast
    then have "(i, tu_id tu) \<in> set (call_slots 0 bs)" using i by (simp add: call_slots_index)
    then obtain p where p: "p \<in> set plans" "plan_for (i, tu_id tu) p"
      using plans by (metis in_set_conv_nth list_all2_conv_all_nth)
    show ?thesis
    proof (cases p)
      case (DAllowed j d n v k)
      then have "p \<in> set (run_order choices pending)" "dp_index p = i" "dp_id p = tu_id tu"
        using p by (auto simp: set)
      then show ?thesis using R Q i tu by (force simp: answered_def)
    next
      case (DDenied j x)
      then have "j \<notin> dp_index ` set (run_order choices pending)"
        using p(1) dist by (auto simp: set distinct_map inj_on_def)
           (metis dispatch_plan.sel is_allowed.simps(2))
      then show ?thesis using p R Q i tu DDenied by (auto simp: answered_def)
    qed
  next
    case False
    then have "i \<notin> fst ` set (call_slots 0 bs)" using i by (auto simp: call_slots_index)
    then have "i \<notin> dp_index ` set plans" by (metis list.set_map plans plans_index)
    moreover from this have "i \<notin> dp_index ` set (run_order choices pending)" by (auto simp: set)
    ultimately show ?thesis
      using False R Q i by (cases "bs ! i") (auto simp: answered_def)
  qed
  then show ?thesis using R Q by (simp add: list_all2_conv_all_nth)
qed

lemma answered_ids_in_order:
  "list_all2 answered bs ordered \<Longrightarrow>
   List.map_filter block_result_id (List.map_filter (\<lambda>x. x) ordered) = map tu_id (List.map_filter block_tool_use bs)"
proof (induction bs ordered rule: list_all2_induct)
  case (Cons b bs r rs)
  then show ?case
    by (cases b) (auto simp: answered_def List.map_filter_def)
qed (simp add: List.map_filter_def)

lemma answered_results:
  "list_all2 answered bs ordered \<Longrightarrow> b \<in> set (List.map_filter (\<lambda>x. x) ordered) \<Longrightarrow>
   \<exists>i c e. b = ToolResult i c e"
proof (induction bs ordered rule: list_all2_induct)
  case (Cons b' bs r rs)
  have "r = None \<or> (\<exists>i c e. r = Some (ToolResult i c e))"
    using Cons.hyps(1) by (cases b') (auto simp: answered_def)
  then show ?case using Cons.IH Cons.prems by (auto simp: map_filter_simps)
qed (simp add: map_filter_simps)

lemma wf_history_append:
  assumes "wf_history ms" "list_all (\<lambda>m. msg_role m \<noteq> System) xs"
    "chained [] xs" "pending_calls [] xs = []"
  shows "wf_history (ms @ xs)"
proof -
  have "set (history_body (ms @ xs)) \<subseteq> set (history_body ms) \<union> set xs"
    by (auto simp: history_body_def dropWhile_append dest: set_dropWhileD)
  then show ?thesis
    using assms by (auto simp: wf_history_def well_paired_def systems_lead_def list_all_iff)
qed

lemma map_filter_list_all2:
  "list_all2 (\<lambda>a b. f b = f a) xs ys \<Longrightarrow> List.map_filter f ys = List.map_filter f xs"
  by (induction xs ys rule: list_all2_induct) (auto simp: map_filter_simps split: option.splits)

lemma list_all2_source: "list_all2 P xs ys \<Longrightarrow> y \<in> set ys \<Longrightarrow> \<exists>x \<in> set xs. P x y"
  by (induction xs ys rule: list_all2_induct) auto

lemma finalize_wf:
  assumes fin: "finalize_tool_results ag session assistant ordered mutating history w = (results, edited, history', w')"
    and ans: "list_all2 answered (msg_content assistant) ordered"
    and role: "msg_role assistant = Assistant" "result_ids assistant = []"
    and wf: "wf_history history"
  shows "wf_history history'"
proof -
  define blocks where "blocks = List.map_filter (\<lambda>x. x) ordered"
  define cap where "cap = cf_tool_result_cap_chars (ag_config ag)"
  define blocks' where "blocks' = (if cap > 0 \<and> blocks \<noteq> [] then fst (cap_results (ag_save ag session) cap blocks w) else blocks)"
  have capped: "list_all2 (capped_from cap) blocks blocks'"
    using cap_results_capped [of cap blocks "ag_save ag session" w] by (simp add: blocks'_def list_all2_refl)
  then have ids: "List.map_filter block_result_id blocks' = call_ids assistant"
    using map_filter_list_all2 [of block_result_id blocks blocks'] answered_ids_in_order [OF ans]
    by (simp add: call_ids_def tool_uses_def blocks_def list_all2_mono [OF _ capped_from_id])
  have hist: "history' = history @ assistant # (if blocks' = [] then [] else [\<lparr>msg_role = User, msg_content = blocks'\<rparr>])"
    using fin by (auto simp: finalize_tool_results_def Let_def blocks_def [symmetric] cap_def [symmetric]
      blocks'_def split: prod.splits if_splits)
  have calls: "call_ids \<lparr>msg_role = User, msg_content = blocks'\<rparr> = []" if "blocks' \<noteq> []"
  proof -
    have "block_tool_use b = None" if b: "b \<in> set blocks'" for b
    proof -
      obtain a where a: "a \<in> set blocks" "capped_from cap a b"
        using list_all2_source [OF capped b] by blast
      obtain i c e where "a = ToolResult i c e"
        using answered_results [OF ans a(1) [unfolded blocks_def]] by blast
      then show ?thesis using a(2) by (auto simp: capped_from_def)
    qed
    then show ?thesis by (simp add: call_ids_def tool_uses_def map_filter_Nil)
  qed
  show ?thesis
    unfolding hist using role wf ids calls
    by (intro wf_history_append) (auto simp: result_ids_def map_filter_simps)
qed

section \<open>The histories that a run sends\<close>

subsection \<open>What the phases leave alone\<close>

definition resultless :: "accumulator \<Rightarrow> bool" where
  "resultless acc \<longleftrightarrow> list_all (\<lambda>b. block_result_id b = None) (ma_blocks acc)"

lemma finish_block_result: "block_result_id (finish_block parse a) = None"
  by (cases a) (auto simp: text_cb_def)

lemma resultless_event: "resultless acc \<Longrightarrow> resultless (acc_event parse ev acc)"
proof (induction parse ev acc rule: acc_event.induct)
  case (2 parse i ct acc)
  then show ?case
    by (auto simp: resultless_def ensure_index_def grow_def text_cb_def list_all_iff Let_def
        dest: in_set_takeD split: option.splits)
next
  case (4 parse i acc)
  then show ?case
    by (auto simp: resultless_def finalize_block_def Let_def finish_block_result list_all_iff
        dest!: set_update_subset_insert [THEN subsetD] split: option.splits)
qed (auto simp: resultless_def split: option.splits)

lemma drain_keeps:
  "drain ag turn items ds ls = Go ds' ls' \<Longrightarrow>
   ls_history ls' = ls_history ls \<and> (resultless (ds_acc ds) \<longrightarrow> resultless (ds_acc ds'))"
proof (induction ag turn items ds ls rule: drain.induct)
  case (2 ag turn gap item rest ds ls0)
  show ?case
  proof (cases item)
    case (Ok ev)
    then show ?thesis
      using "2.prems" "2.IH" resultless_event [of "ds_acc ds" "ag_parse ag" ev]
      by (auto simp: Let_def stop_with_def drain_event_def yield_def split: if_splits)
  next
    case (Err e)
    then show ?thesis
      using "2.prems" by (auto simp: Let_def stop_with_def split: if_splits perror.splits)
  qed
qed simp

lemma drain_retry_keeps: "drain ag turn items ds ls = Leave (FRetry ls') \<Longrightarrow> ls_history ls' = ls_history ls"
proof (induction ag turn items ds ls rule: drain.induct)
  case (2 ag turn gap item rest ds ls0)
  show ?case
  proof (cases item)
    case (Ok ev)
    then show ?thesis
      using "2.prems" "2.IH" by (auto simp: Let_def stop_with_def yield_def split: if_splits)
  next
    case (Err e)
    then show ?thesis
      using "2.prems" by (auto simp: Let_def stop_with_def split: if_splits perror.splits)
  qed
qed simp

lemma drain_never_advances: "drain ag turn items ds ls \<noteq> Leave (FNext ls')"
proof (induction ag turn items ds ls rule: drain.induct)
  case (2 ag turn gap item rest ds ls0)
  then show ?case
    by (cases item) (auto simp: Let_def stop_with_def split: if_splits perror.splits)
qed simp

lemma drain_phase_keeps:
  "drain_phase ag turn sent s ls = Some (Go ds ls') \<Longrightarrow> ls_history ls' = ls_history ls \<and> resultless (ds_acc ds)"
  using drain_keeps [of ag turn "ts_items (watch_provider (ag_config ag) s)"
      "\<lparr>ds_acc = acc_new, ds_timing = timing_start sent, ds_emitted = False, ds_thinking_chars = 0\<rparr>" ls]
  by (auto simp: drain_phase_def Let_def resultless_def acc_new_def split: phase.splits option.splits)

lemma drain_phase_leaves:
  "drain_phase ag turn sent s ls = Some (Leave f) \<Longrightarrow>
   (\<exists>ls'. f = FRetry ls' \<and> ls_history ls' = ls_history ls) \<or> (\<exists>ls'. f = FBreak ls')"
  using drain_retry_keeps [of ag turn "ts_items (watch_provider (ag_config ag) s)"]
    drain_never_advances [of ag turn "ts_items (watch_provider (ag_config ag) s)"]
  by (cases f) (auto simp: drain_phase_def Let_def split: phase.splits option.splits)

lemma plan_loop_keeps:
  "plan_loop ag session turn idx bs plans mutating ls = Go pm ls' \<Longrightarrow> ls_history ls' = ls_history ls"
  by (induction bs arbitrary: idx plans mutating ls)
     (auto simp: stop_with_def yield_def split: if_splits content_block.splits prod.splits tool_plan.splits)

lemma plan_loop_leaves:
  "plan_loop ag session turn idx bs plans mutating ls = Leave f \<Longrightarrow> \<exists>ls'. f = FBreak ls'"
  by (induction bs arbitrary: idx plans mutating ls)
     (auto simp: stop_with_def yield_def split: if_splits content_block.splits prod.splits tool_plan.splits)

lemma run_calls_keeps:
  "run_calls ag session turn ps ordered fatal ls = (ordered', fatal', ls') \<Longrightarrow> ls_history ls' = ls_history ls"
  by (induction ps arbitrary: ordered fatal ls) (auto simp: yield_def split: prod.splits result.splits)

lemma post_process_keeps:
  "msg_role (post_process f m) = msg_role m" "result_ids (post_process f m) = result_ids m"
  by (simp_all add: post_process_def result_ids_def)
     (rule map_filter_list_all2, auto simp: list_all2_conv_all_nth split: content_block.splits)

lemma assistant_resultless:
  "resultless acc \<Longrightarrow> result_ids (post_process f (into_message acc)) = []"
  unfolding post_process_keeps by (auto simp: result_ids_def into_message_def resultless_def map_filter_Nil list_all_iff)

lemma queue_plans_cut: "queue_plans fired plans ordered pending = (ordered', pending', True) \<Longrightarrow> fired \<and> pending' = pending"
  by (induction fired plans ordered pending rule: queue_plans.induct) (auto split: if_splits)

lemma dispatch_phase_result:
  assumes plans: "list_all2 plan_for (call_slots 0 bs) plans"
      and go: "dispatch_phase ag session turn (length bs) plans ls = Go ordered ls'"
  shows "ls_history ls' = ls_history ls \<and> (list_all2 answered bs ordered \<or> cancelled ag (ls_world ls'))"
proof -
  obtain o1 pending trunc
    where q: "queue_plans (cancelled ag (ls_world ls)) plans (replicate (length bs) None) [] = (o1, pending, trunc)"
    by (metis prod_cases3)
  define ls1 where "ls1 = (if trunc then ls\<lparr>ls_stopped_for := SCancelled\<rparr> else ls)"
  have r: "run_calls ag session turn (run_order (ag_order ag (ls_world ls)) pending) o1 None ls1 = (ordered, None, ls')"
    using go by (auto simp: dispatch_phase_def q Let_def ls1_def [symmetric] stop_with_def
        split: prod.splits option.splits)
  have "ls_history ls' = ls_history ls" using run_calls_keeps [OF r] by (simp add: ls1_def)
  moreover have "list_all2 answered bs ordered \<or> cancelled ag (ls_world ls')"
  proof (cases trunc)
    case True
    then have "pending = []" "cancelled ag (ls_world ls)" 
      using queue_plans_cut [OF q [unfolded eqTrueI [OF True]]] by simp_all
    then have "ls' = ls1" "cancelled ag (ls_world ls1)" using r by (auto simp: run_order.simps ls1_def)
    then show ?thesis by simp
  next
    case False
    then show ?thesis using dispatch_answers [OF plans _ r] q by simp
  qed
  ultimately show ?thesis by simp
qed

subsection \<open>What the surroundings must keep\<close>

definition mannered :: "message \<Rightarrow> bool" where
  "mannered m \<longleftrightarrow> plain m \<and> msg_role m \<noteq> System"

text \<open>A token that has fired stays fired, whatever runs between two turns.\<close>

definition latched :: "'w agent \<Rightarrow> 'w run_settings \<Rightarrow> bool" where
  "latched ag st \<longleftrightarrow> (\<forall>w. cancelled ag w \<longrightarrow>
     (\<forall>ctx t. cancelled ag (snd (hk_after_turn (ag_hooks ag) ctx t w))) \<and>
     (\<forall>ctx t. cancelled ag (snd (hk_after_turn_failure (ag_hooks ag) ctx t w))) \<and>
     (\<forall>s i t. cancelled ag (snd (ag_save ag s i t w))) \<and>
     (\<forall>src. rs_input_source st = Some src \<longrightarrow> cancelled ag (snd (src w))))"

text \<open>Messages that a callback or the input source adds carry no calls or results.\<close>

definition polite :: "'w agent \<Rightarrow> 'w run_settings \<Rightarrow> bool" where
  "polite ag st \<longleftrightarrow>
     (\<forall>ctx t w msgs. fst (hk_after_turn (ag_hooks ag) ctx t w) = Ok (ContinueWith msgs) \<longrightarrow> list_all mannered msgs) \<and>
     (\<forall>src w msgs. rs_input_source st = Some src \<and> fst (src w) = Some msgs \<longrightarrow> list_all mannered msgs)"

definition disciplined :: "'w agent \<Rightarrow> 'w run_settings \<Rightarrow> bool" where
  "disciplined ag st \<longleftrightarrow> latched ag st \<and> polite ag st \<and> history_compactor (cp_compact (ag_compactor ag))"

definition sendable :: "'w agent \<Rightarrow> 'w loop_state \<Rightarrow> bool" where
  "sendable ag ls \<longleftrightarrow> wf_history (ls_history ls) \<or> cancelled ag (ls_world ls)"

fun flow_sendable :: "'w agent \<Rightarrow> 'w flow \<Rightarrow> bool" where
  "flow_sendable ag (FRetry ls) = sendable ag ls"
| "flow_sendable ag (FNext ls) = sendable ag ls"
| "flow_sendable ag (FBreak ls) = True"

lemma wf_history_mannered: "wf_history ms \<Longrightarrow> list_all mannered xs \<Longrightarrow> wf_history (ms @ xs)"
  using plain_chained [of xs] by (intro wf_history_append) (auto simp: mannered_def list_all_iff)

lemma mannered_user [simp]: "mannered (msg_user_text s)"
  by (simp add: mannered_def msg_user_text_def) (use plain_texts(1) [of s] in \<open>simp add: msg_user_text_def\<close>)

lemma sendable_inject: "sendable ag ls \<Longrightarrow> list_all mannered msgs \<Longrightarrow> sendable ag (inject msgs ls)"
  by (auto simp: sendable_def inject_def wf_history_mannered)

lemma sendable_simps [simp]:
  "sendable ag (ls\<lparr>ls_recovery := r\<rparr>) = sendable ag ls" "sendable ag (ls\<lparr>ls_since_edit := n\<rparr>) = sendable ag ls"
  "sendable ag (ls\<lparr>ls_without_edit := n\<rparr>) = sendable ag ls" "sendable ag (ls\<lparr>ls_nudge_armed := b\<rparr>) = sendable ag ls"
  "sendable ag (ls\<lparr>ls_nudge_emitted := b\<rparr>) = sendable ag ls" "sendable ag (ls\<lparr>ls_empty_nudges := n\<rparr>) = sendable ag ls"
  "sendable ag (ls\<lparr>ls_usage := u\<rparr>) = sendable ag ls" "sendable ag (ls\<lparr>ls_drain_retries := n\<rparr>) = sendable ag ls"
  "sendable ag (ls\<lparr>ls_turns_completed := n\<rparr>) = sendable ag ls" "sendable ag (yield evs ls) = sendable ag ls"
  by (simp_all add: sendable_def yield_def)

lemma on_stop_reason_injects:
  assumes "disciplined ag st"
    "on_stop_reason ag sr (rs_input_source st) r history w = (InjectAndContinue msgs, r', history', w')"
  shows "history' = history \<and> list_all mannered msgs \<and> (cancelled ag w \<longrightarrow> cancelled ag w')"
proof -
  have src: "list_all mannered ms" "cancelled ag v \<longrightarrow> cancelled ag v'"
    if "rs_input_source st = Some src" "src v = (Some ms, v')" for src v ms v'
    using assms(1) that by (auto simp: disciplined_def polite_def latched_def) (metis fst_conv snd_conv)+
  show ?thesis
    using assms(2) src
    by (auto simp: on_stop_reason_def Let_def split: stop_reason.splits if_splits option.splits prod.splits list.splits)
qed

lemma decide_sendable: "disciplined ag st \<Longrightarrow> sendable ag ls \<Longrightarrow> flow_sendable ag (decide ag st sr ls)"
  by (auto simp: decide_def Let_def sendable_def wf_history_mannered
      dest!: on_stop_reason_injects split: prod.splits recovery_action.splits)

lemma empty_guard_sendable:
  "disciplined ag st \<Longrightarrow> sendable ag ls \<Longrightarrow> flow_sendable ag (empty_guard ag st sr degenerate ls)"
  by (auto simp: empty_guard_def Let_def decide_sendable intro!: sendable_inject decide_sendable)

lemma apply_decision_sendable:
  assumes "disciplined ag st" "sendable ag ls" "\<And>msgs. d = ContinueWith msgs \<Longrightarrow> list_all mannered msgs"
  shows "flow_sendable ag (apply_decision ag st sr degenerate d ls)"
  using assms empty_guard_sendable
  by (auto simp: apply_decision_def intro!: sendable_inject split: turn_decision.splits)

lemma settle_turn_sendable:
  assumes "disciplined ag st" "sendable ag ls" "\<And>msgs. d = ContinueWith msgs \<Longrightarrow> list_all mannered msgs"
  shows "flow_sendable ag (settle_turn ag st sr edited degenerate d ls)"
  using assms
  by (auto simp: settle_turn_def Let_def intro!: sendable_inject apply_decision_sendable)

lemma after_turn_hook_ok:
  assumes "disciplined ag st" "after_turn_hook ag turn outcome ls = (r, w)"
  shows "(cancelled ag (ls_world ls) \<longrightarrow> cancelled ag w) \<and> (\<forall>msgs. r = Ok (ContinueWith msgs) \<longrightarrow> list_all mannered msgs)"
proof -
  have h: "cancelled ag v \<longrightarrow> cancelled ag (snd (hk_after_turn (ag_hooks ag) c t v))"
    "cancelled ag v \<longrightarrow> cancelled ag (snd (hk_after_turn_failure (ag_hooks ag) c t v))"
    "fst (hk_after_turn (ag_hooks ag) c t v) = Ok (ContinueWith ms) \<longrightarrow> list_all mannered ms" for v c t ms
    using assms(1) by (simp_all add: disciplined_def latched_def polite_def)
  show ?thesis
    using assms(2) h by (auto simp: after_turn_hook_def Let_def run_quiet_def split: if_splits) (metis fst_conv snd_conv)+
qed

lemma end_turn_sendable:
  assumes "disciplined ag st" "sendable ag ls"
  shows "flow_sendable ag (end_turn ag st turn assistant results edited sr u timing ls)"
proof -
  define outcome where "outcome = \<lparr>to_assistant_message = assistant, to_tool_results = results,
    to_stop_reason = sr, to_usage = u, to_continue_loop = (sr = ToolUseStop)\<rparr>"
  obtain r w where hook: "after_turn_hook ag turn outcome ls = (r, w)" by force
  note H = after_turn_hook_ok [OF assms(1) hook]
  have "sendable ag (ls\<lparr>ls_world := w\<rparr>)" using assms(2) H by (auto simp: sendable_def)
  then have s: "sendable ag (yield evs (ls\<lparr>ls_world := w, ls_usage := a, ls_turns_completed := n\<rparr>))" for evs a n
    by (simp add: sendable_def yield_def)
  show ?thesis
  proof (cases r)
    case (Ok d)
    show ?thesis
      unfolding end_turn_def Let_def outcome_def [symmetric] hook prod.case Ok result.case
      by (rule settle_turn_sendable [OF assms(1) s]) (use H Ok in auto)
  qed (simp add: end_turn_def Let_def outcome_def [symmetric] hook)
qed

lemma cap_results_latched:
  assumes "latched ag st" "cancelled ag w"
  shows "cancelled ag (snd (cap_results (ag_save ag session) n bs w))"
proof -
  have "cancelled ag v \<Longrightarrow> cancelled ag (snd (ag_save ag s i t v))" for v s i t
    using assms(1) by (simp add: latched_def)
  then have save: "ag_save ag s i t v = (x, v') \<Longrightarrow> cancelled ag v \<Longrightarrow> cancelled ag v'" for s i t v x v'
    by (metis snd_conv)
  show ?thesis
    using assms(2)
  proof (induction "ag_save ag session" n bs w rule: cap_results.induct)
    case (2 n i content err rest w)
    obtain x v where "ag_save ag session i (flatten_content_text content) w = (x, v)" by force
    then show ?case using 2 save by (cases x) (auto simp: Let_def split: prod.splits)
  qed (auto split: prod.splits)
qed

lemma finalize_sendable:
  assumes fin: "finalize_tool_results ag session assistant ordered mutating history w = (results, edited, history', w')"
    and d: "disciplined ag st" and role: "msg_role assistant = Assistant" "result_ids assistant = []"
    and ok: "wf_history history" "list_all2 answered (msg_content assistant) ordered \<or> cancelled ag w"
  shows "wf_history history' \<or> cancelled ag w'"
proof (cases "cancelled ag w")
  case True
  have "w' = w \<or> (\<exists>n bs. w' = snd (cap_results (ag_save ag session) n bs w))"
    using fin by (auto simp: finalize_tool_results_def Let_def split: prod.splits if_splits) (metis snd_conv)+
  then show ?thesis using True cap_results_latched [of ag st w] d by (auto simp: disciplined_def)
next
  case False
  then show ?thesis using finalize_wf [OF fin _ role ok(1)] ok(2) by blast
qed

lemma respond_sendable:
  assumes d: "disciplined ag st" and wf: "wf_history (ls_history ls)" and res: "resultless (ds_acc ds)"
  shows "flow_sendable ag (respond ag st turn ds ls)"
proof (cases "fst (on_max_tokens_pre_dispatch (ag_config ag) (unwrap_or EndTurn (ma_stop_reason (ds_acc ds)))
                (ls_recovery ls))")
  case None
  then obtain r0 where none: "on_max_tokens_pre_dispatch (ag_config ag)
      (unwrap_or EndTurn (ma_stop_reason (ds_acc ds))) (ls_recovery ls) = (None, r0)"
    by (metis prod.collapse)
  define assistant where "assistant = post_process (ag_post_processor ag) (into_message (ds_acc ds))"
  have role: "msg_role assistant = Assistant" "result_ids assistant = []"
    using res by (simp_all add: assistant_def post_process_keeps(1) assistant_resultless) (simp add: into_message_def)
  let ?plan = "plan_loop ag (rs_session_id st) turn 0 (msg_content assistant) [] [] ls"
  let ?disp = "\<lambda>plans ls1. dispatch_phase ag (rs_session_id st) turn (length (msg_content assistant)) plans ls1"
  note unfolded = respond_def Let_def assistant_def [symmetric] none prod.case option.case
  show ?thesis
  proof (cases ?plan)
    case (Leave f)
    then obtain ls' where "f = FBreak ls'" using plan_loop_leaves by blast
    then show ?thesis using Leave by (simp add: unfolded)
  next
    case (Go pm ls1)
    obtain plans mutating where pm: "pm = (plans, mutating)" by force
    note go = Go [unfolded pm]
    have plans: "list_all2 plan_for (call_slots 0 (msg_content assistant)) plans"
      using plan_loop_plans [OF go] by simp
    have h1: "ls_history ls1 = ls_history ls" by (rule plan_loop_keeps [OF go])
    show ?thesis
    proof (cases "?disp plans ls1")
      case (Leave f)
      then obtain ls' where "f = FBreak ls'"
        by (auto simp: dispatch_phase_def stop_with_def Let_def split: prod.splits option.splits)
      then show ?thesis using Leave go by (simp add: unfolded)
    next
      case (Go ordered ls2)
      note D = dispatch_phase_result [OF plans Go]
      obtain results edited history w where fin: "finalize_tool_results ag (rs_session_id st) assistant ordered
          mutating (ls_history ls2) (ls_world ls2) = (results, edited, history, w)"
        by (metis prod_cases4)
      have "wf_history history \<or> cancelled ag w"
        using finalize_sendable [OF fin d role] D wf h1 by simp
      then have "sendable ag (ls2\<lparr>ls_history := history, ls_world := w\<rparr>)" by (simp add: sendable_def)
      note E = end_turn_sendable [OF d this]
      show ?thesis using E by (simp add: unfolded go Go fin)
    qed
  qed
next
  case (Some a)
  then show ?thesis
    using wf by (auto simp: respond_def Let_def on_max_tokens_pre_dispatch_def sendable_def split: if_splits)
qed

lemma micro_compact_wf:
  "wf_history ms \<Longrightarrow> micro_compact print ms = Some c \<Longrightarrow> wf_history (cm_messages c)"
  using micro.keeps_wf [of ms print _ "()" c "()"] by (simp add: micro_compactor_def)

lemma maybe_compact_wf:
  assumes "history_compactor (cp_compact (ag_compactor ag))" "wf_history history"
    "maybe_compact ag history tracking w = (u, history', tracking', w')"
  shows "wf_history history'"
  using assms(2,3) history_compactor.keeps_wf [OF assms(1)]
  by (auto simp: maybe_compact_def Let_def split: if_splits prod.splits result.splits option.splits)

lemma compact_phase_wf:
  assumes "history_compactor (cp_compact (ag_compactor ag))" "wf_history (ls_history ls)"
  shows "wf_history (ls_history (compact_phase ag ls))"
proof -
  define h where "h = (if cf_micro_compact_enabled (ag_config ag)
    then (case micro_compact (ag_print ag) (ls_history ls) of Some c \<Rightarrow> cm_messages c | None \<Rightarrow> ls_history ls)
    else ls_history ls)"
  have "wf_history h" using assms(2) by (auto simp: h_def micro_compact_wf split: option.splits)
  then show ?thesis
    using maybe_compact_wf [OF assms(1)]
    by (auto simp: compact_phase_def Let_def h_def [symmetric] split: prod.splits)
qed

lemma open_failed_sendable:
  assumes "disciplined ag st" "wf_history (ls_history ls)" "open_failed ag e ls = Leave f"
  shows "flow_sendable ag f"
proof (cases f)
  case (FRetry ls')
  obtain action r history w
    where x: "on_context_too_long ag (ls_recovery ls) (ls_history ls) (ls_world ls) = (action, r, history, w)"
    by (metis prod_cases4)
  have "history_compactor (cp_compact (ag_compactor ag))" using assms(1) by (simp add: disciplined_def)
  then have "wf_history history"
    using x assms(2) by (auto simp: on_context_too_long_def Let_def history_compactor.keeps_wf
      split: prod.splits result.splits option.splits)
  moreover have "ls_history ls' = history"
    using assms(3) by (auto simp: FRetry open_failed_def x Let_def stop_with_def
      split: perror.splits if_splits recovery_action.splits)
  ultimately show ?thesis by (simp add: FRetry sendable_def)
next
  case (FNext ls')
  then show ?thesis
    using assms(3) by (auto simp: open_failed_def Let_def stop_with_def
      split: perror.splits if_splits recovery_action.splits prod.splits)
qed simp

lemma open_failed_leaves: "open_failed ag e ls \<noteq> Go s ls'"
  by (auto simp: open_failed_def Let_def stop_with_def split: perror.splits prod.splits recovery_action.splits)

lemma exchange_sendable:
  assumes d: "disciplined ag st" and wf: "wf_history (ls_history ls)" and x: "exchange ag st turn ls = Some f"
  shows "flow_sendable ag f"
proof -
  obtain p where p: "open_phase ag ls = Some p"
    using x by (auto simp: exchange_def bind_eq_Some_conv)
  show ?thesis
  proof (cases p)
    case (Leave g)
    then obtain e w where o: "open_failed ag e (ls\<lparr>ls_world := w\<rparr>) = Leave g"
      using p by (auto simp: open_phase_def Let_def split: option.splits prod.splits result.splits)
    then have "flow_sendable ag g" using open_failed_sendable [OF d _ o] wf by simp
    then show ?thesis using x p Leave by (simp add: exchange_def)
  next
    case (Go s ls1)
    then have h1: "wf_history (ls_history ls1)"
      using p wf
      by (auto simp: open_phase_def Let_def open_failed_leaves split: option.splits prod.splits result.splits)
    obtain q where q: "drain_phase ag turn (ag_now ag (ls_world ls)) s ls1 = Some q"
      and f: "f = (case q of Leave f \<Rightarrow> f | Go ds ls2 \<Rightarrow> respond ag st turn ds ls2)"
      using x p Go by (auto simp: exchange_def receive_def)
    show ?thesis
    proof (cases q)
      case (Go ds ls2)
      then show ?thesis using respond_sendable [OF d] drain_phase_keeps [OF q [unfolded Go]] h1 f by simp
    next
      case (Leave g)
      then show ?thesis using drain_phase_leaves [OF q [unfolded Leave]] h1 f by (auto simp: sendable_def)
    qed
  qed
qed

lemma attempt_sendable:
  assumes d: "disciplined ag st" and s: "sendable ag ls" and x: "turn_attempt ag st started turn ls = Some f"
  shows "flow_sendable ag f"
proof (cases "turn_guard ag started ls")
  case None
  then have wf: "wf_history (ls_history ls)"
    using s by (auto simp: turn_guard_def Let_def sendable_def split: if_splits)
  show ?thesis
  proof (cases "before_turn_phase ag turn ls")
    case (Go u ls1)
    then have "wf_history (ls_history (compact_phase ag ls1))"
      using wf d by (auto simp: before_turn_phase_def stop_with_def disciplined_def
        intro!: compact_phase_wf split: prod.splits result.splits)
    then show ?thesis using exchange_sendable [OF d] x None Go by (simp add: turn_attempt_def)
  next
    case (Leave g)
    then show ?thesis
      using x None by (auto simp: turn_attempt_def before_turn_phase_def stop_with_def split: prod.splits result.splits)
  qed
qed (use x in \<open>auto simp: turn_attempt_def\<close>)

subsection \<open>A provider only sees well-formed histories\<close>

lemma build_request_wf:
  "wf_history history \<Longrightarrow> wf_history (rq_messages (build_request ag history n w))"
  using apply_prompt_cache_wf [OF splice_wf, of history]
  by (auto simp: build_request_def Let_def splice_wf split: prod.splits) (metis fst_conv)+

lemma reopened_fields:
  "ag_config (ag\<lparr>ag_open := f\<rparr>) = ag_config ag" "ag_capabilities (ag\<lparr>ag_open := f\<rparr>) = ag_capabilities ag"
  "ag_active_model (ag\<lparr>ag_open := f\<rparr>) = ag_active_model ag" "ag_thinking (ag\<lparr>ag_open := f\<rparr>) = ag_thinking ag"
  "ag_effort (ag\<lparr>ag_open := f\<rparr>) = ag_effort ag" "ag_tools (ag\<lparr>ag_open := f\<rparr>) = ag_tools ag"
  "ag_mcp_active (ag\<lparr>ag_open := f\<rparr>) = ag_mcp_active ag" "ag_mcp_eager_servers (ag\<lparr>ag_open := f\<rparr>) = ag_mcp_eager_servers ag"
  "ag_compactor (ag\<lparr>ag_open := f\<rparr>) = ag_compactor ag" "ag_retry (ag\<lparr>ag_open := f\<rparr>) = ag_retry ag"
  "ag_hooks (ag\<lparr>ag_open := f\<rparr>) = ag_hooks ag" "ag_over_budget (ag\<lparr>ag_open := f\<rparr>) = ag_over_budget ag"
  "ag_over_threshold (ag\<lparr>ag_open := f\<rparr>) = ag_over_threshold ag" "ag_prompt_cache (ag\<lparr>ag_open := f\<rparr>) = ag_prompt_cache ag"
  "ag_order (ag\<lparr>ag_open := f\<rparr>) = ag_order ag" "ag_plan_mode (ag\<lparr>ag_open := f\<rparr>) = ag_plan_mode ag"
  "ag_post_processor (ag\<lparr>ag_open := f\<rparr>) = ag_post_processor ag" "ag_waiting (ag\<lparr>ag_open := f\<rparr>) = ag_waiting ag"
  "ag_pass (ag\<lparr>ag_open := f\<rparr>) = ag_pass ag" "ag_now (ag\<lparr>ag_open := f\<rparr>) = ag_now ag"
  "ag_save (ag\<lparr>ag_open := f\<rparr>) = ag_save ag" "ag_print (ag\<lparr>ag_open := f\<rparr>) = ag_print ag"
  "ag_parse (ag\<lparr>ag_open := f\<rparr>) = ag_parse ag" "ag_show (ag\<lparr>ag_open := f\<rparr>) = ag_show ag"
  "ag_show_hook (ag\<lparr>ag_open := f\<rparr>) = ag_show_hook ag"
  by simp_all

lemma reopened_simps:
  "turn_guard (ag\<lparr>ag_open := f\<rparr>) = turn_guard ag"
  "before_turn_phase (ag\<lparr>ag_open := f\<rparr>) = before_turn_phase ag"
  "compact_phase (ag\<lparr>ag_open := f\<rparr>) = compact_phase ag"
  "build_request (ag\<lparr>ag_open := f\<rparr>) = build_request ag"
  "open_failed (ag\<lparr>ag_open := f\<rparr>) = open_failed ag"
  "plan_tool_call (ag\<lparr>ag_open := f\<rparr>) = plan_tool_call ag"
  "dispatch_tool (ag\<lparr>ag_open := f\<rparr>) = dispatch_tool ag"
  "finalize_tool_results (ag\<lparr>ag_open := f\<rparr>) = finalize_tool_results ag"
  "settle_turn (ag\<lparr>ag_open := f\<rparr>) = settle_turn ag"
  "after_turn_hook (ag\<lparr>ag_open := f\<rparr>) = after_turn_hook ag"
  "drain_event (ag\<lparr>ag_open := f\<rparr>) = drain_event ag"
  unfolding turn_guard_def before_turn_phase_def compact_phase_def maybe_compact_def build_request_def
      open_failed_def on_context_too_long_def plan_tool_call_def dispatch_tool_def finalize_tool_results_def
      settle_turn_def apply_decision_def empty_guard_def decide_def on_stop_reason_def after_turn_hook_def
      drain_event_def reopened_fields by (rule refl)+

lemma reopened_drain: "drain (ag\<lparr>ag_open := f\<rparr>) turn items ds ls = drain ag turn items ds ls"
proof (induction ag turn items ds ls rule: drain.induct)
  case (2 ag turn gap item rest ds ls0)
  show ?case
  proof (cases item)
    case (Ok ev)
    then show ?thesis using 2 by (simp add: reopened_simps Let_def)
  next
    case (Err e)
    then show ?thesis by (cases e) (simp_all add: Let_def)
  qed
qed simp

lemma reopened_plan_loop:
  "plan_loop (ag\<lparr>ag_open := f\<rparr>) session turn idx bs plans mutating ls =
   plan_loop ag session turn idx bs plans mutating ls"
  by (induction bs arbitrary: idx plans mutating ls)
     (simp_all add: reopened_simps split: content_block.splits prod.splits tool_plan.splits)

lemma reopened_run_calls:
  "run_calls (ag\<lparr>ag_open := f\<rparr>) session turn ps ordered fatal ls = run_calls ag session turn ps ordered fatal ls"
  by (induction ps arbitrary: ordered fatal ls) (simp_all add: reopened_simps split: prod.splits result.splits)

lemma reopened_receive: "receive (ag\<lparr>ag_open := f\<rparr>) = receive ag"
  unfolding receive_def drain_phase_def respond_def dispatch_phase_def end_turn_def reopened_fields
    reopened_simps reopened_drain reopened_plan_loop reopened_run_calls by (rule refl)

lemma reopened_open:
  assumes "\<And>req w. wf_history (rq_messages req) \<Longrightarrow> f req w = ag_open ag req w" "wf_history (ls_history ls)"
  shows "open_phase (ag\<lparr>ag_open := f\<rparr>) ls = open_phase ag ls"
proof -
  have "open_call (ag\<lparr>ag_open := f\<rparr>) (build_request ag (ls_history ls) n w) =
        open_call ag (build_request ag (ls_history ls) n w)" for n w
    unfolding open_call_def reopened_fields using assms by (intro ext) (simp add: build_request_wf)
  then show ?thesis unfolding open_phase_def reopened_simps reopened_fields Let_def by (simp only:)
qed

lemma reopened_attempt:
  assumes d: "disciplined ag st" and s: "sendable ag ls"
    and f: "\<And>req w. wf_history (rq_messages req) \<Longrightarrow> f req w = ag_open ag req w"
  shows "turn_attempt (ag\<lparr>ag_open := f\<rparr>) st started turn ls = turn_attempt ag st started turn ls"
proof (cases "turn_guard ag started ls")
  case None
  then have wf: "wf_history (ls_history ls)"
    using s by (auto simp: turn_guard_def Let_def sendable_def split: if_splits)
  show ?thesis
  proof (cases "before_turn_phase ag turn ls")
    case (Go u ls1)
    then have "wf_history (ls_history (compact_phase ag ls1))"
      using wf d by (auto simp: before_turn_phase_def stop_with_def disciplined_def
        intro!: compact_phase_wf split: prod.splits result.splits)
    then show ?thesis
      using reopened_open [of f ag "compact_phase ag ls1"] f None Go
      by (simp add: turn_attempt_def exchange_def reopened_simps reopened_receive)
  qed (simp add: turn_attempt_def None reopened_simps)
qed (simp add: turn_attempt_def reopened_simps)

text \<open>Two agents that attempt every turn of a run alike run alike.\<close>

locale same_attempts = turn_invariant +
  fixes ag' :: "'a agent"
  assumes same: "inv turn ls \<Longrightarrow> turn_attempt ag' st started turn ls = turn_attempt ag st started turn ls"
begin

lemma same_inner: "inv turn ls \<Longrightarrow> inner_loop ag' st started turn ls = inner_loop ag st started turn ls"
proof (induction "retry_budget ag ls" arbitrary: ls rule: less_induct)
  case less
  show ?case
  proof (cases "\<exists>ls'. turn_attempt ag st started turn ls = Some (FRetry ls')")
    case True
    then obtain ls' where r: "turn_attempt ag st started turn ls = Some (FRetry ls')" by blast
    have "inner_loop ag' st started turn ls' = inner_loop ag st started turn ls'"
      using attempt_ok [OF r] inv_retry [OF less.prems r] by (intro less.hyps) simp_all
    then show ?thesis
      using same [OF less.prems] r
      by (simp add: inner_loop.simps [of ag' st started turn ls] inner_loop.simps [of ag st started turn ls])
  next
    case False
    then show ?thesis
      using same [OF less.prems]
      by (auto simp: inner_loop.simps [of ag' st started turn ls] inner_loop.simps [of ag st started turn ls]
          split: option.splits flow.splits)
  qed
qed

lemma same_outer: "inv turn ls \<Longrightarrow> outer_loop ag' st started left turn ls = outer_loop ag st started left turn ls"
proof (induction left arbitrary: turn ls)
  case (Suc left)
  have i: "inv turn (ls\<lparr>ls_drain_retries := 0\<rparr>)" by (rule inv_drain [OF Suc.prems])
  show ?case
    using Suc.IH same_inner [OF i] inner_inv [OF i]
    by (auto split: option.splits flow.splits)
qed simp

end

definition agrees :: "'w agent \<Rightarrow> (request \<Rightarrow> 'w \<Rightarrow> nat option \<times> (timed_stream, perror) result \<times> 'w) \<Rightarrow> bool" where
  "agrees ag f \<longleftrightarrow> (\<forall>req w. wf_history (rq_messages req) \<longrightarrow> f req w = ag_open ag req w)"

interpretation sending: same_attempts ag st started
    "\<lambda>_ ls. disciplined ag st \<and> agrees ag f \<and> sendable ag ls" "\<lambda>_ _. True" "ag\<lparr>ag_open := f\<rparr>"
  for ag st started f
proof unfold_locales
  fix turn :: nat and ls ls'
  assume i: "disciplined ag st \<and> agrees ag f \<and> sendable ag ls"
  then show "disciplined ag st \<and> agrees ag f \<and> sendable ag (ls\<lparr>ls_drain_retries := 0\<rparr>)" by simp
  show "disciplined ag st \<and> agrees ag f \<and> sendable ag ls'"
    if "turn_attempt ag st started turn ls = Some (FRetry ls')"
    using i attempt_sendable [OF _ _ that] by simp
  show "disciplined ag st \<and> agrees ag f \<and> sendable ag ls'"
    if "turn_attempt ag st started turn ls = Some (FNext ls')"
    using i attempt_sendable [OF _ _ that] by simp
  show "turn_attempt (ag\<lparr>ag_open := f\<rparr>) st started turn ls = turn_attempt ag st started turn ls"
    using i by (intro reopened_attempt) (auto simp: agrees_def)
qed simp

text \<open>
  (C2) The provider is only ever sent a well-formed history. A run that starts from one is the same
  run with any provider that answers the well-formed requests alike, whatever it would do with
  the others: no request of the run has a call without its result, a result without its call, or
  a system message out of place. This needs a compactor that keeps histories well formed (each
  of the crate's does), callbacks and an input source that add plain messages only, and a
  cancellation token that stays fired.
\<close>

theorem requests_are_well_formed:
  assumes "wf_history messages" "disciplined ag st"
      and "\<And>req w. wf_history (rq_messages req) \<Longrightarrow> f req w = ag_open ag req w"
  shows "stream_until_done_with_settings (ag\<lparr>ag_open := f\<rparr>) messages st w =
         stream_until_done_with_settings ag messages st w"
proof -
  have "outer_loop (ag\<lparr>ag_open := f\<rparr>) st started n 0 (loop_init ag messages v) =
        outer_loop ag st started n 0 (loop_init ag messages v)" for started n v
    by (rule sending.same_outer) (use assms in \<open>simp add: agrees_def sendable_def loop_init_def\<close>)
  moreover have "loop_init (ag\<lparr>ag_open := f\<rparr>) = loop_init ag" by (intro ext) (simp add: loop_init_def)
  ultimately show ?thesis
    unfolding stream_until_done_with_settings_def reopened_fields by (simp only:)
qed

lemma demo_disciplined: "disciplined (demo_agent noop_hooks) (settings_default quiet_run_hooks)"
  by (simp add: disciplined_def latched_def polite_def demo_agent_def noop_hooks_def settings_default_def
      noop.history_compactor_axioms)

theorem requests_are_well_formed_witness:
  "stream_until_done_with_settings
     ((demo_agent noop_hooks)\<lparr>ag_open := \<lambda>req w.
        if wf_history (rq_messages req) then demo_open req w else (None, Err (Network ''rejected''), w)\<rparr>)
     [msg_user_text ''hi''] (settings_default quiet_run_hooks) False =
   stream_until_done_with_settings (demo_agent noop_hooks) [msg_user_text ''hi'']
     (settings_default quiet_run_hooks) False"
proof (rule requests_are_well_formed [OF _ demo_disciplined])
  show "wf_history [msg_user_text ''hi'']" by code_simp
qed (simp add: demo_agent_def)

end
