(* ===== verification/AgentGate.thy ===== *)
theory AgentGate
  imports AgentHistory
begin

text \<open>
  The gate in front of the tools (\<open>stream/mod.rs\<close>, \<open>plan_tool_call\<close>), seen
  from the whole run: what a call needs to get past it, and that a tool whose calls it refuses is
  never invoked.
\<close>

section \<open>What a call needs\<close>

definition gate_ctx :: "'w agent \<Rightarrow> string \<Rightarrow> nat \<Rightarrow> tool_use_block \<Rightarrow> tool_ctx" where
  "gate_ctx ag session turn tu =
     \<lparr>tc_session_id = session, tc_turn_index = turn, tc_tool_use_id = tu_id tu, tc_tool_name = tu_name tu,
      tc_input = tu_input tu,
      tc_is_read_only = (case registry_get (ag_tools ag) (tu_name tu) of Some t \<Rightarrow> tl_is_read_only t | None \<Rightarrow> False)\<rparr>"

lemma check_rewrite_allows:
  "check_rewrite tool d = Allow \<Longrightarrow> d = Allow"
  "check_rewrite tool d = UpdatedInput v \<Longrightarrow> d = UpdatedInput v \<and>
   (\<forall>t. tool = Some t \<longrightarrow> updated_input_is_valid (tl_input_schema t) v = Ok ())"
  by (auto simp: check_rewrite_def split: hook_decision.splits option.splits result.splits)

lemma plan_tool_call_allowed:
  assumes "plan_tool_call ag session turn idx tu w = (PlanAllowed p mutates, w')"
  shows "\<exists>d v. hk_before_tool (ag_hooks ag) (gate_ctx ag session turn tu) w = (Ok d, w') \<and>
    (check_rewrite (registry_get (ag_tools ag) (tu_name tu)) d = Allow \<and> v = tu_input tu \<or>
     check_rewrite (registry_get (ag_tools ag) (tu_name tu)) d = UpdatedInput v) \<and>
    p = DAllowed idx (tu_id tu) (tu_name tu) v
      (Option.bind (registry_get (ag_tools ag) (tu_name tu)) (\<lambda>t. tl_conflict_key t v)) \<and>
    \<not> ((case ag_plan_mode ag of Some fl \<Rightarrow> fl w | None \<Rightarrow> False) \<and>
       \<not> ((case registry_get (ag_tools ag) (tu_name tu) of Some t \<Rightarrow> tl_is_read_only t | None \<Rightarrow> False) \<or>
          is_plan_control_tool (tu_name tu)))"
  using assms
  unfolding plan_tool_call_def Let_def gate_ctx_def [symmetric]
  by (simp split: if_split_asm) (auto split: prod.splits result.splits hook_decision.splits)

text \<open>
  (C12) A call is only planned when the callback has allowed it, and then with the input of the model,
  or has rewritten its input to one that has every field the schema of the tool requires. In plan
  mode the tool is one that only reads, or one that controls the mode.
\<close>

theorem planned_calls_are_allowed:
  assumes "plan_tool_call ag session turn idx tu w = (PlanAllowed p mutates, w')"
  shows "\<exists>input key d. p = DAllowed idx (tu_id tu) (tu_name tu) input key \<and>
    hk_before_tool (ag_hooks ag) (gate_ctx ag session turn tu) w = (Ok d, w') \<and>
    (d = Allow \<and> input = tu_input tu \<or>
     d = UpdatedInput input \<and> (\<forall>t. registry_get (ag_tools ag) (tu_name tu) = Some t \<longrightarrow>
       updated_input_is_valid (tl_input_schema t) input = Ok ())) \<and>
    (\<forall>fl. ag_plan_mode ag = Some fl \<and> fl w \<longrightarrow> is_plan_control_tool (tu_name tu) \<or>
       (\<exists>t. registry_get (ag_tools ag) (tu_name tu) = Some t \<and> tl_is_read_only t))"
  using plan_tool_call_allowed [OF assms] by (auto dest: check_rewrite_allows split: option.splits)

theorem planned_calls_are_allowed_witness:
  "\<exists>input key d.
     DAllowed 0 ''t1'' ''Read'' (JObject []) None = DAllowed 0 ''t1'' ''Read'' input key \<and>
     hk_before_tool (noop_hooks :: bool hooks)
       (gate_ctx (demo_agent noop_hooks) [] 0 \<lparr>tu_id = ''t1'', tu_name = ''Read'', tu_input = JObject []\<rparr>)
       False = (Ok d, False) \<and> d = Allow"
proof -
  have "plan_tool_call (demo_agent noop_hooks) [] 0 0 \<lparr>tu_id = ''t1'', tu_name = ''Read'', tu_input = JObject []\<rparr>
      False = (PlanAllowed (DAllowed 0 ''t1'' ''Read'' (JObject []) None) False, False)"
    by code_simp
  from planned_calls_are_allowed [OF this] show ?thesis by (auto simp: demo_agent_def noop_hooks_def)
qed

section \<open>Refused tools\<close>

fun refused :: "(hook_decision, agent_error) result \<Rightarrow> bool" where
  "refused (Ok Allow) = False"
| "refused (Ok (UpdatedInput _)) = False"
| "refused _ = True"

text \<open>The registry with another implementation of one tool.\<close>

definition rearm ::
  "string \<Rightarrow> (json \<Rightarrow> string \<Rightarrow> nat \<Rightarrow> 'w \<Rightarrow> tool_outcome \<times> 'w) \<Rightarrow> 'w registry \<Rightarrow> 'w registry" where
  "rearm name g = map (\<lambda>(k, t). (k, if k = name then t\<lparr>tl_invoke := g\<rparr> else t))"

lemma rearm_get:
  "registry_get (rearm name g r) n =
   map_option (\<lambda>t. if n = name then t\<lparr>tl_invoke := g\<rparr> else t) (registry_get r n)"
  by (induction r) (auto simp: rearm_def registry_get_def)

lemma rearm_surface: "to_caliban_tools_filtered (rearm name g r) filt = to_caliban_tools_filtered r filt"
  by (induction r filt rule: to_caliban_tools_filtered.induct)
     (auto simp: rearm_def tool_decl_of_def Let_def split: prod.splits)

lemma retooled_fields:
  "ag_config (ag\<lparr>ag_tools := r\<rparr>) = ag_config ag" "ag_open (ag\<lparr>ag_tools := r\<rparr>) = ag_open ag"
  "ag_capabilities (ag\<lparr>ag_tools := r\<rparr>) = ag_capabilities ag" "ag_active_model (ag\<lparr>ag_tools := r\<rparr>) = ag_active_model ag"
  "ag_thinking (ag\<lparr>ag_tools := r\<rparr>) = ag_thinking ag" "ag_effort (ag\<lparr>ag_tools := r\<rparr>) = ag_effort ag"
  "ag_mcp_active (ag\<lparr>ag_tools := r\<rparr>) = ag_mcp_active ag" "ag_mcp_eager_servers (ag\<lparr>ag_tools := r\<rparr>) = ag_mcp_eager_servers ag"
  "ag_compactor (ag\<lparr>ag_tools := r\<rparr>) = ag_compactor ag" "ag_retry (ag\<lparr>ag_tools := r\<rparr>) = ag_retry ag"
  "ag_hooks (ag\<lparr>ag_tools := r\<rparr>) = ag_hooks ag" "ag_over_budget (ag\<lparr>ag_tools := r\<rparr>) = ag_over_budget ag"
  "ag_over_threshold (ag\<lparr>ag_tools := r\<rparr>) = ag_over_threshold ag" "ag_prompt_cache (ag\<lparr>ag_tools := r\<rparr>) = ag_prompt_cache ag"
  "ag_order (ag\<lparr>ag_tools := r\<rparr>) = ag_order ag" "ag_plan_mode (ag\<lparr>ag_tools := r\<rparr>) = ag_plan_mode ag"
  "ag_post_processor (ag\<lparr>ag_tools := r\<rparr>) = ag_post_processor ag" "ag_waiting (ag\<lparr>ag_tools := r\<rparr>) = ag_waiting ag"
  "ag_pass (ag\<lparr>ag_tools := r\<rparr>) = ag_pass ag" "ag_now (ag\<lparr>ag_tools := r\<rparr>) = ag_now ag"
  "ag_save (ag\<lparr>ag_tools := r\<rparr>) = ag_save ag" "ag_print (ag\<lparr>ag_tools := r\<rparr>) = ag_print ag"
  "ag_parse (ag\<lparr>ag_tools := r\<rparr>) = ag_parse ag" "ag_show (ag\<lparr>ag_tools := r\<rparr>) = ag_show ag"
  "ag_show_hook (ag\<lparr>ag_tools := r\<rparr>) = ag_show_hook ag"
  by simp_all

definition retooled :: "string \<Rightarrow> (json \<Rightarrow> string \<Rightarrow> nat \<Rightarrow> 'w \<Rightarrow> tool_outcome \<times> 'w) \<Rightarrow> 'w agent \<Rightarrow> 'w agent" where
  "retooled name g ag = ag\<lparr>ag_tools := rearm name g (ag_tools ag)\<rparr>"

lemma retooled_sel [simp]:
  "ag_config (retooled name g ag) = ag_config ag" "ag_waiting (retooled name g ag) = ag_waiting ag"
  "ag_retry (retooled name g ag) = ag_retry ag" "ag_pass (retooled name g ag) = ag_pass ag"
  "ag_show (retooled name g ag) = ag_show ag" "ag_order (retooled name g ag) = ag_order ag"
  "ag_now (retooled name g ag) = ag_now ag" "ag_post_processor (retooled name g ag) = ag_post_processor ag"
  by (simp_all add: retooled_def)

lemma retooled_request: "build_request (retooled name g ag) = build_request ag"
  unfolding build_request_def retooled_def retooled_fields by (simp add: rearm_surface)

lemma retooled_plan: "plan_tool_call (retooled name g ag) = plan_tool_call ag"
proof -
  have get: "registry_get (ag_tools (retooled name g ag)) n =
      map_option (\<lambda>t. if n = name then t\<lparr>tl_invoke := g\<rparr> else t) (registry_get (ag_tools ag) n)" for n
    by (simp add: retooled_def rearm_get)
  have "case_option False tl_is_read_only (registry_get (ag_tools (retooled name g ag)) n) =
        case_option False tl_is_read_only (registry_get (ag_tools ag) n)"
    "case_option False tl_mutates_files (registry_get (ag_tools (retooled name g ag)) n) =
        case_option False tl_mutates_files (registry_get (ag_tools ag) n)"
    "check_rewrite (registry_get (ag_tools (retooled name g ag)) n) d =
        check_rewrite (registry_get (ag_tools ag) n) d"
    "Option.bind (registry_get (ag_tools (retooled name g ag)) n) (\<lambda>t. tl_conflict_key t v) =
        Option.bind (registry_get (ag_tools ag) n) (\<lambda>t. tl_conflict_key t v)" for n v d
    unfolding get check_rewrite_def by (cases "registry_get (ag_tools ag) n"; cases d; simp)+
  note lookups = this
  show ?thesis
    unfolding plan_tool_call_def Let_def lookups unfolding retooled_def retooled_fields by (rule refl)
qed

lemma retooled_dispatch:
  assumes "dp_name p \<noteq> name"
  shows "dispatch_tool (retooled name g ag) session turn p w = dispatch_tool ag session turn p w"
proof -
  have "registry_get (ag_tools (retooled name g ag)) (dp_name p) = registry_get (ag_tools ag) (dp_name p)"
    using assms by (cases "registry_get (ag_tools ag) (dp_name p)") (simp_all add: retooled_def rearm_get)
  note lookup = this
  show ?thesis unfolding dispatch_tool_def lookup unfolding retooled_def retooled_fields by (rule refl)
qed

lemma queue_plans_pending:
  "queue_plans fired plans ordered pending = (ordered', pending', cut_off) \<Longrightarrow>
   set pending' \<subseteq> set pending \<union> {p \<in> set plans. is_allowed p}"
  by (induction fired plans ordered pending rule: queue_plans.induct) (fastforce split: if_splits)+

lemma retooled_run_calls:
  "list_all (\<lambda>p. dp_name p \<noteq> name) ps \<Longrightarrow>
   run_calls (retooled name g ag) session turn ps ordered fatal ls = run_calls ag session turn ps ordered fatal ls"
  by (induction ps arbitrary: ordered fatal ls) (simp_all add: retooled_dispatch split: prod.splits result.splits)

lemma retooled_plan_loop:
  "plan_loop (retooled name g ag) session turn idx bs plans mutating ls =
   plan_loop ag session turn idx bs plans mutating ls"
  by (induction bs arbitrary: idx plans mutating ls)
     (simp_all add: retooled_plan split: content_block.splits prod.splits tool_plan.splits)

lemma retooled_drain: "drain (retooled name g ag) turn items ds ls = drain ag turn items ds ls"
proof (induction ag turn items ds ls rule: drain.induct)
  case (2 ag turn gap item rest ds ls0)
  have ev: "drain_event (retooled name g ag) = drain_event ag"
    unfolding drain_event_def retooled_def retooled_fields by (rule refl)
  show ?case
  proof (cases item)
    case (Ok e)
    then show ?thesis using 2 by (simp add: ev Let_def)
  next
    case (Err e)
    then show ?thesis by (cases e) (simp_all add: Let_def)
  qed
qed simp

definition sealed :: "'w agent \<Rightarrow> string \<Rightarrow> bool" where
  "sealed ag name \<longleftrightarrow> (\<forall>ctx w. tc_tool_name ctx = name \<longrightarrow> refused (fst (hk_before_tool (ag_hooks ag) ctx w)))"

lemma sealed_plan:
  assumes "sealed ag name" "plan_tool_call ag session turn idx tu w = (PlanAllowed p mutates, w')"
  shows "dp_name p \<noteq> name"
proof
  assume "dp_name p = name"
  then have "tu_name tu = name" using plan_tool_call_allowed [OF assms(2)] by auto
  then have "refused (fst (hk_before_tool (ag_hooks ag) (gate_ctx ag session turn tu) w))"
    using assms(1) by (simp add: sealed_def gate_ctx_def)
  then show False using plan_tool_call_allowed [OF assms(2)] by (auto dest: check_rewrite_allows)
qed

lemma sealed_plan_loop:
  "sealed ag name \<Longrightarrow> plan_loop ag session turn idx bs plans mutating ls = Go (plans', mutating') ls' \<Longrightarrow>
   list_all (\<lambda>p. is_allowed p \<longrightarrow> dp_name p \<noteq> name) plans \<Longrightarrow>
   list_all (\<lambda>p. is_allowed p \<longrightarrow> dp_name p \<noteq> name) plans'"
proof (induction bs arbitrary: idx plans mutating ls)
  case (Cons b bs)
  then show ?case
    by (auto simp: stop_with_def dest: sealed_plan split: if_splits content_block.splits prod.splits tool_plan.splits)
qed simp

lemma retooled_rest:
  "turn_guard (retooled name g ag) = turn_guard ag"
  "before_turn_phase (retooled name g ag) = before_turn_phase ag"
  "compact_phase (retooled name g ag) = compact_phase ag"
  "open_call (retooled name g ag) = open_call ag"
  "open_failed (retooled name g ag) = open_failed ag"
  "finalize_tool_results (retooled name g ag) = finalize_tool_results ag"
  "settle_turn (retooled name g ag) = settle_turn ag"
  "after_turn_hook (retooled name g ag) = after_turn_hook ag"
  unfolding turn_guard_def before_turn_phase_def compact_phase_def maybe_compact_def open_call_def
    open_failed_def on_context_too_long_def finalize_tool_results_def
    settle_turn_def apply_decision_def empty_guard_def decide_def on_stop_reason_def after_turn_hook_def
    retooled_def retooled_fields by (rule refl)+

lemma retooled_open: "open_phase (retooled name g ag) = open_phase ag"
  unfolding open_phase_def retooled_request retooled_rest unfolding retooled_def retooled_fields by (rule refl)

lemma retooled_dispatch_phase:
  assumes "list_all (\<lambda>p. is_allowed p \<longrightarrow> dp_name p \<noteq> name) plans"
  shows "dispatch_phase (retooled name g ag) session turn n plans ls = dispatch_phase ag session turn n plans ls"
proof -
  obtain ordered pending trunc
    where q: "queue_plans (cancelled ag (ls_world ls)) plans (replicate n None) [] = (ordered, pending, trunc)"
    by (metis prod_cases3)
  have "set pending \<subseteq> {p \<in> set plans. is_allowed p}"
    using queue_plans_pending [OF q] by simp
  then have "list_all (\<lambda>p. dp_name p \<noteq> name) (run_order choices pending)" for choices
    using assms run_order_runs [of choices pending] by (auto simp: list_all_iff dest!: mset_eq_setD)
  note runs = retooled_run_calls [OF this]
  show ?thesis by (simp add: dispatch_phase_def q runs Let_def)
qed

lemma retooled_respond:
  assumes "sealed ag name"
  shows "respond (retooled name g ag) st turn ds ls = respond ag st turn ds ls"
proof -
  have e: "end_turn (retooled name g ag) = end_turn ag"
    unfolding end_turn_def retooled_rest unfolding retooled_def retooled_fields by (rule refl)
  have d: "dispatch_phase (retooled name g ag) session turn n plans ls1 = dispatch_phase ag session turn n plans ls1"
    if "plan_loop ag session turn idx bs [] [] ls = Go (plans, mutating) ls1" for session idx bs n plans mutating ls1
    using sealed_plan_loop [OF assms that] by (intro retooled_dispatch_phase) simp
  show ?thesis
    unfolding respond_def retooled_sel e retooled_plan_loop retooled_rest Let_def
    by (auto split: prod.splits option.splits phase.splits simp: d)
qed

lemma retooled_attempt:
  assumes "sealed ag name"
  shows "turn_attempt (retooled name g ag) st started turn ls = turn_attempt ag st started turn ls"
proof -
  have "drain_phase (retooled name g ag) = drain_phase ag"
    unfolding drain_phase_def retooled_drain unfolding retooled_def retooled_fields by (rule refl)
  then have "receive (retooled name g ag) st = receive ag st"
    by (intro ext) (simp only: receive_def retooled_respond [OF assms])
  then show ?thesis unfolding turn_attempt_def exchange_def retooled_rest retooled_open retooled_sel by (simp only:)
qed

interpretation sealing: same_attempts ag st started "\<lambda>_ _. sealed ag name" "\<lambda>_ _. True" "retooled name g ag"
  for ag st started name g
  by unfold_locales (simp_all add: retooled_attempt)

lemma refused_tool_unused:
  assumes "\<And>ctx w. tc_tool_name ctx = name \<Longrightarrow> refused (fst (hk_before_tool (ag_hooks ag) ctx w))"
  shows "stream_until_done_with_settings (ag\<lparr>ag_tools := rearm name g (ag_tools ag)\<rparr>) messages st w =
         stream_until_done_with_settings ag messages st w"
proof -
  have "sealed ag name" using assms by (simp add: sealed_def)
  then have "outer_loop (retooled name g ag) st started n 0 ls = outer_loop ag st started n 0 ls" for started n ls
    by (rule sealing.same_outer)
  moreover have "loop_init (retooled name g ag) = loop_init ag"
    unfolding loop_init_def retooled_def retooled_fields by (rule refl)
  ultimately show ?thesis
    unfolding retooled_def stream_until_done_with_settings_def retooled_fields by (simp only:)
qed

text \<open>
  A tool whose calls the callback always refuses is never invoked: the run is the same with any
  other implementation of that tool in the registry.
\<close>

theorem refused_tools_never_run:
  assumes "\<And>ctx w. tc_tool_name ctx = name \<Longrightarrow> refused (fst (hk_before_tool (ag_hooks ag) ctx w))"
  shows "stream_until_done_with_settings (ag\<lparr>ag_tools := rearm name g (ag_tools ag)\<rparr>) messages st w =
         stream_until_done_with_settings ag messages st w"
  using assms by (rule refused_tool_unused)

theorem refused_tools_never_run_witness:
  "stream_until_done_with_settings
     ((demo_agent (noop_hooks\<lparr>hk_before_tool := \<lambda>_ w. (Ok (Deny ''no''), w)\<rparr>))
       \<lparr>ag_tools := rearm ''Read'' (\<lambda>_ _ _ _. (Ok [], True)) [(''Read'', demo_tool)]\<rparr>)
     [msg_user_text ''hi''] (settings_default quiet_run_hooks) False =
   stream_until_done_with_settings (demo_agent (noop_hooks\<lparr>hk_before_tool := \<lambda>_ w. (Ok (Deny ''no''), w)\<rparr>))
     [msg_user_text ''hi''] (settings_default quiet_run_hooks) False"
  using refused_tools_never_run [of "''Read''" "demo_agent (noop_hooks\<lparr>hk_before_tool := \<lambda>_ w. (Ok (Deny ''no''), w)\<rparr>)"]
  by (simp add: demo_agent_def)

section \<open>The gate of the binary\<close>

text \<open>The callback before a tool is the mode filter over the permission rules.\<close>

definition gated_by :: "('w, 'h) mode_filter \<Rightarrow> 'w agent \<Rightarrow> bool" where
  "gated_by mf ag \<longleftrightarrow> (\<forall>ctx w. mode_before_tool mf ctx w = Some (hk_before_tool (ag_hooks ag) ctx w))"

lemma rule_denied_tool_unused:
  assumes "gated_by mf ag" "gated mt ph mf"
      and "\<And>ctx w. tc_tool_name ctx = name \<Longrightarrow> perm_evaluate mt ph ctx w = RDeny"
      and "\<And>w. mf_mode mf w \<noteq> Auto \<and> \<not> (mf_mode mf w = BypassPermissions \<and> mf_bypass_latch mf)"
  shows "stream_until_done_with_settings (ag\<lparr>ag_tools := rearm name g (ag_tools ag)\<rparr>) messages st w =
         stream_until_done_with_settings ag messages st w"
proof (rule refused_tool_unused)
  fix ctx :: tool_ctx and v
  assume n: "tc_tool_name ctx = name"
  obtain m v' where "mode_before_tool mf ctx v = Some (Ok (Deny m), v')"
    using deny_rule_denies [OF assms(2) assms(3) [OF n]] assms(4) [of v] by blast
  then show "refused (fst (hk_before_tool (ag_hooks ag) ctx v))"
    using assms(1) by (metis fst_conv gated_by_def option.inject refused.simps(3))
qed

text \<open>
  (C3) The permission rules and the loop together: a tool that the rules deny for every input is never
  invoked in the course of a run, whatever the model asks for, as long as the mode is not auto
  mode or the confirmed bypass.
\<close>

theorem rule_denied_tools_never_run:
  assumes "gated_by mf ag" "gated mt ph mf"
      and "\<And>ctx w. tc_tool_name ctx = name \<Longrightarrow> perm_evaluate mt ph ctx w = RDeny"
      and "\<And>w. mf_mode mf w \<noteq> Auto \<and> \<not> (mf_mode mf w = BypassPermissions \<and> mf_bypass_latch mf)"
  shows "stream_until_done_with_settings (ag\<lparr>ag_tools := rearm name g (ag_tools ag)\<rparr>) messages st w =
         stream_until_done_with_settings ag messages st w"
  by (rule rule_denied_tool_unused [OF assms])

definition filter_hooks :: "('w, 'h) mode_filter \<Rightarrow> 'w hooks" where
  "filter_hooks mf = noop_hooks\<lparr>hk_before_tool := \<lambda>ctx w. unwrap_or (Ok Allow, w) (mode_before_tool mf ctx w)\<rparr>"

theorem rule_denied_tools_never_run_witness:
  "stream_until_done_with_settings
     ((demo_agent (filter_hooks (sample_filter DontAsk [plain_rule ''*'' RDeny])))
       \<lparr>ag_tools := rearm ''Read'' (\<lambda>_ _ _ _. (Ok [], True)) [(''Read'', demo_tool)]\<rparr>)
     [msg_user_text ''hi''] (settings_default quiet_run_hooks) False =
   stream_until_done_with_settings (demo_agent (filter_hooks (sample_filter DontAsk [plain_rule ''*'' RDeny])))
     [msg_user_text ''hi''] (settings_default quiet_run_hooks) False"
proof -
  let ?mf = "sample_filter DontAsk [plain_rule ''*'' RDeny] :: (bool, string) mode_filter"
  have "\<exists>m w'. mode_before_tool ?mf ctx w = Some (Ok (Deny m), w')" for ctx w
    by (rule deny_rule_denies [OF sample_gated sample_evaluate]) (simp_all add: sample_filter_def)
  then have "gated_by ?mf (demo_agent (filter_hooks ?mf))"
    by (auto simp: gated_by_def demo_agent_def filter_hooks_def) (metis unwrap_or.simps(2))
  then have "stream_until_done_with_settings ((demo_agent (filter_hooks ?mf))
       \<lparr>ag_tools := rearm ''Read'' (\<lambda>_ _ _ _. (Ok [], True)) (ag_tools (demo_agent (filter_hooks ?mf)))\<rparr>)
       [msg_user_text ''hi''] (settings_default quiet_run_hooks) False =
     stream_until_done_with_settings (demo_agent (filter_hooks ?mf))
       [msg_user_text ''hi''] (settings_default quiet_run_hooks) False"
    by (rule rule_denied_tools_never_run [OF _ sample_gated sample_evaluate]) (simp add: sample_filter_def)
  then show ?thesis by (simp add: demo_agent_def)
qed

end
