(* ===== verification/AgentBounds.thy ===== *)
theory AgentBounds
  imports AgentHistory
begin

text \<open>
  The counters of the recovery (\<open>stream/recovery.rs\<close>) over a whole run: continuations
  forced by a callback, continuations after the token limit, failed compactions and nudges after
  an empty turn stay within their caps, so that the eight-bit counters of the source never wrap
  and no source of continuation can drive the loop forever.
\<close>

section \<open>What only the log and the clock record\<close>

definition benign :: "'w loop_state \<Rightarrow> 'w loop_state \<Rightarrow> bool" where
  "benign ls ls' \<longleftrightarrow> ls_recovery ls' = ls_recovery ls \<and> ls_empty_nudges ls' = ls_empty_nudges ls"

fun flow_state :: "'w flow \<Rightarrow> 'w loop_state" where
  "flow_state (FRetry ls) = ls"
| "flow_state (FNext ls) = ls"
| "flow_state (FBreak ls) = ls"

fun phase_state :: "('a, 'w) phase \<Rightarrow> 'w loop_state" where
  "phase_state (Go _ ls) = ls"
| "phase_state (Leave f) = flow_state f"

lemma phase_state_stop [simp]: "phase_state (stop_with sc ls) = ls\<lparr>ls_stopped_for := sc\<rparr>"
  by (simp add: stop_with_def)

lemma benign_refl [simp]: "benign ls ls"
  by (simp add: benign_def)

lemma benign_trans: "benign ls ls' \<Longrightarrow> benign ls' ls'' \<Longrightarrow> benign ls ls''"
  by (simp add: benign_def)

lemma benign_updates [simp]:
  "benign ls (ls'\<lparr>ls_world := w\<rparr>) = benign ls ls'" "benign ls (ls'\<lparr>ls_stopped_for := sc\<rparr>) = benign ls ls'"
  "benign ls (ls'\<lparr>ls_drain_retries := n\<rparr>) = benign ls ls'" "benign ls (yield evs ls') = benign ls ls'"
  "benign ls (ls'\<lparr>ls_history := h\<rparr>) = benign ls ls'" "benign (ls\<lparr>ls_world := w\<rparr>) ls' = benign ls ls'"
  "benign (yield evs ls) ls' = benign ls ls'"
  by (simp_all add: benign_def yield_def)

lemma drain_benign: "benign ls (phase_state (drain ag turn items ds ls))"
proof (induction ag turn items ds ls rule: drain.induct)
  case (2 ag turn gap item rest ds ls0)
  show ?case
  proof (cases item)
    case (Ok ev)
    then show ?thesis using 2 by (auto simp: Let_def)
  next
    case (Err e)
    then show ?thesis by (cases e) (simp_all add: Let_def)
  qed
qed simp

lemma plan_loop_benign: "benign ls (phase_state (plan_loop ag session turn idx bs plans mutating ls))"
proof (induction bs arbitrary: idx plans mutating ls)
  case (Cons b bs)
  have "benign ls (phase_state (plan_loop ag session turn i bs p m (yield evs (ls\<lparr>ls_world := w\<rparr>))))"
    "benign ls (phase_state (plan_loop ag session turn i bs p m (ls\<lparr>ls_world := w\<rparr>)))" for i p m w evs
    using Cons.IH [where ls = "yield evs (ls\<lparr>ls_world := w\<rparr>)"] Cons.IH [where ls = "ls\<lparr>ls_world := w\<rparr>"]
    by simp_all
  then show ?case using Cons.IH by (auto split: content_block.splits prod.splits tool_plan.splits)
qed simp

lemma run_calls_benign:
  "run_calls ag session turn ps ordered fatal ls = (ordered', fatal', ls') \<Longrightarrow> benign ls ls'"
proof (induction ps arbitrary: ordered fatal ls)
  case (Cons p ps)
  then show ?case by (auto split: prod.splits result.splits dest!: Cons.IH)
qed simp

lemma dispatch_phase_benign: "benign ls (phase_state (dispatch_phase ag session turn n plans ls))"
  by (auto simp: dispatch_phase_def Let_def split: prod.splits option.splits if_splits dest!: run_calls_benign)
     (simp_all add: benign_def)

section \<open>The caps\<close>

definition capped :: "agent_config \<Rightarrow> 'w loop_state \<Rightarrow> bool" where
  "capped cfg ls \<longleftrightarrow>
     rv_forced_continuations (ls_recovery ls) \<le> max_forced_continuations \<and>
     rv_meta_continuations (ls_recovery ls) \<le> cf_max_meta_continuations cfg \<and>
     at_consecutive_failures (rv_auto_tracking (ls_recovery ls)) \<le> max_consecutive_compact_failures \<and>
     (at_consecutive_failures (rv_auto_tracking (ls_recovery ls)) = max_consecutive_compact_failures \<longrightarrow>
        at_disabled (rv_auto_tracking (ls_recovery ls))) \<and>
     ls_empty_nudges ls \<le> cf_empty_turn_nudge_max cfg"

lemma capped_benign: "capped cfg ls \<Longrightarrow> benign ls ls' \<Longrightarrow> capped cfg ls'"
  by (simp add: capped_def benign_def)

lemma capped_updates [simp]:
  "capped cfg (ls\<lparr>ls_world := w\<rparr>) = capped cfg ls" "capped cfg (ls\<lparr>ls_stopped_for := sc\<rparr>) = capped cfg ls"
  "capped cfg (ls\<lparr>ls_drain_retries := n\<rparr>) = capped cfg ls" "capped cfg (yield evs ls) = capped cfg ls"
  "capped cfg (ls\<lparr>ls_history := h\<rparr>) = capped cfg ls" "capped cfg (ls\<lparr>ls_usage := u\<rparr>) = capped cfg ls"
  "capped cfg (ls\<lparr>ls_turns_completed := n\<rparr>) = capped cfg ls" "capped cfg (ls\<lparr>ls_since_edit := n\<rparr>) = capped cfg ls"
  "capped cfg (ls\<lparr>ls_without_edit := n\<rparr>) = capped cfg ls" "capped cfg (ls\<lparr>ls_nudge_armed := b\<rparr>) = capped cfg ls"
  "capped cfg (ls\<lparr>ls_nudge_emitted := b\<rparr>) = capped cfg ls"
  by (simp_all add: capped_def yield_def)

lemma maybe_compact_tracking:
  "maybe_compact ag history tr w = (u, history', tr', w') \<Longrightarrow>
   at_consecutive_failures tr \<le> max_consecutive_compact_failures \<Longrightarrow>
   (at_consecutive_failures tr = max_consecutive_compact_failures \<longrightarrow> at_disabled tr) \<Longrightarrow>
   at_consecutive_failures tr' \<le> max_consecutive_compact_failures \<and>
   (at_consecutive_failures tr' = max_consecutive_compact_failures \<longrightarrow> at_disabled tr')"
  by (auto simp: maybe_compact_def Let_def max_consecutive_compact_failures_def
      split: if_splits prod.splits result.splits option.splits)

lemma compact_capped: "capped cfg ls \<Longrightarrow> capped cfg (compact_phase ag ls)"
  by (auto simp: compact_phase_def Let_def capped_def dest: maybe_compact_tracking split: prod.splits if_splits)

lemma open_failed_capped: "capped cfg ls \<Longrightarrow> capped cfg (phase_state (open_failed ag e ls))"
  by (cases e)
     (auto simp: open_failed_def Let_def capped_def dest: on_context_too_long_result
        split: prod.splits recovery_action.splits)

lemma decide_capped: "capped (ag_config ag) ls \<Longrightarrow> capped (ag_config ag) (flow_state (decide ag st sr ls))"
  by (auto simp: decide_def on_stop_reason_def Let_def capped_def reset_for_new_turn_def
      split: prod.splits recovery_action.splits stop_reason.splits if_splits option.splits list.splits)

lemma inject_capped: "capped cfg ls \<Longrightarrow> capped cfg (inject msgs ls)"
  by (simp add: inject_def capped_def reset_for_new_turn_def)

lemma empty_guard_capped:
  "capped (ag_config ag) ls \<Longrightarrow> capped (ag_config ag) (flow_state (empty_guard ag st sr degenerate ls))"
proof -
  assume c: "capped (ag_config ag) ls"
  then have "capped (ag_config ag) (ls\<lparr>ls_empty_nudges := 0\<rparr>)" by (simp add: capped_def)
  moreover have "capped (ag_config ag) (ls\<lparr>ls_empty_nudges := ls_empty_nudges ls + 1\<rparr>)"
    if "ls_empty_nudges ls < cf_empty_turn_nudge_max (ag_config ag)"
    using c that by (simp add: capped_def)
  ultimately show ?thesis
    using c by (auto simp: empty_guard_def Let_def intro: decide_capped inject_capped)
qed

lemma apply_decision_capped:
  assumes c: "capped (ag_config ag) ls"
  shows "capped (ag_config ag) (flow_state (apply_decision ag st sr degenerate d ls))"
proof -
  have "capped (ag_config ag) (ls\<lparr>ls_recovery := record_forced_continuation (ls_recovery ls)\<rparr>)"
    if "forced_continuation_available (ls_recovery ls)"
    using c that by (simp add: capped_def record_forced_continuation_def forced_continuation_available_def)
  then show ?thesis
    using c by (auto simp: apply_decision_def intro: empty_guard_capped inject_capped split: turn_decision.splits)
qed

lemma end_turn_capped:
  "capped (ag_config ag) ls \<Longrightarrow>
   capped (ag_config ag) (flow_state (end_turn ag st turn assistant results edited sr u timing ls))"
  by (auto simp: end_turn_def settle_turn_def Let_def intro!: apply_decision_capped inject_capped
      split: prod.splits result.splits)

lemma respond_capped:
  assumes c: "capped (ag_config ag) ls"
  shows "capped (ag_config ag) (flow_state (respond ag st turn ds ls))"
proof (cases "fst (on_max_tokens_pre_dispatch (ag_config ag) (unwrap_or EndTurn (ma_stop_reason (ds_acc ds)))
                (ls_recovery ls))")
  case None
  then obtain r0 where none: "on_max_tokens_pre_dispatch (ag_config ag)
      (unwrap_or EndTurn (ma_stop_reason (ds_acc ds))) (ls_recovery ls) = (None, r0)"
    by (metis prod.collapse)
  define assistant where "assistant = post_process (ag_post_processor ag) (into_message (ds_acc ds))"
  note unfolded = respond_def Let_def assistant_def [symmetric] none prod.case option.case
  have p: "capped (ag_config ag) (phase_state (plan_loop ag (rs_session_id st) turn 0 (msg_content assistant) [] [] ls))"
    by (rule capped_benign [OF c plan_loop_benign])
  have d: "capped (ag_config ag) (phase_state (dispatch_phase ag session turn n plans ls1))"
    if "capped (ag_config ag) ls1" for session n plans ls1
    by (rule capped_benign [OF that dispatch_phase_benign])
  show ?thesis
    unfolding unfolded using p d
    by (auto split: phase.splits prod.splits intro!: end_turn_capped) (metis phase_state.simps)+
next
  case (Some a)
  then show ?thesis
    using c by (auto simp: respond_def Let_def on_max_tokens_pre_dispatch_def capped_def split: if_splits)
qed

lemma open_phase_capped:
  "open_phase ag ls = Some p \<Longrightarrow> capped cfg ls \<Longrightarrow> capped cfg (phase_state p)"
  by (auto simp: open_phase_def Let_def open_failed_capped split: option.splits prod.splits result.splits)

lemma drain_phase_capped:
  "drain_phase ag turn sent s ls = Some p \<Longrightarrow> capped cfg ls \<Longrightarrow> capped cfg (phase_state p)"
  using drain_benign [where ls = ls and ag = ag and turn = turn and items = "ts_items (watch_provider (ag_config ag) s)"]
  by (auto simp: drain_phase_def Let_def split: phase.splits option.splits intro: capped_benign)
     (metis capped_benign phase_state.simps)+

lemma exchange_capped:
  assumes "exchange ag st turn ls = Some f" "capped (ag_config ag) ls"
  shows "capped (ag_config ag) (flow_state f)"
proof -
  obtain p where p: "open_phase ag ls = Some p" using assms(1) by (auto simp: exchange_def bind_eq_Some_conv)
  note P = open_phase_capped [OF p assms(2)]
  show ?thesis
  proof (cases p)
    case (Go s ls1)
    then obtain q where q: "drain_phase ag turn (ag_now ag (ls_world ls)) s ls1 = Some q"
      and f: "f = (case q of Leave f \<Rightarrow> f | Go ds ls2 \<Rightarrow> respond ag st turn ds ls2)"
      using assms(1) p by (auto simp: exchange_def receive_def)
    have "capped (ag_config ag) (phase_state q)" using drain_phase_capped [OF q] P Go by simp
    then show ?thesis using f respond_capped by (cases q) auto
  qed (use P p assms in \<open>auto simp: exchange_def\<close>)
qed

lemma attempt_capped:
  assumes "turn_attempt ag st started turn ls = Some f" "capped (ag_config ag) ls"
  shows "capped (ag_config ag) (flow_state f)"
proof (cases "turn_guard ag started ls")
  case None
  have "capped (ag_config ag) (phase_state (before_turn_phase ag turn ls))"
    using assms(2) by (auto simp: before_turn_phase_def split: prod.splits result.splits)
  then show ?thesis
    using assms(1) None exchange_capped [OF _ compact_capped]
    by (cases "before_turn_phase ag turn ls") (auto simp: turn_attempt_def)
qed (use assms in \<open>auto simp: turn_attempt_def\<close>)

interpretation recovering: turn_invariant ag st started "\<lambda>_. capped (ag_config ag)" "\<lambda>_. capped (ag_config ag)"
  for ag st started
  by unfold_locales (use attempt_capped in fastforce)+



end
