(* ===== verification/FsTools.thy ===== *)
theory FsTools
  imports Workspace EditMatch
begin

text \<open>
  The file tools \<open>Read\<close>, \<open>Write\<close>, \<open>Edit\<close> and \<open>MultiEdit\<close>
  (\<open>caliban-tools-builtin/src/fs/\<close>) over the fence, the atomic writes and the matching of
  edits. \<^const>\<open>None\<close> is a panic. The parsing of the JSON input belongs to \<open>serde\<close>:
  the tools take its result. File contents and metadata are read through the environment.
\<close>

section \<open>The environment\<close>

(* map: src/crates/caliban-agent-core/src/hooks.rs 223-232 FileChangeKind *)
datatype file_change_kind = Created | Modified | Deleted

type_synonym 'w changed_hook = "component list \<Rightarrow> file_change_kind \<Rightarrow> string \<Rightarrow> 'w \<Rightarrow> (unit, string) result \<times> 'w"

record ('fd, 'w) fs_env =
  fe_sys :: "('fd, 'w) sys"
  fe_std :: "'w std_fs"
  fe_home :: "string option"
  fe_read_to_string :: "component list \<Rightarrow> 'w \<Rightarrow> (string, string) result"
  fe_metadata_len :: "component list \<Rightarrow> 'w \<Rightarrow> (nat, string) result"
  fe_errno_str :: "errno \<Rightarrow> string"
  fe_hook :: "'w changed_hook option"

fun io_error_str :: "('fd, 'w) fs_env \<Rightarrow> io_error \<Rightarrow> string" where
  "io_error_str env (OsError e) = fe_errno_str env e"
| "io_error_str env (PermissionDenied m) = m"
| "io_error_str env (IoInvalidInput m) = m"

text \<open>A missing hook is a no-op and its error is only logged.\<close>

(* map: src/crates/caliban-agent-core/src/tool.rs 42-54 ToolContext::fire_file_changed *)
definition fire_file_changed ::
  "('fd, 'w) fs_env \<Rightarrow> component list \<Rightarrow> file_change_kind \<Rightarrow> string \<Rightarrow> 'w \<Rightarrow> 'w" where
  "fire_file_changed env path kind tool w =
     (case fe_hook env of None \<Rightarrow> w | Some hook \<Rightarrow> snd (hook path kind tool w))"

definition resolve_in :: "('fd, 'w) fs_env \<Rightarrow> workspace \<Rightarrow> string \<Rightarrow> 'w \<Rightarrow> (component list, tool_error) result" where
  "resolve_in env ws path w = resolve (sd_canonicalize (fe_std env) w) (fe_home env) ws path"

definition write_in ::
  "('fd, 'w) fs_env \<Rightarrow> workspace \<Rightarrow> component list \<Rightarrow> string \<Rightarrow> 'w \<Rightarrow> (unit, tool_error) result \<times> 'w" where
  "write_in env ws path bytes w =
     (case atomic_write (fe_sys env) (fe_std env) ws path bytes w of
        (r, w') \<Rightarrow> (map_err (\<lambda>e. Execution (io_error_str env e)) r, w'))"

definition shown :: "workspace \<Rightarrow> component list \<Rightarrow> string" where
  "shown ws path = path_text (relativize ws path)"

definition arrow :: string where
  "arrow = [CHR 0xE2, CHR 0x86, CHR 0x92, CHR '' '']"

definition plural_s :: "nat \<Rightarrow> string" where
  "plural_s n = (if n = 1 then [] else ''s'')"

section \<open>Read\<close>

(* map: src/crates/caliban-tools-builtin/src/fs/read.rs 37-44 ReadInput *)
record read_input =
  ri_path :: string
  ri_limit :: "nat option"
  ri_offset :: "nat option"

definition max_file_bytes :: nat where
  "max_file_bytes = 5 * 1024 * 1024"

definition default_limit :: nat where
  "default_limit = 2000"

definition pad5 :: "nat \<Rightarrow> string" where
  "pad5 n = replicate (5 - length (nat_str n)) CHR '' '' @ nat_str n"

definition numbered_line :: "nat \<Rightarrow> string \<Rightarrow> string" where
  "numbered_line n line = pad5 n @ ''  '' @ line @ nl"

text \<open>The lines that are shown, with their numbers.\<close>

(* map: src/crates/caliban-tools-builtin/src/fs/read.rs 103-113 ReadTool::invoke *)
definition read_window :: "string \<Rightarrow> nat \<Rightarrow> nat \<Rightarrow> (nat \<times> string) list" where
  "read_window content offset limit =
     (let ls = take limit (drop offset (str_lines content)) in zip [offset + 1..<offset + 1 + length ls] ls)"

(* map: src/crates/caliban-tools-builtin/src/fs/read.rs 102-127 ReadTool::invoke *)
definition read_text :: "string \<Rightarrow> string \<Rightarrow> nat option \<Rightarrow> nat option \<Rightarrow> string" where
  "read_text name content offset_arg limit_arg =
     (let total_lines = length (str_lines content);
          offset = unwrap_or 1 offset_arg - 1;
          limit = unwrap_or default_limit limit_arg;
          end_line = min (offset + limit) total_lines
      in arrow @ ''Read '' @ name @ '', lines '' @ nat_str (offset + 1) @ ''-'' @ nat_str end_line @
         '' of '' @ nat_str total_lines @ nl @ nl @
         concat (map (\<lambda>(n, l). numbered_line n l) (read_window content offset limit)))"

(* map: src/crates/caliban-tools-builtin/src/fs/read.rs 83-128 ReadTool::invoke *)
definition read_invoke ::
  "('fd, 'w) fs_env \<Rightarrow> workspace \<Rightarrow> (read_input, string) result \<Rightarrow> 'w \<Rightarrow> tool_outcome" where
  "read_invoke env ws parsed w =
     (case parsed of
        Err m \<Rightarrow> Err (InvalidInput m)
      | Ok inp \<Rightarrow>
          (case resolve_in env ws (ri_path inp) w of
             Err e \<Rightarrow> Err e
           | Ok path \<Rightarrow>
               (case fe_metadata_len env path w of
                  Err e \<Rightarrow> Err (Execution e)
                | Ok n \<Rightarrow>
                    if n > max_file_bytes
                    then Err (Execution (''file '' @ path_text path @ '' is '' @ nat_str n @
                           '' bytes, larger than 5MB max; use offset+limit''))
                    else
                      (case fe_read_to_string env path w of
                         Err e \<Rightarrow> Err (Execution e)
                       | Ok content \<Rightarrow>
                           Ok [text_cb (read_text (shown ws path) content (ri_offset inp) (ri_limit inp))]))))"

section \<open>Write\<close>

(* map: src/crates/caliban-tools-builtin/src/fs/write.rs 32-36 WriteInput *)
record write_input =
  wi_path :: string
  wi_content :: string

(* map: src/crates/caliban-tools-builtin/src/fs/write.rs 84-115 WriteTool::invoke *)
definition write_invoke ::
  "('fd, 'w) fs_env \<Rightarrow> workspace \<Rightarrow> (write_input, string) result \<Rightarrow> 'w \<Rightarrow> tool_outcome option \<times> 'w" where
  "write_invoke env ws parsed w =
     (case parsed of
        Err m \<Rightarrow> (Some (Err (InvalidInput m)), w)
      | Ok inp \<Rightarrow>
          (case resolve_in env ws (wi_path inp) w of
             Err e \<Rightarrow> (Some (Err e), w)
           | Ok path \<Rightarrow>
               (let existed_before = is_ok (fe_metadata_len env path w) in
                case write_in env ws path (wi_content inp) w of
                  (Err e, w1) \<Rightarrow> (Some (Err e), w1)
                | (Ok _, w1) \<Rightarrow>
                    (Some (Ok [text_cb (arrow @ ''Wrote '' @ shown ws path @ '' ('' @
                       nat_str (length (wi_content inp)) @ '' bytes)'')]),
                     fire_file_changed env path (if existed_before then Modified else Created) ''Write'' w1))))"

section \<open>Edit and MultiEdit\<close>

(* map: src/crates/caliban-tools-builtin/src/fs/multi_edit.rs 41-47 EditOp *)
record edit_op =
  eo_old_string :: string
  eo_new_string :: string
  eo_replace_all :: bool

definition locations_text :: "(nat \<times> nat) list \<Rightarrow> string" where
  "locations_text locs = join '', '' (map (\<lambda>(s, e). ''lines '' @ nat_str s @ ''-'' @ nat_str e) locs)"

text \<open>
  One edit, with what the messages of the two tools begin with, the advice of an ambiguous match
  and the text for a file without a near miss.
\<close>

(* map: src/crates/caliban-tools-builtin/src/fs/multi_edit.rs 58-97 apply_edits *)
definition apply_edit ::
  "string \<Rightarrow> string \<Rightarrow> string \<Rightarrow> string \<Rightarrow> edit_op \<Rightarrow> (string \<times> nat, tool_error) result option" where
  "apply_edit pre advice missing contents op =
     (case locate contents (eo_old_string op) (eo_new_string op) (eo_replace_all op) of
        None \<Rightarrow> None
      | Some (Located ranges replacement tier) \<Rightarrow>
          map_option (\<lambda>t. Ok (t, length ranges)) (splice_ranges replacement contents ranges)
      | Some (Ambiguous n locs) \<Rightarrow>
          Some (Err (Execution (pre @ ''old_string matched '' @ nat_str n @
            '' times; expected exactly one (use replace_all=true'' @ advice @ ''). Locations: '' @ locations_text locs)))
      | Some (NotFound near) \<Rightarrow>
          Some (Err (Execution (pre @ (case near of Some nm \<Rightarrow> near_miss_render nm | None \<Rightarrow> missing)))))"

(* map: src/crates/caliban-tools-builtin/src/fs/multi_edit.rs 53-100 apply_edits *)
fun apply_edits ::
  "nat \<Rightarrow> string \<Rightarrow> edit_op list \<Rightarrow> (string \<times> nat list, tool_error) result option" where
  "apply_edits n current [] = Some (Ok (current, []))"
| "apply_edits n current (op # ops) =
     (case apply_edit (''edit #'' @ nat_str n @ '': '') [] ''old_string not found in current contents (rolling back)''
             current op of
        None \<Rightarrow> None
      | Some (Err e) \<Rightarrow> Some (Err e)
      | Some (Ok (current', k)) \<Rightarrow>
          map_option (map_ok (\<lambda>(t, ks). (t, k # ks))) (apply_edits (n + 1) current' ops))"

definition sum_nat :: "nat list \<Rightarrow> nat" where
  "sum_nat ks = foldr (+) ks 0"

(* map: src/crates/caliban-tools-builtin/src/fs/edit.rs 33-40 EditInput *)
record edit_input =
  ei_path :: string
  ei_op :: edit_op

(* map: src/crates/caliban-tools-builtin/src/fs/edit.rs 90-166 EditTool::invoke *)
definition edit_invoke ::
  "('fd, 'w) fs_env \<Rightarrow> workspace \<Rightarrow> (edit_input, string) result \<Rightarrow> 'w \<Rightarrow> tool_outcome option \<times> 'w" where
  "edit_invoke env ws parsed w =
     (case parsed of
        Err m \<Rightarrow> (Some (Err (InvalidInput m)), w)
      | Ok inp \<Rightarrow>
          (case resolve_in env ws (ei_path inp) w of
             Err e \<Rightarrow> (Some (Err e), w)
           | Ok path \<Rightarrow>
               (case fe_read_to_string env path w of
                  Err e \<Rightarrow> (Some (Err (Execution e)), w)
                | Ok contents \<Rightarrow>
                    (case apply_edit [] '' to replace all'' ''old_string not found in file'' contents (ei_op inp) of
                       None \<Rightarrow> (None, w)
                     | Some (Err e) \<Rightarrow> (Some (Err e), w)
                     | Some (Ok (replaced, n)) \<Rightarrow>
                         (case write_in env ws path replaced w of
                            (Err e, w1) \<Rightarrow> (Some (Err e), w1)
                          | (Ok _, w1) \<Rightarrow>
                              (Some (Ok [text_cb (arrow @ ''Edited '' @ shown ws path @ '' ('' @ nat_str n @
                                 '' replacement'' @ plural_s n @ '')'')]),
                               fire_file_changed env path Modified ''Edit'' w1))))))"

(* map: src/crates/caliban-tools-builtin/src/fs/multi_edit.rs 35-39 MultiEditInput *)
record multi_edit_input =
  mi_path :: string
  mi_edits :: "edit_op list"

(* map: src/crates/caliban-tools-builtin/src/fs/multi_edit.rs 149-194 MultiEditTool::invoke *)
definition multi_edit_invoke ::
  "('fd, 'w) fs_env \<Rightarrow> workspace \<Rightarrow> (multi_edit_input, string) result \<Rightarrow> 'w \<Rightarrow> tool_outcome option \<times> 'w" where
  "multi_edit_invoke env ws parsed w =
     (case parsed of
        Err m \<Rightarrow> (Some (Err (InvalidInput m)), w)
      | Ok inp \<Rightarrow>
          if mi_edits inp = [] then (Some (Err (InvalidInput ''edits array must be non-empty'')), w)
          else
            (case resolve_in env ws (mi_path inp) w of
               Err e \<Rightarrow> (Some (Err e), w)
             | Ok path \<Rightarrow>
                 (case fe_read_to_string env path w of
                    Err e \<Rightarrow> (Some (Err (Execution e)), w)
                  | Ok contents \<Rightarrow>
                      (case apply_edits 1 contents (mi_edits inp) of
                         None \<Rightarrow> (None, w)
                       | Some (Err e) \<Rightarrow> (Some (Err e), w)
                       | Some (Ok (final, ks)) \<Rightarrow>
                           (case write_in env ws path final w of
                              (Err e, w1) \<Rightarrow> (Some (Err e), w1)
                            | (Ok _, w1) \<Rightarrow>
                                (Some (Ok [text_cb (arrow @ ''MultiEdit '' @ shown ws path @ '' ('' @
                                   nat_str (length ks) @ '' edit'' @ plural_s (length ks) @ '', '' @ nat_str (sum_nat ks) @
                                   '' total replacement'' @ plural_s (sum_nat ks) @ '')'')]),
                                 fire_file_changed env path Modified ''MultiEdit'' w1))))))"

section \<open>What is written\<close>

text \<open>The environment with the log of the effects beside its world.\<close>

definition traced_std :: "'w std_fs \<Rightarrow> ('w \<times> 'fd effect list) std_fs" where
  "traced_std sd =
     \<lparr>sd_is_symlink = \<lambda>p wl. sd_is_symlink sd p (fst wl),
      sd_canonicalize = \<lambda>wl. sd_canonicalize sd (fst wl),
      sd_create_dir_all = \<lambda>p. unlogged (sd_create_dir_all sd p),
      sd_tempfile_in = \<lambda>p. unlogged (sd_tempfile_in sd p),
      sd_write_all = \<lambda>p bytes. unlogged (sd_write_all sd p bytes),
      sd_mode = \<lambda>p wl. sd_mode sd p (fst wl),
      sd_set_mode = \<lambda>p m. unlogged (sd_set_mode sd p m),
      sd_persist = \<lambda>a b. unlogged (sd_persist sd a b),
      sd_drop = \<lambda>p wl. (sd_drop sd p (fst wl), snd wl),
      sd_umask_probe = sd_umask_probe sd\<rparr>"

definition traced_env :: "('fd, 'w) fs_env \<Rightarrow> ('fd, 'w \<times> 'fd effect list) fs_env" where
  "traced_env env =
     \<lparr>fe_sys = traced (fe_sys env),
      fe_std = traced_std (fe_std env),
      fe_home = fe_home env,
      fe_read_to_string = \<lambda>p wl. fe_read_to_string env p (fst wl),
      fe_metadata_len = \<lambda>p wl. fe_metadata_len env p (fst wl),
      fe_errno_str = fe_errno_str env,
      fe_hook = map_option (\<lambda>hook path kind tool. unlogged (hook path kind tool)) (fe_hook env)\<rparr>"

lemma traced_env_simps [simp]:
  "fe_sys (traced_env env) = traced (fe_sys env)"
  "fe_read_to_string (traced_env env) p wl = fe_read_to_string env p (fst wl)"
  "fe_metadata_len (traced_env env) p wl = fe_metadata_len env p (fst wl)"
  "resolve_in (traced_env env) ws path wl = resolve_in env ws path (fst wl)"
  "snd (fire_file_changed (traced_env env) p kind tool wl) = snd wl"
  by (simp_all add: traced_env_def traced_std_def resolve_in_def fire_file_changed_def split: option.split)

text \<open>The laws of the environment: \<open>canonicalize\<close> answers with an absolute path without dots.\<close>

definition fenced :: "('fd, 'w) fs_env \<Rightarrow> workspace \<Rightarrow> bool" where
  "fenced env ws \<longleftrightarrow>
     (\<forall>w q c. sd_canonicalize (fe_std env) w q = Some c \<longrightarrow> physical c) \<and>
     physical (ws_root ws) \<and> ws_restrict_to_root ws"

lemma resolve_in_below:
  assumes "fenced env ws" "resolve_in env ws path w = Ok p"
  shows "physical p"
  using assms resolved_below(1) [of "sd_canonicalize (fe_std env) w" ws "fe_home env" path p]
  unfolding fenced_def resolve_in_def by blast

lemma write_in_effects:
  assumes "fenced env ws" "physical p" "write_in (traced_env env) ws p bytes (w, []) = (r, w', es)"
  shows "list_all (confined_effect (fe_sys env) (ws_root ws)) es"
    and "all_or_nothing (last (entry_names p)) bytes (is_ok r) es"
proof -
  obtain q where q: "write_atomic_within_with_mode (traced (fe_sys env)) (ws_root ws) p bytes None (w, []) = (q, w', es)"
    "is_ok r = is_ok q"
    using assms(1,3) by (auto simp: write_in_def atomic_write_def write_atomic_within_def fenced_def
        is_ok_iff split: prod.splits)
  have "proper p" using assms(2) names_path_proper by (auto simp: physical_def)
  then show "list_all (confined_effect (fe_sys env) (ws_root ws)) es"
    using confined_below [of p "fe_sys env" "ws_root ws" bytes None w] q(1) by simp
  show "all_or_nothing (last (entry_names p)) bytes (is_ok r) es"
    using write_all_or_nothing [OF q(1)] q(2) by simp
qed

lemma all_or_nothing_failed: "all_or_nothing f bytes False es \<Longrightarrow> \<not> list_ex replaces es"
  by (simp add: all_or_nothing_def)

text \<open>What a tool may have done that ended with \<open>out\<close> and should write \<open>bytes\<close> to \<open>p\<close>.\<close>

definition tool_trace ::
  "('fd, 'w) fs_env \<Rightarrow> workspace \<Rightarrow> bool \<Rightarrow> (component list \<times> string) option \<Rightarrow> 'fd effect list \<Rightarrow> bool" where
  "tool_trace env ws ok target es \<longleftrightarrow>
     list_all (confined_effect (fe_sys env) (ws_root ws)) es \<and>
     (if ok then \<exists>p bytes. target = Some (p, bytes) \<and> all_or_nothing (last (entry_names p)) bytes True es
      else \<not> list_ex replaces es)"

definition succeeded :: "tool_outcome option \<Rightarrow> bool" where
  "succeeded out \<longleftrightarrow> (case out of None \<Rightarrow> False | Some r \<Rightarrow> is_ok r)"

lemma tool_trace_nothing [simp]: "tool_trace env ws False target []"
  by (simp add: tool_trace_def)

lemma tool_trace_write:
  assumes "fenced env ws" "physical p" "write_in (traced_env env) ws p bytes (w, []) = (r, wl')"
  shows "tool_trace env ws (is_ok r) (Some (p, bytes)) (snd wl')"
  using write_in_effects [OF assms(1,2), of bytes w r "fst wl'" "snd wl'"] assms(3)
  by (auto simp: tool_trace_def dest: all_or_nothing_failed)

text \<open>What each tool is to write, and where: nothing when it reports an error or panics before.\<close>

definition write_target :: "('fd, 'w) fs_env \<Rightarrow> workspace \<Rightarrow> write_input \<Rightarrow> 'w \<Rightarrow> (component list \<times> string) option" where
  "write_target env ws inp w =
     (case resolve_in env ws (wi_path inp) w of Ok p \<Rightarrow> Some (p, wi_content inp) | Err _ \<Rightarrow> None)"

definition edit_target :: "('fd, 'w) fs_env \<Rightarrow> workspace \<Rightarrow> edit_input \<Rightarrow> 'w \<Rightarrow> (component list \<times> string) option" where
  "edit_target env ws inp w =
     (case resolve_in env ws (ei_path inp) w of
        Err _ \<Rightarrow> None
      | Ok p \<Rightarrow>
          (case fe_read_to_string env p w of
             Err _ \<Rightarrow> None
           | Ok contents \<Rightarrow>
               (case apply_edit [] '' to replace all'' ''old_string not found in file'' contents (ei_op inp) of
                  Some (Ok (t, _)) \<Rightarrow> Some (p, t)
                | _ \<Rightarrow> None)))"

definition multi_edit_target ::
  "('fd, 'w) fs_env \<Rightarrow> workspace \<Rightarrow> multi_edit_input \<Rightarrow> 'w \<Rightarrow> (component list \<times> string) option" where
  "multi_edit_target env ws inp w =
     (case resolve_in env ws (mi_path inp) w of
        Err _ \<Rightarrow> None
      | Ok p \<Rightarrow>
          (case fe_read_to_string env p w of
             Err _ \<Rightarrow> None
           | Ok contents \<Rightarrow>
               (case apply_edits 1 contents (mi_edits inp) of
                  Some (Ok (t, _)) \<Rightarrow> Some (p, t)
                | _ \<Rightarrow> None)))"

lemma write_tool_trace:
  assumes "fenced env ws" "write_invoke (traced_env env) ws (Ok wi) (w, []) = (out, w', es)"
  shows "tool_trace env ws (succeeded out) (write_target env ws wi w) es"
proof (cases "resolve_in env ws (wi_path wi) w")
  case (Err e)
  then show ?thesis using assms(2) by (auto simp: write_invoke_def succeeded_def)
next
  case (Ok p)
  obtain r wl where wr: "write_in (traced_env env) ws p (wi_content wi) (w, []) = (r, wl)" by (rule prod.exhaust)
  have es: "es = snd wl \<and> succeeded out = is_ok r"
    using assms(2) Ok wr by (cases r) (auto simp: write_invoke_def succeeded_def dest!: arg_cong [where f = snd])
  show ?thesis
    using tool_trace_write [OF assms(1) resolve_in_below [OF assms(1) Ok] wr] es
    by (simp add: write_target_def Ok)
qed

lemma edit_tool_trace:
  assumes "fenced env ws" "edit_invoke (traced_env env) ws (Ok ei) (w, []) = (out, w', es)"
  shows "tool_trace env ws (succeeded out) (edit_target env ws ei w) es"
proof (cases "edit_target env ws ei w")
  case None
  then show ?thesis using assms(2)
    by (auto simp: edit_invoke_def edit_target_def succeeded_def split: result.splits option.splits)
next
  case (Some t)
  then obtain p bytes contents n where t: "t = (p, bytes)" and p: "resolve_in env ws (ei_path ei) w = Ok p"
    and c: "fe_read_to_string env p w = Ok contents"
    and e: "apply_edit [] '' to replace all'' ''old_string not found in file'' contents (ei_op ei) = Some (Ok (bytes, n))"
    by (auto simp: edit_target_def split: result.splits option.splits)
  obtain r wl where wr: "write_in (traced_env env) ws p bytes (w, []) = (r, wl)" by (rule prod.exhaust)
  have es: "es = snd wl \<and> succeeded out = is_ok r"
    using assms(2) p c e wr by (cases r) (auto simp: edit_invoke_def succeeded_def dest!: arg_cong [where f = snd])
  show ?thesis
    using tool_trace_write [OF assms(1) resolve_in_below [OF assms(1) p] wr] es by (simp add: Some t)
qed

lemma multi_edit_tool_trace:
  assumes "fenced env ws" "multi_edit_invoke (traced_env env) ws (Ok mi) (w, []) = (out, w', es)"
  shows "tool_trace env ws (succeeded out) (multi_edit_target env ws mi w) es"
proof (cases "mi_edits mi = [] \<or> multi_edit_target env ws mi w = None")
  case True
  then show ?thesis using assms(2)
    by (auto simp: multi_edit_invoke_def multi_edit_target_def succeeded_def split: result.splits option.splits if_splits)
next
  case False
  then obtain p bytes contents ks where t: "multi_edit_target env ws mi w = Some (p, bytes)"
    and p: "resolve_in env ws (mi_path mi) w = Ok p" and c: "fe_read_to_string env p w = Ok contents"
    and e: "apply_edits 1 contents (mi_edits mi) = Some (Ok (bytes, ks))"
    by (auto simp: multi_edit_target_def split: result.splits option.splits)
  obtain r wl where wr: "write_in (traced_env env) ws p bytes (w, []) = (r, wl)" by (rule prod.exhaust)
  have es: "es = snd wl \<and> succeeded out = is_ok r"
    using assms(2) p c e wr False
    by (cases r) (auto simp: multi_edit_invoke_def succeeded_def dest!: arg_cong [where f = snd])
  show ?thesis
    using tool_trace_write [OF assms(1) resolve_in_below [OF assms(1) p] wr] es by (simp add: t)
qed


section \<open>Edits in sequence\<close>

lemma str_replace_conts:
  "list_all is_continuation cs \<Longrightarrow> leads old \<Longrightarrow> old \<noteq> [] \<Longrightarrow>
   str_replace old new (cs @ s) = cs @ str_replace old new s"
proof (induction cs)
  case (Cons c cs)
  then have "strip_prefix old (c # cs @ s) = None"
    by (cases old) (auto simp: leads_def)
  then show ?case using Cons str_replace_step(2) by simp
qed simp

lemma utf8_ok_Cons:
  "utf8_ok (c # s) \<Longrightarrow> \<exists>cs rest. s = cs @ rest \<and> utf8_ok rest \<and> list_all is_continuation cs \<and>
     (\<forall>rest'. utf8_ok rest' \<longrightarrow> utf8_ok (c # cs @ rest'))"
proof -
  assume "utf8_ok (c # s)"
  then obtain n where n: "utf8_width c = Some n" "n - 1 \<le> length s" "list_all is_continuation (take (n - 1) s)"
    "utf8_ok (drop (n - 1) s)"
    by (auto split: option.splits)
  then show ?thesis
    by (intro exI [of _ "take (n - 1) s"] exI [of _ "drop (n - 1) s"]) simp
qed

text \<open>Replacing well-formed text in well-formed text gives well-formed text.\<close>

lemma str_replace_utf8_ok: "utf8_ok old \<Longrightarrow> utf8_ok new \<Longrightarrow> utf8_ok s \<Longrightarrow> utf8_ok (str_replace old new s)"
proof (induction "length s" arbitrary: s rule: less_induct)
  case less
  show ?case
  proof (cases "old = [] \<or> s = []")
    case True
    then show ?thesis using less.prems by (simp add: str_replace.simps [of old new s])
  next
    case False
    show ?thesis
    proof (cases "strip_prefix old s")
      case (Some rest)
      then have s: "s = old @ rest" by (simp add: strip_prefix_Some)
      then have "utf8_ok rest" using less.prems(1,3) utf8_ok_append by simp
      then have "utf8_ok (str_replace old new rest)" using less.hyps [of rest] less.prems(1,2) s False by auto
      then show ?thesis using str_replace_step(1) [of old s rest new] False Some less.prems(2) utf8_ok_append by simp
    next
      case None
      then obtain c t where s: "s = c # t" using False by (cases s) auto
      obtain cs rest where t: "t = cs @ rest" "utf8_ok rest" "list_all is_continuation cs"
        "\<forall>rest'. utf8_ok rest' \<longrightarrow> utf8_ok (c # cs @ rest')"
        using utf8_ok_Cons less.prems(3) s by blast
      have "str_replace old new s = c # cs @ str_replace old new rest"
        using str_replace_step(2) [of old c t new] str_replace_conts [OF t(3), of old new rest]
          utf8_ok_leads [OF less.prems(1)] False None s t(1) by simp
      then show ?thesis using less.hyps [of rest] less.prems(1,2) s t by simp
    qed
  qed
qed

text \<open>
  What the edits of a call promise: one after the other, each replaces every occurrence of its
  text, of which there must be one, and no more than one unless all are meant.
\<close>

definition edit_applies :: "string \<Rightarrow> edit_op \<Rightarrow> bool" where
  "edit_applies contents op \<longleftrightarrow>
     eo_old_string op \<noteq> [] \<and> utf8_ok (eo_old_string op) \<and> utf8_ok (eo_new_string op) \<and>
     (let n = length (match_indices (eo_old_string op) 0 contents) in
      0 < n \<and> (eo_replace_all op \<or> n = 1))"

fun edits_apply :: "string \<Rightarrow> edit_op list \<Rightarrow> bool" where
  "edits_apply contents [] = True"
| "edits_apply contents (op # ops) =
     (edit_applies contents op \<and>
      edits_apply (str_replace (eo_old_string op) (eo_new_string op) contents) ops)"

fun edited :: "string \<Rightarrow> edit_op list \<Rightarrow> string" where
  "edited contents [] = contents"
| "edited contents (op # ops) = edited (str_replace (eo_old_string op) (eo_new_string op) contents) ops"

lemma locate_occurs:
  assumes "old \<noteq> []" "match_indices old 0 contents \<noteq> []" "ra \<or> length (match_indices old 0 contents) = 1"
  shows "locate contents old new ra =
    Some (Located (map (\<lambda>i. (i, i + length old)) (match_indices old 0 contents)) new ExactTier)"
  using assms by (cases "match_indices old 0 contents") (auto simp: locate_def)

lemma apply_edit_applies:
  assumes "utf8_ok contents" "edit_applies contents op"
  shows "apply_edit pre advice missing contents op =
    Some (Ok (str_replace (eo_old_string op) (eo_new_string op) contents,
              length (match_indices (eo_old_string op) 0 contents)))"
proof -
  note a = assms(2) [unfolded edit_applies_def Let_def]
  have "locate contents (eo_old_string op) (eo_new_string op) (eo_replace_all op) =
    Some (Located (map (\<lambda>i. (i, i + length (eo_old_string op))) (match_indices (eo_old_string op) 0 contents))
      (eo_new_string op) ExactTier)"
    using a by (intro locate_occurs) auto
  then show ?thesis
    using splice_exact [of "eo_old_string op" "eo_new_string op" "[]" contents] a assms(1)
    by (simp add: apply_edit_def)
qed

text \<open>
  (C35) On well-formed text a call whose edits apply in sequence succeeds, with the text that the
  sequence of replacements gives and a count for every edit; each edit sees the result of the
  one before it.
\<close>

theorem multi_edit_is_sequential:
  assumes "utf8_ok contents" and "edits_apply contents ops"
  shows "\<exists>ks. apply_edits n contents ops = Some (Ok (edited contents ops, ks)) \<and> length ks = length ops \<and>
    list_all (\<lambda>k. 0 < k) ks"
  using assms
proof (induction ops arbitrary: n contents)
  case (Cons op ops)
  let ?t = "str_replace (eo_old_string op) (eo_new_string op) contents"
  have "utf8_ok ?t" using Cons.prems by (auto simp: edit_applies_def intro: str_replace_utf8_ok)
  then obtain ks where "apply_edits (n + 1) ?t ops = Some (Ok (edited ?t ops, ks))" "length ks = length ops"
    "list_all (\<lambda>k. 0 < k) ks"
    using Cons.IH [of ?t "n + 1"] Cons.prems by auto
  then show ?case
    using apply_edit_applies [of contents op] Cons.prems by (simp add: edit_applies_def Let_def)
qed simp

section \<open>Windows of a file\<close>

lemma read_window_enumerate: "read_window content offset a = enumerate (offset + 1) (take a (drop offset (str_lines content)))"
  by (simp add: read_window_def enumerate_eq_zip Let_def)

text \<open>
  \<open>Read\<close> shows a line under its number in the file, and consecutive windows show what one
  window over both would show, so a file can be read in chunks without loss.
\<close>

theorem read_windows_tile:
  "read_window content offset a @ read_window content (offset + a) b = read_window content offset (a + b) \<and>
   list_all (\<lambda>(n, l). offset < n \<and> n \<le> offset + a \<and> n \<le> length (str_lines content) \<and>
     l = str_lines content ! (n - 1)) (read_window content offset a)"
proof
  let ?ls = "drop offset (str_lines content)"
  have split: "take (a + b) ?ls = take a ?ls @ take b (drop a ?ls)" by (simp add: take_add)
  show "read_window content offset a @ read_window content (offset + a) b = read_window content offset (a + b)"
  proof (cases "a \<le> length ?ls")
    case True
    then show ?thesis unfolding read_window_enumerate split by (simp add: enumerate_append_eq add.commute)
  next
    case False
    then show ?thesis by (simp add: read_window_enumerate)
  qed
  show "list_all (\<lambda>(n, l). offset < n \<and> n \<le> offset + a \<and> n \<le> length (str_lines content) \<and>
     l = str_lines content ! (n - 1)) (read_window content offset a)"
    by (auto simp: read_window_enumerate list_all_iff in_set_enumerate_eq nth_take)
qed

section \<open>Witnesses\<close>

theorem multi_edit_is_sequential_witness:
  "\<exists>ks. apply_edits 1 ''a foo b'' [\<lparr>eo_old_string = ''foo'', eo_new_string = ''bar'', eo_replace_all = False\<rparr>,
       \<lparr>eo_old_string = ''b'', eo_new_string = ''B'', eo_replace_all = True\<rparr>] = Some (Ok (''a Bar B'', ks)) \<and>
     length ks = 2 \<and> list_all (\<lambda>k. 0 < k) ks"
proof -
  let ?ops = "[\<lparr>eo_old_string = ''foo'', eo_new_string = ''bar'', eo_replace_all = False\<rparr>,
       \<lparr>eo_old_string = ''b'', eo_new_string = ''B'', eo_replace_all = True\<rparr>]"
  have a: "utf8_ok ''a foo b''" and b: "edits_apply ''a foo b'' ?ops" and c: "edited ''a foo b'' ?ops = ''a Bar B''"
    and l: "length ?ops = 2"
    by code_simp+
  show ?thesis using multi_edit_is_sequential [OF a b, of 1] unfolding c l .
qed

text \<open>The small file system as an environment; it has no links to directories.\<close>

definition small_canon :: "small_fs \<Rightarrow> canonicalize" where
  "small_canon w q =
     (if q = RootDir # map Normal (entry_names q) \<and> list_all entry_name (entry_names q) \<and>
         map_of w (entry_names q) \<noteq> None
      then Some q else None)"

definition small_read :: "component list \<Rightarrow> small_fs \<Rightarrow> (string, string) result" where
  "small_read p w = (case map_of w (entry_names p) of Some (File b _) \<Rightarrow> Ok b | _ \<Rightarrow> Err ''no such file'')"

definition small_env :: "(string list, small_fs) fs_env" where
  "small_env =
     \<lparr>fe_sys = small_sys,
      fe_std =
        \<lparr>sd_is_symlink = \<lambda>_ _. False, sd_canonicalize = small_canon,
         sd_create_dir_all = \<lambda>_ w. (Ok (), w), sd_tempfile_in = \<lambda>p w. (Ok (p @ [Normal ''tmp'']), w),
         sd_write_all = \<lambda>p b w. (Ok (), AList.update (entry_names p) (File b 384) w), sd_mode = \<lambda>_ _. None,
         sd_set_mode = \<lambda>_ _ w. (Ok (), w),
         sd_persist = \<lambda>a b w. (Ok (), w), sd_drop = \<lambda>_ w. w, sd_umask_probe = None\<rparr>,
      fe_home = None,
      fe_read_to_string = small_read,
      fe_metadata_len = \<lambda>p w. map_ok length (small_read p w),
      fe_errno_str = \<lambda>_. ''system error'',
      fe_hook = None\<rparr>"

definition small_ws :: workspace where
  "small_ws = \<lparr>ws_root = components ''/w'', ws_restrict_to_root = True\<rparr>"

lemma small_fenced: "fenced small_env small_ws"
proof -
  have "physical c" if "small_canon w q = Some c" for w q c
    using that by (auto simp: small_canon_def physical_def names_path_def split: if_splits)
  moreover have "physical (components ''/w'')"
    by (simp add: components_def piece_component_def is_absolute_def starts_with_def entry_name_def
        List.map_filter_def Let_def)
  ultimately show ?thesis by (simp add: fenced_def small_env_def small_ws_def)
qed

definition small_world :: small_fs where
  "small_world = [([''w''], Directory), ([''w'', ''f''], File ''one two'' 420)]"

definition small_edits :: "edit_op list" where
  "small_edits = [\<lparr>eo_old_string = ''one'', eo_new_string = ''1'', eo_replace_all = False\<rparr>,
     \<lparr>eo_old_string = ''two'', eo_new_string = ''2'', eo_replace_all = False\<rparr>]"

lemma small_runs:
  "succeeded (fst (write_invoke (traced_env small_env) small_ws
     (Ok \<lparr>wi_path = ''d/../g'', wi_content = ''x''\<rparr>) (small_world, [])))"
  "\<not> succeeded (fst (edit_invoke (traced_env small_env) small_ws
     (Ok \<lparr>ei_path = ''/etc/passwd'', ei_op = hd small_edits\<rparr>) (small_world, [])))"
  "map_of (fst (snd (multi_edit_invoke (traced_env small_env) small_ws
     (Ok \<lparr>mi_path = ''f'', mi_edits = small_edits\<rparr>) (small_world, [])))) [''w'', ''f''] = Some (File ''1 2'' 420)"
  by code_simp+


end
