(* ===== verification/OpenAi.thy ===== *)
theory OpenAi
  imports Compact TurnStream Router Transport
begin

text \<open>
  The adapter for OpenAI-compatible servers (\<open>caliban-provider-openai\<close>): requests and
  responses between the neutral representation and the wire, the classification of errors, and
  the state machine that turns the chunks of a stream into events with opened and closed blocks.
  Printing and parsing of JSON and the framing of server-sent events are parameters.
\<close>

section \<open>The wire\<close>

(* map: src/crates/caliban-provider-openai/src/schema/request.rs 112-115 NativeImageUrl *)
type_synonym native_image_url = string

(* map: src/crates/caliban-provider-openai/src/schema/request.rs 97-108 NativeContentPart *)
datatype native_part = TextPart string | ImagePart native_image_url

(* map: src/crates/caliban-provider-openai/src/schema/request.rs 87-92 NativeContent *)
datatype native_content = ContentText string | ContentParts "native_part list"

text \<open>The kind of a call is always \<open>function\<close>.\<close>

(* map: src/crates/caliban-provider-openai/src/schema/request.rs 163-180 NativeToolCall *)
record native_call =
  nc_id :: string
  nc_name :: string
  nc_arguments :: string

(* map: src/crates/caliban-provider-openai/src/schema/request.rs 67-82 NativeMessage *)
record native_message =
  nm_role :: string
  nm_content :: "native_content option"
  nm_tool_calls :: "native_call list"
  nm_tool_call_id :: "string option"
  nm_name :: "string option"

(* map: src/crates/caliban-provider-openai/src/schema/request.rs 119-136 NativeTool *)
record native_tool =
  nt_name :: string
  nt_description :: string
  nt_parameters :: json

(* map: src/crates/caliban-provider-openai/src/schema/request.rs 141-159 NativeToolChoice *)
datatype native_choice = ChoiceWord string | ChoiceFunction string

(* map: src/crates/caliban-provider-openai/src/schema/request.rs 8-63 NativeRequest *)
record native_request =
  nr_model :: string
  nr_messages :: "native_message list"
  nr_tools :: "native_tool list"
  nr_tool_choice :: "native_choice option"
  nr_max_tokens :: "nat option"
  nr_max_completion_tokens :: "nat option"
  nr_temperature :: "u32 option"
  nr_top_p :: "u32 option"
  nr_stop :: "string list"
  nr_user :: "string option"
  nr_stream :: bool
  nr_include_usage :: "bool option"
  nr_reasoning :: "string option"

section \<open>Requests\<close>

definition plain_native :: "string \<Rightarrow> native_content \<Rightarrow> native_message" where
  "plain_native role content =
     \<lparr>nm_role = role, nm_content = Some content, nm_tool_calls = [], nm_tool_call_id = None, nm_name = None\<rparr>"

fun image_url :: "image_source \<Rightarrow> string" where
  "image_url (Base64 media_type data) = ''data:'' @ media_type @ '';base64,'' @ data"
| "image_url (Url url) = url"
| "image_url (BlobRef media_type sha) = ''data:'' @ media_type @ '';base64,''"

fun user_part :: "content_block \<Rightarrow> native_part option" where
  "user_part (Text t) = Some (TextPart (tb_text t))"
| "user_part (Image i) = Some (ImagePart (image_url (ib_source i)))"
| "user_part _ = None"

fun tool_message :: "content_block \<Rightarrow> native_message option" where
  "tool_message (ToolResult i content is_error) =
     Some \<lparr>nm_role = ''tool'', nm_content = Some (ContentText (join nl (block_texts content))), nm_tool_calls = [],
           nm_tool_call_id = Some i, nm_name = None\<rparr>"
| "tool_message _ = None"

(* map: src/crates/caliban-provider-openai/src/ir_convert.rs 95-175 ir_to_native_request *)
definition user_messages :: "content_block list \<Rightarrow> native_message list" where
  "user_messages bs =
     (let parts = List.map_filter user_part bs in
      (if parts = [] then []
       else [plain_native ''user''
               (case parts of [TextPart t] \<Rightarrow> ContentText t | _ \<Rightarrow> ContentParts parts)]) @
      List.map_filter tool_message bs)"

fun native_calls :: "(json \<Rightarrow> (string, string) result) \<Rightarrow> content_block list \<Rightarrow> (native_call list, perror) result" where
  "native_calls print [] = Ok []"
| "native_calls print (ToolUse tu # bs) =
     (case print (tu_input tu) of
        Err e \<Rightarrow> Err (InvalidRequest (''failed to serialize tool_use input: '' @ e))
      | Ok s \<Rightarrow> map_ok (Cons \<lparr>nc_id = tu_id tu, nc_name = tu_name tu, nc_arguments = s\<rparr>) (native_calls print bs))"
| "native_calls print (_ # bs) = native_calls print bs"

(* map: src/crates/caliban-provider-openai/src/ir_convert.rs 176-221 ir_to_native_request *)
definition assistant_message ::
  "(json \<Rightarrow> (string, string) result) \<Rightarrow> content_block list \<Rightarrow> (native_message, perror) result" where
  "assistant_message print bs =
     map_ok (\<lambda>calls.
         \<lparr>nm_role = ''assistant'',
          nm_content = (if block_texts bs = [] then None else Some (ContentText (concat (block_texts bs)))),
          nm_tool_calls = calls, nm_tool_call_id = None, nm_name = None\<rparr>)
       (native_calls print bs)"

(* map: src/crates/caliban-provider-openai/src/ir_convert.rs 70-94 ir_to_native_request *)
fun native_body ::
  "(json \<Rightarrow> (string, string) result) \<Rightarrow> string \<Rightarrow> message list \<Rightarrow> (native_message list, perror) result" where
  "native_body print sys [] = Ok []"
| "native_body print sys (m # ms) =
     (case msg_role m of
        System \<Rightarrow>
          map_ok (Cons (plain_native sys (ContentText (join (nl @ nl) (block_texts (msg_content m))))))
            (native_body print sys ms)
      | User \<Rightarrow> map_ok (append (user_messages (msg_content m))) (native_body print sys ms)
      | Assistant \<Rightarrow>
          (case assistant_message print (msg_content m) of
             Err e \<Rightarrow> Err e
           | Ok n \<Rightarrow> map_ok (Cons n) (native_body print sys ms)))"

(* map: src/crates/caliban-provider-openai/src/ir_convert.rs 40-67 ir_to_native_request *)
definition native_messages ::
  "(json \<Rightarrow> (string, string) result) \<Rightarrow> string \<Rightarrow> message list \<Rightarrow> (native_message list, perror) result" where
  "native_messages print sys ms =
     (let leading = takeWhile (\<lambda>m. msg_role m = System) ms;
          system_texts = concat (map (\<lambda>m. block_texts (msg_content m)) leading)
      in map_ok (append (if system_texts = [] then []
                         else [plain_native sys (ContentText (join (nl @ nl) system_texts))]))
           (native_body print sys (dropWhile (\<lambda>m. msg_role m = System) ms)))"

fun native_tool_choice :: "tool_choice \<Rightarrow> native_choice option" where
  "native_tool_choice ChooseAuto = Some (ChoiceWord ''auto'')"
| "native_tool_choice ChooseAny = Some (ChoiceWord ''required'')"
| "native_tool_choice (ChooseSpecific name) = Some (ChoiceFunction name)"
| "native_tool_choice ChooseNone = None"

(* map: src/crates/caliban-provider-openai/src/models.rs 285-288 uses_completion_tokens *)
definition uses_completion_tokens :: "string \<Rightarrow> bool" where
  "uses_completion_tokens model =
     (let m = map ascii_lower model in
      starts_with ''gpt-5'' m \<or> starts_with ''o1'' m \<or> starts_with ''o3'' m \<or> starts_with ''o4'' m)"

fun native_reasoning :: "thinking_setting \<Rightarrow> effort option \<Rightarrow> string option" where
  "native_reasoning ThOff e = None"
| "native_reasoning (ThOn b) e = Some (unwrap_or ''medium'' (Option.bind e as_openai))"
| "native_reasoning ThAuto e = Option.bind e as_openai"

(* map: src/crates/caliban-provider-openai/src/ir_convert.rs 225-300 ir_to_native_request *)
definition ir_to_native_request ::
  "(json \<Rightarrow> (string, string) result) \<Rightarrow> request \<Rightarrow> bool \<Rightarrow> string \<Rightarrow> (native_request, perror) result" where
  "ir_to_native_request print req stream system_role =
     map_ok (\<lambda>messages.
         \<lparr>nr_model = rq_model req,
          nr_messages = messages,
          nr_tools = map (\<lambda>t. \<lparr>nt_name = td_name t, nt_description = td_description t,
                                nt_parameters = td_input_schema t\<rparr>) (rq_tools req),
          nr_tool_choice = native_tool_choice (rq_tool_choice req),
          nr_max_tokens = (if uses_completion_tokens (rq_model req) then None else Some (rq_max_tokens req)),
          nr_max_completion_tokens =
            (if uses_completion_tokens (rq_model req) then Some (rq_max_tokens req) else None),
          nr_temperature = rq_temperature req,
          nr_top_p = rq_top_p req,
          nr_stop = rq_stop_sequences req,
          nr_user = md_user_id (rq_metadata req),
          nr_stream = stream,
          nr_include_usage = (if stream then Some True else None),
          nr_reasoning = native_reasoning (rq_thinking req) (rq_effort req)\<rparr>)
       (native_messages print system_role (rq_messages req))"

section \<open>Responses\<close>

(* map: src/crates/caliban-provider-openai/src/schema/response.rs 61-72 NativeFinishReason *)
datatype finish_reason = FinishStop | FinishLength | FinishToolCalls | FinishContentFilter | FinishFunctionCall

text \<open>The usage of a response and that of a chunk have the same fields; the inner option is \<open>cached_tokens\<close>.\<close>

(* map: src/crates/caliban-provider-openai/src/schema/response.rs 76-95 NativeUsage *)
record native_usage =
  nu_prompt :: u32
  nu_completion :: u32
  nu_cached :: "u32 option"

(* map: src/crates/caliban-provider-openai/src/schema/response.rs 34-56 NativeResponseMessage *)
record native_reply =
  ny_content :: "string option"
  ny_reasoning :: "string option"
  ny_tool_calls :: "native_call list"
  ny_refusal :: "string option"

(* map: src/crates/caliban-provider-openai/src/schema/response.rs 9-32 NativeResponse *)
record native_response =
  np_id :: string
  np_model :: string
  np_choices :: "(native_reply \<times> finish_reason) list"
  np_usage :: native_usage

(* map: src/crates/caliban-provider-openai/src/stream_parse.rs 333-340 map_finish_reason *)
fun map_finish_reason :: "finish_reason \<Rightarrow> stop_reason" where
  "map_finish_reason FinishStop = EndTurn"
| "map_finish_reason FinishLength = MaxTokens"
| "map_finish_reason FinishToolCalls = ToolUseStop"
| "map_finish_reason FinishFunctionCall = ToolUseStop"
| "map_finish_reason FinishContentFilter = ContentFilter"

(* map: src/crates/caliban-provider-openai/src/stream_parse.rs 129-137 map_openai_sse_to_events *)
definition ir_usage :: "native_usage \<Rightarrow> usage" where
  "ir_usage u = Usage (nu_prompt u) (nu_completion u) None
     (case nu_cached u of Some c \<Rightarrow> if c > 0 then Some c else None | None \<Rightarrow> None)"

(* map: src/crates/caliban-provider-openai/src/ir_convert.rs 346-361 native_response_to_ir *)
fun ir_calls :: "(string \<Rightarrow> (json, string) result) \<Rightarrow> native_call list \<Rightarrow> (content_block list, perror) result" where
  "ir_calls parse [] = Ok []"
| "ir_calls parse (tc # tcs) =
     (case parse (nc_arguments tc) of
        Err e \<Rightarrow> Err (InvalidRequest (''tool_call '' @ [CHR 0x27] @ nc_name tc @ [CHR 0x27] @ '' arguments is not valid JSON: '' @ e))
      | Ok v \<Rightarrow> map_ok (Cons (ToolUse \<lparr>tu_id = nc_id tc, tu_name = nc_name tc, tu_input = v\<rparr>)) (ir_calls parse tcs))"

(* map: src/crates/caliban-provider-openai/src/ir_convert.rs 309-388 native_response_to_ir *)
definition native_response_to_ir ::
  "(string \<Rightarrow> (json, string) result) \<Rightarrow> native_response \<Rightarrow> (response, perror) result" where
  "native_response_to_ir parse r =
     (case np_choices r of
        [] \<Rightarrow> Err (InvalidRequest ''OpenAI response has no choices'')
      | (msg, fin) # _ \<Rightarrow>
          map_ok (\<lambda>blocks.
              \<lparr>cr_id = np_id r, cr_model = np_model r,
               cr_message = \<lparr>msg_role = Assistant, msg_content = blocks\<rparr>,
               cr_stop_reason = (if ny_refusal msg = None then map_finish_reason fin else Refusal),
               cr_stop_sequence = None, cr_usage = ir_usage (np_usage r)\<rparr>)
            (case ny_refusal msg of
               Some t \<Rightarrow> Ok [text_cb t]
             | None \<Rightarrow>
                 map_ok (append (case ny_content msg of Some t \<Rightarrow> if t = [] then [] else [text_cb t] | None \<Rightarrow> []))
                   (ir_calls parse (ny_tool_calls msg))))"

section \<open>Errors\<close>

text \<open>A bad base URL carries the quoted rendering of its value.\<close>

(* map: src/crates/caliban-provider-openai/src/error.rs 7-65 OpenAIError *)
datatype openai_error =
    OaHttp http_error
  | OaBadStatus nat string "nat option"
  | OaDeserialize string
  | OaStreamParse string
  | OaUpstreamError string
  | OaMissingConfig string
  | OaTransport string
  | OaInvalidBaseUrl string string
  | OaUnsupported string

(* map: src/crates/caliban-provider-openai/src/error.rs 8-66 OpenAIError *)
fun openai_display :: "openai_error \<Rightarrow> string" where
  "openai_display (OaHttp e) = ''HTTP request failed: '' @ he_text e"
| "openai_display (OaBadStatus st body retry) = ''response status '' @ nat_str st @ '': '' @ body"
| "openai_display (OaDeserialize e) = ''deserialize error: '' @ e"
| "openai_display (OaStreamParse e) = ''stream parse error: '' @ e"
| "openai_display (OaUpstreamError e) = ''upstream error: '' @ e"
| "openai_display (OaMissingConfig e) = ''missing config field: '' @ e"
| "openai_display (OaTransport e) = ''transport error: '' @ e"
| "openai_display (OaInvalidBaseUrl v e) = ''invalid base URL '' @ v @ '': '' @ e"
| "openai_display (OaUnsupported e) = ''unsupported feature: '' @ e"

(* map: src/crates/caliban-provider-openai/src/error.rs 69-75 CONTEXT_MARKERS *)
definition openai_context_markers :: "string list" where
  "openai_context_markers =
     [''context_length_exceeded'', ''Input tokens exceed'', ''Please reduce the length'',
      ''context window'', ''maximum context length'']"

(* map: src/crates/caliban-provider-openai/src/error.rs 83-93 FAULT_MARKERS *)
definition openai_fault_markers :: "string list" where
  "openai_fault_markers =
     [''crashed without additional information'', ''Exit code:'', ''out of memory'', ''Out of memory'',
      ''OOMKilled'', ''segmentation fault'', ''Segmentation fault'', ''killed by signal'', ''Killed by signal'']"

(* map: src/crates/caliban-provider-openai/src/error.rs 97-115 classify_error_body *)
definition classify_error_body :: "string \<Rightarrow> perror" where
  "classify_error_body body =
     unwrap_or (InvalidRequest body)
       (or_opt (classify_context_too_long body openai_context_markers [''limit of ''] [''resulted in ''])
          (classify_upstream_server_fault body openai_fault_markers))"

(* map: src/crates/caliban-provider-openai/src/error.rs 133-168 From<OpenAIError> *)
fun openai_to_provider :: "openai_error \<Rightarrow> perror" where
  "openai_to_provider (OaHttp e) =
     (case classify_reqwest_error e of
        ClassStreamInterrupted \<Rightarrow> StreamInterrupted (render_source_chain e)
      | ClassNetwork \<Rightarrow> Network (openai_display (OaHttp e))
      | ClassAdapter \<Rightarrow> Adapter (openai_display (OaHttp e)))"
| "openai_to_provider (OaBadStatus st body retry) =
     unwrap_or (Adapter (openai_display (OaBadStatus st body retry))) (map_bad_status st body retry classify_error_body)"
| "openai_to_provider (OaUpstreamError msg) = classify_error_body msg"
| "openai_to_provider e = Adapter (openai_display e)"

(* map: src/crates/caliban-provider-openai/src/error.rs 124-130 OpenAIError::bad_status *)
definition openai_bad_status :: "bad_response \<Rightarrow> openai_error" where
  "openai_bad_status r = OaBadStatus (br_status r) (br_body r) (br_retry_after r)"

section \<open>Models\<close>

(* map: src/crates/caliban-provider-openai/src/models.rs 7-22 caps *)
definition openai_caps :: "nat \<Rightarrow> nat \<Rightarrow> bool \<Rightarrow> bool \<Rightarrow> capabilities" where
  "openai_caps max_input max_output vision thinking =
     \<lparr>cap_max_input_tokens = max_input, cap_max_output_tokens = max_output, cap_vision = vision,
      cap_tool_use = ParallelCalls, cap_thinking = thinking, cap_prompt_caching = AutomaticCaching,
      cap_json_mode = True, cap_streaming = True, cap_stop_sequences = True, cap_top_k = False,
      cap_system_prompt = SystemRole, cap_refusal_field = True\<rparr>"

(* map: src/crates/caliban-provider-openai/src/models.rs 24-40 caps_o1 *)
definition openai_caps_o1 :: "nat \<Rightarrow> nat \<Rightarrow> bool \<Rightarrow> bool \<Rightarrow> capabilities" where
  "openai_caps_o1 max_input max_output vision thinking =
     (openai_caps max_input max_output vision thinking)\<lparr>cap_system_prompt := DeveloperRole\<rparr>"

(* map: src/crates/caliban-provider-openai/src/models.rs 51-255 models *)
definition openai_models :: "model_info list" where
  "openai_models =
     [model_info_of ''gpt-5.5'' ''GPT-5.5'' (openai_caps 1000000 64000 True False),
      model_info_of ''gpt-5.5-pro'' ''GPT-5.5 Pro'' (openai_caps 1000000 128000 True True),
      model_info_of ''gpt-5.4'' ''GPT-5.4'' (openai_caps 1000000 64000 True False),
      model_info_of ''gpt-5.4-pro'' ''GPT-5.4 Pro'' (openai_caps 1000000 128000 True True),
      model_info_of ''gpt-5.4-mini'' ''GPT-5.4 mini'' (openai_caps 1000000 64000 True False),
      model_info_of ''gpt-5.4-nano'' ''GPT-5.4 nano'' (openai_caps 1000000 64000 True False),
      model_info_of ''gpt-5.3-codex'' ''GPT-5.3 Codex'' (openai_caps 400000 128000 True True),
      model_info_of ''gpt-5.2'' ''GPT-5.2'' (openai_caps 400000 128000 True False),
      model_info_of ''gpt-5.2-pro'' ''GPT-5.2 Pro'' (openai_caps 400000 128000 True True),
      model_info_of ''gpt-5.2-codex'' ''GPT-5.2 Codex'' (openai_caps 400000 128000 True True),
      model_info_of ''gpt-5.1'' ''GPT-5.1'' (openai_caps 400000 128000 True False),
      model_info_of ''gpt-5.1-codex'' ''GPT-5.1 Codex'' (openai_caps 400000 128000 True True),
      model_info_of ''gpt-5.1-codex-mini'' ''GPT-5.1 Codex mini'' (openai_caps 400000 128000 True True),
      model_info_of ''gpt-5.1-codex-max'' ''GPT-5.1 Codex max'' (openai_caps 400000 200000 True True),
      model_info_of ''gpt-5'' ''GPT-5'' (openai_caps 400000 128000 True False),
      model_info_of ''gpt-5-mini'' ''GPT-5 mini'' (openai_caps 400000 128000 True False),
      model_info_of ''gpt-5-nano'' ''GPT-5 nano'' (openai_caps 400000 128000 True False),
      model_info_of ''gpt-5-pro'' ''GPT-5 Pro'' (openai_caps 400000 128000 True True),
      model_info_of ''gpt-5-codex'' ''GPT-5 Codex'' (openai_caps 400000 128000 True True),
      model_info_of ''o1'' ''o1'' (openai_caps_o1 200000 100000 True True),
      model_info_of ''o1-pro'' ''o1 pro'' (openai_caps_o1 200000 100000 True True),
      model_info_of ''o3'' ''o3'' (openai_caps_o1 200000 100000 True True),
      model_info_of ''o3-mini'' ''o3 mini'' (openai_caps_o1 200000 100000 False True),
      model_info_of ''o3-pro'' ''o3 pro'' (openai_caps_o1 200000 100000 True True),
      model_info_of ''o3-deep-research'' ''o3 deep research'' (openai_caps_o1 200000 100000 True True),
      model_info_of ''o4-mini'' ''o4 mini'' (openai_caps_o1 200000 100000 True True),
      model_info_of ''o4-mini-deep-research'' ''o4 mini deep research'' (openai_caps_o1 200000 100000 True True),
      model_info_of ''gpt-4.1'' ''GPT-4.1'' (openai_caps 1000000 32768 True False),
      model_info_of ''gpt-4.1-mini'' ''GPT-4.1 mini'' (openai_caps 1000000 32768 True False),
      model_info_of ''gpt-4.1-nano'' ''GPT-4.1 nano'' (openai_caps 1000000 32768 True False),
      model_info_of ''gpt-4o'' ''GPT-4o (legacy)'' (openai_caps 128000 4096 True False),
      model_info_of ''gpt-4o-mini'' ''GPT-4o mini (legacy)'' (openai_caps 128000 16384 True False)]"

(* map: src/crates/caliban-provider-openai/src/models.rs 268-273 capabilities_for *)
definition capabilities_for :: "string \<Rightarrow> capabilities" where
  "capabilities_for model =
     (case find (\<lambda>m. mi_id m = model \<or> mi_native_id m = model) openai_models of
        None \<Rightarrow> openai_caps 0 4096 False False
      | Some m \<Rightarrow> mi_capabilities m)"

(* map: src/crates/caliban-provider-openai/src/discover.rs 52-58 loaded_context_window *)
definition loaded_context_window :: "json \<Rightarrow> nat option" where
  "loaded_context_window entry =
     (case Option.bind (Option.bind (json_get entry ''meta'') (\<lambda>m. json_get m ''n_ctx''))
             (\<lambda>v. case v of JNumber d \<Rightarrow> parse_u64 d | _ \<Rightarrow> None) of
        Some n \<Rightarrow> if 0 < n \<and> n \<le> u32_max then Some n else None
      | None \<Rightarrow> None)"

(* map: src/crates/caliban-provider-openai/src/discover.rs 25-47 parse_models *)
definition parse_models :: "json \<Rightarrow> model_info list" where
  "parse_models j =
     (case Option.bind (json_get j ''data'') json_as_array of
        None \<Rightarrow> []
      | Some data \<Rightarrow>
          List.map_filter (\<lambda>entry.
            map_option (\<lambda>i.
                let caps = capabilities_for i;
                    caps' = (case loaded_context_window entry of
                               Some n \<Rightarrow> caps\<lparr>cap_max_input_tokens := n\<rparr>
                             | None \<Rightarrow> caps)
                in model_info_of i i caps')
              (json_get_str entry ''id'')) data)"

section \<open>The provider\<close>

text \<open>The transport is the interface of the code: direct HTTPS or a hosted deployment.\<close>

(* map: src/crates/caliban-provider-openai/src/transport/mod.rs 9-48 Transport *)
record ('raw, 'w) openai_transport =
  ot_send :: "native_request \<Rightarrow> 'w \<Rightarrow> (native_response, openai_error) result \<times> 'w"
  ot_stream :: "native_request \<Rightarrow> 'w \<Rightarrow> ('raw, openai_error) result \<times> 'w"
  ot_wire_model_id :: "string \<Rightarrow> string"
  ot_finalize :: "native_request \<Rightarrow> native_request"
  ot_discover :: "'w \<Rightarrow> (json option, openai_error) result \<times> 'w"

(* map: src/crates/caliban-provider-openai/src/transport/direct.rs 126-131 DirectTransport::wire_model_id *)
definition direct_wire_model_id :: "string \<Rightarrow> string" where
  "direct_wire_model_id canonical =
     (case find (\<lambda>m. mi_id m = canonical) openai_models of None \<Rightarrow> canonical | Some m \<Rightarrow> mi_native_id m)"

(* map: src/crates/caliban-provider-openai/src/lib.rs 79-87 OpenAIProvider::complete *)
definition openai_native ::
  "(json \<Rightarrow> (string, string) result) \<Rightarrow> ('raw, 'w) openai_transport \<Rightarrow> request \<Rightarrow> bool \<Rightarrow> (native_request, perror) result" where
  "openai_native print t req stream =
     (case request_validate req of
        Err e \<Rightarrow> Err e
      | Ok _ \<Rightarrow>
          map_ok (\<lambda>n. n\<lparr>nr_model := ot_wire_model_id t (rq_model req)\<rparr>)
            (ir_to_native_request print req stream
               (if cap_system_prompt (capabilities_for (rq_model req)) = DeveloperRole then ''developer'' else ''system'')))"

(* map: src/crates/caliban-provider-openai/src/lib.rs 78-91 OpenAIProvider::complete *)
definition openai_complete ::
  "(json \<Rightarrow> (string, string) result) \<Rightarrow> (string \<Rightarrow> (json, string) result) \<Rightarrow> ('raw, 'w) openai_transport \<Rightarrow>
   request \<Rightarrow> 'w \<Rightarrow> (response, perror) result \<times> 'w" where
  "openai_complete print parse t req w =
     (case openai_native print t req False of
        Err e \<Rightarrow> (Err e, w)
      | Ok n \<Rightarrow>
          (case ot_send t (ot_finalize t n) w of
             (Err e, w') \<Rightarrow> (Err (openai_to_provider e), w')
           | (Ok r, w') \<Rightarrow> (native_response_to_ir parse r, w')))"

(* map: src/crates/caliban-provider-openai/src/lib.rs 93-114 OpenAIProvider::stream *)
definition openai_stream ::
  "(json \<Rightarrow> (string, string) result) \<Rightarrow> ('raw, 'w) openai_transport \<Rightarrow> ('raw \<Rightarrow> 'events) \<Rightarrow>
   request \<Rightarrow> 'w \<Rightarrow> ('events, perror) result \<times> 'w" where
  "openai_stream print t events req w =
     (case openai_native print t req True of
        Err e \<Rightarrow> (Err e, w)
      | Ok n \<Rightarrow>
          (case ot_stream t (ot_finalize t (n\<lparr>nr_include_usage := Some True\<rparr>)) w of
             (Err e, w') \<Rightarrow> (Err (openai_to_provider e), w')
           | (Ok raw, w') \<Rightarrow> (Ok (events raw), w')))"

(* map: src/crates/caliban-provider-openai/src/lib.rs 124-140 OpenAIProvider::refresh_models *)
definition openai_refresh_models :: "('raw, 'w) openai_transport \<Rightarrow> 'w \<Rightarrow> model_info list \<times> 'w" where
  "openai_refresh_models t w =
     (case ot_discover t w of
        (Ok (Some j), w') \<Rightarrow>
          (let discovered = parse_models j in (if discovered = [] then openai_models else discovered, w'))
      | (_, w') \<Rightarrow> (openai_models, w'))"

section \<open>The wire's rules\<close>

text \<open>
  What the service demands of a history: a tool message answers a call of the assistant message
  before it, and nothing else stands between the calls and their answers. The model answers in
  the order of the calls.
\<close>

fun wire_answered :: "string list \<Rightarrow> native_message list \<Rightarrow> bool" where
  "wire_answered p [] = (p = [])"
| "wire_answered p (m # ms) =
     (if nm_role m = ''tool''
      then (case p of [] \<Rightarrow> False | i # p' \<Rightarrow> nm_tool_call_id m = Some i \<and> wire_answered p' ms)
      else p = [] \<and> wire_answered (map nc_id (nm_tool_calls m)) ms)"

text \<open>
  Calls are the assistant's, results the user's, and a message that holds results holds nothing
  else that the service would be sent.
\<close>

definition results_apart :: "message \<Rightarrow> bool" where
  "results_apart m \<longleftrightarrow>
     (msg_role m \<noteq> Assistant \<longrightarrow> call_ids m = []) \<and>
     (result_ids m \<noteq> [] \<longrightarrow> msg_role m = User \<and> List.map_filter user_part (msg_content m) = [])"

lemma tool_messages_answer:
  "wire_answered (List.map_filter block_result_id bs @ p) (List.map_filter tool_message bs @ ms) = wire_answered p ms"
proof (induction bs)
  case Nil
  then show ?case by (simp add: List.map_filter_simps)
next
  case (Cons b bs)
  then show ?case by (cases b) (simp_all add: List.map_filter_simps)
qed

lemma native_calls_ids:
  "native_calls print bs = Ok cs \<Longrightarrow> map nc_id cs = map tu_id (List.map_filter block_tool_use bs)"
proof (induction bs arbitrary: cs)
  case Nil
  then show ?case by (simp add: List.map_filter_simps)
next
  case (Cons b bs)
  then show ?case
    by (cases b) (auto simp: List.map_filter_simps split: result.splits)
qed

lemma native_body_answered:
  "chained p ms \<Longrightarrow> pending_calls p ms = [] \<Longrightarrow> list_all results_apart ms \<Longrightarrow> sys \<noteq> ''tool'' \<Longrightarrow>
   native_body print sys ms = Ok ns \<Longrightarrow> wire_answered p ns"
proof (induction ms arbitrary: p ns)
  case (Cons m ms)
  have ap: "results_apart m" and p: "result_ids m = p" and ch: "chained (call_ids m) ms"
    and pd: "pending_calls (call_ids m) ms = []" and rest: "list_all results_apart ms"
    using Cons.prems by auto
  note ih = Cons.IH [OF ch pd rest Cons.prems(4)]
  show ?case
  proof (cases "msg_role m")
    case User
    then obtain ns' where ns: "ns = user_messages (msg_content m) @ ns'" "native_body print sys ms = Ok ns'"
      using Cons.prems(5) by auto
    have calls: "call_ids m = []" using ap User by (simp add: results_apart_def)
    have tools: "wire_answered p (List.map_filter tool_message (msg_content m) @ ns') = wire_answered [] ns'"
      using tool_messages_answer [of "msg_content m" "[]" ns'] p by (simp add: result_ids_def)
    show ?thesis
    proof (cases "List.map_filter user_part (msg_content m) = []")
      case True
      then show ?thesis using ns ih [OF ns(2)] calls tools by (simp add: user_messages_def)
    next
      case False
      then have "p = []" using ap p by (auto simp: results_apart_def)
      then show ?thesis using ns ih [OF ns(2)] calls tools False
        by (simp add: user_messages_def plain_native_def Let_def)
    qed
  next
    case Assistant
    then obtain n ns' where ns: "assistant_message print (msg_content m) = Ok n" "ns = n # ns'"
        "native_body print sys ms = Ok ns'"
      using Cons.prems(5) by (auto split: result.splits)
    have "p = []" using ap p Assistant by (auto simp: results_apart_def)
    moreover have "nm_role n = ''assistant''" "map nc_id (nm_tool_calls n) = call_ids m"
      using ns(1) native_calls_ids by (auto simp: assistant_message_def call_ids_def tool_uses_def)
    ultimately show ?thesis using ns ih [OF ns(3)] by simp
  next
    case System
    then obtain ns' where ns: "ns = plain_native sys (ContentText (join (nl @ nl) (block_texts (msg_content m)))) # ns'"
        "native_body print sys ms = Ok ns'"
      using Cons.prems(5) by auto
    have "p = []" "call_ids m = []" using ap p System by (auto simp: results_apart_def)
    then show ?thesis using ns ih [OF ns(2)] Cons.prems(4) by (simp add: plain_native_def)
  qed
qed simp

lemma native_messages_answered:
  assumes "well_paired ms" "list_all results_apart ms" "sys \<noteq> ''tool''" "native_messages print sys ms = Ok ns"
  shows "wire_answered [] ns"
proof -
  let ?l = "takeWhile (\<lambda>m. msg_role m = System) ms" and ?r = "dropWhile (\<lambda>m. msg_role m = System) ms"
  have split: "ms = ?l @ ?r" by simp
  have ap: "list_all results_apart ?l" "list_all results_apart ?r"
    using assms(2) by (metis list_all_append split)+
  have "plain m" if "m \<in> set ?l" for m
  proof -
    have "results_apart m" using ap(1) that by (simp add: list_all_iff)
    then show ?thesis using set_takeWhileD [OF that] by (auto simp: results_apart_def plain_def)
  qed
  then have "list_all plain ?l" by (simp add: list_all_iff)
  then have "well_paired ?r"
    using assms(1) well_paired_append [OF well_paired_plain, of ?l ?r] by simp
  then have "wire_answered [] ns'" if "native_body print sys ?r = Ok ns'" for ns'
    using native_body_answered [OF _ _ ap(2) assms(3) that] by (simp add: well_paired_def)
  then show ?thesis
    using assms(3,4) by (auto simp: native_messages_def Let_def plain_native_def split: if_splits)
qed

text \<open>
  A paired history whose result messages hold only results is sent as the service demands: each
  assistant message's calls are answered, in order, by the tool messages right after it, and
  no tool message stands anywhere else.
\<close>

theorem openai_request_pairs_calls:
  assumes "well_paired (rq_messages req)" "list_all results_apart (rq_messages req)" "sys \<noteq> ''tool''"
    "ir_to_native_request print req stream sys = Ok n"
  shows "wire_answered [] (nr_messages n)"
  using assms(4) native_messages_answered [OF assms(1-3)] by (auto simp: ir_to_native_request_def)

definition sample_turn :: "message list" where
  "sample_turn =
     [msg_system_text ''be brief'', msg_user_text ''list'',
      \<lparr>msg_role = Assistant, msg_content = [text_cb ''ok'', ToolUse \<lparr>tu_id = ''a'', tu_name = ''Glob'', tu_input = JNull\<rparr>,
         ToolUse \<lparr>tu_id = ''b'', tu_name = ''Grep'', tu_input = JNull\<rparr>]\<rparr>,
      \<lparr>msg_role = User, msg_content = [ToolResult ''a'' [text_cb ''x''] False, ToolResult ''b'' [text_cb ''y''] False]\<rparr>]"

theorem openai_request_pairs_calls_witness:
  "\<exists>n. ir_to_native_request (\<lambda>_. Ok ''{}'') ((request_builder ''gpt-5'')\<lparr>rq_messages := sample_turn\<rparr>) False ''system'' = Ok n \<and>
     wire_answered [] (nr_messages n) \<and> length (nr_messages n) = 5"
proof -
  let ?req = "(request_builder ''gpt-5'')\<lparr>rq_messages := sample_turn\<rparr>"
  have "well_paired (rq_messages ?req)" "list_all results_apart (rq_messages ?req)"
    by (simp_all add: sample_turn_def well_paired_def results_apart_def call_ids_def result_ids_def tool_uses_def
      List.map_filter_simps msg_system_text_def msg_user_text_def text_cb_def)
  moreover obtain n where n: "ir_to_native_request (\<lambda>_. Ok ''{}'') ?req False ''system'' = Ok n" "length (nr_messages n) = 5"
    by (simp add: ir_to_native_request_def native_messages_def sample_turn_def assistant_message_def
      user_messages_def block_texts_def List.map_filter_simps msg_system_text_def msg_user_text_def text_cb_def)
  ultimately show ?thesis using openai_request_pairs_calls [of ?req "''system''" _ False n] by auto
qed

text \<open>
  A message that mixes text with results is turned around: its text is sent before the results,
  between the calls and their answers.
\<close>

lemma mixed_message_breaks_pairing:
  "native_messages (\<lambda>_. Ok ''{}'') ''system''
     [\<lparr>msg_role = Assistant, msg_content = [ToolUse \<lparr>tu_id = ''a'', tu_name = ''Glob'', tu_input = JNull\<rparr>]\<rparr>,
      \<lparr>msg_role = User, msg_content = [ToolResult ''a'' [] False, text_cb ''and then?'']\<rparr>] = Ok ns \<Longrightarrow>
   \<not> wire_answered [] ns"
  by (auto simp: native_messages_def assistant_message_def user_messages_def block_texts_def
    List.map_filter_simps text_cb_def plain_native_def)

section \<open>Responses and errors\<close>

text \<open>The documented behaviour of the printer and the parser: a parsed value prints to a text that parses back.\<close>

definition prints_back :: "(json \<Rightarrow> (string, string) result) \<Rightarrow> (string \<Rightarrow> (json, string) result) \<Rightarrow> bool" where
  "prints_back print parse \<longleftrightarrow> (\<forall>s v. parse s = Ok v \<longrightarrow> (\<exists>s'. print v = Ok s' \<and> parse s' = Ok v))"

lemma ir_calls_back:
  assumes faithful: "prints_back print parse"
  shows "ir_calls parse tcs = Ok bs \<Longrightarrow>
    \<exists>cs. native_calls print bs = Ok cs \<and> map nc_id cs = map nc_id tcs \<and> map nc_name cs = map nc_name tcs \<and>
      map (\<lambda>c. parse (nc_arguments c)) cs = map (\<lambda>c. parse (nc_arguments c)) tcs \<and> block_texts bs = []"
proof (induction tcs arbitrary: bs)
  case Nil
  then show ?case by (simp add: block_texts_def List.map_filter_simps)
next
  case (Cons tc tcs)
  obtain v bs' where v: "parse (nc_arguments tc) = Ok v" "ir_calls parse tcs = Ok bs'"
      "bs = ToolUse \<lparr>tu_id = nc_id tc, tu_name = nc_name tc, tu_input = v\<rparr> # bs'"
    using Cons.prems by (auto split: result.splits)
  obtain s' where s': "print v = Ok s'" "parse s' = Ok v" using faithful v(1) unfolding prints_back_def by blast
  obtain cs where "native_calls print bs' = Ok cs" "map nc_id cs = map nc_id tcs" "map nc_name cs = map nc_name tcs"
      "map (\<lambda>c. parse (nc_arguments c)) cs = map (\<lambda>c. parse (nc_arguments c)) tcs" "block_texts bs' = []"
    using Cons.IH [OF v(2)] by blast
  then show ?case using v s'
    by (intro exI [of _ "\<lparr>nc_id = nc_id tc, nc_name = nc_name tc, nc_arguments = s'\<rparr> # cs"])
       (simp add: block_texts_def List.map_filter_simps)
qed

lemma native_calls_append:
  "native_calls print (text_cb t # bs) = native_calls print bs" "block_texts (text_cb t # bs) = t # block_texts bs"
  by (simp_all add: text_cb_def block_texts_def List.map_filter_simps)

text \<open>
  A response that is not a refusal survives the next request: the assistant message sent back
  has the same text, and the same calls with the same ids, names and parsed arguments, in order.
  The hypothesis is that printing a value and parsing the print gives the value back.
\<close>

theorem openai_response_round_trip:
  assumes "prints_back print parse" "np_choices r = (msg, fin) # cs" "ny_refusal msg = None" "native_response_to_ir parse r = Ok resp"
  shows "\<exists>m. assistant_message print (msg_content (cr_message resp)) = Ok m \<and>
    nm_content m = (case ny_content msg of Some t \<Rightarrow> if t = [] then None else Some (ContentText t) | None \<Rightarrow> None) \<and>
    map nc_id (nm_tool_calls m) = map nc_id (ny_tool_calls msg) \<and>
    map nc_name (nm_tool_calls m) = map nc_name (ny_tool_calls msg) \<and>
    map (\<lambda>c. parse (nc_arguments c)) (nm_tool_calls m) = map (\<lambda>c. parse (nc_arguments c)) (ny_tool_calls msg)"
proof -
  obtain bs where bs: "ir_calls parse (ny_tool_calls msg) = Ok bs"
      "msg_content (cr_message resp) =
         (case ny_content msg of Some t \<Rightarrow> if t = [] then [] else [text_cb t] | None \<Rightarrow> []) @ bs"
    using assms(2-4) by (auto simp: native_response_to_ir_def)
  obtain cs where cs: "native_calls print bs = Ok cs" "map nc_id cs = map nc_id (ny_tool_calls msg)"
      "map nc_name cs = map nc_name (ny_tool_calls msg)"
      "map (\<lambda>c. parse (nc_arguments c)) cs = map (\<lambda>c. parse (nc_arguments c)) (ny_tool_calls msg)" "block_texts bs = []"
    using ir_calls_back [OF assms(1) bs(1)] by blast
  show ?thesis using bs(2) cs
    by (auto simp: assistant_message_def native_calls_append split: option.splits)
qed

definition sample_response :: native_response where
  "sample_response = \<lparr>np_id = ''r'', np_model = ''m'',
     np_choices = [(\<lparr>ny_content = Some ''ok'', ny_reasoning = None,
        ny_tool_calls = [\<lparr>nc_id = ''a'', nc_name = ''Glob'', nc_arguments = ''null''\<rparr>], ny_refusal = None\<rparr>, FinishToolCalls)],
     np_usage = \<lparr>nu_prompt = 3, nu_completion = 1, nu_cached = None\<rparr>\<rparr>"

definition null_parse :: "string \<Rightarrow> (json, string) result" where
  "null_parse s = (if s = ''null'' then Ok JNull else Err ''not null'')"

theorem openai_response_round_trip_witness:
  "\<exists>resp m. native_response_to_ir null_parse sample_response = Ok resp \<and>
     assistant_message (\<lambda>_. Ok ''null'') (msg_content (cr_message resp)) = Ok m \<and>
     nm_content m = Some (ContentText ''ok'') \<and> map nc_id (nm_tool_calls m) = [''a'']"
proof -
  have p: "prints_back (\<lambda>_. Ok ''null'') null_parse"
    by (auto simp: prints_back_def null_parse_def split: if_splits)
  obtain resp where r: "native_response_to_ir null_parse sample_response = Ok resp"
    by (simp add: native_response_to_ir_def sample_response_def null_parse_def)
  obtain msg where msg: "np_choices sample_response = (msg, FinishToolCalls) # []" "ny_refusal msg = None"
      "ny_content msg = Some ''ok''" "map nc_id (ny_tool_calls msg) = [''a'']"
    by (simp add: sample_response_def)
  show ?thesis
    using openai_response_round_trip [OF p msg(1,2) r] msg(3,4) r by auto
qed

text \<open>
  The classification of a failure. An error body is read alike whether it comes with status 400
  or inside the stream; one that names the context window is an overflow, which compaction can
  answer, whatever else it says; and exactly the failures below are retried: too many requests, a
  failing server, a connection that was refused, timed out or broke.
\<close>

theorem openai_errors_classified:
  "openai_to_provider (OaBadStatus 400 body retry) = openai_to_provider (OaUpstreamError body) \<and>
   (list_ex (\<lambda>m. sublist m body) openai_context_markers \<longrightarrow>
      (\<exists>mx rq. openai_to_provider (OaUpstreamError body) = ContextTooLong mx rq)) \<and>
   (is_retryable (openai_to_provider e) \<longleftrightarrow>
      (case e of
         OaHttp h \<Rightarrow> he_body h \<or> he_decode h \<or> he_connect h \<or> he_timeout h
       | OaBadStatus st body retry \<Rightarrow> st = 429 \<or> 500 \<le> st \<and> st \<le> 599
       | _ \<Rightarrow> False))"
proof (intro conjI impI)
  have cls: "\<not> is_retryable (classify_error_body b)" for b
    by (auto simp: classify_error_body_def classify_context_too_long_def classify_upstream_server_fault_def
      split: if_splits prod.splits)
  show "openai_to_provider (OaBadStatus 400 body retry) = openai_to_provider (OaUpstreamError body)"
    by (simp add: map_bad_status_def)
  show "\<exists>mx rq. openai_to_provider (OaUpstreamError body) = ContextTooLong mx rq"
    if "list_ex (\<lambda>m. sublist m body) openai_context_markers"
    using that by (simp add: classify_error_body_def classify_context_too_long_def str_contains_iff split: prod.splits)
  show "is_retryable (openai_to_provider e) \<longleftrightarrow>
      (case e of
         OaHttp h \<Rightarrow> he_body h \<or> he_decode h \<or> he_connect h \<or> he_timeout h
       | OaBadStatus st body retry \<Rightarrow> st = 429 \<or> 500 \<le> st \<and> st \<le> 599
       | _ \<Rightarrow> False)"
    using cls
    by (cases e) (auto simp: classify_reqwest_error_def classify_flags_def map_bad_status_def split: if_splits)
qed

theorem openai_errors_classified_witness:
  "\<exists>mx rq. openai_to_provider (OaUpstreamError ''context window'') = ContextTooLong mx rq"
proof -
  have "list_ex (\<lambda>m. sublist m ''context window'') openai_context_markers"
    by (simp add: openai_context_markers_def)
  then show ?thesis
    using openai_errors_classified [of "''context window''" None "OaTransport []"] by blast
qed

end
