(* ===== verification/StreamShape.thy ===== *)
theory StreamShape
  imports TurnStream
begin

text \<open>
  What a provider's stream parser promises its consumers: every block is opened before its
  deltas, closed once, and gets deltas of its own type. On such a stream the two assemblers of
  \<open>TurnStream\<close> can only part on a tool input that does not parse. The parsers of the adapters
  are shown to keep the contract.
\<close>

section \<open>Shaped streams\<close>

fun shaped :: "stream_event \<Rightarrow> accumulator \<Rightarrow> bool" where
  "shaped (ContentBlockStart i ct) acc = (ct \<noteq> CtImage \<and> \<not> block_open acc i)"
| "shaped (Delta i d) acc =
     (block_open acc i \<and> (case ma_active acc ! i of None \<Rightarrow> False | Some a \<Rightarrow> extended d a \<noteq> None))"
| "shaped (ContentBlockStop i) acc = block_open acc i"
| "shaped _ acc = True"

fun shaped_stream :: "(string \<Rightarrow> json option) \<Rightarrow> stream_event list \<Rightarrow> accumulator \<Rightarrow> bool" where
  "shaped_stream parse [] acc = True"
| "shaped_stream parse (ev # evs) acc = (shaped ev acc \<and> shaped_stream parse evs (acc_event parse ev acc))"

lemma acc_events_Nil [simp]: "acc_events parse [] acc = acc"
  by (simp add: acc_events_def)

lemma acc_events_Cons [simp]:
  "acc_events parse (ev # evs) acc = acc_events parse evs (acc_event parse ev acc)"
  by (simp add: acc_events_def)

lemma acc_events_append [simp]:
  "acc_events parse (xs @ ys) acc = acc_events parse ys (acc_events parse xs acc)"
  by (simp add: acc_events_def)

lemma shaped_stream_append [simp]:
  "shaped_stream parse (xs @ ys) acc \<longleftrightarrow>
     shaped_stream parse xs acc \<and> shaped_stream parse ys (acc_events parse xs acc)"
  by (induction xs arbitrary: acc) auto

definition input_error :: "string \<Rightarrow> perror" where
  "input_error e = InvalidRequest (''tool_use input json parse error: '' @ e)"

lemma shaped_step:
  assumes "sim c a" "shaped ev a"
  shows "(\<exists>e. collect_event p ev c = Err (input_error e)) \<or>
    (\<exists>c'. collect_event p ev c = Ok c' \<and> sim c' (acc_event (parse_ok p) ev a))"
proof (cases "regular (parse_ok p) ev a")
  case True
  then show ?thesis using sim_step assms(1) by blast
next
  case False
  then obtain i b where ev: "ev = ContentBlockStop i" and b: "block_open a i" "ma_active a ! i = Some b"
      "\<not> input_parses (parse_ok p) b"
    using assms(2) by (cases ev) (auto simp: block_open_def)
  then obtain tid name buf where t: "b = ActiveToolUse tid name buf" "buf \<noteq> []" "parse_ok p buf = None"
    by (cases b) auto
  then obtain e where e: "p buf = Err e" by (auto simp: parse_ok_def split: result.splits)
  have len: "i < length (co_types c)" using assms(1) b(1) by (simp add: sim_def Let_def block_open_def)
  have "slot_rel (Some b) (co_types c ! i) (co_text c ! i) (co_json c ! i) (co_sig c ! i)"
    using assms(1) b(1,2) by (auto simp: sim_def Let_def block_open_def)
  then have "co_types c ! i = CtToolUse tid name" "co_json c ! i = buf"
    using t(1) by (cases "co_types c ! i"; simp)+
  then have "collect_event p ev c = Err (input_error e)"
    using ev len t(2) e by (simp add: collect_stop_def input_error_def)
  then show ?thesis by blast
qed

lemma shaped_run:
  "sim c a \<Longrightarrow> shaped_stream (parse_ok p) evs a \<Longrightarrow>
   (\<exists>e. collect_loop p (map Ok evs) c = Err (input_error e)) \<or>
   (\<exists>c'. collect_loop p (map Ok evs) c = Ok c' \<and> sim c' (acc_events (parse_ok p) evs a))"
proof (induction evs arbitrary: c a)
  case (Cons ev evs)
  then have s: "shaped ev a" "shaped_stream (parse_ok p) evs (acc_event (parse_ok p) ev a)" by simp_all
  from shaped_step [OF Cons.prems(1) s(1), of p] show ?case
  proof (elim disjE exE conjE)
    fix c' assume "collect_event p ev c = Ok c'" "sim c' (acc_event (parse_ok p) ev a)"
    then show ?thesis using Cons.IH s(2) by simp
  qed auto
qed simp

definition assembled :: "(string \<Rightarrow> (json, string) result) \<Rightarrow> stream_event list \<Rightarrow> bool" where
  "assembled p evs \<longleftrightarrow>
     (\<exists>e. collect_message p (map Ok evs) = Err (input_error e)) \<or>
     (\<exists>m. collect_message p (map Ok evs) =
        Ok (m, unwrap_or EndTurn (ma_stop_reason (acc_events (parse_ok p) evs acc_new)),
            ma_usage (acc_events (parse_ok p) evs acc_new)) \<and>
      into_message (acc_events (parse_ok p) evs acc_new) =
        m\<lparr>msg_content := filter (\<lambda>b. \<not> is_empty_text b) (msg_content m)\<rparr>)"

lemma shaped_assembled:
  assumes "shaped_stream (parse_ok p) evs acc_new"
  shows "assembled p evs"
proof -
  have "sim collector_new acc_new" by (simp add: sim_def collector_new_def acc_new_def)
  from shaped_run [OF this assms] show ?thesis
  proof (elim disjE exE conjE)
    fix e assume "collect_loop p (map Ok evs) collector_new = Err (input_error e)"
    then show ?thesis by (auto simp: assembled_def collect_message_def)
  next
    fix c assume "collect_loop p (map Ok evs) collector_new = Ok c" "sim c (acc_events (parse_ok p) evs acc_new)"
    then show ?thesis
      by (auto simp: assembled_def collect_message_def sim_def Let_def into_message_def)
  qed
qed

text \<open>The interface between a stream parser and the assemblers: what goes in is the parser's own.\<close>

locale event_source =
  fixes events :: "'raw \<Rightarrow> stream_item list"
  assumes contract: "\<exists>es errs. events raw = map Ok es @ map Err errs \<and> length errs \<le> 1 \<and>
    (\<forall>q. shaped_stream q es acc_new)"
begin

lemma assembles:
  "\<exists>es errs. events raw = map Ok es @ map Err errs \<and> length errs \<le> 1 \<and>
     shaped_stream (parse_ok p) es acc_new \<and> assembled p es"
  using contract [of raw] shaped_assembled by blast

lemma collector_fails_on_input_or_source:
  "collect_message p (events raw) = Err e \<Longrightarrow> (\<exists>msg. e = input_error msg) \<or> Err e \<in> set (events raw)"
proof -
  assume err: "collect_message p (events raw) = Err e"
  obtain es errs where ev: "events raw = map Ok es @ map Err errs" "\<forall>q. shaped_stream q es acc_new"
    using contract [of raw] by blast
  have loop: "collect_loop p (map Ok es @ map Err errs) c = Err e \<Longrightarrow>
      collect_loop p (map Ok es) c = Err e \<or> Err e \<in> set (map Err errs :: stream_item list)" for c
  proof (induction es arbitrary: c)
    case Nil
    then show ?case by (cases errs) auto
  next
    case (Cons x es)
    then show ?case by (auto split: result.splits)
  qed
  have "collect_loop p (map Ok es @ map Err errs) collector_new = Err e"
    using err ev(1) by (simp add: collect_message_def)
  then consider "collect_message p (map Ok es) = Err e" | "Err e \<in> set (events raw)"
    using loop ev(1) by (fastforce simp: collect_message_def)
  then show ?thesis
  proof cases
    case 1
    then show ?thesis using shaped_assembled [of p es] ev(2) by (auto simp: assembled_def)
  qed simp
qed

end

section \<open>The kinds of the slots\<close>

datatype slot_kind = Vacant | TextSlot | ThinkingSlot | ToolSlot

fun kind_of :: "active_block option \<Rightarrow> slot_kind" where
  "kind_of None = Vacant"
| "kind_of (Some (ActiveText _)) = TextSlot"
| "kind_of (Some (ActiveThinking _ _)) = ThinkingSlot"
| "kind_of (Some (ActiveToolUse _ _ _)) = ToolSlot"

lemma kind_of_iff:
  "kind_of x = Vacant \<longleftrightarrow> x = None"
  "kind_of x = TextSlot \<longleftrightarrow> (\<exists>t. x = Some (ActiveText t))"
  "kind_of x = ThinkingSlot \<longleftrightarrow> (\<exists>t g. x = Some (ActiveThinking t g))"
  "kind_of x = ToolSlot \<longleftrightarrow> (\<exists>i n b. x = Some (ActiveToolUse i n b))"
  by (cases x rule: kind_of.cases; simp)+

lemma kind_extended: "extended d b = Some b' \<Longrightarrow> kind_of (Some b') = kind_of (Some b)"
  by (cases "(d, b)" rule: extended.cases) auto

definition kinds :: "accumulator \<Rightarrow> slot_kind list" where
  "kinds a = map kind_of (ma_active a)"

section \<open>The text of an accumulator\<close>

text \<open>What is readable and what is reasoning so far, in the finished blocks and in the open ones.\<close>

fun block_says :: "content_block \<Rightarrow> string" where
  "block_says (Text t) = tb_text t"
| "block_says _ = []"

fun block_thinks :: "content_block \<Rightarrow> string" where
  "block_thinks (Thinking t) = th_thinking t"
| "block_thinks _ = []"

fun slot_says :: "active_block option \<times> content_block \<Rightarrow> string" where
  "slot_says (None, b) = block_says b"
| "slot_says (Some (ActiveText t), b) = t"
| "slot_says (Some _, b) = []"

fun slot_thinks :: "active_block option \<times> content_block \<Rightarrow> string" where
  "slot_thinks (None, b) = block_thinks b"
| "slot_thinks (Some (ActiveThinking t g), b) = t"
| "slot_thinks (Some _, b) = []"

definition acc_says :: "accumulator \<Rightarrow> string" where
  "acc_says a = concat (map slot_says (zip (ma_active a) (ma_blocks a)))"

definition acc_thinks :: "accumulator \<Rightarrow> string" where
  "acc_thinks a = concat (map slot_thinks (zip (ma_active a) (ma_blocks a)))"

definition acc_even :: "accumulator \<Rightarrow> bool" where
  "acc_even a \<longleftrightarrow> length (ma_blocks a) = length (ma_active a)"

lemma into_message_says: "concat (map block_says (msg_content (into_message a))) = concat (map block_says (ma_blocks a))"
proof -
  have "concat (map block_says (filter (\<lambda>b. \<not> is_empty_text b) bs)) = concat (map block_says bs)" for bs
  proof (induction bs)
    case (Cons b bs)
    then show ?case by (cases b) auto
  qed simp
  then show ?thesis by (simp add: into_message_def)
qed

lemma into_message_thinks: "concat (map block_thinks (msg_content (into_message a))) = concat (map block_thinks (ma_blocks a))"
proof -
  have "concat (map block_thinks (filter (\<lambda>b. \<not> is_empty_text b) bs)) = concat (map block_thinks bs)" for bs
  proof (induction bs)
    case (Cons b bs)
    then show ?case by (cases b) auto
  qed simp
  then show ?thesis by (simp add: into_message_def)
qed

lemma closed_slots:
  assumes "acc_even a" "\<And>i. \<not> block_open a i"
  shows "ma_active a = replicate (length (ma_blocks a)) None"
  using assms by (auto simp: acc_even_def block_open_def intro: nth_equalityI)

lemma closed_says:
  assumes "acc_even a" "\<And>i. \<not> block_open a i"
  shows "acc_says a = concat (map block_says (ma_blocks a))" "acc_thinks a = concat (map block_thinks (ma_blocks a))"
proof -
  have z: "zip (replicate (length bs) None) bs = map (Pair None) bs" for bs :: "content_block list"
    by (simp add: zip_replicate1)
  show "acc_says a = concat (map block_says (ma_blocks a))" "acc_thinks a = concat (map block_thinks (ma_blocks a))"
    using closed_slots [OF assms]
    by (metis (no_types, lifting) acc_says_def acc_thinks_def z map_map comp_apply slot_says.simps(1)
        slot_thinks.simps(1) map_cong)+
qed

text \<open>Updating a slot whose share of the text does not change leaves the text alone.\<close>

lemma map_zip_keep:
  assumes "i < length xs" "length xs = length ys" "f (x, y) = f (xs ! i, ys ! i)"
  shows "map f (zip (xs[i := x]) (ys[i := y])) = map f (zip xs ys)"
  using assms by (intro nth_equalityI) (auto simp: nth_list_update)

lemma map_zip_keep_left:
  assumes "i < length xs" "length xs = length ys" "f (x, ys ! i) = f (xs ! i, ys ! i)"
  shows "map f (zip (xs[i := x]) ys) = map f (zip xs ys)"
  using map_zip_keep [OF assms(1,2), of f x "ys ! i"] assms(3) by simp

lemma map_zip_extend:
  assumes "i < length xs" "length xs = length ys"
  shows "map f (zip (xs[i := x]) ys) = (map f (zip xs ys))[i := f (x, ys ! i)]"
  using assms by (intro nth_equalityI) (auto simp: nth_list_update)

lemma concat_update_last:
  assumes "Suc i = length xs"
  shows "concat (xs[i := xs ! i @ u]) = concat xs @ u"
proof -
  obtain ys y where "xs = ys @ [y]" "i = length ys"
    using assms by (cases xs rule: rev_cases) auto
  then show ?thesis by simp
qed

end
