(* ===== verification/OpenAiStream.thy ===== *)
theory OpenAiStream
  imports OpenAi StreamShape
begin

text \<open>
  The streaming half of the OpenAI adapter (\<open>stream_parse.rs\<close>): the state machine that turns
  the chunks of a response, which carry bare deltas, into the event stream of the neutral
  representation, with blocks that are opened and closed. Its contract is that of the two
  assemblers of \<open>TurnStream\<close>: every stream it emits is shaped, so they agree on it.

  Each part of the parser is an emitter: it takes the state to the new state and the events it
  yields. Block indices are natural numbers; the source's are 32 bits wide.
\<close>

section \<open>Chunks\<close>

(* map: src/crates/caliban-provider-openai/src/schema/events.rs 61-85 NativeDeltaToolCall *)
record call_delta =
  cd_index :: nat
  cd_id :: "string option"
  cd_function :: "(string option \<times> string option) option"

(* map: src/crates/caliban-provider-openai/src/schema/events.rs 34-59 NativeDelta *)
record chunk_delta =
  dl_content :: "string option"
  dl_reasoning :: "string option"
  dl_tool_calls :: "call_delta list"
  dl_refusal :: "string option"

(* map: src/crates/caliban-provider-openai/src/schema/events.rs 22-32 NativeChunkChoice *)
record chunk_choice =
  cc_delta :: chunk_delta
  cc_finish_reason :: "finish_reason option"

(* map: src/crates/caliban-provider-openai/src/schema/events.rs 7-20 NativeChunk *)
record chunk =
  ck_id :: string
  ck_model :: string
  ck_choices :: "chunk_choice list"
  ck_usage :: "native_usage option"

section \<open>The state machine\<close>

text \<open>The hash map from a call's index to its block is an association list without repeated keys.\<close>

(* map: src/crates/caliban-provider-openai/src/stream_parse.rs 20-44 StreamState *)
record stream_state =
  ss_started :: bool
  ss_text_open :: bool
  ss_text_index :: nat
  ss_thinking_open :: bool
  ss_thinking_index :: nat
  ss_tools :: "(nat \<times> nat) list"
  ss_next :: nat

(* map: src/crates/caliban-provider-openai/src/stream_parse.rs 20-38 StreamState::default *)
definition stream_init :: stream_state where
  "stream_init = \<lparr>ss_started = False, ss_text_open = False, ss_text_index = 0, ss_thinking_open = False,
     ss_thinking_index = 0, ss_tools = [], ss_next = 0\<rparr>"

type_synonym emitter = "stream_state \<Rightarrow> stream_state \<times> stream_event list"

definition emit_none :: emitter where
  "emit_none s = (s, [])"

definition emit_then :: "emitter \<Rightarrow> emitter \<Rightarrow> emitter" where
  "emit_then f g s = (let (s1, es) = f s; (s2, es') = g s1 in (s2, es @ es'))"

fun emit_all :: "('a \<Rightarrow> emitter) \<Rightarrow> 'a list \<Rightarrow> emitter" where
  "emit_all f [] = emit_none"
| "emit_all f (x # xs) = emit_then (f x) (emit_all f xs)"

(* map: src/crates/caliban-provider-openai/src/stream_parse.rs 280-285 map_openai_sse_to_events *)
definition close_text :: emitter where
  "close_text s =
     (if ss_text_open s then (s\<lparr>ss_text_open := False\<rparr>, [ContentBlockStop (ss_text_index s)]) else (s, []))"

(* map: src/crates/caliban-provider-openai/src/stream_parse.rs 287-292 map_openai_sse_to_events *)
definition close_thinking :: emitter where
  "close_thinking s =
     (if ss_thinking_open s then (s\<lparr>ss_thinking_open := False\<rparr>, [ContentBlockStop (ss_thinking_index s)])
      else (s, []))"

(* map: src/crates/caliban-provider-openai/src/stream_parse.rs 189-194 map_openai_sse_to_events *)
definition open_text :: emitter where
  "open_text s =
     (if ss_text_open s then (s, [])
      else (s\<lparr>ss_text_index := ss_next s, ss_next := ss_next s + 1, ss_text_open := True\<rparr>,
            [ContentBlockStart (ss_next s) CtText]))"

(* map: src/crates/caliban-provider-openai/src/stream_parse.rs 159-167 map_openai_sse_to_events *)
definition open_thinking :: emitter where
  "open_thinking s =
     (if ss_thinking_open s then (s, [])
      else (s\<lparr>ss_thinking_index := ss_next s, ss_next := ss_next s + 1, ss_thinking_open := True\<rparr>,
            [ContentBlockStart (ss_next s) CtThinking]))"

(* map: src/crates/caliban-provider-openai/src/stream_parse.rs 150-172 map_openai_sse_to_events *)
definition emit_reasoning :: "string option \<Rightarrow> emitter" where
  "emit_reasoning r =
     (case r of
        Some t \<Rightarrow>
          if t = [] then emit_none
          else emit_then close_text (emit_then open_thinking
                 (\<lambda>s. (s, [Delta (ss_thinking_index s) (DThinking t)])))
      | None \<Rightarrow> emit_none)"

text \<open>Content and refusal are handled by the same lines.\<close>

(* map: src/crates/caliban-provider-openai/src/stream_parse.rs 174-222 map_openai_sse_to_events *)
definition emit_text :: "string option \<Rightarrow> emitter" where
  "emit_text c =
     (case c of
        Some t \<Rightarrow>
          emit_then close_thinking (emit_then open_text
            (\<lambda>s. (s, [Delta (ss_text_index s) (DText t)])))
      | None \<Rightarrow> emit_none)"

(* map: src/crates/caliban-provider-openai/src/stream_parse.rs 246-250 map_openai_sse_to_events *)
definition call_id_of :: "call_delta \<Rightarrow> string" where
  "call_id_of tc =
     (case cd_id tc of
        Some i \<Rightarrow> if i = [] then ''call_'' @ nat_str (cd_index tc) else i
      | None \<Rightarrow> ''call_'' @ nat_str (cd_index tc))"

(* map: src/crates/caliban-provider-openai/src/stream_parse.rs 251-262 map_openai_sse_to_events *)
definition open_tool :: "call_delta \<Rightarrow> emitter" where
  "open_tool tc s =
     (s\<lparr>ss_next := ss_next s + 1, ss_tools := (cd_index tc, ss_next s) # ss_tools s\<rparr>,
      [ContentBlockStart (ss_next s)
         (CtToolUse (call_id_of tc) (unwrap_or [] (Option.bind (cd_function tc) fst)))])"

(* map: src/crates/caliban-provider-openai/src/stream_parse.rs 265-274 map_openai_sse_to_events *)
definition emit_arguments :: "call_delta \<Rightarrow> emitter" where
  "emit_arguments tc s =
     (s, case (map_of (ss_tools s) (cd_index tc), Option.bind (cd_function tc) snd) of
           (Some j, Some a) \<Rightarrow> if a = [] then [] else [Delta j (DToolUseInputJson a)]
         | _ \<Rightarrow> [])"

(* map: src/crates/caliban-provider-openai/src/stream_parse.rs 225-275 map_openai_sse_to_events *)
definition emit_call :: "call_delta \<Rightarrow> emitter" where
  "emit_call tc s =
     (if map_of (ss_tools s) (cd_index tc) = None
      then emit_then close_text (emit_then close_thinking (emit_then (open_tool tc) (emit_arguments tc))) s
      else emit_arguments tc s)"

(* map: src/crates/caliban-provider-openai/src/stream_parse.rs 293-300 map_openai_sse_to_events *)
definition close_tools :: emitter where
  "close_tools s = (s\<lparr>ss_tools := []\<rparr>, map ContentBlockStop (sort (map snd (ss_tools s))))"

(* map: src/crates/caliban-provider-openai/src/stream_parse.rs 277-309 map_openai_sse_to_events *)
definition emit_finish :: "usage option \<Rightarrow> finish_reason option \<Rightarrow> emitter" where
  "emit_finish u fin =
     (case fin of
        None \<Rightarrow> emit_none
      | Some r \<Rightarrow>
          emit_then close_text (emit_then close_thinking (emit_then close_tools
            (\<lambda>s. (s, [MessageDelta (Some (map_finish_reason r)) u, MessageStop])))))"

(* map: src/crates/caliban-provider-openai/src/stream_parse.rs 141-310 map_openai_sse_to_events *)
definition emit_choice :: "usage option \<Rightarrow> chunk_choice \<Rightarrow> emitter" where
  "emit_choice u c =
     (let d = cc_delta c in
      emit_then (emit_reasoning (dl_reasoning d)) (emit_then (emit_text (dl_content d))
        (emit_then (emit_text (dl_refusal d)) (emit_then (emit_all emit_call (dl_tool_calls d))
          (emit_finish u (cc_finish_reason c))))))"

(* map: src/crates/caliban-provider-openai/src/stream_parse.rs 111-118 map_openai_sse_to_events *)
definition emit_start :: "chunk \<Rightarrow> emitter" where
  "emit_start ck s =
     (if ss_started s then (s, []) else (s\<lparr>ss_started := True\<rparr>, [MessageStart (ck_id ck) (ck_model ck)]))"

definition finish_of :: "chunk \<Rightarrow> finish_reason option" where
  "finish_of ck = (case ck_choices ck of [] \<Rightarrow> None | c # _ \<Rightarrow> cc_finish_reason c)"

(* map: src/crates/caliban-provider-openai/src/stream_parse.rs 111-322 map_openai_sse_to_events *)
definition emit_chunk :: "chunk \<Rightarrow> emitter" where
  "emit_chunk ck =
     (let u = map_option ir_usage (ck_usage ck) in
      emit_then (emit_start ck)
        (emit_then (case ck_choices ck of [] \<Rightarrow> emit_none | c # _ \<Rightarrow> emit_choice u c)
          (\<lambda>s. (s, if u \<noteq> None \<and> finish_of ck = None then [MessageDelta None u] else []))))"

text \<open>
  \<open>parse\<close> reads a chunk and \<open>upstream\<close> the error envelope
  \<open>extract_upstream_error\<close> looks for; both are derived deserializers.
\<close>

(* map: src/crates/caliban-provider-openai/src/stream_parse.rs 61-110 map_openai_sse_to_events *)
fun openai_events ::
  "(string \<Rightarrow> (chunk, string) result) \<Rightarrow> (string \<Rightarrow> string option) \<Rightarrow> stream_state \<Rightarrow> sse_item list \<Rightarrow>
   stream_item list" where
  "openai_events parse upstream s [] = []"
| "openai_events parse upstream s (SseTransport e # items) = [Err (Network e)]"
| "openai_events parse upstream s (SseBroken e # items) =
     [Err (openai_to_provider (OaStreamParse e))]"
| "openai_events parse upstream s (SseData d # items) =
     (if d = [] then openai_events parse upstream s items
      else if trim d = ''[DONE]'' then []
      else
        (case parse d of
           Ok ck \<Rightarrow>
             (let (s', es) = emit_chunk ck s in map Ok es @ openai_events parse upstream s' items)
         | Err e \<Rightarrow>
             (case upstream d of
                Some msg \<Rightarrow> [Err (openai_to_provider (OaUpstreamError msg))]
              | None \<Rightarrow> [Err (openai_to_provider
                  (OaStreamParse (''chunk parse error: '' @ e @ ''; data: '' @ d)))])))"

(* map: src/crates/caliban-provider-openai/src/stream_parse.rs 54-60 map_openai_sse_to_events *)
definition map_openai_sse_to_events ::
  "(string \<Rightarrow> (chunk, string) result) \<Rightarrow> (string \<Rightarrow> string option) \<Rightarrow> sse_item list \<Rightarrow> stream_item list" where
  "map_openai_sse_to_events parse upstream items = openai_events parse upstream stream_init items"

section \<open>The stream is shaped\<close>

text \<open>
  The parser's state and the consumer's slots agree on what is open: at most one of text and
  reasoning, which is the newest block, and the calls.
\<close>

definition slots_ok :: "stream_state \<Rightarrow> slot_kind list \<Rightarrow> bool" where
  "slots_ok s ks \<longleftrightarrow>
     length ks = ss_next s \<and>
     (ss_text_open s \<longrightarrow> \<not> ss_thinking_open s \<and> ss_next s = Suc (ss_text_index s) \<and>
        ks ! ss_text_index s = TextSlot) \<and>
     (ss_thinking_open s \<longrightarrow> ss_next s = Suc (ss_thinking_index s) \<and> ks ! ss_thinking_index s = ThinkingSlot) \<and>
     distinct (map snd (ss_tools s)) \<and>
     (\<forall>j \<in> snd ` set (ss_tools s). j < ss_next s \<and> ks ! j = ToolSlot) \<and>
     (\<forall>i < ss_next s. ks ! i \<noteq> Vacant \<longrightarrow>
        ss_text_open s \<and> i = ss_text_index s \<or> ss_thinking_open s \<and> i = ss_thinking_index s \<or>
        i \<in> snd ` set (ss_tools s))"

definition stream_ok :: "stream_state \<Rightarrow> accumulator \<Rightarrow> bool" where
  "stream_ok s a \<longleftrightarrow> acc_even a \<and> slots_ok s (kinds a)"

lemma tool_slot:
  assumes "stream_ok s a" "j \<in> snd ` set (ss_tools s)"
  shows "acc_even a \<and> j < length (ma_active a) \<and> (\<exists>i n b. ma_active a ! j = Some (ActiveToolUse i n b))"
proof -
  have "length (ma_active a) = ss_next s" "j < ss_next s" "kinds a ! j = ToolSlot" "acc_even a"
    using assms by (auto simp: stream_ok_def slots_ok_def kinds_def)
  then show ?thesis by (simp add: kinds_def kind_of_iff)
qed

text \<open>
  An emitter keeps the agreement, emits a shaped piece of stream, and adds the text, the
  reasoning and the usage it was given, neither more nor less.
\<close>

definition adds :: "(string \<Rightarrow> json option) \<Rightarrow> stream_event list \<Rightarrow> accumulator \<Rightarrow> string \<Rightarrow> string \<Rightarrow> usage \<Rightarrow> bool" where
  "adds parse es a t h u \<longleftrightarrow>
     shaped_stream parse es a \<and> acc_says (acc_events parse es a) = acc_says a @ t \<and>
     acc_thinks (acc_events parse es a) = acc_thinks a @ h \<and> ma_usage (acc_events parse es a) = ma_usage a + u"

definition emits ::
  "(string \<Rightarrow> json option) \<Rightarrow> (stream_state \<Rightarrow> bool) \<Rightarrow> emitter \<Rightarrow> string \<Rightarrow> string \<Rightarrow> usage \<Rightarrow>
   (stream_state \<Rightarrow> bool) \<Rightarrow> bool" where
  "emits parse P f t h u Q \<longleftrightarrow>
     (\<forall>s a s' es. stream_ok s a \<longrightarrow> P s \<longrightarrow> f s = (s', es) \<longrightarrow>
        stream_ok s' (acc_events parse es a) \<and> Q s' \<and> adds parse es a t h u)"

lemma emitsI:
  assumes "\<And>s a s' es. \<lbrakk>stream_ok s a; P s; f s = (s', es)\<rbrakk> \<Longrightarrow>
    stream_ok s' (acc_events parse es a) \<and> Q s' \<and> adds parse es a t h u"
  shows "emits parse P f t h u Q"
  using assms by (simp add: emits_def)

lemma emitsD:
  assumes "emits parse P f t h u Q" "stream_ok s a" "P s" "f s = (s', es)"
  shows "stream_ok s' (acc_events parse es a) \<and> Q s' \<and> adds parse es a t h u"
  using assms by (simp add: emits_def)

lemma adds_append:
  "adds parse es a t h u \<Longrightarrow> adds parse es' (acc_events parse es a) t' h' u' \<Longrightarrow>
   adds parse (es @ es') a (t @ t') (h @ h') (u + u')"
  by (simp add: adds_def add.assoc)

lemma emits_then:
  assumes f: "emits parse P f t h u R" and g: "emits parse R g t' h' u' Q"
  shows "emits parse P (emit_then f g) (t @ t') (h @ h') (u + u') Q"
proof (rule emitsI)
  fix s a s' es
  assume ok: "stream_ok s a" "P s" and run: "emit_then f g s = (s', es)"
  obtain s1 e1 where 1: "f s = (s1, e1)" by fastforce
  obtain s2 e2 where 2: "g s1 = (s2, e2)" by fastforce
  have d1: "stream_ok s1 (acc_events parse e1 a)" "R s1" "adds parse e1 a t h u"
    using emitsD [OF f ok 1] by simp_all
  have "s' = s2" "es = e1 @ e2" using run 1 2 by (simp_all add: emit_then_def)
  then show "stream_ok s' (acc_events parse es a) \<and> Q s' \<and> adds parse es a (t @ t') (h @ h') (u + u')"
    using emitsD [OF g d1(1,2) 2] adds_append [OF d1(3)] by simp
qed

lemma emits_weaken:
  "emits parse P f t h u Q \<Longrightarrow> (\<And>s. P' s \<Longrightarrow> P s) \<Longrightarrow> (\<And>s. Q s \<Longrightarrow> Q' s) \<Longrightarrow> emits parse P' f t h u Q'"
  unfolding emits_def by blast

lemma emits_none: "emits parse P emit_none [] [] 0 P"
  by (rule emitsI) (simp add: emit_none_def adds_def)

section \<open>The primitive emitters\<close>

lemma acc_open:
  assumes "acc_even a" "opened ct = Some b"
  shows "acc_event parse (ContentBlockStart (length (ma_active a)) ct) a =
    a\<lparr>ma_active := ma_active a @ [Some b], ma_blocks := ma_blocks a @ [text_cb []]\<rparr>"
  using assms by (simp add: ensure_index_def grow_def acc_even_def Let_def)

lemma kinds_open:
  assumes "acc_even a" "opened ct = Some b"
  shows "acc_even (acc_event parse (ContentBlockStart (length (ma_active a)) ct) a) \<and>
    kinds (acc_event parse (ContentBlockStart (length (ma_active a)) ct) a) = kinds a @ [kind_of (Some b)]"
  unfolding acc_open [OF assms] using assms(1) by (simp add: kinds_def acc_even_def)

lemma says_open:
  assumes "acc_even a" "opened ct = Some b"
  shows "acc_says (a\<lparr>ma_active := ma_active a @ [Some b], ma_blocks := ma_blocks a @ [x]\<rparr>) = acc_says a"
    "acc_thinks (a\<lparr>ma_active := ma_active a @ [Some b], ma_blocks := ma_blocks a @ [x]\<rparr>) = acc_thinks a"
    "acc_even (a\<lparr>ma_active := ma_active a @ [Some b], ma_blocks := ma_blocks a @ [x]\<rparr>)"
  using assms by (cases ct; auto simp: acc_says_def acc_thinks_def acc_even_def)+

lemma acc_stop:
  assumes "acc_even a" "i < length (ma_active a)" "ma_active a ! i = Some b"
  shows "acc_event parse (ContentBlockStop i) a =
    a\<lparr>ma_active := (ma_active a)[i := None], ma_blocks := (ma_blocks a)[i := finish_block parse b]\<rparr>"
  using assms by (simp add: finalize_block_def acc_even_def Let_def)

lemma kinds_stop:
  assumes "acc_even a" "i < length (ma_active a)" "ma_active a ! i = Some b"
  shows "kinds (acc_event parse (ContentBlockStop i) a) = (kinds a)[i := Vacant]"
  unfolding acc_stop [OF assms] by (simp add: kinds_def map_update)

lemma says_stop:
  assumes "acc_even a" "i < length (ma_active a)" "ma_active a ! i = Some b"
  shows "acc_says (acc_event parse (ContentBlockStop i) a) = acc_says a"
    "acc_thinks (acc_event parse (ContentBlockStop i) a) = acc_thinks a"
    "acc_even (acc_event parse (ContentBlockStop i) a)"
proof -
  have "slot_says (None, finish_block parse b) = slot_says (Some b, x)"
    "slot_thinks (None, finish_block parse b) = slot_thinks (Some b, x)" for x
    by (cases b; simp add: text_cb_def)+
  then show "acc_says (acc_event parse (ContentBlockStop i) a) = acc_says a"
    "acc_thinks (acc_event parse (ContentBlockStop i) a) = acc_thinks a"
    using assms by (simp_all only: acc_stop acc_says_def acc_thinks_def)
      (simp_all add: acc_even_def map_zip_keep)
  show "acc_even (acc_event parse (ContentBlockStop i) a)"
    using assms by (simp add: acc_stop acc_even_def del: acc_event.simps)
qed

lemma adds_stop:
  assumes "acc_even a" "i < length (ma_active a)" "ma_active a ! i = Some b"
  shows "adds parse [ContentBlockStop i] a [] [] 0"
proof -
  have "ma_usage (acc_event parse (ContentBlockStop i) a) = ma_usage a"
    unfolding acc_stop [OF assms] by simp
  then show ?thesis
    using assms says_stop [OF assms] by (simp add: adds_def block_open_def del: acc_event.simps)
qed

lemma emits_close_text:
  "emits parse (\<lambda>s. True) close_text [] [] 0 (\<lambda>s. \<not> ss_text_open s)"
proof (rule emitsI)
  fix s a s' es
  assume ok: "stream_ok s a" and run: "close_text s = (s', es)"
  show "stream_ok s' (acc_events parse es a) \<and> \<not> ss_text_open s' \<and> adds parse es a [] [] 0"
  proof (cases "ss_text_open s")
    case True
    then obtain t where t: "acc_even a" "ss_text_index s < length (ma_active a)"
        "ma_active a ! ss_text_index s = Some (ActiveText t)"
      using ok by (auto simp: stream_ok_def slots_ok_def kinds_def kind_of_iff)
    have e: "s' = s\<lparr>ss_text_open := False\<rparr>" "es = [ContentBlockStop (ss_text_index s)]"
      using run True by (simp_all add: close_text_def)
    have "stream_ok s' (acc_event parse (ContentBlockStop (ss_text_index s)) a)"
      unfolding stream_ok_def kinds_stop [OF t]
      using ok True t e(1) says_stop(3) [OF t]
      by (auto simp: stream_ok_def slots_ok_def nth_list_update kinds_def)
    then show ?thesis using e adds_stop [OF t] by (simp del: acc_event.simps)
  next
    case False
    then show ?thesis using run ok by (simp add: close_text_def adds_def)
  qed
qed

lemma emits_close_thinking:
  "emits parse (\<lambda>s. ss_text_open s \<longrightarrow> c) close_thinking [] [] 0
     (\<lambda>s. (ss_text_open s \<longrightarrow> c) \<and> \<not> ss_thinking_open s)"
proof (rule emitsI)
  fix s a s' es
  assume ok: "stream_ok s a" and c: "ss_text_open s \<longrightarrow> c" and run: "close_thinking s = (s', es)"
  show "stream_ok s' (acc_events parse es a) \<and> ((ss_text_open s' \<longrightarrow> c) \<and> \<not> ss_thinking_open s') \<and>
    adds parse es a [] [] 0"
  proof (cases "ss_thinking_open s")
    case True
    then obtain t g where t: "acc_even a" "ss_thinking_index s < length (ma_active a)"
        "ma_active a ! ss_thinking_index s = Some (ActiveThinking t g)"
      using ok by (auto simp: stream_ok_def slots_ok_def kinds_def kind_of_iff)
    have e: "s' = s\<lparr>ss_thinking_open := False\<rparr>" "es = [ContentBlockStop (ss_thinking_index s)]"
      using run True by (simp_all add: close_thinking_def)
    have "stream_ok s' (acc_event parse (ContentBlockStop (ss_thinking_index s)) a)"
      unfolding stream_ok_def kinds_stop [OF t]
      using ok True t e(1) says_stop(3) [OF t]
      by (auto simp: stream_ok_def slots_ok_def nth_list_update kinds_def)
    then show ?thesis using e c adds_stop [OF t] by (simp del: acc_event.simps)
  next
    case False
    then show ?thesis using run ok c by (simp add: close_thinking_def adds_def)
  qed
qed

lemma adds_open:
  assumes "acc_even a" "opened ct = Some b"
  shows "adds parse [ContentBlockStart (length (ma_active a)) ct] a [] [] 0"
proof -
  have "ct \<noteq> CtImage" using assms(2) by auto
  then show ?thesis
    using says_open [OF assms] acc_open [OF assms, of parse]
    by (simp add: adds_def block_open_def del: acc_event.simps)
qed

lemma emits_open_text:
  "emits parse (\<lambda>s. \<not> ss_thinking_open s) open_text [] [] 0 ss_text_open"
proof (rule emitsI)
  fix s a s' es
  assume ok: "stream_ok s a" and c: "\<not> ss_thinking_open s" and run: "open_text s = (s', es)"
  show "stream_ok s' (acc_events parse es a) \<and> ss_text_open s' \<and> adds parse es a [] [] 0"
  proof (cases "ss_text_open s")
    case True
    then show ?thesis using run ok by (simp add: open_text_def adds_def)
  next
    case False
    have a: "acc_even a" "ss_next s = length (ma_active a)" "opened CtText = Some (ActiveText [])"
      using ok by (auto simp: stream_ok_def slots_ok_def kinds_def kind_of_iff)
    have e: "s' = s\<lparr>ss_text_index := ss_next s, ss_next := ss_next s + 1, ss_text_open := True\<rparr>"
        "es = [ContentBlockStart (length (ma_active a)) CtText]"
      using run False a(2) by (simp_all add: open_text_def)
    have "stream_ok s' (acc_event parse (ContentBlockStart (length (ma_active a)) CtText) a)"
      using kinds_open [OF a(1,3), of parse] unfolding stream_ok_def
      using ok c False a e(1) by (auto simp: stream_ok_def slots_ok_def nth_append less_Suc_eq kinds_def)
    then show ?thesis using e adds_open [OF a(1,3)] by (simp del: acc_event.simps)
  qed
qed

lemma emits_open_thinking:
  "emits parse (\<lambda>s. \<not> ss_text_open s) open_thinking [] [] 0 ss_thinking_open"
proof (rule emitsI)
  fix s a s' es
  assume ok: "stream_ok s a" and c: "\<not> ss_text_open s" and run: "open_thinking s = (s', es)"
  show "stream_ok s' (acc_events parse es a) \<and> ss_thinking_open s' \<and> adds parse es a [] [] 0"
  proof (cases "ss_thinking_open s")
    case True
    then show ?thesis using run ok by (simp add: open_thinking_def adds_def)
  next
    case False
    have a: "acc_even a" "ss_next s = length (ma_active a)" "opened CtThinking = Some (ActiveThinking [] [])"
      using ok by (auto simp: stream_ok_def slots_ok_def kinds_def kind_of_iff)
    have e: "s' = s\<lparr>ss_thinking_index := ss_next s, ss_next := ss_next s + 1, ss_thinking_open := True\<rparr>"
        "es = [ContentBlockStart (length (ma_active a)) CtThinking]"
      using run False a(2) by (simp_all add: open_thinking_def)
    have "stream_ok s' (acc_event parse (ContentBlockStart (length (ma_active a)) CtThinking) a)"
      using kinds_open [OF a(1,3), of parse] unfolding stream_ok_def
      using ok c False a e(1) by (auto simp: stream_ok_def slots_ok_def nth_append less_Suc_eq kinds_def)
    then show ?thesis using e adds_open [OF a(1,3)] by (simp del: acc_event.simps)
  qed
qed

lemma acc_delta:
  assumes "i < length (ma_active a)" "ma_active a ! i = Some b" "extended d b = Some b'"
  shows "acc_event parse (Delta i d) a = a\<lparr>ma_active := (ma_active a)[i := Some b']\<rparr>"
  using assms by simp

lemma ok_extend:
  assumes "stream_ok s a" "i < length (ma_active a)" "ma_active a ! i = Some b" "extended d b = Some b'"
  shows "stream_ok s (acc_event parse (Delta i d) a)"
proof -
  have "kinds (acc_event parse (Delta i d) a) = kinds a"
    unfolding acc_delta [OF assms(2-4)] using assms(2,3) kind_extended [OF assms(4)]
    by (simp add: kinds_def map_update list_update_same_conv)
  moreover have "acc_even (acc_event parse (Delta i d) a)"
    unfolding acc_delta [OF assms(2-4)] using assms(1) by (simp add: stream_ok_def acc_even_def)
  ultimately show ?thesis using assms(1) by (simp add: stream_ok_def)
qed

text \<open>A delta for the newest block adds to what that block holds.\<close>

lemma extend_newest:
  assumes "acc_even a" "Suc i = length (ma_active a)" "ma_active a ! i = Some b"
  shows "slot_says (Some b', ma_blocks a ! i) = slot_says (Some b, ma_blocks a ! i) @ t \<Longrightarrow>
      acc_says (a\<lparr>ma_active := (ma_active a)[i := Some b']\<rparr>) = acc_says a @ t"
    "slot_thinks (Some b', ma_blocks a ! i) = slot_thinks (Some b, ma_blocks a ! i) @ t \<Longrightarrow>
      acc_thinks (a\<lparr>ma_active := (ma_active a)[i := Some b']\<rparr>) = acc_thinks a @ t"
proof -
  have i: "i < length (ma_active a)" "length (ma_active a) = length (ma_blocks a)"
    using assms by (auto simp: acc_even_def)
  have last: "concat ((map f (zip (ma_active a) (ma_blocks a)))[i := f (Some b, ma_blocks a ! i) @ t]) =
      concat (map f (zip (ma_active a) (ma_blocks a))) @ t" for f
    using concat_update_last [of i "map f (zip (ma_active a) (ma_blocks a))" t] i assms(2,3) by simp
  show "slot_says (Some b', ma_blocks a ! i) = slot_says (Some b, ma_blocks a ! i) @ t \<Longrightarrow>
      acc_says (a\<lparr>ma_active := (ma_active a)[i := Some b']\<rparr>) = acc_says a @ t"
    using last [of slot_says] by (simp add: acc_says_def map_zip_extend [OF i])
  show "slot_thinks (Some b', ma_blocks a ! i) = slot_thinks (Some b, ma_blocks a ! i) @ t \<Longrightarrow>
      acc_thinks (a\<lparr>ma_active := (ma_active a)[i := Some b']\<rparr>) = acc_thinks a @ t"
    using last [of slot_thinks] by (simp add: acc_thinks_def map_zip_extend [OF i])
qed

lemma emits_text_delta:
  "emits parse ss_text_open (\<lambda>s. (s, [Delta (ss_text_index s) (DText t)])) t [] 0 (\<lambda>s. True)"
proof (rule emitsI)
  fix s a s' es
  assume ok: "stream_ok s a" and c: "ss_text_open s"
    and run: "(s, [Delta (ss_text_index s) (DText t)]) = (s', es)"
  let ?i = "ss_text_index s"
  obtain x where a: "acc_even a" "Suc ?i = length (ma_active a)" "ma_active a ! ?i = Some (ActiveText x)"
    using ok c by (auto simp: stream_ok_def slots_ok_def kinds_def kind_of_iff)
  have step: "acc_event parse (Delta ?i (DText t)) a = a\<lparr>ma_active := (ma_active a)[?i := Some (ActiveText (x @ t))]\<rparr>"
    by (rule acc_delta) (use a in auto)
  have "stream_ok s (acc_event parse (Delta ?i (DText t)) a)"
    by (rule ok_extend [OF ok]) (use a in auto)
  moreover have "shaped (Delta ?i (DText t)) a" using a by (simp add: block_open_def)
  moreover have "acc_says (acc_event parse (Delta ?i (DText t)) a) = acc_says a @ t"
    unfolding step by (rule extend_newest(1) [OF a]) simp
  moreover have "acc_thinks (acc_event parse (Delta ?i (DText t)) a) = acc_thinks a @ []"
    unfolding step by (rule extend_newest(2) [OF a]) simp
  moreover have "ma_usage (acc_event parse (Delta ?i (DText t)) a) = ma_usage a" unfolding step by simp
  ultimately show "stream_ok s' (acc_events parse es a) \<and> True \<and> adds parse es a t [] 0"
    using run by (auto simp: adds_def simp del: acc_event.simps shaped.simps)
qed

lemma emits_thinking_delta:
  "emits parse ss_thinking_open (\<lambda>s. (s, [Delta (ss_thinking_index s) (DThinking t)])) [] t 0 (\<lambda>s. True)"
proof (rule emitsI)
  fix s a s' es
  assume ok: "stream_ok s a" and c: "ss_thinking_open s"
    and run: "(s, [Delta (ss_thinking_index s) (DThinking t)]) = (s', es)"
  let ?i = "ss_thinking_index s"
  obtain x g where a: "acc_even a" "Suc ?i = length (ma_active a)" "ma_active a ! ?i = Some (ActiveThinking x g)"
    using ok c by (auto simp: stream_ok_def slots_ok_def kinds_def kind_of_iff)
  have step: "acc_event parse (Delta ?i (DThinking t)) a =
      a\<lparr>ma_active := (ma_active a)[?i := Some (ActiveThinking (x @ t) g)]\<rparr>"
    by (rule acc_delta) (use a in auto)
  have "stream_ok s (acc_event parse (Delta ?i (DThinking t)) a)"
    by (rule ok_extend [OF ok]) (use a in auto)
  moreover have "shaped (Delta ?i (DThinking t)) a" using a by (simp add: block_open_def)
  moreover have "acc_says (acc_event parse (Delta ?i (DThinking t)) a) = acc_says a @ []"
    unfolding step by (rule extend_newest(1) [OF a]) simp
  moreover have "acc_thinks (acc_event parse (Delta ?i (DThinking t)) a) = acc_thinks a @ t"
    unfolding step by (rule extend_newest(2) [OF a]) simp
  moreover have "ma_usage (acc_event parse (Delta ?i (DThinking t)) a) = ma_usage a" unfolding step by simp
  ultimately show "stream_ok s' (acc_events parse es a) \<and> True \<and> adds parse es a [] t 0"
    using run by (auto simp: adds_def simp del: acc_event.simps shaped.simps)
qed

section \<open>The composed emitters\<close>

lemma emits_then0:
  "emits parse P f [] [] 0 R \<Longrightarrow> emits parse R g t h u Q \<Longrightarrow> emits parse P (emit_then f g) t h u Q"
  using emits_then [of parse P f "[]" "[]" 0 R g t h u Q] by simp

lemma emits_reasoning:
  "emits parse (\<lambda>s. True) (emit_reasoning r) [] (unwrap_or [] r) 0 (\<lambda>s. True)"
proof -
  have "emits parse (\<lambda>s. True) (emit_then close_text (emit_then open_thinking
      (\<lambda>s. (s, [Delta (ss_thinking_index s) (DThinking t)])))) [] t 0 (\<lambda>s. True)" for t
    by (rule emits_then0 [OF emits_close_text emits_then0 [OF emits_open_thinking emits_thinking_delta]])
  then show ?thesis
    using emits_none [of parse "\<lambda>s. True"] by (cases r) (auto simp: emit_reasoning_def)
qed

lemma emits_text: "emits parse (\<lambda>s. True) (emit_text c) (unwrap_or [] c) [] 0 (\<lambda>s. True)"
proof -
  have "emits parse (\<lambda>s. True) close_thinking [] [] 0 (\<lambda>s. \<not> ss_thinking_open s)"
    by (rule emits_weaken [OF emits_close_thinking [of parse True]]) simp_all
  then have "emits parse (\<lambda>s. True) (emit_then close_thinking (emit_then open_text
      (\<lambda>s. (s, [Delta (ss_text_index s) (DText t)])))) t [] 0 (\<lambda>s. True)" for t
    by (rule emits_then0 [OF _ emits_then0 [OF emits_open_text emits_text_delta]])
  then show ?thesis
    using emits_none [of parse "\<lambda>s. True"] by (cases c) (simp_all add: emit_text_def)
qed

lemma emits_arguments: "emits parse (\<lambda>s. True) (emit_arguments tc) [] [] 0 (\<lambda>s. True)"
proof (rule emitsI)
  fix s a s' es
  assume ok: "stream_ok s a" and run: "emit_arguments tc s = (s', es)"
  show "stream_ok s' (acc_events parse es a) \<and> True \<and> adds parse es a [] [] 0"
  proof (cases "es = []")
    case True
    then show ?thesis using run ok by (simp add: emit_arguments_def adds_def)
  next
    case False
    then obtain j x where j: "map_of (ss_tools s) (cd_index tc) = Some j" "s' = s"
        "es = [Delta j (DToolUseInputJson x)]"
      using run unfolding emit_arguments_def
      by (cases "map_of (ss_tools s) (cd_index tc)"; cases "Option.bind (cd_function tc) snd")
         (auto split: if_splits)
    then have "j \<in> snd ` set (ss_tools s)" by (force dest: map_of_SomeD)
    then obtain i n b where a: "acc_even a" "j < length (ma_active a)"
        "ma_active a ! j = Some (ActiveToolUse i n b)"
      using tool_slot [OF ok] by blast
    have step: "acc_event parse (Delta j (DToolUseInputJson x)) a =
        a\<lparr>ma_active := (ma_active a)[j := Some (ActiveToolUse i n (b @ x))]\<rparr>"
      by (rule acc_delta [OF a(2,3)]) simp
    have "stream_ok s (acc_event parse (Delta j (DToolUseInputJson x)) a)"
      by (rule ok_extend [OF ok a(2,3)]) simp
    moreover have "adds parse es a [] [] 0"
    proof -
      have "map slot_says (zip ((ma_active a)[j := Some (ActiveToolUse i n (b @ x))]) (ma_blocks a)) =
          map slot_says (zip (ma_active a) (ma_blocks a))"
        "map slot_thinks (zip ((ma_active a)[j := Some (ActiveToolUse i n (b @ x))]) (ma_blocks a)) =
          map slot_thinks (zip (ma_active a) (ma_blocks a))"
        by (rule map_zip_keep_left; use a in \<open>simp add: acc_even_def\<close>)+
      then have "acc_says (acc_event parse (Delta j (DToolUseInputJson x)) a) = acc_says a"
        "acc_thinks (acc_event parse (Delta j (DToolUseInputJson x)) a) = acc_thinks a"
        "ma_usage (acc_event parse (Delta j (DToolUseInputJson x)) a) = ma_usage a"
        unfolding step by (simp_all add: acc_says_def acc_thinks_def)
      moreover have "shaped (Delta j (DToolUseInputJson x)) a" using a by (simp add: block_open_def)
      ultimately show ?thesis using j(3) by (simp add: adds_def del: acc_event.simps shaped.simps)
    qed
    ultimately show ?thesis using j by (simp del: acc_event.simps)
  qed
qed

lemma emits_open_tool:
  "emits parse (\<lambda>s. \<not> ss_text_open s \<and> \<not> ss_thinking_open s) (open_tool tc) [] [] 0 (\<lambda>s. True)"
proof (rule emitsI)
  fix s a s' es
  assume ok: "stream_ok s a" and c: "\<not> ss_text_open s \<and> \<not> ss_thinking_open s"
    and run: "open_tool tc s = (s', es)"
  let ?ct = "CtToolUse (call_id_of tc) (unwrap_or [] (Option.bind (cd_function tc) fst))"
  obtain b where a: "acc_even a" "ss_next s = length (ma_active a)" "opened ?ct = Some b"
      "b = ActiveToolUse (call_id_of tc) (unwrap_or [] (Option.bind (cd_function tc) fst)) []"
    using ok by (auto simp: stream_ok_def slots_ok_def kinds_def kind_of_iff)
  have e: "s' = s\<lparr>ss_next := ss_next s + 1, ss_tools := (cd_index tc, ss_next s) # ss_tools s\<rparr>"
      "es = [ContentBlockStart (length (ma_active a)) ?ct]"
    using run a(2) by (simp_all add: open_tool_def)
  have "stream_ok s' (acc_event parse (ContentBlockStart (length (ma_active a)) ?ct) a)"
    using kinds_open [OF a(1,3), of parse] unfolding stream_ok_def
    using ok c a e(1) by (auto simp: stream_ok_def slots_ok_def nth_append less_Suc_eq kinds_def)
  then show "stream_ok s' (acc_events parse es a) \<and> True \<and> adds parse es a [] [] 0"
    using e adds_open [OF a(1,3)] by (simp del: acc_event.simps)
qed

lemma emits_call: "emits parse (\<lambda>s. True) (emit_call tc) [] [] 0 (\<lambda>s. True)"
proof -
  have "emits parse (\<lambda>s. \<not> ss_text_open s) close_thinking [] [] 0
      (\<lambda>s. \<not> ss_text_open s \<and> \<not> ss_thinking_open s)"
    by (rule emits_weaken [OF emits_close_thinking [of parse False]]) simp_all
  then have "emits parse (\<lambda>s. True) (emit_then close_text (emit_then close_thinking
      (emit_then (open_tool tc) (emit_arguments tc)))) [] [] 0 (\<lambda>s. True)"
    by (rule emits_then0 [OF emits_close_text emits_then0 [OF _ emits_then0 [OF emits_open_tool emits_arguments]]])
  then show ?thesis
    using emits_arguments [of parse tc] unfolding emits_def emit_call_def by (auto split: if_splits)
qed

lemma emits_calls: "emits parse (\<lambda>s. True) (emit_all emit_call tcs) [] [] 0 (\<lambda>s. True)"
  by (induction tcs) (simp_all add: emits_none emits_then0 [OF emits_call])

lemma close_many:
  assumes "acc_even a" "distinct js" "\<And>j. j \<in> set js \<Longrightarrow> block_open a j"
  shows "adds parse (map ContentBlockStop js) a [] [] 0 \<and>
    acc_even (acc_events parse (map ContentBlockStop js) a) \<and>
    length (kinds (acc_events parse (map ContentBlockStop js) a)) = length (kinds a) \<and>
    (\<forall>i < length (kinds a). kinds (acc_events parse (map ContentBlockStop js) a) ! i =
       (if i \<in> set js then Vacant else kinds a ! i))"
  using assms
proof (induction js arbitrary: a)
  case Nil
  then show ?case by (simp add: adds_def)
next
  case (Cons j js)
  then have "block_open a j" by simp
  then obtain b where j: "j < length (ma_active a)" "ma_active a ! j = Some b"
    by (auto simp: block_open_def)
  let ?a = "acc_event parse (ContentBlockStop j) a"
  note k = kinds_stop [OF Cons.prems(1) j, of parse]
  have open': "block_open ?a i" if "i \<in> set js" for i
  proof -
    have i: "i < length (ma_active a)" "ma_active a ! i \<noteq> None" "i \<noteq> j"
      using Cons.prems that by (auto simp: block_open_def)
    then show ?thesis unfolding acc_stop [OF Cons.prems(1) j] by (simp add: block_open_def)
  qed
  have e: "acc_even ?a" by (rule says_stop(3) [OF Cons.prems(1) j])
  have d: "distinct js" using Cons.prems(2) by simp
  note ih = Cons.IH [OF e d open']
  have a: "adds parse ([ContentBlockStop j] @ map ContentBlockStop js) a [] [] 0"
    using adds_append [OF adds_stop [OF Cons.prems(1) j, of parse], of "map ContentBlockStop js" "[]" "[]" 0] ih
    by (simp del: acc_event.simps)
  show ?case
    using ih a k by (auto simp: nth_list_update simp del: acc_event.simps)
qed

lemma emits_close_tools:
  "emits parse (\<lambda>s. \<not> ss_text_open s \<and> \<not> ss_thinking_open s) close_tools [] [] 0
     (\<lambda>s. \<not> ss_text_open s \<and> \<not> ss_thinking_open s \<and> ss_tools s = [])"
proof (rule emitsI)
  fix s a s' es
  assume ok: "stream_ok s a" and c: "\<not> ss_text_open s \<and> \<not> ss_thinking_open s"
    and run: "close_tools s = (s', es)"
  let ?js = "sort (map snd (ss_tools s))"
  have e: "s' = s\<lparr>ss_tools := []\<rparr>" "es = map ContentBlockStop ?js"
    using run by (simp_all add: close_tools_def)
  have open': "block_open a j" if "j \<in> set ?js" for j
  proof -
    have "j \<in> snd ` set (ss_tools s)" using that by simp
    from tool_slot [OF ok this] show ?thesis by (auto simp: block_open_def)
  qed
  have ev: "acc_even a" "slots_ok s (kinds a)" using ok by (simp_all add: stream_ok_def)
  then have d: "distinct ?js" by (simp add: slots_ok_def)
  note m = close_many [OF ev(1) d open', of parse]
  have "slots_ok s' (kinds (acc_events parse es a))"
    using m ev(2) c unfolding slots_ok_def e by auto
  then show "stream_ok s' (acc_events parse es a) \<and>
      (\<not> ss_text_open s' \<and> \<not> ss_thinking_open s' \<and> ss_tools s' = []) \<and> adds parse es a [] [] 0"
    using m c e by (simp add: stream_ok_def)
qed

definition idle_state :: "stream_state \<Rightarrow> bool" where
  "idle_state s \<longleftrightarrow> \<not> ss_text_open s \<and> \<not> ss_thinking_open s \<and> ss_tools s = []"

lemma idle_closed: "stream_ok s a \<Longrightarrow> idle_state s \<Longrightarrow> \<not> block_open a i"
  by (auto simp: stream_ok_def slots_ok_def idle_state_def block_open_def kinds_def kind_of_iff)

lemma emits_message_delta:
  "emits parse P (\<lambda>s. (s, [MessageDelta r u])) [] [] (unwrap_or 0 u) P"
  "emits parse P (\<lambda>s. (s, [MessageDelta r u, MessageStop])) [] [] (unwrap_or 0 u) P"
  by (rule emitsI; auto simp: adds_def stream_ok_def kinds_def acc_even_def acc_says_def acc_thinks_def)+

lemma emits_finish:
  "emits parse (\<lambda>s. True) (emit_finish u fin) [] [] (if fin = None then 0 else unwrap_or 0 u)
     (\<lambda>s. fin \<noteq> None \<longrightarrow> idle_state s)"
proof (cases fin)
  case None
  then show ?thesis using emits_none [of parse "\<lambda>s. True"] by (simp add: emit_finish_def)
next
  case (Some r)
  have "emits parse (\<lambda>s. \<not> ss_text_open s) close_thinking [] [] 0
      (\<lambda>s. \<not> ss_text_open s \<and> \<not> ss_thinking_open s)"
    by (rule emits_weaken [OF emits_close_thinking [of parse False]]) simp_all
  moreover have "emits parse (\<lambda>s. \<not> ss_text_open s \<and> \<not> ss_thinking_open s) close_tools [] [] 0 idle_state"
    by (rule emits_weaken [OF emits_close_tools]) (simp_all add: idle_state_def)
  ultimately have "emits parse (\<lambda>s. True) (emit_then close_text (emit_then close_thinking (emit_then close_tools
      (\<lambda>s. (s, [MessageDelta (Some (map_finish_reason r)) u, MessageStop]))))) [] [] (unwrap_or 0 u) idle_state"
    by (rule emits_then0 [OF emits_close_text emits_then0 [OF _ emits_then0 [OF _ emits_message_delta(2)]]])
  then show ?thesis using Some by (simp add: emit_finish_def)
qed

section \<open>A chunk, and a response\<close>

definition chunk_text :: "chunk \<Rightarrow> string" where
  "chunk_text ck =
     (case ck_choices ck of
        [] \<Rightarrow> []
      | c # _ \<Rightarrow> unwrap_or [] (dl_content (cc_delta c)) @ unwrap_or [] (dl_refusal (cc_delta c)))"

definition chunk_reasoning :: "chunk \<Rightarrow> string" where
  "chunk_reasoning ck =
     (case ck_choices ck of [] \<Rightarrow> [] | c # _ \<Rightarrow> unwrap_or [] (dl_reasoning (cc_delta c)))"

definition chunk_usage :: "chunk \<Rightarrow> usage" where
  "chunk_usage ck = unwrap_or 0 (map_option ir_usage (ck_usage ck))"

lemma emits_choice:
  "emits parse (\<lambda>s. True) (emit_choice u c)
     (unwrap_or [] (dl_content (cc_delta c)) @ unwrap_or [] (dl_refusal (cc_delta c)))
     (unwrap_or [] (dl_reasoning (cc_delta c)))
     (if cc_finish_reason c = None then 0 else unwrap_or 0 u)
     (\<lambda>s. cc_finish_reason c \<noteq> None \<longrightarrow> idle_state s)"
  using emits_then [OF emits_reasoning emits_then [OF emits_text emits_then [OF emits_text emits_then
      [OF emits_calls emits_finish]]],
    of parse "dl_reasoning (cc_delta c)" "dl_content (cc_delta c)" "dl_refusal (cc_delta c)"
      "dl_tool_calls (cc_delta c)" u "cc_finish_reason c"]
  by (simp add: emit_choice_def Let_def)

lemma slots_ok_started [simp]: "slots_ok (s\<lparr>ss_started := b\<rparr>) ks = slots_ok s ks"
  by (simp add: slots_ok_def)

lemma idle_started [simp]: "idle_state (s\<lparr>ss_started := b\<rparr>) = idle_state s"
  by (simp add: idle_state_def)

lemma emits_start: "emits parse (\<lambda>s. b \<longrightarrow> idle_state s) (emit_start ck) [] [] 0 (\<lambda>s. b \<longrightarrow> idle_state s)"
  by (rule emitsI)
     (auto simp: emit_start_def adds_def stream_ok_def kinds_def acc_even_def acc_says_def
        acc_thinks_def split: if_splits)

text \<open>Nothing is open after a finish, and a chunk without choices opens nothing.\<close>

definition closed_after :: "bool \<Rightarrow> chunk \<Rightarrow> bool" where
  "closed_after b ck \<longleftrightarrow> finish_of ck \<noteq> None \<or> b \<and> ck_choices ck = []"

lemma emits_chunk:
  "emits parse (\<lambda>s. b \<longrightarrow> idle_state s) (emit_chunk ck) (chunk_text ck) (chunk_reasoning ck) (chunk_usage ck)
     (\<lambda>s. closed_after b ck \<longrightarrow> idle_state s)"
proof -
  let ?u = "map_option ir_usage (ck_usage ck)"
  let ?Q = "\<lambda>s. closed_after b ck \<longrightarrow> idle_state s"
  have choice: "emits parse (\<lambda>s. b \<longrightarrow> idle_state s) (case ck_choices ck of [] \<Rightarrow> emit_none | c # _ \<Rightarrow> emit_choice ?u c)
      (chunk_text ck) (chunk_reasoning ck) (if finish_of ck = None then 0 else unwrap_or 0 ?u) ?Q"
  proof (cases "ck_choices ck")
    case Nil
    then show ?thesis using emits_none [of parse "\<lambda>s. b \<longrightarrow> idle_state s"]
      by (simp add: chunk_text_def chunk_reasoning_def finish_of_def closed_after_def)
  next
    case (Cons c cs)
    then have "emits parse (\<lambda>s. b \<longrightarrow> idle_state s) (emit_choice ?u c) (chunk_text ck) (chunk_reasoning ck)
        (if finish_of ck = None then 0 else unwrap_or 0 ?u) ?Q"
      using emits_weaken [OF emits_choice [of parse ?u c], of "\<lambda>s. b \<longrightarrow> idle_state s" ?Q]
      by (simp add: chunk_text_def chunk_reasoning_def finish_of_def closed_after_def)
    then show ?thesis using Cons by simp
  qed
  have fin: "emits parse ?Q (\<lambda>s. (s, if ?u \<noteq> None \<and> finish_of ck = None then [MessageDelta None ?u] else []))
      [] [] (if finish_of ck = None then unwrap_or 0 ?u else 0) ?Q"
  proof (cases "?u \<noteq> None \<and> finish_of ck = None")
    case True
    then show ?thesis using emits_message_delta(1) [of parse ?Q None ?u] by simp
  next
    case False
    then have "unwrap_or 0 ?u = 0 \<or> finish_of ck \<noteq> None" by (cases ?u) auto
    then show ?thesis using False emits_none [of parse ?Q] by (auto simp: emit_none_def [abs_def])
  qed
  have total': "(if finish_of ck = None then 0 else unwrap_or 0 ?u) +
      (if finish_of ck = None then unwrap_or 0 ?u else 0) = chunk_usage ck"
    by (simp add: chunk_usage_def)
  show ?thesis
    using emits_then0 [OF emits_start emits_then [OF choice fin], of ck]
    by (simp only: emit_chunk_def Let_def total' append_Nil2)
qed

lemma emits_chunks:
  "emits parse (\<lambda>s. b \<longrightarrow> idle_state s) (emit_all emit_chunk cks) (concat (map chunk_text cks))
     (concat (map chunk_reasoning cks)) (sum_list (map chunk_usage cks))
     (\<lambda>s. foldl closed_after b cks \<longrightarrow> idle_state s)"
proof (induction cks arbitrary: b)
  case Nil
  then show ?case using emits_none [of parse "\<lambda>s. b \<longrightarrow> idle_state s"] by simp
next
  case (Cons ck cks)
  from emits_then [OF emits_chunk Cons.IH] show ?case by simp
qed

lemma stream_ok_init: "stream_ok stream_init acc_new"
  by (simp add: stream_ok_def slots_ok_def stream_init_def acc_new_def kinds_def acc_even_def)

text \<open>The chunks that are read, up to the sentinel, the end or the first failure.\<close>

fun frames_read ::
  "(string \<Rightarrow> (chunk, string) result) \<Rightarrow> (string \<Rightarrow> string option) \<Rightarrow> sse_item list \<Rightarrow> chunk list \<times> perror list" where
  "frames_read parse upstream [] = ([], [])"
| "frames_read parse upstream (SseTransport e # items) = ([], [Network e])"
| "frames_read parse upstream (SseBroken e # items) = ([], [openai_to_provider (OaStreamParse e)])"
| "frames_read parse upstream (SseData d # items) =
     (if d = [] then frames_read parse upstream items
      else if trim d = ''[DONE]'' then ([], [])
      else
        (case parse d of
           Ok ck \<Rightarrow> apfst (Cons ck) (frames_read parse upstream items)
         | Err e \<Rightarrow>
             ([], [case upstream d of
                Some msg \<Rightarrow> classify_error_body msg
              | None \<Rightarrow> openai_to_provider (OaStreamParse (''chunk parse error: '' @ e @ ''; data: '' @ d))])))"

lemma openai_events_read:
  "frames_read parse upstream items = (cks, errs) \<Longrightarrow>
   openai_events parse upstream s items = map Ok (snd (emit_all emit_chunk cks s)) @ map Err errs \<and> length errs \<le> 1"
proof (induction parse upstream s items arbitrary: cks rule: openai_events.induct)
  case (4 parse upstream s d items)
  consider "d = []" | "d \<noteq> []" "trim d = ''[DONE]''"
    | (ok) ck where "d \<noteq> []" "trim d \<noteq> ''[DONE]''" "parse d = Ok ck"
    | (err) e where "d \<noteq> []" "trim d \<noteq> ''[DONE]''" "parse d = Err e"
    by (cases "parse d") auto
  then show ?case
  proof cases
    case ok
    obtain s' es where e: "emit_chunk ck s = (s', es)" by fastforce
    obtain cks' where r: "frames_read parse upstream items = (cks', errs)" "cks = ck # cks'"
      using 4(3) ok by (cases "frames_read parse upstream items") auto
    obtain s2 es2 where e2: "emit_all emit_chunk cks' s' = (s2, es2)" by fastforce
    show ?thesis
      using 4(2) [OF ok(1,2,3) e [symmetric] refl r(1)] ok e e2 r(2) by (simp add: emit_then_def)
  qed (use 4 in \<open>auto simp: emit_none_def split: option.splits\<close>)
qed (auto simp: emit_none_def)

lemma chunks_run:
  assumes "emit_all emit_chunk cks stream_init = (s, es)"
  shows "stream_ok s (acc_events parse es acc_new) \<and> (foldl closed_after False cks \<longrightarrow> idle_state s) \<and>
    adds parse es acc_new (concat (map chunk_text cks)) (concat (map chunk_reasoning cks))
      (sum_list (map chunk_usage cks))"
  using emitsD [OF emits_chunks [of parse False cks] stream_ok_init _ assms] by simp

lemma stream_contract:
  assumes "frames_read parse upstream items = (cks, errs)"
  shows "\<exists>es. map_openai_sse_to_events parse upstream items = map Ok es @ map Err errs \<and> length errs \<le> 1 \<and>
    (\<forall>q. shaped_stream q es acc_new \<and> ma_usage (acc_events q es acc_new) = sum_list (map chunk_usage cks) \<and>
      (foldl closed_after False cks \<longrightarrow>
         (\<forall>i. \<not> block_open (acc_events q es acc_new) i) \<and>
         concat (map block_says (msg_content (into_message (acc_events q es acc_new)))) = concat (map chunk_text cks) \<and>
         concat (map block_thinks (msg_content (into_message (acc_events q es acc_new)))) =
           concat (map chunk_reasoning cks)))"
proof -
  obtain s es where run: "emit_all emit_chunk cks stream_init = (s, es)" by fastforce
  have n: "acc_says acc_new = []" "acc_thinks acc_new = []" "ma_usage acc_new = 0"
    by (simp_all add: acc_says_def acc_thinks_def acc_new_def)
  have "shaped_stream q es acc_new \<and> ma_usage (acc_events q es acc_new) = sum_list (map chunk_usage cks) \<and>
      (foldl closed_after False cks \<longrightarrow>
         (\<forall>i. \<not> block_open (acc_events q es acc_new) i) \<and>
         concat (map block_says (msg_content (into_message (acc_events q es acc_new)))) = concat (map chunk_text cks) \<and>
         concat (map block_thinks (msg_content (into_message (acc_events q es acc_new)))) =
           concat (map chunk_reasoning cks))" for q
  proof -
    let ?a = "acc_events q es acc_new"
    note r = chunks_run [OF run, of q]
    have closed: "\<not> block_open ?a i" if "foldl closed_after False cks" for i
      using idle_closed r that by blast
    have ev: "acc_even ?a" using r by (simp add: stream_ok_def)
    have "concat (map block_says (msg_content (into_message ?a))) = concat (map chunk_text cks) \<and>
        concat (map block_thinks (msg_content (into_message ?a))) = concat (map chunk_reasoning cks)"
      if "foldl closed_after False cks"
      using closed_says [OF ev closed [OF that]] r n
      by (simp add: into_message_says into_message_thinks adds_def)
    then show ?thesis using closed r n by (auto simp: adds_def)
  qed
  then show ?thesis
    using openai_events_read [OF assms, of stream_init] run
    by (intro exI [of _ es]) (simp add: map_openai_sse_to_events_def)
qed

interpretation openai: event_source "map_openai_sse_to_events parse upstream" for parse upstream
proof
  fix items
  obtain cks errs where "frames_read parse upstream items = (cks, errs)" by fastforce
  from stream_contract [OF this]
  show "\<exists>es errs. map_openai_sse_to_events parse upstream items = map Ok es @ map Err errs \<and> length errs \<le> 1 \<and>
      (\<forall>q. shaped_stream q es acc_new)" by blast
qed

text \<open>
  (C37) Whatever the server sends, the parser's output is events followed by at most one error, and
  the events keep the contract: the loop's accumulator and \<open>collect_message\<close> assemble the same
  message, stop reason and usage from them, unless a tool input does not parse, the only failure
  the collector can have of its own.
\<close>

theorem openai_stream_assembles:
  "\<exists>es errs. map_openai_sse_to_events parse upstream items = map Ok es @ map Err errs \<and> length errs \<le> 1 \<and>
     shaped_stream (parse_ok p) es acc_new \<and>
     ((\<exists>e. collect_message p (map Ok es) = Err (input_error e)) \<or>
      (\<exists>m. collect_message p (map Ok es) =
         Ok (m, unwrap_or EndTurn (ma_stop_reason (acc_events (parse_ok p) es acc_new)),
             ma_usage (acc_events (parse_ok p) es acc_new)) \<and>
       into_message (acc_events (parse_ok p) es acc_new) =
         m\<lparr>msg_content := filter (\<lambda>b. \<not> is_empty_text b) (msg_content m)\<rparr>))"
  using openai.assembles [of parse upstream items p] unfolding assembled_def by blast

text \<open>
  (C36) The message assembled from a finished stream says what the chunks said: its text is the
  chunks' content and refusals, its reasoning theirs, in order and with nothing lost or repeated
  however the two interleave; no block is left open; and the usage counted is the sum of the
  usage reported, whether it comes with the finish or in a chunk of its own.
\<close>

theorem openai_stream_delivers:
  assumes "frames_read parse upstream items = (cks, errs)" "foldl closed_after False cks"
  shows "\<exists>es. map_openai_sse_to_events parse upstream items = map Ok es @ map Err errs \<and>
    (\<forall>i. \<not> block_open (acc_events q es acc_new) i) \<and>
    concat (map block_says (msg_content (into_message (acc_events q es acc_new)))) = concat (map chunk_text cks) \<and>
    concat (map block_thinks (msg_content (into_message (acc_events q es acc_new)))) =
      concat (map chunk_reasoning cks) \<and>
    ma_usage (acc_events q es acc_new) = sum_list (map chunk_usage cks)"
  using stream_contract [OF assms(1)] assms(2) by blast

definition text_chunk :: "string option \<Rightarrow> string option \<Rightarrow> finish_reason option \<Rightarrow> chunk" where
  "text_chunk t r fin = \<lparr>ck_id = ''c'', ck_model = ''m'',
     ck_choices = [\<lparr>cc_delta = \<lparr>dl_content = t, dl_reasoning = r, dl_tool_calls = [], dl_refusal = None\<rparr>,
                    cc_finish_reason = fin\<rparr>], ck_usage = None\<rparr>"

definition sample_frames :: "string \<Rightarrow> (chunk, string) result" where
  "sample_frames d =
     (if d = ''1'' then Ok (text_chunk None (Some ''hmm'') None)
      else if d = ''2'' then Ok (text_chunk (Some ''yes'') None None)
      else if d = ''3'' then Ok (text_chunk None None (Some FinishStop))
      else if d = ''4'' then Ok ((text_chunk None None None)\<lparr>ck_choices := [],
             ck_usage := Some \<lparr>nu_prompt = 7, nu_completion = 2, nu_cached = None\<rparr>\<rparr>)
      else Err ''bad'')"

lemma trim_with_clean:
  assumes "list_all (\<lambda>w. w = [] \<or> hd w \<noteq> c) ws"
  shows "trim_with ws (c # s) = c # s"
proof -
  have "find_map (\<lambda>w. if w = [] then None else strip_prefix w (c # s)) ws = None"
    using assms by (induction ws) (auto simp: neq_Nil_conv split: option.splits)
  then show ?thesis by (subst trim_with.simps) simp
qed

lemma trim_clean:
  assumes "s \<noteq> []" "list_all (\<lambda>w. w = [] \<or> hd w \<noteq> hd s) white_space"
    "list_all (\<lambda>w. w = [] \<or> hd w \<noteq> last s) (map rev white_space)"
  shows "trim s = s"
proof -
  obtain c t where "s = c # t" using assms(1) by (cases s) auto
  then have "trim_start s = s" using trim_with_clean assms(2) by (simp add: trim_start_def)
  moreover obtain d u where "rev s = d # u" using assms(1) by (cases "rev s") auto
  then have "trim_end s = s"
    using trim_with_clean [of d "map rev white_space" u] assms(3) by (simp add: trim_end_def rev_swap)
  ultimately show ?thesis by (simp add: trim_def)
qed

lemma sample_trim:
  "trim ''1'' = ''1''" "trim ''2'' = ''2''" "trim ''3'' = ''3''" "trim ''4'' = ''4''" "trim ''[DONE]'' = ''[DONE]''"
  by (rule trim_clean; simp add: white_space_def char_of_def)+

lemma sample_read:
  "frames_read sample_frames (\<lambda>_. None) [SseData ''1'', SseData ''2'', SseData ''3'', SseData ''4'', SseData ''[DONE]'', SseData ''x''] =
     ([text_chunk None (Some ''hmm'') None, text_chunk (Some ''yes'') None None, text_chunk None None (Some FinishStop),
       (text_chunk None None None)\<lparr>ck_choices := [],
             ck_usage := Some \<lparr>nu_prompt = 7, nu_completion = 2, nu_cached = None\<rparr>\<rparr>], [])"
  using sample_trim by (simp add: sample_frames_def)

theorem openai_stream_delivers_witness:
  "\<exists>es. map_openai_sse_to_events sample_frames (\<lambda>_. None)
       [SseData ''1'', SseData ''2'', SseData ''3'', SseData ''4'', SseData ''[DONE]'', SseData ''x''] = map Ok es \<and>
     (\<forall>i. \<not> block_open (acc_events (\<lambda>_. None) es acc_new) i) \<and>
     concat (map block_says (msg_content (into_message (acc_events (\<lambda>_. None) es acc_new)))) = ''yes'' \<and>
     concat (map block_thinks (msg_content (into_message (acc_events (\<lambda>_. None) es acc_new)))) = ''hmm'' \<and>
     ma_usage (acc_events (\<lambda>_. None) es acc_new) = Usage 7 2 None None"
proof -
  have u: "chunk_usage (text_chunk t r f) = 0" for t r f by (simp add: chunk_usage_def text_chunk_def)
  have "chunk_usage ((text_chunk None None None)\<lparr>ck_choices := [],
      ck_usage := Some \<lparr>nu_prompt = 7, nu_completion = 2, nu_cached = None\<rparr>\<rparr>) = Usage 7 2 None None"
    by (simp add: chunk_usage_def ir_usage_def)
  then show ?thesis
    using openai_stream_delivers [OF sample_read, of "\<lambda>_. None"] u
    by (simp add: closed_after_def finish_of_def text_chunk_def chunk_text_def chunk_reasoning_def)
qed

text \<open>
  An empty content next to reasoning is not ignored as an empty reasoning is: it closes the
  reasoning block, and the next chunk opens another one.
\<close>

lemma empty_content_cuts_reasoning:
  "snd (emit_all emit_chunk [text_chunk (Some []) (Some ''a'') None, text_chunk (Some []) (Some ''b'') None] stream_init) =
     [MessageStart ''c'' ''m'',
      ContentBlockStart 0 CtThinking, Delta 0 (DThinking ''a''), ContentBlockStop 0,
      ContentBlockStart 1 CtText, Delta 1 (DText []), ContentBlockStop 1,
      ContentBlockStart 2 CtThinking, Delta 2 (DThinking ''b''), ContentBlockStop 2,
      ContentBlockStart 3 CtText, Delta 3 (DText [])]"
  by (simp add: text_chunk_def emit_chunk_def emit_then_def emit_start_def emit_choice_def emit_reasoning_def
    emit_text_def close_text_def close_thinking_def open_text_def open_thinking_def emit_none_def emit_finish_def
    stream_init_def Let_def)

end
