(* ===== verification/Anthropic.thy ===== *)
theory Anthropic
  imports StreamShape Router Transport
begin

text \<open>
  The adapter for Anthropic's Messages API (\<open>caliban-provider-anthropic\<close>): requests and
  responses, whose blocks correspond one to one to those of the neutral representation, errors,
  and the translation of the stream's events, which already open and close blocks.
\<close>

section \<open>The wire\<close>

(* map: src/crates/caliban-provider-anthropic/src/schema/request.rs 126-139 NativeImageSource *)
datatype an_source = AnBase64 string string | AnUrl string

(* map: src/crates/caliban-provider-anthropic/src/schema/request.rs 85-171 NativeContentBlock *)
datatype an_block =
    AnText string "cache_control option"
  | AnImage an_source "cache_control option"
  | AnToolUse string string json
  | AnToolResult string an_content bool
  | AnThinking string "string option"
  | AnRedactedThinking string
and an_content = AnPlain string | AnBlocks "an_block list"

(* map: src/crates/caliban-provider-anthropic/src/schema/request.rs 65-70 NativeMessage *)
record an_message =
  am_role :: string
  am_content :: an_content

(* map: src/crates/caliban-provider-anthropic/src/schema/request.rs 53-61 NativeSystem *)
datatype an_system = SystemText string | SystemBlocks "an_block list"

(* map: src/crates/caliban-provider-anthropic/src/schema/request.rs 184-194 NativeTool *)
record an_tool =
  at_name :: string
  at_description :: string
  at_input_schema :: json
  at_cache_control :: "cache_control option"

(* map: src/crates/caliban-provider-anthropic/src/schema/request.rs 199-209 NativeToolChoice *)
datatype an_choice = AnAuto | AnAny | AnTool string

text \<open>Thinking is its budget; its kind is always \<open>enabled\<close>.\<close>

(* map: src/crates/caliban-provider-anthropic/src/schema/request.rs 8-48 NativeRequest *)
record an_request =
  ar_model :: string
  ar_messages :: "an_message list"
  ar_system :: "an_system option"
  ar_tools :: "an_tool list"
  ar_tool_choice :: "an_choice option"
  ar_max_tokens :: nat
  ar_temperature :: "u32 option"
  ar_top_p :: "u32 option"
  ar_top_k :: "nat option"
  ar_stop_sequences :: "string list"
  ar_thinking :: "nat option"
  ar_metadata :: "string option option"
  ar_stream :: bool
  ar_anthropic_version :: "string option"

(* map: src/crates/caliban-provider-anthropic/src/schema/response.rs 33-46 NativeStopReason *)
datatype an_stop = AnEndTurn | AnMaxTokens | AnStopSequence | AnToolUseStop | AnRefusal | AnPauseTurn

(* map: src/crates/caliban-provider-anthropic/src/schema/response.rs 50-65 NativeUsage *)
record an_usage =
  au_input :: u32
  au_output :: u32
  au_cache_creation :: "u32 option"
  au_cache_read :: "u32 option"

(* map: src/crates/caliban-provider-anthropic/src/schema/response.rs 9-28 NativeResponse *)
record an_response =
  ap_id :: string
  ap_model :: string
  ap_content :: "an_block list"
  ap_stop_reason :: an_stop
  ap_stop_sequence :: "string option"
  ap_usage :: an_usage

section \<open>Requests\<close>

fun an_source_of :: "image_source \<Rightarrow> an_source" where
  "an_source_of (Base64 media_type data) = AnBase64 media_type data"
| "an_source_of (Url url) = AnUrl url"
| "an_source_of (BlobRef media_type sha) = AnBase64 media_type []"

(* map: src/crates/caliban-provider-anthropic/src/ir_convert.rs 133-180 ir_content_block_to_native *)
fun an_block_of :: "content_block \<Rightarrow> an_block" where
  "an_block_of (Text t) = AnText (tb_text t) (map_option (\<lambda>_. Ephemeral) (tb_cache_control t))"
| "an_block_of (Image i) = AnImage (an_source_of (ib_source i)) (map_option (\<lambda>_. Ephemeral) (ib_cache_control i))"
| "an_block_of (ToolUse tu) = AnToolUse (tu_id tu) (tu_name tu) (tu_input tu)"
| "an_block_of (ToolResult i content is_error) = AnToolResult i (AnBlocks (map an_block_of content)) is_error"
| "an_block_of (Thinking t) = AnThinking (th_thinking t) (th_signature t)"

(* map: src/crates/caliban-provider-anthropic/src/ir_convert.rs 182-189 ir_tool_to_native *)
definition an_tool_of :: "tool_decl \<Rightarrow> an_tool" where
  "an_tool_of t = \<lparr>at_name = td_name t, at_description = td_description t, at_input_schema = td_input_schema t,
     at_cache_control = map_option (\<lambda>_. Ephemeral) (td_cache_control t)\<rparr>"

(* map: src/crates/caliban-provider-anthropic/src/ir_convert.rs 191-201 ir_tool_choice_to_native *)
definition an_choice_of :: "tool_choice \<Rightarrow> bool \<Rightarrow> an_choice option" where
  "an_choice_of c no_tools =
     (if no_tools then None
      else (case c of
          ChooseAuto \<Rightarrow> Some AnAuto
        | ChooseAny \<Rightarrow> Some AnAny
        | ChooseSpecific name \<Rightarrow> Some (AnTool name)
        | ChooseNone \<Rightarrow> None))"

(* map: src/crates/caliban-provider-anthropic/src/ir_convert.rs 101-131 thinking_from_request *)
fun thinking_from_request :: "thinking_setting \<Rightarrow> effort option \<Rightarrow> nat option" where
  "thinking_from_request ThOff e = None"
| "thinking_from_request (ThOn (Some b)) e = Some b"
| "thinking_from_request (ThOn None) e = Some (unwrap_or 8192 (Option.bind e as_anthropic_budget))"
| "thinking_from_request ThAuto e = Option.bind e as_anthropic_budget"

fun system_block :: "content_block \<Rightarrow> (string \<times> cache_control option) option" where
  "system_block (Text t) = Some (tb_text t, map_option (\<lambda>_. Ephemeral) (tb_cache_control t))"
| "system_block _ = None"

(* map: src/crates/caliban-provider-anthropic/src/ir_convert.rs 27-63 ir_to_native_request *)
definition an_system_of :: "message list \<Rightarrow> an_system option" where
  "an_system_of leading =
     (let blocks = concat (map (\<lambda>m. List.map_filter system_block (msg_content m)) leading) in
      if blocks = [] then None
      else if list_all (\<lambda>(t, c). c = None) blocks then Some (SystemText (join (nl @ nl) (map fst blocks)))
      else Some (SystemBlocks (map (\<lambda>(t, c). AnText t c) blocks)))"

text \<open>A system message after the leading ones is a panic, \<^const>\<open>None\<close>.\<close>

(* map: src/crates/caliban-provider-anthropic/src/ir_convert.rs 65-79 ir_to_native_request *)
fun an_messages_of :: "message list \<Rightarrow> an_message list option" where
  "an_messages_of [] = Some []"
| "an_messages_of (m # ms) =
     (case (case msg_role m of User \<Rightarrow> Some ''user'' | Assistant \<Rightarrow> Some ''assistant'' | System \<Rightarrow> None) of
        None \<Rightarrow> None
      | Some role \<Rightarrow>
          map_option (Cons \<lparr>am_role = role, am_content = AnBlocks (map an_block_of (msg_content m))\<rparr>)
            (an_messages_of ms))"

(* map: src/crates/caliban-provider-anthropic/src/ir_convert.rs 23-98 ir_to_native_request *)
definition an_request_of :: "request \<Rightarrow> bool \<Rightarrow> an_request option" where
  "an_request_of req stream =
     map_option (\<lambda>messages.
         \<lparr>ar_model = rq_model req, ar_messages = messages,
          ar_system = an_system_of (takeWhile (\<lambda>m. msg_role m = System) (rq_messages req)),
          ar_tools = map an_tool_of (rq_tools req),
          ar_tool_choice = an_choice_of (rq_tool_choice req) (rq_tools req = []),
          ar_max_tokens = rq_max_tokens req, ar_temperature = rq_temperature req, ar_top_p = rq_top_p req,
          ar_top_k = rq_top_k req, ar_stop_sequences = rq_stop_sequences req,
          ar_thinking = thinking_from_request (rq_thinking req) (rq_effort req),
          ar_metadata = Some (md_user_id (rq_metadata req)), ar_stream = stream, ar_anthropic_version = None\<rparr>)
       (an_messages_of (dropWhile (\<lambda>m. msg_role m = System) (rq_messages req)))"

section \<open>Responses\<close>

fun source_of_an :: "an_source \<Rightarrow> image_source" where
  "source_of_an (AnBase64 media_type data) = Base64 media_type data"
| "source_of_an (AnUrl url) = Url url"

text \<open>The conversion of a block is fallible in the code and has no failure.\<close>

(* map: src/crates/caliban-provider-anthropic/src/ir_convert.rs 245-291 native_block_to_ir *)
fun block_of_an :: "an_block \<Rightarrow> content_block" and blocks_of_content :: "an_content \<Rightarrow> content_block list" where
  "block_of_an (AnText t c) = Text \<lparr>tb_text = t, tb_cache_control = map_option (\<lambda>_. Ephemeral) c\<rparr>"
| "block_of_an (AnImage s c) =
     Image \<lparr>ib_source = source_of_an s, ib_cache_control = map_option (\<lambda>_. Ephemeral) c, ib_sha256 = None, ib_dims = None\<rparr>"
| "block_of_an (AnToolUse i name input) = ToolUse \<lparr>tu_id = i, tu_name = name, tu_input = input\<rparr>"
| "block_of_an (AnToolResult i content is_error) = ToolResult i (blocks_of_content content) is_error"
| "block_of_an (AnThinking t s) = Thinking \<lparr>th_thinking = t, th_signature = s\<rparr>"
| "block_of_an (AnRedactedThinking data) = Thinking \<lparr>th_thinking = [], th_signature = Some data\<rparr>"
| "blocks_of_content (AnPlain s) = [text_cb s]"
| "blocks_of_content (AnBlocks bs) = map block_of_an bs"

(* map: src/crates/caliban-provider-anthropic/src/stream_parse.rs 153-161 map_stop_reason *)
fun an_stop_reason :: "an_stop \<Rightarrow> stop_reason" where
  "an_stop_reason AnEndTurn = EndTurn"
| "an_stop_reason AnPauseTurn = EndTurn"
| "an_stop_reason AnMaxTokens = MaxTokens"
| "an_stop_reason AnStopSequence = StopSequence"
| "an_stop_reason AnToolUseStop = ToolUseStop"
| "an_stop_reason AnRefusal = Refusal"

(* map: src/crates/caliban-provider-anthropic/src/stream_parse.rs 120-139 native_event_to_ir *)
definition an_usage_total :: "an_usage \<Rightarrow> usage" where
  "an_usage_total u = Usage
     (au_input u + unwrap_or 0 (au_cache_creation u) + unwrap_or 0 (au_cache_read u))
     (au_output u) (au_cache_creation u) (au_cache_read u)"

(* map: src/crates/caliban-provider-anthropic/src/ir_convert.rs 208-243 native_response_to_ir *)
definition response_of_an :: "an_response \<Rightarrow> response" where
  "response_of_an r =
     \<lparr>cr_id = ap_id r, cr_model = ap_model r,
      cr_message = \<lparr>msg_role = Assistant, msg_content = map block_of_an (ap_content r)\<rparr>,
      cr_stop_reason = an_stop_reason (ap_stop_reason r), cr_stop_sequence = ap_stop_sequence r,
      cr_usage = an_usage_total (ap_usage r)\<rparr>"

section \<open>Errors\<close>

(* map: src/crates/caliban-provider-anthropic/src/error.rs 7-38 AnthropicError *)
datatype anthropic_error =
    AnHttp http_error
  | AnBadStatus nat string "nat option"
  | AnDeserialize string
  | AnStreamParse string
  | AnMissingConfig string
  | AnTransport string

(* map: src/crates/caliban-provider-anthropic/src/error.rs 8-37 AnthropicError *)
fun anthropic_display :: "anthropic_error \<Rightarrow> string" where
  "anthropic_display (AnHttp e) = ''HTTP request failed: '' @ he_text e"
| "anthropic_display (AnBadStatus st body retry) = ''response status '' @ nat_str st @ '': '' @ body"
| "anthropic_display (AnDeserialize e) = ''deserialize error: '' @ e"
| "anthropic_display (AnStreamParse e) = ''stream parse error: '' @ e"
| "anthropic_display (AnMissingConfig e) = ''missing config field: '' @ e"
| "anthropic_display (AnTransport e) = ''transport error: '' @ e"

(* map: src/crates/caliban-provider-anthropic/src/error.rs 40-53 CONTEXT_MARKERS *)
definition anthropic_context_markers :: "string list" where
  "anthropic_context_markers =
     [''prompt is too long'', ''context window'', ''maximum context length'', ''context_length_exceeded'']"

(* map: src/crates/caliban-provider-anthropic/src/error.rs 71-108 From<AnthropicError> *)
fun anthropic_to_provider :: "anthropic_error \<Rightarrow> perror" where
  "anthropic_to_provider (AnHttp e) =
     (case classify_reqwest_error e of
        ClassStreamInterrupted \<Rightarrow> StreamInterrupted (render_source_chain e)
      | ClassNetwork \<Rightarrow> Network (anthropic_display (AnHttp e))
      | ClassAdapter \<Rightarrow> Adapter (anthropic_display (AnHttp e)))"
| "anthropic_to_provider (AnBadStatus st body retry) =
     unwrap_or (Adapter (anthropic_display (AnBadStatus st body retry)))
       (map_bad_status st body retry (\<lambda>b. unwrap_or (InvalidRequest b)
          (classify_context_too_long b anthropic_context_markers [''> ''] [''too long: ''])))"
| "anthropic_to_provider e = Adapter (anthropic_display e)"

(* map: src/crates/caliban-provider-anthropic/src/error.rs 62-68 AnthropicError::bad_status *)
definition anthropic_bad_status :: "bad_response \<Rightarrow> anthropic_error" where
  "anthropic_bad_status r = AnBadStatus (br_status r) (br_body r) (br_retry_after r)"

section \<open>The stream\<close>

(* map: src/crates/caliban-provider-anthropic/src/schema/events.rs 72-93 NativeBlockDelta *)
datatype an_delta = AnTextDelta string | AnInputJsonDelta string | AnThinkingDelta string | AnSignatureDelta string

text \<open>The header of a message is its id, its model and its usage; an error is its printed value.\<close>

(* map: src/crates/caliban-provider-anthropic/src/schema/events.rs 12-67 NativeEvent *)
datatype an_event =
    AnMessageStart string string an_usage
  | AnContentBlockStart nat an_block
  | AnContentBlockDelta nat an_delta
  | AnContentBlockStop nat
  | AnMessageDelta "an_stop option" "string option" an_usage
  | AnMessageStop
  | AnPing
  | AnError string

(* map: src/crates/caliban-provider-anthropic/src/stream_parse.rs 163-179 content_block_to_streaming_type *)
fun an_content_type :: "an_block \<Rightarrow> content_type" where
  "an_content_type (AnText _ _) = CtText"
| "an_content_type (AnThinking _ _) = CtThinking"
| "an_content_type (AnRedactedThinking _) = CtThinking"
| "an_content_type (AnToolUse i name _) = CtToolUse i name"
| "an_content_type (AnImage _ _) = CtText"
| "an_content_type (AnToolResult _ _ _) = CtText"

(* map: src/crates/caliban-provider-anthropic/src/stream_parse.rs 100-115 native_event_to_ir *)
fun delta_of_an :: "an_delta \<Rightarrow> delta" where
  "delta_of_an (AnTextDelta t) = DText t"
| "delta_of_an (AnInputJsonDelta t) = DToolUseInputJson t"
| "delta_of_an (AnThinkingDelta t) = DThinking t"
| "delta_of_an (AnSignatureDelta t) = DSignature t"

(* map: src/crates/caliban-provider-anthropic/src/stream_parse.rs 62-151 native_event_to_ir *)
fun native_event_to_ir :: "an_event \<Rightarrow> (stream_event list, perror) result" where
  "native_event_to_ir (AnMessageStart i model u) =
     (let cc = au_cache_creation u; cr = au_cache_read u in
      Ok (MessageStart i model #
          (if cc \<noteq> None \<or> cr \<noteq> None
           then [MessageDelta None (Some (Usage (unwrap_or 0 cc + unwrap_or 0 cr) 0 cc cr))] else [])))"
| "native_event_to_ir (AnContentBlockStart i b) = Ok [ContentBlockStart i (an_content_type b)]"
| "native_event_to_ir (AnContentBlockDelta i d) = Ok [Delta i (delta_of_an d)]"
| "native_event_to_ir (AnContentBlockStop i) = Ok [ContentBlockStop i]"
| "native_event_to_ir (AnMessageDelta r sq u) =
     Ok [MessageDelta (map_option an_stop_reason r) (Some (an_usage_total u))]"
| "native_event_to_ir AnMessageStop = Ok [MessageStop]"
| "native_event_to_ir AnPing = Ok [Ping]"
| "native_event_to_ir (AnError e) =
     Err (anthropic_to_provider (AnStreamParse (''server-side stream error: '' @ e)))"

(* map: src/crates/caliban-provider-anthropic/src/stream_parse.rs 26-57 map_sse_to_events *)
fun an_item_events :: "(string \<Rightarrow> (an_event, string) result) \<Rightarrow> sse_item \<Rightarrow> stream_item list" where
  "an_item_events parse (SseData d) =
     (if d = [] then []
      else (case parse d of
          Ok ne \<Rightarrow>
            (case native_event_to_ir ne of
               Ok es \<Rightarrow> map Ok (filter (\<lambda>e. e \<noteq> Ping) es)
             | Err e \<Rightarrow> [Err e])
        | Err e \<Rightarrow> [Err (anthropic_to_provider (AnStreamParse (''event parse failed: '' @ e @ ''; data: '' @ d)))]))"
| "an_item_events parse (SseTransport e) = [Err (Network e)]"
| "an_item_events parse (SseBroken e) = [Err (anthropic_to_provider (AnStreamParse e))]"

(* map: src/crates/caliban-provider-anthropic/src/stream_parse.rs 22-60 map_sse_to_events *)
definition map_sse_to_events :: "(string \<Rightarrow> (an_event, string) result) \<Rightarrow> sse_item list \<Rightarrow> stream_item list" where
  "map_sse_to_events parse items = concat (map (an_item_events parse) items)"

section \<open>The provider\<close>

(* map: src/crates/caliban-provider-anthropic/src/models.rs 7-22 caps *)
definition anthropic_caps :: "nat \<Rightarrow> nat \<Rightarrow> bool \<Rightarrow> bool \<Rightarrow> capabilities" where
  "anthropic_caps max_input max_output vision thinking =
     \<lparr>cap_max_input_tokens = max_input, cap_max_output_tokens = max_output, cap_vision = vision,
      cap_tool_use = ParallelCalls, cap_thinking = thinking, cap_prompt_caching = ExplicitCaching 4,
      cap_json_mode = False, cap_streaming = True, cap_stop_sequences = True, cap_top_k = True,
      cap_system_prompt = SeparateField, cap_refusal_field = True\<rparr>"

(* map: src/crates/caliban-provider-anthropic/src/models.rs 30-51 models *)
definition anthropic_models :: "model_info list" where
  "anthropic_models =
     [model_info_of ''claude-opus-4-7'' ''Claude Opus 4.7'' (anthropic_caps 200000 32000 True True),
      model_info_of ''claude-sonnet-4-6'' ''Claude Sonnet 4.6'' (anthropic_caps 200000 64000 True True),
      model_info_of ''claude-haiku-4-5'' ''Claude Haiku 4.5'' (anthropic_caps 200000 32000 True True)]"

(* map: src/crates/caliban-provider-anthropic/src/models.rs 57-62 capabilities_for *)
definition anthropic_capabilities_for :: "string \<Rightarrow> capabilities" where
  "anthropic_capabilities_for model =
     (case find (\<lambda>m. mi_id m = model \<or> mi_native_id m = model) anthropic_models of
        None \<Rightarrow> anthropic_caps 100000 4096 False False
      | Some m \<Rightarrow> mi_capabilities m)"

(* map: src/crates/caliban-provider-anthropic/src/transport/mod.rs 11-37 Transport *)
record ('raw, 'w) anthropic_transport =
  pt_send :: "an_request \<Rightarrow> 'w \<Rightarrow> (an_response, anthropic_error) result \<times> 'w"
  pt_stream :: "an_request \<Rightarrow> 'w \<Rightarrow> ('raw, anthropic_error) result \<times> 'w"
  pt_wire_model_id :: "string \<Rightarrow> string"
  pt_finalize :: "an_request \<Rightarrow> an_request"

(* map: src/crates/caliban-provider-anthropic/src/lib.rs 86-94 AnthropicProvider::complete *)
definition anthropic_complete ::
  "('raw, 'w) anthropic_transport \<Rightarrow> request \<Rightarrow> 'w \<Rightarrow> ((response, perror) result \<times> 'w) option" where
  "anthropic_complete t req w =
     (case request_validate req of
        Err e \<Rightarrow> Some (Err e, w)
      | Ok _ \<Rightarrow>
          map_option (\<lambda>n.
              (case pt_send t (pt_finalize t (n\<lparr>ar_model := pt_wire_model_id t (rq_model req)\<rparr>)) w of
                 (Err e, w') \<Rightarrow> (Err (anthropic_to_provider e), w')
               | (Ok r, w') \<Rightarrow> (Ok (response_of_an r), w')))
            (an_request_of req False))"

(* map: src/crates/caliban-provider-anthropic/src/lib.rs 96-104 AnthropicProvider::stream *)
definition anthropic_stream ::
  "('raw, 'w) anthropic_transport \<Rightarrow> ('raw \<Rightarrow> 'events) \<Rightarrow> request \<Rightarrow> 'w \<Rightarrow> (('events, perror) result \<times> 'w) option" where
  "anthropic_stream t events req w =
     (case request_validate req of
        Err e \<Rightarrow> Some (Err e, w)
      | Ok _ \<Rightarrow>
          map_option (\<lambda>n.
              (case pt_stream t (pt_finalize t (n\<lparr>ar_model := pt_wire_model_id t (rq_model req)\<rparr>)) w of
                 (Err e, w') \<Rightarrow> (Err (anthropic_to_provider e), w')
               | (Ok raw, w') \<Rightarrow> (Ok (events raw), w')))
            (an_request_of req True))"

section \<open>Blocks there and back\<close>

text \<open>What the wire can carry, and what comes back from it as it was.\<close>

fun carriable :: "content_block \<Rightarrow> bool" where
  "carriable (Image i) = (ib_sha256 i = None \<and> ib_dims i = None \<and> (\<forall>m sha. ib_source i \<noteq> BlobRef m sha))"
| "carriable (ToolResult _ bs _) = list_all carriable bs"
| "carriable _ = True"

fun returnable :: "an_block \<Rightarrow> bool" and returnable_content :: "an_content \<Rightarrow> bool" where
  "returnable (AnToolResult _ c _) = returnable_content c"
| "returnable (AnRedactedThinking _) = False"
| "returnable _ = True"
| "returnable_content (AnPlain _) = False"
| "returnable_content (AnBlocks bs) = list_all returnable bs"

lemma ephemeral_id [simp]: "map_option (\<lambda>_. Ephemeral) c = c"
proof (cases c)
  case (Some x)
  then show ?thesis by (cases x) simp
qed simp

lemma block_there_and_back: "carriable b \<Longrightarrow> block_of_an (an_block_of b) = b"
proof (induction b)
  case (Image i)
  then show ?case by (cases "ib_source i") (auto intro: image_block.equality)
next
  case (ToolResult i bs e)
  then have "map (block_of_an \<circ> an_block_of) bs = bs" by (intro map_idI) (simp add: list_all_iff)
  then show ?case by simp
qed simp_all

lemma block_back_and_there:
  "returnable nb \<Longrightarrow> an_block_of (block_of_an nb) = nb"
  "returnable_content c \<Longrightarrow> AnBlocks (map an_block_of (blocks_of_content c)) = c"
proof (induction nb and c rule: block_of_an_blocks_of_content.induct)
  case (2 s c)
  show ?case by (cases s) simp_all
next
  case (8 bs)
  then show ?case by (auto simp: list_all_iff intro!: map_idI)
qed auto


definition sample_an_response :: an_response where
  "sample_an_response = \<lparr>ap_id = ''r'', ap_model = ''m'',
     ap_content = [AnThinking ''hmm'' (Some ''sig''), AnText ''ok'' None, AnToolUse ''a'' ''Glob'' JNull],
     ap_stop_reason = AnToolUseStop, ap_stop_sequence = None,
     ap_usage = \<lparr>au_input = 3, au_output = 1, au_cache_creation = None, au_cache_read = Some 10\<rparr>\<rparr>"


text \<open>Redacted reasoning comes back as reasoning without text, with the data as its signature.\<close>

lemma redacted_is_lost:
  "an_block_of (block_of_an (AnRedactedThinking data)) = AnThinking [] (Some data)"
  "an_block_of (block_of_an (AnRedactedThinking data)) \<noteq> AnRedactedThinking data"
  by simp_all

text \<open>The choice of no tool is not sent: the service then chooses for itself.\<close>

lemma no_tool_choice_is_dropped: "an_choice_of ChooseNone False = None"
  by (simp add: an_choice_of_def)

section \<open>Requests\<close>

fun an_use_id :: "an_block \<Rightarrow> string option" where
  "an_use_id (AnToolUse i _ _) = Some i"
| "an_use_id _ = None"

fun an_result_id :: "an_block \<Rightarrow> string option" where
  "an_result_id (AnToolResult i _ _) = Some i"
| "an_result_id _ = None"

fun an_blocks :: "an_content \<Rightarrow> an_block list" where
  "an_blocks (AnPlain s) = [AnText s None]"
| "an_blocks (AnBlocks bs) = bs"

text \<open>The service's demand: each message answers exactly the calls of the message before it.\<close>

fun an_chained :: "string list \<Rightarrow> an_message list \<Rightarrow> bool" where
  "an_chained p [] = (p = [])"
| "an_chained p (m # ms) =
     (List.map_filter an_result_id (an_blocks (am_content m)) = p \<and>
      an_chained (List.map_filter an_use_id (an_blocks (am_content m))) ms)"

lemma an_ids:
  "List.map_filter an_result_id (map an_block_of bs) = List.map_filter block_result_id bs"
  "List.map_filter an_use_id (map an_block_of bs) = map tu_id (List.map_filter block_tool_use bs)"
proof -
  show "List.map_filter an_result_id (map an_block_of bs) = List.map_filter block_result_id bs"
  proof (induction bs)
    case (Cons b bs)
    then show ?case by (cases b) (simp_all add: List.map_filter_simps)
  qed (simp add: List.map_filter_simps)
  show "List.map_filter an_use_id (map an_block_of bs) = map tu_id (List.map_filter block_tool_use bs)"
  proof (induction bs)
    case (Cons b bs)
    then show ?case by (cases b) (simp_all add: List.map_filter_simps)
  qed (simp add: List.map_filter_simps)
qed

lemma an_messages_chained:
  "list_all (\<lambda>m. msg_role m \<noteq> System) ms \<Longrightarrow> chained p ms \<Longrightarrow> pending_calls p ms = [] \<Longrightarrow>
   \<exists>ns. an_messages_of ms = Some ns \<and> an_chained p ns \<and> length ns = length ms"
proof (induction ms arbitrary: p)
  case (Cons m ms)
  then obtain ns where ns: "an_messages_of ms = Some ns" "an_chained (call_ids m) ns" "length ns = length ms"
    by auto
  have r: "List.map_filter an_result_id (map an_block_of (msg_content m)) = p"
    using Cons.prems(2) by (simp add: an_ids result_ids_def)
  have u: "List.map_filter an_use_id (map an_block_of (msg_content m)) = call_ids m"
    by (simp add: an_ids call_ids_def tool_uses_def)
  show ?case using Cons.prems(1) ns r u by (cases "msg_role m") auto
qed simp


definition sample_an_turn :: "message list" where
  "sample_an_turn =
     [msg_system_text ''be brief'', msg_user_text ''list'',
      \<lparr>msg_role = Assistant, msg_content = [ToolUse \<lparr>tu_id = ''a'', tu_name = ''Glob'', tu_input = JNull\<rparr>]\<rparr>,
      \<lparr>msg_role = User, msg_content = [ToolResult ''a'' [text_cb ''x''] False]\<rparr>]"


section \<open>The stream is shaped when the server's is\<close>

text \<open>
  The service's own protocol, on its events: a block is opened when its index is free, gets
  deltas of its type, and is closed once. A redacted block is a block of reasoning.
\<close>

fun an_kind :: "an_block \<Rightarrow> slot_kind" where
  "an_kind (AnThinking _ _) = ThinkingSlot"
| "an_kind (AnRedactedThinking _) = ThinkingSlot"
| "an_kind (AnToolUse _ _ _) = ToolSlot"
| "an_kind _ = TextSlot"

fun an_fits :: "an_delta \<Rightarrow> slot_kind \<Rightarrow> bool" where
  "an_fits (AnTextDelta _) k = (k = TextSlot)"
| "an_fits (AnInputJsonDelta _) k = (k = ToolSlot)"
| "an_fits (AnThinkingDelta _) k = (k = ThinkingSlot)"
| "an_fits (AnSignatureDelta _) k = (k = ThinkingSlot)"

fun orderly :: "(nat \<Rightarrow> slot_kind) \<Rightarrow> an_event list \<Rightarrow> bool" where
  "orderly k [] = True"
| "orderly k (AnContentBlockStart i b # es) = (k i = Vacant \<and> orderly (k(i := an_kind b)) es)"
| "orderly k (AnContentBlockDelta i d # es) = (an_fits d (k i) \<and> orderly k es)"
| "orderly k (AnContentBlockStop i # es) = (k i \<noteq> Vacant \<and> orderly (k(i := Vacant)) es)"
| "orderly k (AnError e # es) = False"
| "orderly k (_ # es) = orderly k es"

fun ir_events :: "an_event \<Rightarrow> stream_event list" where
  "ir_events e = (case native_event_to_ir e of Ok es \<Rightarrow> filter (\<lambda>ev. ev \<noteq> Ping) es | Err _ \<Rightarrow> [])"

definition slot_kinds :: "accumulator \<Rightarrow> nat \<Rightarrow> slot_kind" where
  "slot_kinds a i = (if i < length (ma_active a) then kind_of (ma_active a ! i) else Vacant)"

lemma block_open_kinds: "block_open a i \<longleftrightarrow> slot_kinds a i \<noteq> Vacant"
  by (simp add: block_open_def slot_kinds_def kind_of_iff)

lemma slot_kinds_start:
  assumes "opened ct = Some b"
  shows "slot_kinds (acc_event parse (ContentBlockStart i ct) a) = (slot_kinds a)(i := kind_of (Some b))"
  using assms
  by (auto simp: slot_kinds_def ensure_index_def nth_grow nth_list_update Let_def fun_eq_iff)

lemma an_opened: "\<exists>b. opened (an_content_type x) = Some b \<and> kind_of (Some b) = an_kind x"
  by (cases x) auto

lemma an_extended: "an_fits d (kind_of (Some b)) \<Longrightarrow> \<exists>b'. extended (delta_of_an d) b = Some b'"
  by (cases d; cases b) auto

lemma slot_kinds_stop:
  "slot_kinds a i \<noteq> Vacant \<Longrightarrow>
   slot_kinds (acc_event parse (ContentBlockStop i) a) = (slot_kinds a)(i := Vacant)"
  by (auto simp: slot_kinds_def finalize_block_def Let_def nth_list_update fun_eq_iff kind_of_iff split: if_splits)

lemma slot_kinds_other [simp]:
  "slot_kinds (acc_event parse (MessageStart x y) a) = slot_kinds a"
  "slot_kinds (acc_event parse (MessageDelta r u) a) = slot_kinds a"
  "slot_kinds (acc_event parse MessageStop a) = slot_kinds a"
  by (simp_all add: slot_kinds_def fun_eq_iff)

lemma slot_kinds_delta:
  assumes "slot_kinds a i = kind_of (Some b)" "ma_active a ! i = Some b" "extended d b = Some b'"
  shows "shaped (Delta i d) a \<and> slot_kinds (acc_event parse (Delta i d) a) = slot_kinds a"
proof -
  have i: "i < length (ma_active a)" using assms(1) by (cases b) (auto simp: slot_kinds_def split: if_splits)
  then have "shaped (Delta i d) a" using assms(2,3) by (simp add: block_open_def)
  moreover have "slot_kinds (a\<lparr>ma_active := (ma_active a)[i := Some b']\<rparr>) = slot_kinds a"
    using i assms(2) kind_extended [OF assms(3)] by (auto simp: slot_kinds_def fun_eq_iff nth_list_update)
  ultimately show ?thesis using i assms(2,3) by simp
qed

lemma orderly_shaped:
  "orderly (slot_kinds a) es \<Longrightarrow> shaped_stream parse (concat (map ir_events es)) a"
proof (induction es arbitrary: a)
  case (Cons e es)
  show ?case
  proof (cases e)
    case (AnContentBlockStart i b)
    obtain x where x: "opened (an_content_type b) = Some x" "kind_of (Some x) = an_kind b"
      using an_opened by blast
    then have "an_content_type b \<noteq> CtImage" by auto
    moreover have "orderly (slot_kinds (acc_event parse (ContentBlockStart i (an_content_type b)) a)) es"
      using Cons.prems AnContentBlockStart slot_kinds_start [OF x(1), of parse i a] x(2) by (simp del: acc_event.simps)
    ultimately show ?thesis
      using Cons AnContentBlockStart by (simp add: block_open_kinds del: acc_event.simps)
  next
    case (AnContentBlockDelta i d)
    then have fits: "an_fits d (slot_kinds a i)" and rest: "orderly (slot_kinds a) es" using Cons.prems by auto
    have "slot_kinds a i \<noteq> Vacant" using fits by (cases d) auto
    then obtain b where b: "ma_active a ! i = Some b" "slot_kinds a i = kind_of (Some b)"
      by (auto simp: slot_kinds_def kind_of_iff split: if_splits)
    obtain b' where "extended (delta_of_an d) b = Some b'" using an_extended fits b(2) by metis
    from slot_kinds_delta [OF b(2,1) this, of parse] show ?thesis
      using Cons.IH rest AnContentBlockDelta by (simp del: acc_event.simps shaped.simps)
  next
    case (AnContentBlockStop i)
    then have "slot_kinds a i \<noteq> Vacant" "orderly (slot_kinds (acc_event parse (ContentBlockStop i) a)) es"
      using Cons.prems slot_kinds_stop [of a i parse] by (simp_all del: acc_event.simps)
    then show ?thesis using Cons.IH AnContentBlockStop by (simp add: block_open_kinds del: acc_event.simps)
  next
    case (AnMessageStart i model u)
    then show ?thesis using Cons by (simp add: Let_def del: acc_event.simps)
  qed (use Cons in \<open>simp_all del: acc_event.simps\<close>)
qed simp

lemma orderly_no_error: "orderly k es \<Longrightarrow> e \<in> set es \<Longrightarrow> is_ok (native_event_to_ir e)"
proof (induction k es rule: orderly.induct)
qed (auto simp: Let_def)

text \<open>The frames of a body that carry the events of a list.\<close>

definition carries :: "(string \<Rightarrow> (an_event, string) result) \<Rightarrow> sse_item list \<Rightarrow> an_event list \<Rightarrow> bool" where
  "carries parse items es \<longleftrightarrow> list_all2 (\<lambda>i e. \<exists>d. i = SseData d \<and> d \<noteq> [] \<and> parse d = Ok e) items es"

lemma carried_events:
  "carries parse items es \<Longrightarrow> list_all (\<lambda>e. is_ok (native_event_to_ir e)) es \<Longrightarrow>
   map_sse_to_events parse items = map Ok (concat (map ir_events es))"
  unfolding carries_def
proof (induction rule: list_all2_induct)
  case (Cons i items e es)
  then show ?case by (auto simp: map_sse_to_events_def is_ok_iff)
qed (simp add: map_sse_to_events_def)

text \<open>
  (C40) When the server keeps its protocol, the parser fails nowhere and its events keep the contract,
  so that the two assemblers agree unless a tool input does not parse.
\<close>

theorem anthropic_stream_assembles:
  assumes "carries parse items es" "orderly (\<lambda>_. Vacant) es"
  shows "\<exists>evs. map_sse_to_events parse items = map Ok evs \<and> shaped_stream (parse_ok p) evs acc_new \<and>
    ((\<exists>e. collect_message p (map Ok evs) = Err (input_error e)) \<or>
     (\<exists>m. collect_message p (map Ok evs) =
        Ok (m, unwrap_or EndTurn (ma_stop_reason (acc_events (parse_ok p) evs acc_new)),
            ma_usage (acc_events (parse_ok p) evs acc_new)) \<and>
      into_message (acc_events (parse_ok p) evs acc_new) =
        m\<lparr>msg_content := filter (\<lambda>b. \<not> is_empty_text b) (msg_content m)\<rparr>))"
proof -
  have "map_sse_to_events parse items = map Ok (concat (map ir_events es))"
    using carried_events assms orderly_no_error by (auto simp: list_all_iff)
  moreover have "slot_kinds acc_new = (\<lambda>_. Vacant)" by (simp add: slot_kinds_def acc_new_def fun_eq_iff)
  then have "shaped_stream (parse_ok p) (concat (map ir_events es)) acc_new"
    using orderly_shaped assms(2) by metis
  ultimately show ?thesis using shaped_assembled unfolding assembled_def by blast
qed

section \<open>Usage\<close>

definition event_usage :: "an_event \<Rightarrow> usage" where
  "event_usage e = (case e of
       AnMessageStart i model u \<Rightarrow>
         Usage (unwrap_or 0 (au_cache_creation u) + unwrap_or 0 (au_cache_read u)) 0 (au_cache_creation u) (au_cache_read u)
     | AnMessageDelta r sq u \<Rightarrow> an_usage_total u
     | _ \<Rightarrow> 0)"

lemma acc_usage_step:
  "ma_usage (acc_events parse (ir_events e) a) = ma_usage a + event_usage e"
proof (cases e)
  case (AnMessageStart i model u)
  have "Usage (unwrap_or 0 None + unwrap_or 0 None) 0 None None = (0 :: usage)" by (simp add: zero_usage_def)
  then show ?thesis using AnMessageStart by (auto simp: event_usage_def Let_def)
qed (auto simp: event_usage_def ensure_index_def finalize_block_def Let_def split: option.splits)

lemma acc_usage_events:
  "ma_usage (acc_events parse (concat (map ir_events es)) a) = ma_usage a + sum_list (map event_usage es)"
  by (induction es arbitrary: a) (simp_all add: acc_usage_step add.assoc del: ir_events.simps)

definition block_event :: "an_event \<Rightarrow> bool" where
  "block_event e \<longleftrightarrow> (case e of AnContentBlockStart _ _ \<Rightarrow> True | AnContentBlockDelta _ _ \<Rightarrow> True
     | AnContentBlockStop _ \<Rightarrow> True | AnPing \<Rightarrow> True | _ \<Rightarrow> False)"

lemma block_event_ok: "block_event e \<Longrightarrow> is_ok (native_event_to_ir e)"
  by (cases e) (auto simp: block_event_def)

lemma block_events_usage: "list_all block_event es \<Longrightarrow> sum_list (map event_usage es) = 0"
  by (induction es) (auto simp: block_event_def event_usage_def split: an_event.splits)

lemma an_usage_split:
  "event_usage (AnMessageStart i model u0) + (event_usage (AnMessageDelta r sq u1) + 0) =
     an_usage_total (u1\<lparr>au_cache_creation := au_cache_creation u0, au_cache_read := au_cache_read u0\<rparr>)"
  if "au_cache_creation u1 = None" "au_cache_read u1 = None"
  using that
  by (cases "au_cache_creation u0"; cases "au_cache_read u0")
     (simp_all add: event_usage_def an_usage_total_def plus_usage_def usage_merge_def zero_usage_def add.commute add.left_commute)

text \<open>
  A streamed turn is charged as the same turn without streaming: when the start of the message
  carries the cache counters and its end the other two, the usage assembled is the one that the
  conversion of the complete response gives.
\<close>

theorem anthropic_stream_usage_agrees:
  assumes "carries parse items (AnMessageStart i model u0 # mid @ [AnMessageDelta (Some (ap_stop_reason r)) sq u1, AnMessageStop])"
    "list_all block_event mid" "au_cache_creation u1 = None" "au_cache_read u1 = None"
    "ap_usage r = u1\<lparr>au_cache_creation := au_cache_creation u0, au_cache_read := au_cache_read u0\<rparr>"
  shows "\<exists>evs. map_sse_to_events parse items = map Ok evs \<and>
    ma_usage (acc_events q evs acc_new) = cr_usage (response_of_an r)"
proof -
  let ?es = "AnMessageStart i model u0 # mid @ [AnMessageDelta (Some (ap_stop_reason r)) sq u1, AnMessageStop]"
  have "list_all (\<lambda>e. is_ok (native_event_to_ir e)) mid"
    using assms(2) block_event_ok by (auto simp: list_all_iff)
  then have "list_all (\<lambda>e. is_ok (native_event_to_ir e)) ?es" by (simp add: Let_def)
  then have "map_sse_to_events parse items = map Ok (concat (map ir_events ?es))"
    using carried_events assms(1) by blast
  moreover have "sum_list (map event_usage ?es) = cr_usage (response_of_an r)"
    using block_events_usage [OF assms(2)] an_usage_split [OF assms(3,4)] assms(5)
    by (simp add: response_of_an_def) (simp add: event_usage_def)
  moreover have "ma_usage acc_new = 0" by (simp add: acc_new_def)
  ultimately show ?thesis
    using acc_usage_events [of q ?es acc_new] by (intro exI [of _ "concat (map ir_events ?es)"]) simp
qed

text \<open>Cache counters that the end of the message repeats are counted twice.\<close>

lemma repeated_cache_counts_twice:
  "event_usage (AnMessageStart i model \<lparr>au_input = 12, au_output = 1, au_cache_creation = None, au_cache_read = Some 200\<rparr>) +
   event_usage (AnMessageDelta r sq \<lparr>au_input = 12, au_output = 5, au_cache_creation = None, au_cache_read = Some 200\<rparr>) =
   Usage 412 5 None (Some 400)"
  by (simp add: event_usage_def an_usage_total_def plus_usage_def usage_merge_def)

definition sample_an_stream :: "an_event list" where
  "sample_an_stream =
     AnMessageStart ''r'' ''m'' \<lparr>au_input = 3, au_output = 0, au_cache_creation = None, au_cache_read = Some 10\<rparr> #
     [AnContentBlockStart 0 (AnThinking [] None), AnContentBlockDelta 0 (AnThinkingDelta ''hmm''),
      AnContentBlockDelta 0 (AnSignatureDelta ''sig''), AnContentBlockStop 0, AnPing] @
     [AnMessageDelta (Some (ap_stop_reason sample_an_response)) None
        \<lparr>au_input = 3, au_output = 1, au_cache_creation = None, au_cache_read = None\<rparr>, AnMessageStop]"

definition sample_an_frames :: "string \<Rightarrow> (an_event, string) result" where
  "sample_an_frames d = Ok (sample_an_stream ! (length d - 1))"

definition sample_an_items :: "sse_item list" where
  "sample_an_items = map (\<lambda>n. SseData (replicate n CHR ''x'')) [1, 2, 3, 4, 5, 6, 7, 8]"

lemma sample_carried: "carries sample_an_frames sample_an_items sample_an_stream"
  by (simp add: carries_def sample_an_items_def sample_an_frames_def sample_an_stream_def)

theorem anthropic_stream_assembles_witness:
  "\<exists>evs. map_sse_to_events sample_an_frames sample_an_items = map Ok evs \<and>
     shaped_stream (parse_ok (\<lambda>_. Err ''no'')) evs acc_new"
proof -
  have "orderly (\<lambda>_. Vacant) sample_an_stream" by (simp add: sample_an_stream_def)
  then show ?thesis using anthropic_stream_assembles [OF sample_carried, of "\<lambda>_. Err ''no''"] by blast
qed

theorem anthropic_stream_usage_agrees_witness:
  "\<exists>evs. map_sse_to_events sample_an_frames sample_an_items = map Ok evs \<and>
     ma_usage (acc_events (\<lambda>_. None) evs acc_new) = Usage 13 1 None (Some 10)"
proof -
  have "cr_usage (response_of_an sample_an_response) = Usage 13 1 None (Some 10)"
    by (simp add: response_of_an_def sample_an_response_def an_usage_total_def)
  then show ?thesis
    using anthropic_stream_usage_agrees [OF sample_carried [unfolded sample_an_stream_def], of "\<lambda>_. None"]
    by (simp add: block_event_def sample_an_response_def)
qed

end
