(* ===== verification/HookConfig.thy ===== *)
theory HookConfig
  imports Transport "HOL-Library.List_Lexorder" "HOL-Library.Char_ord"
begin

text \<open>
  The files of external hook handlers (\<open>caliban-config-types/src/hooks_config.rs\<close>): the
  validation of a handler, its timeout, and the merge of the project's file with the user's. The
  TOML package turns the text of a file into the record \<open>raw_config\<close>. A path is the list of
  its names, the first empty when it is absolute.
\<close>

type_synonym path = "string list"

definition show_path :: "path \<Rightarrow> string" where
  "show_path p = join ''/'' p"

datatype read_error = FileMissing | ReadFailed string

(* map: src/crates/caliban-config-types/src/hooks_config.rs 22-49 HooksConfigError *)
datatype hooks_config_error =
    HcIo path read_error
  | HcParse path string
  | HcInvalid path string

section \<open>Handlers\<close>

(* map: src/crates/caliban-config-types/src/hooks_config.rs 57-68 HookHandlerType *)
datatype handler_type = HtCommand | HtHttp | HtMcp | HtPrompt | HtAgent

(* map: src/crates/caliban-config-types/src/hooks_config.rs 71-80 HookHandlerType::from_str *)
definition handler_type_of :: "string \<Rightarrow> handler_type option" where
  "handler_type_of s =
     (if s = ''command'' then Some HtCommand
      else if s = ''http'' then Some HtHttp
      else if s = ''mcp'' then Some HtMcp
      else if s = ''prompt'' then Some HtPrompt
      else if s = ''agent'' then Some HtAgent
      else None)"

(* map: src/crates/caliban-config-types/src/hooks_config.rs 85-118 HookHandlerConfig *)
record handler_config =
  hh_kind :: handler_type
  hh_matcher :: string
  hh_if_pattern :: "string option"
  hh_timeout :: nat
  hh_async :: bool
  hh_command :: "string option"
  hh_args :: "string list"
  hh_env :: "(string \<times> string) list"
  hh_url :: "string option"
  hh_headers :: "(string \<times> string) list"
  hh_mcp_server :: "string option"
  hh_mcp_tool :: "string option"
  hh_agent :: "string option"
  hh_prompt :: "string option"
  hh_model :: "string option"
  hh_schema :: "string option"

(* map: src/crates/caliban-config-types/src/hooks_config.rs 294-317 RawHandler *)
record raw_handler =
  rw_kind :: "string option"
  rw_matcher :: "string option"
  rw_if_pattern :: "string option"
  rw_timeout :: "string option"
  rw_async :: bool
  rw_command :: "string option"
  rw_args :: "string list"
  rw_env :: "(string \<times> string) list"
  rw_url :: "string option"
  rw_headers :: "(string \<times> string) list"
  rw_mcp :: "string option"
  rw_tool :: "string option"
  rw_agent :: "string option"
  rw_prompt :: "string option"
  rw_model :: "string option"
  rw_schema :: "string option"

(* map: src/crates/caliban-config-types/src/hooks_config.rs 285-290 RawMatcherGroup *)
record raw_group =
  rg_matcher :: "string option"
  rg_if_pattern :: "string option"
  rg_handlers :: "raw_handler list"

(* map: src/crates/caliban-config-types/src/hooks_config.rs 274-281 RawConfig *)
record raw_config =
  rc_disable_all :: bool
  rc_managed_only :: bool
  rc_allowed_urls :: "string list"
  rc_allowed_env :: "string list"
  rc_allow_local :: bool
  rc_hooks :: "(string \<times> raw_group list) list"

text \<open>
  The error that \<open>parse::<u64>()\<close> reports: digits are read from the left, and the first
  that is not one, or the first that exceeds the width, decides.
\<close>

fun u64_digits :: "nat \<Rightarrow> string \<Rightarrow> (nat, string) result" where
  "u64_digits n [] = Ok n"
| "u64_digits n (c # cs) =
     (if \<not> is_ascii_digit c then Err ''invalid digit found in string''
      else let m = 10 * n + ((of_char c :: nat) - 48)
           in if m \<ge> 2 ^ 64 then Err ''number too large to fit in target type'' else u64_digits m cs)"

definition u64_of :: "string \<Rightarrow> (nat, string) result" where
  "u64_of s =
     (if s = [] then Err ''cannot parse integer from empty string''
      else if s = ''+'' then Err ''invalid digit found in string''
      else u64_digits 0 (unwrap_or s (strip_prefix ''+'' s)))"

text \<open>In milliseconds; the products are those of \<open>u64\<close> in a release build.\<close>

definition mul_u64 :: "nat \<Rightarrow> nat \<Rightarrow> nat" where
  "mul_u64 a b = a * b mod 2 ^ 64"

(* map: src/crates/caliban-config-types/src/hooks_config.rs 319-358 parse_timeout *)
definition parse_timeout :: "string \<Rightarrow> (nat, string) result" where
  "parse_timeout raw =
     (let s = trim raw;
          bad = (\<lambda>e. ''invalid timeout `'' @ raw @ ''`: '' @ e)
      in if s = [] then Err ''empty timeout''
         else case strip_suffix ''ms'' s of
           Some n \<Rightarrow> map_err bad (u64_of (trim n))
         | None \<Rightarrow> (case strip_suffix ''s'' s of
           Some n \<Rightarrow> map_ok (\<lambda>n. 1000 * n) (map_err bad (u64_of (trim n)))
         | None \<Rightarrow> (case strip_suffix ''m'' s of
           Some n \<Rightarrow> map_ok (\<lambda>n. 1000 * mul_u64 n 60) (map_err bad (u64_of (trim n)))
         | None \<Rightarrow> (case strip_suffix ''h'' s of
           Some n \<Rightarrow> map_ok (\<lambda>n. 1000 * mul_u64 n 3600) (map_err bad (u64_of (trim n)))
         | None \<Rightarrow> map_ok (\<lambda>n. 1000 * n) (map_err bad (u64_of s))))))"

(* map: src/crates/caliban-config-types/src/hooks_config.rs 382-424 build_handler *)
definition handler_problem :: "string \<Rightarrow> handler_type \<Rightarrow> raw_handler \<Rightarrow> string option" where
  "handler_problem event kind raw =
     (let problem = (\<lambda>what. Some (''handler for '' @ event @ '': '' @ what))
      in case kind of
        HtCommand \<Rightarrow> if rw_command raw = None then problem ''command handler missing `command`'' else None
      | HtHttp \<Rightarrow> if rw_url raw = None then problem ''http handler missing `url`'' else None
      | HtMcp \<Rightarrow>
          if rw_mcp raw = None \<or> rw_tool raw = None then problem ''mcp handler requires `mcp` and `tool`'' else None
      | HtPrompt \<Rightarrow> if rw_prompt raw = None then problem ''prompt handler missing `prompt`'' else None
      | HtAgent \<Rightarrow>
          if rw_agent raw = None then problem ''agent handler missing `agent`''
          else if \<not> rw_async raw then problem ''agent handlers must be async = true''
          else None)"

(* map: src/crates/caliban-config-types/src/hooks_config.rs 360-444 build_handler *)
definition build_handler ::
  "string \<Rightarrow> string \<Rightarrow> string option \<Rightarrow> raw_handler \<Rightarrow> (handler_config, string) result" where
  "build_handler event group_matcher group_if raw =
     (case rw_kind raw of
        None \<Rightarrow> Err (''handler for '' @ event @ '': missing `type`'')
      | Some kind_str \<Rightarrow>
     (case handler_type_of kind_str of
        None \<Rightarrow> Err (''handler for '' @ event @ '': unknown type `'' @ kind_str @ ''`'')
      | Some kind \<Rightarrow>
     (case (case rw_timeout raw of Some t \<Rightarrow> parse_timeout t | None \<Rightarrow> Ok 30000) of
        Err e \<Rightarrow> Err e
      | Ok timeout \<Rightarrow>
     (case handler_problem event kind raw of
        Some e \<Rightarrow> Err e
      | None \<Rightarrow>
          Ok \<lparr>hh_kind = kind,
              hh_matcher = unwrap_or group_matcher (rw_matcher raw),
              hh_if_pattern = or_opt (rw_if_pattern raw) group_if,
              hh_timeout = timeout,
              hh_async = rw_async raw,
              hh_command = rw_command raw, hh_args = rw_args raw, hh_env = rw_env raw,
              hh_url = rw_url raw, hh_headers = rw_headers raw,
              hh_mcp_server = rw_mcp raw, hh_mcp_tool = rw_tool raw,
              hh_agent = rw_agent raw, hh_prompt = rw_prompt raw,
              hh_model = rw_model raw, hh_schema = rw_schema raw\<rparr>))))"

section \<open>Configurations\<close>

(* map: src/crates/caliban-config-types/src/hooks_config.rs 122-143 HooksConfig *)
record hooks_config =
  hc_disable_all :: bool
  hc_managed_only :: bool
  hc_allowed_urls :: "string list"
  hc_allowed_env :: "string list"
  hc_allow_local :: bool
  hc_events :: "(string \<times> handler_config list) list"
  hc_global_env :: "(string \<times> string) list"

definition hooks_default :: hooks_config where
  "hooks_default = \<lparr>hc_disable_all = False, hc_managed_only = False, hc_allowed_urls = [],
     hc_allowed_env = [], hc_allow_local = False, hc_events = [], hc_global_env = []\<rparr>"

fun traverse_r :: "('a \<Rightarrow> ('b, 'e) result) \<Rightarrow> 'a list \<Rightarrow> ('b list, 'e) result" where
  "traverse_r f [] = Ok []"
| "traverse_r f (x # xs) =
     (case f x of Err e \<Rightarrow> Err e | Ok y \<Rightarrow> map_ok (Cons y) (traverse_r f xs))"

definition group_handlers :: "string \<Rightarrow> raw_group \<Rightarrow> (handler_config list, string) result" where
  "group_handlers event g =
     traverse_r (build_handler event (unwrap_or ''*'' (rg_matcher g)) (rg_if_pattern g)) (rg_handlers g)"

definition event_handlers :: "string \<times> raw_group list \<Rightarrow> (string \<times> handler_config list, string) result" where
  "event_handlers g =
     map_ok (\<lambda>hss. (fst g, concat hss)) (traverse_r (group_handlers (fst g)) (snd g))"

(* map: src/crates/caliban-config-types/src/hooks_config.rs 196-229 HooksConfig::from_str *)
definition hooks_from_str ::
  "(string \<Rightarrow> (raw_config, string) result) \<Rightarrow> string \<Rightarrow> path \<Rightarrow> (hooks_config, hooks_config_error) result" where
  "hooks_from_str toml body path =
     (case toml body of
        Err e \<Rightarrow> Err (HcParse path e)
      | Ok raw \<Rightarrow>
     (case traverse_r event_handlers (rc_hooks raw) of
        Err e \<Rightarrow> Err (HcInvalid path e)
      | Ok events \<Rightarrow>
          Ok \<lparr>hc_disable_all = rc_disable_all raw, hc_managed_only = rc_managed_only raw,
              hc_allowed_urls = rc_allowed_urls raw, hc_allowed_env = rc_allowed_env raw,
              hc_allow_local = rc_allow_local raw, hc_events = events, hc_global_env = []\<rparr>))"

fun push_new :: "'a list \<Rightarrow> 'a list \<Rightarrow> 'a list" where
  "push_new la [] = la"
| "push_new la (x # ha) = push_new (if x \<in> set la then la else la @ [x]) ha"

lemma set_push_new [simp]: "set (push_new la ha) = set la \<union> set ha"
  by (induction la ha rule: push_new.induct) auto

text \<open>\<open>BTreeMap::insert\<close>, on the members in the order of their keys.\<close>

fun btree_insert :: "string \<Rightarrow> 'v \<Rightarrow> (string \<times> 'v) list \<Rightarrow> (string \<times> 'v) list" where
  "btree_insert k v [] = [(k, v)]"
| "btree_insert k v ((k', v') # ms) =
     (if k = k' then (k, v) # ms
      else if k < k' then (k, v) # (k', v') # ms
      else (k', v') # btree_insert k v ms)"

lemma map_of_btree_insert [simp]: "map_of (btree_insert k v ms) = (map_of ms)(k \<mapsto> v)"
  by (induction k v ms rule: btree_insert.induct) auto

text \<open>\<open>entry(event).or_default().extend(handlers)\<close>.\<close>

definition extend_event ::
  "string \<Rightarrow> 'h list \<Rightarrow> (string \<times> 'h list) list \<Rightarrow> (string \<times> 'h list) list" where
  "extend_event e hs es = btree_insert e (unwrap_or [] (map_of es e) @ hs) es"

(* map: src/crates/caliban-config-types/src/hooks_config.rs 231-253 HooksConfig::merge *)
definition hooks_merge :: "hooks_config \<Rightarrow> hooks_config \<Rightarrow> hooks_config" where
  "hooks_merge project user = project
     \<lparr>hc_disable_all := hc_disable_all project \<or> hc_disable_all user,
      hc_managed_only := hc_managed_only project \<or> hc_managed_only user,
      hc_allow_local := hc_allow_local project \<or> hc_allow_local user,
      hc_allowed_urls := push_new (hc_allowed_urls project) (hc_allowed_urls user),
      hc_allowed_env := push_new (hc_allowed_env project) (hc_allowed_env user),
      hc_events := foldl (\<lambda>es (e, hs). extend_event e hs es) (hc_events project) (hc_events user)\<rparr>"

(* map: src/crates/caliban-config-types/src/hooks_config.rs 257-259 HooksConfig::handler_count *)
definition handler_count :: "hooks_config \<Rightarrow> string \<Rightarrow> nat" where
  "handler_count c event = (case map_of (hc_events c) event of None \<Rightarrow> 0 | Some hs \<Rightarrow> length hs)"

(* map: src/crates/caliban-config-types/src/hooks_config.rs 263-265 HooksConfig::total_handler_count *)
definition total_handler_count :: "hooks_config \<Rightarrow> nat" where
  "total_handler_count c = sum_list (map (\<lambda>(e, hs). length hs) (hc_events c))"

(* map: src/crates/caliban-config-types/src/hooks_config.rs 178-190 HooksConfig::load_one *)
definition hooks_load_one ::
  "(path \<Rightarrow> (string, read_error) result) \<Rightarrow> (string \<Rightarrow> (raw_config, string) result) \<Rightarrow> path \<Rightarrow>
   (hooks_config, hooks_config_error) result" where
  "hooks_load_one read toml path =
     (case read path of
        Err FileMissing \<Rightarrow> Ok hooks_default
      | Err e \<Rightarrow> Err (HcIo path e)
      | Ok body \<Rightarrow> hooks_from_str toml body path)"

(* map: src/crates/caliban-config-types/src/hooks_config.rs 156-166 HooksConfig::load *)
definition hooks_load ::
  "(path \<Rightarrow> (string, read_error) result) \<Rightarrow> (string \<Rightarrow> (raw_config, string) result) \<Rightarrow> path option \<Rightarrow> path \<Rightarrow>
   (hooks_config, hooks_config_error) result" where
  "hooks_load read toml config_dir ws =
     (case hooks_load_one read toml (ws @ [''.caliban'', ''hooks.toml'']) of
        Err e \<Rightarrow> Err e
      | Ok project \<Rightarrow>
     (case (case config_dir of
              Some d \<Rightarrow> hooks_load_one read toml (d @ [''caliban'', ''hooks.toml''])
            | None \<Rightarrow> Ok hooks_default) of
        Err e \<Rightarrow> Err e
      | Ok user \<Rightarrow> Ok (hooks_merge project user)))"

section \<open>What a load yields\<close>

text \<open>The handlers of an event are those of the project, then those of the user.\<close>

lemma fold_events_lookup:
  "distinct (map fst us) \<Longrightarrow>
   unwrap_or [] (map_of (foldl (\<lambda>es (e, hs). extend_event e hs es) es us) e) =
     unwrap_or [] (map_of es e) @ unwrap_or [] (map_of us e)"
proof (induction us arbitrary: es)
  case (Cons u us)
  obtain e' hs where u: "u = (e', hs)" by fastforce
  have "map_of us e' = None" using Cons.prems u by (simp add: map_of_eq_None_iff)
  then show ?case using Cons u by (auto simp: extend_event_def)
qed simp

lemma merged_handlers:
  assumes "distinct (map fst (hc_events user))"
  shows "unwrap_or [] (map_of (hc_events (hooks_merge project user)) e) =
    unwrap_or [] (map_of (hc_events project) e) @ unwrap_or [] (map_of (hc_events user) e)"
  using fold_events_lookup [OF assms] by (simp add: hooks_merge_def)

text \<open>A handler that is accepted carries what its kind needs.\<close>

definition complete :: "handler_config \<Rightarrow> bool" where
  "complete h \<longleftrightarrow>
     (case hh_kind h of
        HtCommand \<Rightarrow> hh_command h \<noteq> None
      | HtHttp \<Rightarrow> hh_url h \<noteq> None
      | HtMcp \<Rightarrow> hh_mcp_server h \<noteq> None \<and> hh_mcp_tool h \<noteq> None
      | HtPrompt \<Rightarrow> hh_prompt h \<noteq> None
      | HtAgent \<Rightarrow> hh_agent h \<noteq> None \<and> hh_async h)"

lemma built_complete: "build_handler event m i raw = Ok h \<Longrightarrow> complete h"
  by (auto simp: build_handler_def handler_problem_def complete_def Let_def
      split: option.splits result.splits handler_type.splits if_splits)

lemma traverse_r_all: "traverse_r f xs = Ok ys \<Longrightarrow> (\<And>x y. f x = Ok y \<Longrightarrow> P y) \<Longrightarrow> list_all P ys"
proof (induction xs arbitrary: ys)
  case (Cons x xs)
  then show ?case by (cases "f x"; cases "traverse_r f xs") auto
qed simp

lemma loaded_complete:
  assumes "hooks_from_str toml body path = Ok c"
  shows "list_all (\<lambda>(e, hs). list_all complete hs) (hc_events c)"
proof -
  have groups: "list_all (list_all complete) hss" if "traverse_r (group_handlers e) gs = Ok hss" for e gs hss
    using that by (rule traverse_r_all) (auto simp: group_handlers_def elim: traverse_r_all intro: built_complete)
  obtain raw :: raw_config where "traverse_r event_handlers (rc_hooks raw) = Ok (hc_events c)"
    using assms by (cases "toml body") (auto simp: hooks_from_str_def split: result.splits)
  then show ?thesis
  proof (rule traverse_r_all)
    fix x y assume "event_handlers x = Ok y"
    then obtain hss where "y = (fst x, concat hss)" "traverse_r (group_handlers (fst x)) (snd x) = Ok hss"
      by (cases "traverse_r (group_handlers (fst x)) (snd x)") (auto simp: event_handlers_def)
    then show "(\<lambda>(e, hs). list_all complete hs) y" using groups by (auto simp: list_all_iff)
  qed
qed

end
