(* ===== verification/SettingsMerge.thy ===== *)
theory SettingsMerge
  imports HookConfig "HOL-Library.List_Lexorder" "HOL-Library.Char_ord"
begin

text \<open>
  The merge of two layers of settings (\<open>caliban-settings/src/merge.rs\<close>), key by key, and the
  difference between two snapshots. An object of the settings keeps its members in the order of
  their keys, as the map of the JSON package does.
\<close>

section \<open>Objects\<close>

text \<open>\<open>Map::remove\<close>.\<close>

definition btree_remove :: "string \<Rightarrow> (string \<times> 'v) list \<Rightarrow> (string \<times> 'v) list" where
  "btree_remove k ms = filter (\<lambda>(k', v). k' \<noteq> k) ms"

fun is_object :: "json \<Rightarrow> bool" where
  "is_object (JObject _) = True"
| "is_object _ = False"

lemma map_of_btree_remove [simp]: "map_of (btree_remove k ms) = (map_of ms)(k := None)"
  by (induction ms) (auto simp: btree_remove_def)

section \<open>The merge\<close>

(* map: src/crates/caliban-settings/src/merge.rs 35-35 PERMISSION_LIST_KEYS *)
definition permission_list_keys :: "string list" where
  "permission_list_keys = [''allow'', ''ask'', ''deny'', ''rules'']"

(* map: src/crates/caliban-settings/src/merge.rs 38-43 DEDUPE_ARRAY_KEYS *)
definition dedupe_array_keys :: "string list" where
  "dedupe_array_keys =
     [''allowed_http_hook_urls'', ''http_hook_allowed_env_vars'', ''additional_directories'', ''claude_md_excludes'']"

(* map: src/crates/caliban-settings/src/merge.rs 46-46 NAMED_OBJECT_KEYS *)
definition named_object_keys :: "string list" where
  "named_object_keys = [''mcp_servers'', ''env'', ''model_overrides'']"

text \<open>Below the top, objects merge member by member and anything else is replaced.\<close>

(* map: src/crates/caliban-settings/src/merge.rs 56-84 merge_inner *)
fun merge_inner :: "json \<Rightarrow> json \<Rightarrow> json"
and merge_members :: "(string \<times> json) list \<Rightarrow> (string \<times> json) list \<Rightarrow> (string \<times> json) list" where
  "merge_inner (JObject l) (JObject h) = JObject (merge_members l h)"
| "merge_inner _ hv = hv"
| "merge_members l [] = l"
| "merge_members l ((k, hv) # h) =
     merge_members
       (case map_of l k of
          Some lv \<Rightarrow> if is_object lv \<and> is_object hv then btree_insert k (merge_inner lv hv) l else btree_insert k hv l
        | None \<Rightarrow> btree_insert k hv l) h"

(* map: src/crates/caliban-settings/src/merge.rs 167-179 merge_permissions *)
definition merge_permission_value :: "string \<Rightarrow> json option \<Rightarrow> json \<Rightarrow> json" where
  "merge_permission_value k lv hv =
     (case (lv, hv) of
        (Some (JArray la), JArray ha) \<Rightarrow> if k \<in> set permission_list_keys then JArray (la @ ha) else hv
      | _ \<Rightarrow> hv)"

(* map: src/crates/caliban-settings/src/merge.rs 165-181 merge_permissions *)
fun merge_permissions :: "(string \<times> json) list \<Rightarrow> (string \<times> json) list \<Rightarrow> (string \<times> json) list" where
  "merge_permissions lo [] = lo"
| "merge_permissions lo ((k, hv) # ho) =
     merge_permissions (btree_insert k (merge_permission_value k (map_of lo k) hv) lo) ho"

(* map: src/crates/caliban-settings/src/merge.rs 117-129 merge_top_key *)
fun merge_named :: "(string \<times> json) list \<Rightarrow> (string \<times> json) list \<Rightarrow> (string \<times> json) list" where
  "merge_named lo [] = lo"
| "merge_named lo ((name, he) # ho) =
     merge_named
       (case map_of lo name of
          Some le \<Rightarrow> btree_insert name (if is_object le \<and> is_object he then merge_inner le he else he) lo
        | None \<Rightarrow> btree_insert name he lo) ho"

(* map: src/crates/caliban-settings/src/merge.rs 139-150 merge_top_key *)
fun merge_hooks :: "(string \<times> json) list \<Rightarrow> (string \<times> json) list \<Rightarrow> (string \<times> json) list" where
  "merge_hooks lo [] = lo"
| "merge_hooks lo ((event, hv) # ho) =
     merge_hooks
       (btree_insert event
          (case (map_of lo event, hv) of (Some (JArray la), JArray ha) \<Rightarrow> JArray (la @ ha) | _ \<Rightarrow> hv) lo) ho"

text \<open>
  For the three blocks the code merges when both sides are objects, inserts when the lower side
  has no such key, and otherwise leaves the lower side as it is.
\<close>

definition merge_block ::
  "((string \<times> json) list \<Rightarrow> (string \<times> json) list \<Rightarrow> (string \<times> json) list) \<Rightarrow> json option \<Rightarrow> json \<Rightarrow> json" where
  "merge_block f lv hv =
     (case lv of
        None \<Rightarrow> hv
      | Some v \<Rightarrow> (case (v, hv) of (JObject lo, JObject ho) \<Rightarrow> JObject (f lo ho) | _ \<Rightarrow> v))"

(* map: src/crates/caliban-settings/src/merge.rs 86-163 merge_top_key *)
definition merge_top_value :: "string \<Rightarrow> json option \<Rightarrow> json \<Rightarrow> json" where
  "merge_top_value k lv hv =
     (if k = ''permissions'' then merge_block merge_permissions lv hv
      else if k \<in> set dedupe_array_keys then
        (case (lv, hv) of (Some (JArray la), JArray ha) \<Rightarrow> JArray (push_new la ha) | _ \<Rightarrow> hv)
      else if k \<in> set named_object_keys then merge_block merge_named lv hv
      else if k = ''hooks'' then merge_block merge_hooks lv hv
      else
        (case lv of
           Some v \<Rightarrow> if is_object v \<and> is_object hv then merge_inner v hv else hv
         | None \<Rightarrow> hv))"

(* map: src/crates/caliban-settings/src/merge.rs 86-163 merge_top_key *)
definition merge_top_key :: "(string \<times> json) list \<Rightarrow> string \<Rightarrow> json \<Rightarrow> (string \<times> json) list" where
  "merge_top_key l k hv = btree_insert k (merge_top_value k (map_of l k) hv) l"

(* map: src/crates/caliban-settings/src/merge.rs 52-84 merge_values *)
fun merge_values :: "json \<Rightarrow> json \<Rightarrow> json" where
  "merge_values (JObject l) (JObject h) = JObject (foldl (\<lambda>l (k, hv). merge_top_key l k hv) l h)"
| "merge_values _ hv = hv"

section \<open>The difference of two snapshots\<close>

(* map: src/crates/caliban-settings/src/merge.rs 189-195 RestartImpact *)
datatype restart_impact = Hot | Restart

(* map: src/crates/caliban-settings/src/merge.rs 199-204 ChangedKey *)
record changed_key =
  ch_key :: string
  ch_impact :: restart_impact

(* map: src/crates/caliban-settings/src/merge.rs 206-214 RESTART_REQUIRED *)
definition restart_required :: "string list" where
  "restart_required =
     [''model'', ''fallback_model'', ''agent'', ''router'', ''mcp_servers'', ''memory'', ''output_style'']"

text \<open>A \<open>BTreeSet\<close> of the keys of both objects, in order.\<close>

definition all_keys :: "(string \<times> json) list \<Rightarrow> (string \<times> json) list \<Rightarrow> string list" where
  "all_keys old new = sorted_list_of_set (set (map fst old) \<union> set (map fst new))"

(* map: src/crates/caliban-settings/src/merge.rs 230-260 diff_settings *)
definition diff_permissions :: "json option \<Rightarrow> json option \<Rightarrow> changed_key list" where
  "diff_permissions ov nv =
     (case (unwrap_or (JObject []) ov, unwrap_or (JObject []) nv) of
        (JObject om, JObject nm) \<Rightarrow>
          map (\<lambda>sub. \<lparr>ch_key = ''permissions.'' @ sub, ch_impact = Hot\<rparr>)
            (filter (\<lambda>sub. map_of om sub \<noteq> map_of nm sub) [''allow'', ''ask'', ''deny'', ''rules'']) @
          map (\<lambda>sub. \<lparr>ch_key = ''permissions.'' @ sub, ch_impact = Restart\<rparr>)
            (filter (\<lambda>sub. map_of om sub \<noteq> map_of nm sub) [''enforce'', ''default_mode'', ''audit_log''])
      | _ \<Rightarrow> [])"

(* map: src/crates/caliban-settings/src/merge.rs 222-276 diff_settings *)
definition diff_settings :: "json \<Rightarrow> json \<Rightarrow> changed_key list" where
  "diff_settings old new =
     (case (old, new) of
        (JObject om, JObject nm) \<Rightarrow>
          concat (map (\<lambda>key.
            if key = ''permissions'' then diff_permissions (map_of om key) (map_of nm key)
            else if map_of om key \<noteq> map_of nm key
            then [\<lparr>ch_key = key, ch_impact = (if key \<in> set restart_required then Restart else Hot)\<rparr>]
            else []) (all_keys om nm))
      | _ \<Rightarrow> [])"

section \<open>Each key by itself\<close>

text \<open>An object has every key once, and the merge of one key looks at that key alone.\<close>

definition unique_keys :: "(string \<times> json) list \<Rightarrow> bool" where
  "unique_keys ms = distinct (map fst ms)"

lemma unique_keys_Cons [simp]:
  "unique_keys ((k, v) # ms) \<longleftrightarrow> map_of ms k = None \<and> unique_keys ms"
  by (auto simp: unique_keys_def map_of_eq_None_iff)

lemma unique_keys_Nil [simp]: "unique_keys []"
  by (simp add: unique_keys_def)

lemma unique_keys_insert: "unique_keys ms \<Longrightarrow> sorted (map fst ms) \<Longrightarrow> unique_keys (btree_insert k v ms)"
proof (induction k v ms rule: btree_insert.induct)
  case (2 k v k' v' ms)
  have "map_of ms k = None" if "k < k'"
    using that 2(3) by (auto simp: map_of_eq_None_iff dest: less_le_trans)
  then show ?case using 2 by auto
qed simp

lemma sorted_insert: "sorted (map fst ms) \<Longrightarrow> sorted (map fst (btree_insert k v ms))"
proof (induction k v ms rule: btree_insert.induct)
  case (2 k v k' v' ms)
  have keys: "x = k \<or> x \<in> set (map fst ms)" if "x \<in> set (map fst (btree_insert k v ms))" for x
    using that by (induction k v ms rule: btree_insert.induct) (auto split: if_splits)
  show ?case
  proof (cases "k = k' \<or> k < k'")
    case True
    then show ?thesis using 2(2) by (auto dest: less_le_trans)
  next
    case False
    then have "\<forall>x \<in> set (map fst (btree_insert k v ms)). k' \<le> x" using keys 2(2) by fastforce
    then show ?thesis using False 2 by simp
  qed
qed simp

text \<open>The merge of one key.\<close>

definition merge_key :: "string \<Rightarrow> json option \<Rightarrow> json option \<Rightarrow> json option" where
  "merge_key k lv hv = (case hv of None \<Rightarrow> lv | Some v \<Rightarrow> Some (merge_top_value k lv v))"

lemma merge_top_keys:
  "unique_keys h \<Longrightarrow>
   map_of (foldl (\<lambda>l (k, hv). merge_top_key l k hv) l h) k = merge_key k (map_of l k) (map_of h k)"
proof (induction h arbitrary: l)
  case (Cons x h)
  obtain k' v where x: "x = (k', v)" by fastforce
  then show ?case using Cons by (cases "k = k'") (auto simp: merge_top_key_def merge_key_def split: option.splits)
qed (simp add: merge_key_def)

lemma merge_permissions_keys:
  "unique_keys ho \<Longrightarrow>
   map_of (merge_permissions lo ho) c =
     (case map_of ho c of
        None \<Rightarrow> map_of lo c
      | Some hv \<Rightarrow> Some (merge_permission_value c (map_of lo c) hv))"
  by (induction lo ho rule: merge_permissions.induct) (auto split: option.splits)

section \<open>Layers\<close>

text \<open>The layers of a load, the lowest first, on top of the empty object.\<close>

definition merge_layers :: "json list \<Rightarrow> json" where
  "merge_layers vs = foldl merge_values (JObject []) vs"

fun object_members :: "json \<Rightarrow> (string \<times> json) list" where
  "object_members (JObject ms) = ms"
| "object_members _ = []"

definition layer :: "json \<Rightarrow> bool" where
  "layer v \<longleftrightarrow> is_object v \<and> unique_keys (object_members v)"

lemma layer_object: "layer v \<Longrightarrow> \<exists>ms. v = JObject ms \<and> unique_keys ms"
  by (cases v) (auto simp: layer_def)

lemma layers_keys:
  "list_all layer vs \<Longrightarrow>
   \<exists>ms. foldl merge_values (JObject l) vs = JObject ms \<and>
     map_of ms k = foldl (merge_key k) (map_of l k) (map (\<lambda>v. json_get v k) vs)"
proof (induction vs arbitrary: l)
  case (Cons v vs)
  then obtain h where h: "v = JObject h" "unique_keys h" using layer_object by auto
  then show ?case
    using Cons.IH [of "foldl (\<lambda>l (k, hv). merge_top_key l k hv) l h"] Cons.prems merge_top_keys [OF h(2)]
    by simp
qed simp

lemma merged_key:
  "list_all layer vs \<Longrightarrow>
   json_get (merge_layers vs) k = foldl (merge_key k) None (map (\<lambda>v. json_get v k) vs)"
  using layers_keys [of vs "[]" k] by (auto simp: merge_layers_def)

text \<open>A layer that does not set a key does not change what it is.\<close>

lemma foldl_merge_key_None:
  "foldl (merge_key k) a (map f (filter (\<lambda>v. f v \<noteq> None) vs)) = foldl (merge_key k) a (map f vs)"
  by (induction vs arbitrary: a) (simp_all add: merge_key_def)

section \<open>The permission lists\<close>

definition list_in :: "string \<Rightarrow> json \<Rightarrow> json list" where
  "list_in c v =
     (case json_get v ''permissions'' of
        Some p \<Rightarrow> (case json_get p c of Some (JArray xs) \<Rightarrow> xs | _ \<Rightarrow> [])
      | None \<Rightarrow> [])"

definition listed :: "json option \<Rightarrow> json list" where
  "listed p = (case p of Some v \<Rightarrow> (case v of JArray xs \<Rightarrow> xs | _ \<Rightarrow> []) | None \<Rightarrow> [])"

text \<open>A layer whose permissions, if it has any, are an object, and their lists arrays.\<close>

definition permission_block :: "json \<Rightarrow> bool" where
  "permission_block p \<longleftrightarrow> layer p \<and> (\<forall>c \<in> set permission_list_keys. \<forall>v. json_get p c = Some v \<longrightarrow> (\<exists>xs. v = JArray xs))"

definition permission_layer :: "json \<Rightarrow> bool" where
  "permission_layer v \<longleftrightarrow> layer v \<and> (\<forall>p. json_get v ''permissions'' = Some p \<longrightarrow> permission_block p)"

definition block_lists :: "json option \<Rightarrow> string \<Rightarrow> json list" where
  "block_lists p c = (case p of None \<Rightarrow> [] | Some v \<Rightarrow> listed (json_get v c))"

lemma list_in_block: "list_in c v = block_lists (json_get v ''permissions'') c"
  by (simp add: list_in_def block_lists_def listed_def split: option.splits)

lemma merge_blocks:
  assumes lo: "\<And>v. lv = Some v \<Longrightarrow> is_object v \<and> (\<forall>c \<in> set permission_list_keys. \<forall>x. json_get v c = Some x \<longrightarrow> (\<exists>xs. x = JArray xs))"
    and hi: "\<And>v. hv = Some v \<Longrightarrow> permission_block v" and c: "c \<in> set permission_list_keys"
  shows "block_lists (merge_key ''permissions'' lv hv) c = block_lists lv c @ block_lists hv c \<and>
    (\<forall>v. merge_key ''permissions'' lv hv = Some v \<longrightarrow>
       is_object v \<and> (\<forall>c \<in> set permission_list_keys. \<forall>x. json_get v c = Some x \<longrightarrow> (\<exists>xs. x = JArray xs)))"
proof (cases hv)
  case None
  then show ?thesis using lo by (simp add: merge_key_def block_lists_def)
next
  case (Some h)
  then have "layer h" using hi by (simp add: permission_block_def)
  then obtain ho where h: "h = JObject ho" "unique_keys ho" using layer_object by blast
  have harr: "\<exists>xs. x = JArray xs" if "c' \<in> set permission_list_keys" "map_of ho c' = Some x" for c' x
    using hi [OF Some] that h(1) by (auto simp: permission_block_def)
  show ?thesis
  proof (cases lv)
    case None
    then show ?thesis using Some h harr
      by (auto simp: merge_key_def merge_top_value_def merge_block_def block_lists_def)
  next
    case (Some l)
    then obtain l' where l: "l = JObject l'" using lo by (cases l) auto
    have larr: "\<exists>xs. x = JArray xs" if "c' \<in> set permission_list_keys" "map_of l' c' = Some x" for c' x
      using lo [OF Some] that l by auto
    have m: "merge_key ''permissions'' lv hv = Some (JObject (merge_permissions l' ho))"
      using Some \<open>hv = Some h\<close> h l by (simp add: merge_key_def merge_top_value_def merge_block_def)
    have lists: "listed (map_of (merge_permissions l' ho) c) = listed (map_of l' c) @ listed (map_of ho c)"
      using c merge_permissions_keys [OF h(2), of l' c] larr [of c] harr [of c]
      by (cases "map_of l' c"; cases "map_of ho c") (auto simp: listed_def merge_permission_value_def)
    have arr: "\<exists>xs. x = JArray xs" if "c' \<in> set permission_list_keys" "map_of (merge_permissions l' ho) c' = Some x" for c' x
      using that merge_permissions_keys [OF h(2), of l' c'] larr [of c'] harr [of c']
      by (cases "map_of l' c'"; cases "map_of ho c'") (auto simp: merge_permission_value_def)
    show ?thesis using m lists arr Some \<open>hv = Some h\<close> h l by (simp add: block_lists_def)
  qed
qed

lemma fold_blocks:
  assumes "\<And>v. a = Some v \<Longrightarrow> is_object v \<and> (\<forall>c \<in> set permission_list_keys. \<forall>x. json_get v c = Some x \<longrightarrow> (\<exists>xs. x = JArray xs))"
    "\<And>p v. p \<in> set ps \<Longrightarrow> p = Some v \<Longrightarrow> permission_block v" "c \<in> set permission_list_keys"
  shows "block_lists (foldl (merge_key ''permissions'') a ps) c = block_lists a c @ concat (map (\<lambda>p. block_lists p c) ps)"
  using assms
proof (induction ps arbitrary: a)
  case (Cons p ps)
  note m = merge_blocks [OF Cons.prems(1) Cons.prems(2) [of p] Cons.prems(3)]
  show ?case using Cons.IH [of "merge_key ''permissions'' a p"] m Cons.prems(2,3) by simp
qed simp

lemma permission_lists_concatenate:
  assumes "list_all permission_layer vs" "c \<in> set permission_list_keys"
  shows "list_in c (merge_layers vs) = concat (map (list_in c) vs)"
proof -
  have "list_all layer vs" using assms(1) by (simp add: list_all_iff permission_layer_def)
  then have m: "json_get (merge_layers vs) ''permissions'' =
      foldl (merge_key ''permissions'') None (map (\<lambda>v. json_get v ''permissions'') vs)"
    by (rule merged_key)
  have "permission_block v" if "p \<in> set (map (\<lambda>v. json_get v ''permissions'') vs)" "p = Some v" for p v
    using that assms(1) by (auto simp: list_all_iff permission_layer_def)
  then have "block_lists (foldl (merge_key ''permissions'') None (map (\<lambda>v. json_get v ''permissions'') vs)) c =
      block_lists None c @ concat (map (\<lambda>p. block_lists p c) (map (\<lambda>v. json_get v ''permissions'') vs))"
    by (intro fold_blocks assms(2)) auto
  moreover have "block_lists None c = []" by (simp add: block_lists_def)
  moreover have "list_in c = (\<lambda>v. block_lists (json_get v ''permissions'') c)" by (simp add: list_in_block fun_eq_iff)
  ultimately show ?thesis by (simp only: m map_map comp_def append_Nil)
qed

section \<open>Documents\<close>

text \<open>
  What the parser returns and the settings may hold: in every object, at every depth, the keys
  are in order and none is there twice.
\<close>

fun document :: "json \<Rightarrow> bool" where
  "document (JArray xs) = list_all document xs"
| "document (JObject ms) = (sorted_wrt (<) (map fst ms) \<and> list_all (\<lambda>m. document (snd m)) ms)"
| "document _ = True"

definition members_ok :: "(string \<times> json) list \<Rightarrow> bool" where
  "members_ok ms \<longleftrightarrow> sorted_wrt (<) (map fst ms) \<and> list_all (\<lambda>m. document (snd m)) ms"

lemma document_object [simp]: "document (JObject ms) = members_ok ms"
  by (simp add: members_ok_def)

declare document.simps(2) [simp del]

lemma insert_keys: "set (map fst (btree_insert k v ms)) = insert k (set (map fst ms))"
  by (induction k v ms rule: btree_insert.induct) auto

lemma insert_members_ok: "members_ok ms \<Longrightarrow> document v \<Longrightarrow> members_ok (btree_insert k v ms)"
proof (induction k v ms rule: btree_insert.induct)
  case (2 k v k' v' ms)
  have tail: "members_ok ms" "document v'" "\<forall>x \<in> set (map fst ms). k' < x" using 2(2) by (auto simp: members_ok_def)
  show ?case
  proof (cases "k = k' \<or> k < k'")
    case True
    then show ?thesis using 2(2,3) by (auto simp: members_ok_def dest: less_trans)
  next
    case False
    then have "k' < k" by auto
    then have "\<forall>x \<in> set (map fst (btree_insert k v ms)). k' < x" using tail(3) unfolding insert_keys by blast
    moreover have "members_ok (btree_insert k v ms)" using 2(1) False tail(1) 2(3) by auto
    ultimately show ?thesis using False tail(2) by (simp add: members_ok_def)
  qed
qed (simp add: members_ok_def)

lemma lookup_document: "members_ok ms \<Longrightarrow> map_of ms k = Some v \<Longrightarrow> document v"
  by (auto simp: members_ok_def list_all_iff dest!: map_of_SomeD)

lemma lookup_array: "members_ok ms \<Longrightarrow> map_of ms k = Some (JArray xs) \<Longrightarrow> list_all document xs"
  using lookup_document by fastforce

lemma members_Cons: "members_ok ((k, v) # ms) \<Longrightarrow> document v \<and> members_ok ms"
  by (simp add: members_ok_def)

lemma members_ok_Nil [simp]: "members_ok []"
  by (simp add: members_ok_def)

lemma inner_document:
  "document l \<Longrightarrow> document h \<Longrightarrow> document (merge_inner l h)"
  "members_ok ls \<Longrightarrow> members_ok hs \<Longrightarrow> members_ok (merge_members ls hs)"
proof (induction l h and ls hs rule: merge_inner_merge_members.induct)
  case (4 l k hv h)
  show ?case
  proof (cases "map_of l k")
    case None
    then show ?thesis using 4 by (simp add: members_Cons insert_members_ok)
  next
    case (Some lv)
    then show ?thesis
      using 4 members_Cons [OF 4(4)] lookup_document [OF 4(3) Some]
      by (cases "is_object lv \<and> is_object hv") (auto simp: insert_members_ok)
  qed
qed simp_all

lemma document_arrays: "document (JArray la) \<Longrightarrow> document (JArray ha) \<Longrightarrow> document (JArray (la @ ha))"
  by simp

lemma document_push_new: "document (JArray la) \<Longrightarrow> document (JArray ha) \<Longrightarrow> document (JArray (push_new la ha))"
  by (simp add: list_all_iff) blast

lemma permissions_document: "members_ok lo \<Longrightarrow> members_ok ho \<Longrightarrow> members_ok (merge_permissions lo ho)"
proof (induction lo ho rule: merge_permissions.induct)
  case (2 lo k hv ho)
  have "document (merge_permission_value k (map_of lo k) hv)"
    using members_Cons [OF 2(3)] lookup_array [OF 2(2)]
    by (auto simp: merge_permission_value_def split: option.splits json.splits)
  then show ?case using 2 members_Cons by (simp add: insert_members_ok)
qed simp

lemma named_document: "members_ok lo \<Longrightarrow> members_ok ho \<Longrightarrow> members_ok (merge_named lo ho)"
proof (induction lo ho rule: merge_named.induct)
  case (2 lo name he ho)
  have "document le \<Longrightarrow> document (if is_object le \<and> is_object he then merge_inner le he else he)" for le
    using members_Cons [OF 2(3)] inner_document(1) by simp
  then show ?case
    using 2 members_Cons [OF 2(3)] lookup_document [OF 2(2)]
    by (cases "map_of lo name") (simp_all add: insert_members_ok)
qed simp

lemma hooks_document: "members_ok lo \<Longrightarrow> members_ok ho \<Longrightarrow> members_ok (merge_hooks lo ho)"
proof (induction lo ho rule: merge_hooks.induct)
  case (2 lo event hv ho)
  have "document (case (map_of lo event, hv) of (Some (JArray la), JArray ha) \<Rightarrow> JArray (la @ ha) | _ \<Rightarrow> hv)"
    using members_Cons [OF 2(3)] lookup_array [OF 2(2)] by (auto split: option.splits json.splits)
  then show ?case using 2 members_Cons by (simp add: insert_members_ok)
qed simp

lemma block_document:
  assumes "\<And>lo ho. members_ok lo \<Longrightarrow> members_ok ho \<Longrightarrow> members_ok (f lo ho)"
    "\<And>v. lv = Some v \<Longrightarrow> document v" "document hv"
  shows "document (merge_block f lv hv)"
  using assms by (cases lv) (auto simp: merge_block_def split: json.splits)

lemma top_document:
  assumes "\<And>v. lv = Some v \<Longrightarrow> document v" "document hv"
  shows "document (merge_top_value k lv hv)"
proof -
  have d: "document (case (lv, hv) of (Some (JArray la), JArray ha) \<Rightarrow> JArray (push_new la ha) | _ \<Rightarrow> hv)"
    using assms document_push_new by (auto simp del: document.simps(1) split: option.splits json.splits)
  have i: "document (case lv of Some v \<Rightarrow> if is_object v \<and> is_object hv then merge_inner v hv else hv | None \<Rightarrow> hv)"
    using assms inner_document(1) by (cases lv) auto
  show ?thesis
    unfolding merge_top_value_def
    using block_document [OF permissions_document assms] block_document [OF named_document assms]
      block_document [OF hooks_document assms] d i by (simp only: if_split) blast
qed



end
