(* ===== verification/Settings.thy ===== *)
theory Settings
  imports SettingsMerge Permissions
begin

text \<open>
  The typed settings (\<open>caliban-settings/src/settings.rs\<close>): the blocks that the permission
  layer and the hooks read, their deserialisation, the overrides from the environment, the rules
  they stand for, and the older files that are folded in when they hold none (\<open>compat.rs\<close>,
  \<open>caliban-config-types/src/permissions.rs\<close>). The other blocks are the last field.
\<close>

section \<open>Types\<close>

(* map: src/crates/caliban-settings/src/settings.rs 30-47 RuleSpec *)
record rule_spec =
  rs_pattern :: string
  rs_action :: string
  rs_comment :: "string option"
  rs_reason :: "string option"
  rs_expires_at :: "int option"
  rs_tool :: "string option"

definition rule_spec_default :: rule_spec where
  "rule_spec_default = \<lparr>rs_pattern = [], rs_action = [], rs_comment = None, rs_reason = None,
     rs_expires_at = None, rs_tool = None\<rparr>"

(* map: src/crates/caliban-settings/src/settings.rs 79-97 Permissions *)
record permission_settings =
  pm_allow :: "string list"
  pm_ask :: "string list"
  pm_deny :: "string list"
  pm_rules :: "rule_spec list"
  pm_enforce :: "bool option"
  pm_default_mode :: "string option"
  pm_audit_log :: "bool option"
  pm_extra :: "(string \<times> json) list"

definition permissions_default :: permission_settings where
  "permissions_default = \<lparr>pm_allow = [], pm_ask = [], pm_deny = [], pm_rules = [], pm_enforce = None,
     pm_default_mode = None, pm_audit_log = None, pm_extra = []\<rparr>"

(* map: src/crates/caliban-settings/src/settings.rs 371-381 StorageSubstrate *)
datatype storage_substrate = SubFs | SubRemote | SubGit | SubS3

(* map: src/crates/caliban-settings/src/settings.rs 386-392 RemoteStorageConfig *)
record remote_storage =
  rm_url :: string
  rm_token_env :: "string option"

(* map: src/crates/caliban-settings/src/settings.rs 397-402 StorageConfig *)
record storage_config =
  sc_substrate :: storage_substrate
  sc_remote :: "remote_storage option"

(* map: src/crates/caliban-settings/src/settings.rs 411-426 EnvOverride *)
record env_override =
  eo_key_path :: string
  eo_env_var :: string

(* map: src/crates/caliban-settings/src/settings.rs 601-761 Settings *)
record 'r settings =
  st_permissions :: permission_settings
  st_hooks :: "(string \<times> json) list"
  st_disable_all_hooks :: "bool option"
  st_allow_managed_hooks_only :: "bool option"
  st_allowed_http_hook_urls :: "string list"
  st_http_hook_allowed_env_vars :: "string list"
  st_allow_local_http_hook_targets :: "bool option"
  st_storage :: storage_config
  st_output_style :: "string option"
  st_env :: "(string \<times> string) list"
  st_parent_settings_behavior :: "string option"
  st_rest :: 'r

definition blank_settings :: "'r \<Rightarrow> 'r settings" where
  "blank_settings rest = \<lparr>st_permissions = permissions_default, st_hooks = [],
     st_disable_all_hooks = None, st_allow_managed_hooks_only = None,
     st_allowed_http_hook_urls = [], st_http_hook_allowed_env_vars = [],
     st_allow_local_http_hook_targets = None,
     st_storage = \<lparr>sc_substrate = SubFs, sc_remote = None\<rparr>, st_output_style = None, st_env = [],
     st_parent_settings_behavior = None, st_rest = rest\<rparr>"

section \<open>Deserialisation\<close>

text \<open>
  What the derived instances accept: a field that is absent takes its default, null is an option
  that is not there, and anything else must have the type of the field.
\<close>

fun de_bool :: "json \<Rightarrow> bool option" where
  "de_bool (JBool b) = Some b"
| "de_bool _ = None"

fun all_de :: "(json \<Rightarrow> 'a option) \<Rightarrow> json list \<Rightarrow> 'a list option" where
  "all_de f [] = Some []"
| "all_de f (v # vs) =
     (case f v of None \<Rightarrow> None | Some x \<Rightarrow> map_option (Cons x) (all_de f vs))"

fun de_list :: "(json \<Rightarrow> 'a option) \<Rightarrow> json \<Rightarrow> 'a list option" where
  "de_list f (JArray vs) = all_de f vs"
| "de_list f _ = None"

definition de_strings :: "json \<Rightarrow> string list option" where
  "de_strings = de_list json_as_str"

fun de_option :: "(json \<Rightarrow> 'a option) \<Rightarrow> json \<Rightarrow> 'a option option" where
  "de_option f JNull = Some None"
| "de_option f v = map_option Some (f v)"

fun de_values :: "json \<Rightarrow> (string \<times> json) list option" where
  "de_values (JObject ms) = Some ms"
| "de_values _ = None"

fun de_string_map :: "json \<Rightarrow> (string \<times> string) list option" where
  "de_string_map (JObject ms) =
     map_option (zip (map fst ms)) (all_de json_as_str (map snd ms))"
| "de_string_map _ = None"

definition field :: "(string \<times> json) list \<Rightarrow> string \<Rightarrow> 'a \<Rightarrow> (json \<Rightarrow> 'a option) \<Rightarrow> 'a option" where
  "field ms k dflt f = (case map_of ms k of None \<Rightarrow> Some dflt | Some v \<Rightarrow> f v)"

definition rule_spec_keys :: "string list" where
  "rule_spec_keys = [''pattern'', ''action'', ''comment'', ''reason'', ''expires_at'', ''tool'']"

definition de_time :: "(string \<Rightarrow> int option) \<Rightarrow> json \<Rightarrow> int option" where
  "de_time time v = Option.bind (json_as_str v) time"

definition rule_spec_of :: "(string \<Rightarrow> int option) \<Rightarrow> (string \<times> json) list \<Rightarrow> rule_spec option" where
  "rule_spec_of time ms =
     (case (field ms ''pattern'' [] json_as_str, field ms ''action'' [] json_as_str,
            field ms ''comment'' None (de_option json_as_str), field ms ''reason'' None (de_option json_as_str),
            field ms ''expires_at'' None (de_option (de_time time)), field ms ''tool'' None (de_option json_as_str)) of
        (Some p, Some a, Some c, Some r, Some x, Some t) \<Rightarrow>
          Some \<lparr>rs_pattern = p, rs_action = a, rs_comment = c, rs_reason = r, rs_expires_at = x, rs_tool = t\<rparr>
      | _ \<Rightarrow> None)"

text \<open>An unknown field is an error; a rule may also be the array of its fields in order.\<close>

fun de_rule_spec :: "(string \<Rightarrow> int option) \<Rightarrow> json \<Rightarrow> rule_spec option" where
  "de_rule_spec time (JObject ms) =
     (if list_all (\<lambda>(k, v). k \<in> set rule_spec_keys) ms then rule_spec_of time ms else None)"
| "de_rule_spec time (JArray vs) =
     (if length vs \<le> length rule_spec_keys then rule_spec_of time (zip rule_spec_keys vs) else None)"
| "de_rule_spec time _ = None"

definition permission_keys :: "string list" where
  "permission_keys = [''allow'', ''ask'', ''deny'', ''rules'', ''enforce'', ''default_mode'', ''audit_log'']"

definition permissions_of_members ::
  "(string \<Rightarrow> int option) \<Rightarrow> (string \<times> json) list \<Rightarrow> permission_settings option" where
  "permissions_of_members time ms =
     (case (field ms ''allow'' [] de_strings, field ms ''ask'' [] de_strings, field ms ''deny'' [] de_strings,
            field ms ''rules'' [] (de_list (de_rule_spec time)), field ms ''enforce'' None (de_option de_bool),
            field ms ''default_mode'' None (de_option json_as_str), field ms ''audit_log'' None (de_option de_bool)) of
        (Some al, Some ak, Some dn, Some rl, Some en, Some dm, Some au) \<Rightarrow>
          Some \<lparr>pm_allow = al, pm_ask = ak, pm_deny = dn, pm_rules = rl, pm_enforce = en,
                pm_default_mode = dm, pm_audit_log = au,
                pm_extra = filter (\<lambda>(k, v). k \<notin> set permission_keys) ms\<rparr>
      | _ \<Rightarrow> None)"

fun de_permissions :: "(string \<Rightarrow> int option) \<Rightarrow> json \<Rightarrow> permission_settings option" where
  "de_permissions time (JObject ms) = permissions_of_members time ms"
| "de_permissions time _ = None"

text \<open>
  The whole: an object, the blocks of this theory read from it, and \<open>rest\<close> for the others,
  which may fail on any of them.
\<close>

fun settings_from_value ::
  "(string \<Rightarrow> int option) \<Rightarrow> ((string \<times> json) list \<Rightarrow> (storage_config \<times> 'r) option) \<Rightarrow> json \<Rightarrow> 'r settings option" where
  "settings_from_value time rest (JObject ms) =
     (case (field ms ''permissions'' permissions_default (de_permissions time),
            field ms ''hooks'' [] de_values,
            field ms ''disable_all_hooks'' None (de_option de_bool),
            field ms ''allow_managed_hooks_only'' None (de_option de_bool),
            field ms ''allowed_http_hook_urls'' [] de_strings,
            field ms ''http_hook_allowed_env_vars'' [] de_strings,
            field ms ''allow_local_http_hook_targets'' None (de_option de_bool)) of
        (Some p, Some h, Some d, Some m, Some u, Some e, Some l) \<Rightarrow>
          (case (field ms ''output_style'' None (de_option json_as_str),
                 field ms ''env'' [] de_string_map,
                 field ms ''parent_settings_behavior'' None (de_option json_as_str),
                 rest ms) of
             (Some os, Some en, Some pb, Some (sto, r)) \<Rightarrow>
               Some \<lparr>st_permissions = p, st_hooks = h, st_disable_all_hooks = d,
                     st_allow_managed_hooks_only = m, st_allowed_http_hook_urls = u,
                     st_http_hook_allowed_env_vars = e, st_allow_local_http_hook_targets = l,
                     st_storage = sto, st_output_style = os, st_env = en,
                     st_parent_settings_behavior = pb, st_rest = r\<rparr>
           | _ \<Rightarrow> None)
      | _ \<Rightarrow> None)"
| "settings_from_value time rest _ = None"

section \<open>The environment\<close>

(* map: src/crates/caliban-settings/src/settings.rs 443-457 apply_string_env_override *)
definition string_env_override ::
  "(string \<Rightarrow> string option) \<Rightarrow> string \<Rightarrow> string \<Rightarrow> string option \<times> env_override list \<Rightarrow>
   string option \<times> env_override list" where
  "string_env_override lookup key var st =
     (case lookup var of
        Some raw \<Rightarrow>
          if trim raw = [] then st
          else (Some (trim raw), snd st @ [\<lparr>eo_key_path = key, eo_env_var = var\<rparr>])
      | None \<Rightarrow> st)"

(* map: src/crates/caliban-settings/src/settings.rs 464-466 parse_storage_substrate *)
definition parse_storage_substrate :: "string \<Rightarrow> storage_substrate option" where
  "parse_storage_substrate token =
     (let t = map ascii_lower (trim token)
      in if t = ''fs'' then Some SubFs
         else if t = ''remote'' then Some SubRemote
         else if t = ''git'' then Some SubGit
         else if t = ''s3'' then Some SubS3
         else None)"

definition remote_or_default :: "storage_config \<Rightarrow> remote_storage" where
  "remote_or_default sc = unwrap_or \<lparr>rm_url = [], rm_token_env = None\<rparr> (sc_remote sc)"

text \<open>The error is the value that names no substrate.\<close>

(* map: src/crates/caliban-settings/src/settings.rs 494-541 StorageConfig::apply_env_overrides *)
definition storage_env_overrides ::
  "(string \<Rightarrow> string option) \<Rightarrow> storage_config \<Rightarrow> (storage_config \<times> env_override list, string) result" where
  "storage_env_overrides lookup sc =
     (case (case lookup ''CALIBAN_STORAGE_SUBSTRATE'' of
              Some raw \<Rightarrow>
                if trim raw \<noteq> [] then
                  (case parse_storage_substrate raw of Some s \<Rightarrow> Ok (Some s) | None \<Rightarrow> Err raw)
                else Ok None
            | None \<Rightarrow> Ok None) of
        Err e \<Rightarrow> Err e
      | Ok new_substrate \<Rightarrow>
          (let (sc, applied) =
             (case new_substrate of
                Some s \<Rightarrow> (sc\<lparr>sc_substrate := s\<rparr>,
                  [\<lparr>eo_key_path = ''storage.substrate'', eo_env_var = ''CALIBAN_STORAGE_SUBSTRATE''\<rparr>])
              | None \<Rightarrow> (sc, []));
               (sc, applied) =
             (case lookup ''CALIBAN_STORAGE_REMOTE_URL'' of
                Some raw \<Rightarrow>
                  if trim raw \<noteq> [] then
                    (sc\<lparr>sc_remote := Some ((remote_or_default sc)\<lparr>rm_url := trim raw\<rparr>)\<rparr>,
                     applied @ [\<lparr>eo_key_path = ''storage.remote.url'', eo_env_var = ''CALIBAN_STORAGE_REMOTE_URL''\<rparr>])
                  else (sc, applied)
              | None \<Rightarrow> (sc, applied));
               (sc, applied) =
             (case lookup ''CALIBAN_STORAGE_REMOTE_TOKEN_ENV'' of
                Some raw \<Rightarrow>
                  if trim raw \<noteq> [] then
                    (sc\<lparr>sc_remote := Some ((remote_or_default sc)\<lparr>rm_token_env := Some (trim raw)\<rparr>)\<rparr>,
                     applied @ [\<lparr>eo_key_path = ''storage.remote.token_env'',
                                eo_env_var = ''CALIBAN_STORAGE_REMOTE_TOKEN_ENV''\<rparr>])
                  else (sc, applied)
              | None \<Rightarrow> (sc, applied))
           in Ok (sc, applied)))"

(* map: src/crates/caliban-settings/src/settings.rs 561-588 Settings::apply_env_overrides *)
definition apply_env_overrides ::
  "(string \<Rightarrow> string option) \<Rightarrow> 'r settings \<Rightarrow> ('r settings \<times> env_override list, string) result" where
  "apply_env_overrides lookup s =
     (case storage_env_overrides lookup (st_storage s) of
        Err e \<Rightarrow> Err e
      | Ok (sto, applied) \<Rightarrow>
          (let (style, applied) =
             string_env_override lookup ''output_style'' ''CALIBAN_OUTPUT_STYLE'' (st_output_style s, applied);
               (mode, applied) =
             string_env_override lookup ''permissions.default_mode'' ''CALIBAN_DEFAULT_PERMISSION_MODE''
               (pm_default_mode (st_permissions s), applied)
           in Ok (s\<lparr>st_storage := sto, st_output_style := style,
                   st_permissions := (st_permissions s)\<lparr>pm_default_mode := mode\<rparr>\<rparr>, applied)))"

section \<open>Rules\<close>

(* map: src/crates/caliban-settings/src/settings.rs 864-872 permission_rules *)
definition parse_action :: "string \<Rightarrow> rule_action" where
  "parse_action s =
     (let t = map ascii_lower s
      in if t = ''allow'' then RAllow else if t = ''ask'' then RAsk else if t = ''deny'' then RDeny else RAsk)"

(* map: src/crates/caliban-settings/src/settings.rs 862-916 permission_rules *)
definition permission_rules :: "'r settings \<Rightarrow> rule list" where
  "permission_rules s =
     (let p = st_permissions s
      in if pm_rules p \<noteq> [] then
           map (\<lambda>r. \<lparr>rl_tool = (if rs_pattern r = [] then unwrap_or [] (rs_tool r) else rs_pattern r),
                     rl_action = parse_action (rs_action r), rl_comment = rs_comment r,
                     rl_reason = rs_reason r, rl_expires_at = rs_expires_at r\<rparr>) (pm_rules p)
         else
           map (\<lambda>t. plain_rule t RDeny) (pm_deny p) @
           map (\<lambda>t. plain_rule t RAsk) (pm_ask p) @
           map (\<lambda>t. plain_rule t RAllow) (pm_allow p))"

(* map: src/crates/caliban-settings/src/settings.rs 920-922 parent_blocks *)
definition parent_blocks :: "'r settings \<Rightarrow> bool" where
  "parent_blocks s \<longleftrightarrow> st_parent_settings_behavior s = Some ''block''"

(* map: src/crates/caliban-settings/src/settings.rs 942-953 hook_config *)
definition hook_config :: "'r settings \<Rightarrow> hooks_config" where
  "hook_config s =
     \<lparr>hc_disable_all = unwrap_or False (st_disable_all_hooks s),
      hc_managed_only = unwrap_or False (st_allow_managed_hooks_only s),
      hc_allowed_urls = st_allowed_http_hook_urls s,
      hc_allowed_env = st_http_hook_allowed_env_vars s,
      hc_allow_local = unwrap_or False (st_allow_local_http_hook_targets s),
      hc_events = [],
      hc_global_env = st_env s\<rparr>"

section \<open>The older files\<close>

(* map: src/crates/caliban-config-types/src/permissions.rs 81-100 PermissionsLoadError *)
datatype permissions_load_error =
    PlIo path read_error
  | PlParse path string

(* map: src/crates/caliban-config-types/src/permissions.rs 111-128 load_rules_file *)
definition load_rules_file ::
  "(path \<Rightarrow> (string, read_error) result) \<Rightarrow> (string \<Rightarrow> (rule list, string) result) \<Rightarrow> path \<Rightarrow>
   (rule list, permissions_load_error) result" where
  "load_rules_file read toml p =
     (case read p of
        Err FileMissing \<Rightarrow> Ok []
      | Err e \<Rightarrow> Err (PlIo p e)
      | Ok body \<Rightarrow> map_err (PlParse p) (toml body))"

(* map: src/crates/caliban-config-types/src/permissions.rs 145-164 load_rules *)
definition load_rules ::
  "(path \<Rightarrow> (string, read_error) result) \<Rightarrow> (string \<Rightarrow> (rule list, string) result) \<Rightarrow> path option \<Rightarrow>
   rule list \<Rightarrow> path \<Rightarrow> (rule list, permissions_load_error) result" where
  "load_rules read toml config_dir cli_rules ws =
     (case load_rules_file read toml (ws @ [''.caliban'', ''permissions.toml'']) of
        Err e \<Rightarrow> Err e
      | Ok project \<Rightarrow>
     (case (case config_dir of
              Some d \<Rightarrow> load_rules_file read toml (d @ [''caliban'', ''permissions.toml''])
            | None \<Rightarrow> Ok []) of
        Err e \<Rightarrow> Err e
      | Ok user \<Rightarrow> Ok (cli_rules @ project @ user @ default_rules)))"

(* map: src/crates/caliban-settings/src/compat.rs 89-94 legacy_permissions_present *)
definition legacy_permissions_present :: "(rule list, permissions_load_error) result \<Rightarrow> bool" where
  "legacy_permissions_present loaded =
     (case loaded of Ok al \<Rightarrow> length al > length default_rules | Err _ \<Rightarrow> False)"

definition tools_with :: "rule_action \<Rightarrow> rule list \<Rightarrow> string list" where
  "tools_with a rs = map rl_tool (filter (\<lambda>r. rl_action r = a) rs)"

text \<open>The argument is what \<open>load_rules\<close> returns without rules of the command line.\<close>

(* map: src/crates/caliban-settings/src/compat.rs 99-136 maybe_load_legacy_permissions *)
definition maybe_load_legacy_permissions ::
  "(rule list, permissions_load_error) result \<Rightarrow> 'r settings \<Rightarrow> bool \<times> 'r settings" where
  "maybe_load_legacy_permissions loaded s =
     (let p = st_permissions s
      in if pm_allow p \<noteq> [] \<or> pm_ask p \<noteq> [] \<or> pm_deny p \<noteq> [] \<or> pm_rules p \<noteq> [] then (False, s)
         else case loaded of
           Err _ \<Rightarrow> (False, s)
         | Ok rs \<Rightarrow>
             (rs \<noteq> [],
              s\<lparr>st_permissions := p
                 \<lparr>pm_allow := pm_allow p @ tools_with RAllow rs,
                  pm_ask := pm_ask p @ tools_with RAsk rs,
                  pm_deny := pm_deny p @ tools_with RDeny rs\<rparr>\<rparr>))"

(* map: src/crates/caliban-settings/src/compat.rs 143-149 load_user_scope_hooks *)
definition load_user_scope_hooks ::
  "(path \<Rightarrow> (string, read_error) result) \<Rightarrow> (string \<Rightarrow> (raw_config, string) result) \<Rightarrow> path option \<Rightarrow> hooks_config" where
  "load_user_scope_hooks read toml config_dir =
     (case config_dir of
        Some d \<Rightarrow>
          (case hooks_load_one read toml (d @ [''caliban'', ''hooks.toml'']) of
             Ok c \<Rightarrow> c
           | Err _ \<Rightarrow> hooks_default)
      | None \<Rightarrow> hooks_default)"

(* map: src/crates/caliban-settings/src/compat.rs 153-201 maybe_load_legacy_hooks *)
definition maybe_load_legacy_hooks ::
  "(hooks_config, hooks_config_error) result \<Rightarrow> hooks_config \<Rightarrow> 'r settings \<Rightarrow> bool \<times> 'r settings" where
  "maybe_load_legacy_hooks loaded user_scope s =
     (if st_hooks s \<noteq> [] then (False, s)
      else case loaded of
        Err _ \<Rightarrow> (False, s)
      | Ok cfg \<Rightarrow>
          if total_handler_count cfg > 0 \<or> hc_disable_all cfg then
            (True,
             s\<lparr>st_hooks := btree_insert ''__legacy_hooks_toml__''
                  (JObject [(''handler_count'', JNumber (nat_str (total_handler_count cfg)))]) (st_hooks s),
               st_disable_all_hooks := (if hc_disable_all cfg then Some True else st_disable_all_hooks s),
               st_allow_managed_hooks_only :=
                 (if hc_managed_only cfg then Some True else st_allow_managed_hooks_only s),
               st_allowed_http_hook_urls := st_allowed_http_hook_urls s @ hc_allowed_urls user_scope,
               st_http_hook_allowed_env_vars := st_http_hook_allowed_env_vars s @ hc_allowed_env user_scope\<rparr>)
          else (False, s))"

end
