(* ===== verification/SettingsLoad.thy ===== *)
theory SettingsLoad
  imports Settings EditMatch
begin

text \<open>
  The layered load of the settings (\<open>caliban-settings/src/loader.rs\<close>, \<open>scope.rs\<close>):
  which files a scope reads, what the scopes of a cloned repository may not set, the order of the
  merge, the provenance of a key, and the steps after the merge. The file system, the parsers of
  the JSON and TOML packages, the schema and the environment are the record \<open>host\<close>; the files
  do not change during one load.
\<close>

section \<open>Scopes\<close>

(* map: src/crates/caliban-settings/src/scope.rs 17-28 Scope *)
datatype scope = ScManaged | ScUser | ScProject | ScLocal | ScCli

(* map: src/crates/caliban-settings/src/scope.rs 34-42 label *)
fun scope_label :: "scope \<Rightarrow> string" where
  "scope_label ScManaged = ''managed''"
| "scope_label ScUser = ''user''"
| "scope_label ScProject = ''project''"
| "scope_label ScLocal = ''local''"
| "scope_label ScCli = ''cli''"

(* map: src/crates/caliban-settings/src/scope.rs 46-55 parse *)
definition scope_parse :: "string \<Rightarrow> scope option" where
  "scope_parse s =
     (let t = trim s
      in if t = ''managed'' then Some ScManaged
         else if t = ''user'' then Some ScUser
         else if t = ''project'' then Some ScProject
         else if t = ''local'' then Some ScLocal
         else if t = ''cli'' then Some ScCli
         else None)"

(* map: src/crates/caliban-settings/src/scope.rs 98-106 ScopePaths *)
record scope_paths =
  sp_managed_root :: "path option"
  sp_user_config_dir :: "path option"

datatype target_os = Linux | MacOs | Windows | OtherOs

(* map: src/crates/caliban-settings/src/scope.rs 108-128 ScopePaths::defaults *)
definition default_paths :: "target_os \<Rightarrow> path option \<Rightarrow> scope_paths" where
  "default_paths os config_dir =
     \<lparr>sp_managed_root =
        (if os = Linux \<or> os = MacOs then Some [[], ''etc'', ''caliban'']
         else if os = Windows then Some [''C:'', ''ProgramData'', ''Caliban'']
         else None),
      sp_user_config_dir = config_dir\<rparr>"

(* map: src/crates/caliban-settings/src/scope.rs 63-91 canonical_paths *)
fun canonical_paths :: "scope \<Rightarrow> path \<Rightarrow> scope_paths \<Rightarrow> (path \<times> path) option" where
  "canonical_paths ScManaged ws sp =
     map_option (\<lambda>root. (root @ [''managed-settings.json''], root @ [''managed-settings.toml''])) (sp_managed_root sp)"
| "canonical_paths ScUser ws sp =
     map_option (\<lambda>d. (d @ [''caliban'', ''settings.json''], d @ [''caliban'', ''settings.toml''])) (sp_user_config_dir sp)"
| "canonical_paths ScProject ws sp =
     Some (ws @ [''.caliban'', ''settings.json''], ws @ [''.caliban'', ''settings.toml''])"
| "canonical_paths ScLocal ws sp =
     Some (ws @ [''.caliban'', ''settings.local.json''], ws @ [''.caliban'', ''settings.local.toml''])"
| "canonical_paths ScCli ws sp = None"

section \<open>Options, outcomes and errors\<close>

(* map: src/crates/caliban-settings/src/loader.rs 46-53 ScopeSource *)
record scope_source =
  ss_scope :: scope
  ss_path :: "path option"
  ss_format :: "string option"

(* map: src/crates/caliban-settings/src/loader.rs 57-74 LoadOptions *)
record load_options =
  lo_workspace_root :: path
  lo_paths :: scope_paths
  lo_scope_filter :: "scope list option"
  lo_cli_overlay :: "json option"
  lo_bare :: bool
  lo_schema_validate :: bool

(* map: src/crates/caliban-settings/src/loader.rs 92-101 LoadOptions::new *)
definition load_options_new :: "path \<Rightarrow> scope_paths \<Rightarrow> load_options" where
  "load_options_new ws sp = \<lparr>lo_workspace_root = ws, lo_paths = sp, lo_scope_filter = None,
     lo_cli_overlay = None, lo_bare = False, lo_schema_validate = True\<rparr>"

text \<open>The final error and the one of the environment keep what was wrong, not the printed text.\<close>

(* map: src/crates/caliban-settings/src/loader.rs 163-203 LoadError *)
datatype load_error =
    LeIo path read_error
  | LeParseJson path string
  | LeParseToml path string
  | LeFinal json
  | LeCliOverlay string
  | LeUnknownScope string
  | LeEnvOverride string

(* map: src/crates/caliban-settings/src/loader.rs 141-159 LoadOutcome *)
record 'r load_outcome =
  ot_settings :: "'r settings"
  ot_sources :: "scope_source list"
  ot_provenance :: "string \<Rightarrow> scope option"
  ot_validation_warnings :: "string list"
  ot_env_overrides :: "env_override list"

record ('t, 'r) host =
  hs_exists :: "path \<Rightarrow> bool"
  hs_read :: "path \<Rightarrow> (string, read_error) result"
  hs_json :: "string \<Rightarrow> (json, string) result"
  hs_toml :: "string \<Rightarrow> ('t, string) result"
  hs_toml_value :: "'t \<Rightarrow> (json, string) result"
  hs_rules_toml :: "string \<Rightarrow> (rule list, string) result"
  hs_hooks_toml :: "string \<Rightarrow> (raw_config, string) result"
  hs_config_dir :: "path option"
  hs_env :: "string \<Rightarrow> string option"
  hs_validate :: "json \<Rightarrow> string list"
  hs_time :: "string \<Rightarrow> int option"
  hs_rest :: "(string \<times> json) list \<Rightarrow> (storage_config \<times> 'r) option"
  hs_rest_default :: 'r
  hs_legacy_mcp :: "path \<Rightarrow> 'r \<Rightarrow> 'r"

section \<open>Arguments\<close>

fun scopes_of_csv :: "string list \<Rightarrow> (scope list, load_error) result" where
  "scopes_of_csv [] = Ok []"
| "scopes_of_csv (part # parts) =
     (let t = trim part
      in if t = [] then scopes_of_csv parts
         else case scope_parse t of
           Some sc \<Rightarrow> map_ok (Cons sc) (scopes_of_csv parts)
         | None \<Rightarrow> Err (LeUnknownScope t))"

(* map: src/crates/caliban-settings/src/loader.rs 110-124 with_sources_csv *)
definition with_sources_csv :: "string \<Rightarrow> load_options \<Rightarrow> (load_options, load_error) result" where
  "with_sources_csv csv o1 =
     map_ok (\<lambda>f. o1\<lparr>lo_scope_filter := Some f\<rparr>) (scopes_of_csv (split_on CHR '','' csv))"

text \<open>\<open>Path::extension\<close> of a file name: what follows its last dot, unless that begins the name.\<close>

definition extension :: "string \<Rightarrow> string option" where
  "extension name =
     (if name = ''..'' then None
      else case split_once CHR ''.'' (rev name) of
        Some (ext, stem) \<Rightarrow> if stem = [] then None else Some (rev ext)
      | None \<Rightarrow> None)"

definition is_toml_path :: "path \<Rightarrow> bool" where
  "is_toml_path p \<longleftrightarrow>
     (p \<noteq> [] \<and> map_option (map ascii_lower) (extension (last p)) = Some ''toml'')"

(* map: src/crates/caliban-settings/src/loader.rs 638-660 parse_body *)
definition parse_body :: "('t, 'r) host \<Rightarrow> path \<Rightarrow> string \<Rightarrow> (json, load_error) result" where
  "parse_body h p body =
     (if is_toml_path p then
        (case hs_toml h body of
           Err e \<Rightarrow> Err (LeParseToml p e)
         | Ok t \<Rightarrow> map_err (LeParseJson p) (hs_toml_value h t))
      else map_err (LeParseJson p) (hs_json h body))"

(* map: src/crates/caliban-settings/src/loader.rs 489-511 parse_cli_overlay *)
definition parse_cli_overlay :: "('t, 'r) host \<Rightarrow> string \<Rightarrow> (json, load_error) result" where
  "parse_cli_overlay h arg =
     (let t = trim arg; p = split_on CHR ''/'' arg
      in if starts_with ''{'' t then map_err (LeParseJson [''<inline-json>'']) (hs_json h t)
         else case hs_read h p of
           Err FileMissing \<Rightarrow> Err (LeCliOverlay (arg @ '': file not found and not inline JSON''))
         | Err e \<Rightarrow> Err (LeIo p e)
         | Ok body \<Rightarrow> parse_body h p body)"

(* map: src/crates/caliban-settings/src/loader.rs 132-136 with_cli_overlay *)
definition with_cli_overlay :: "('t, 'r) host \<Rightarrow> string \<Rightarrow> load_options \<Rightarrow> (load_options, load_error) result" where
  "with_cli_overlay h arg o1 = map_ok (\<lambda>v. o1\<lparr>lo_cli_overlay := Some v\<rparr>) (parse_cli_overlay h arg)"

section \<open>One scope\<close>

definition import_hint :: "path \<Rightarrow> string" where
  "import_hint jp = ''caliban settings import --from '' @ show_path jp"

definition ignored_json_msg :: "scope \<Rightarrow> path \<Rightarrow> string" where
  "ignored_json_msg sc jp =
     ''settings ['' @ scope_label sc @ '']: .json detected at '' @ show_path jp @
     '' but .toml takes precedence; ignoring the .json (run `'' @ import_hint jp @
     ''` to migrate if you intended to use the .json)''"

definition legacy_json_msg :: "scope \<Rightarrow> path \<Rightarrow> string" where
  "legacy_json_msg sc jp =
     ''settings ['' @ scope_label sc @ '']: '' @ show_path jp @ '' is a legacy/import path; run `'' @
     import_hint jp @ ''` to migrate to TOML''"

(* map: src/crates/caliban-settings/src/loader.rs 528-561 read_scope *)
definition choose_file ::
  "('t, 'r) host \<Rightarrow> scope \<Rightarrow> path \<Rightarrow> path \<Rightarrow> (path \<times> string) option \<times> string list" where
  "choose_file h sc json_path toml_path =
     (if hs_exists h toml_path then
        (Some (toml_path, ''toml''), if hs_exists h json_path then [ignored_json_msg sc json_path] else [])
      else if hs_exists h json_path then (Some (json_path, ''json''), [legacy_json_msg sc json_path])
      else (None, []))"

text \<open>
  The sibling with the rules: the name of the scope's file with \<open>settings\<close> swapped for
  \<open>permissions\<close>. The directory is that of the TOML file, which always has one.
\<close>

(* map: src/crates/caliban-settings/src/loader.rs 563-580 read_scope *)
definition permissions_path :: "path \<Rightarrow> path" where
  "permissions_path toml_path =
     butlast toml_path @ [str_replace ''settings'' ''permissions'' (last toml_path)]"

(* map: src/crates/caliban-settings/src/loader.rs 587-603 read_scope *)
definition read_primary ::
  "('t, 'r) host \<Rightarrow> (path \<times> string) option \<Rightarrow> path \<Rightarrow>
   ((json \<times> path \<times> string) option, load_error) result" where
  "read_primary h chosen perm_path =
     (case chosen of
        Some (p, format) \<Rightarrow>
          (case hs_read h p of
             Err e \<Rightarrow> Err (LeIo p e)
           | Ok body \<Rightarrow> map_ok (\<lambda>v. Some (v, p, format)) (parse_body h p body))
      | None \<Rightarrow> Ok (if hs_exists h perm_path then Some (JObject [], perm_path, ''toml'') else None))"

fun set_permissions :: "json \<Rightarrow> json \<Rightarrow> json" where
  "set_permissions perms (JObject ms) = JObject (btree_insert ''permissions'' perms ms)"
| "set_permissions perms v = v"

(* map: src/crates/caliban-settings/src/loader.rs 609-626 read_scope *)
definition override_permissions :: "('t, 'r) host \<Rightarrow> path \<Rightarrow> json \<Rightarrow> (json, load_error) result" where
  "override_permissions h perm_path v =
     (if \<not> hs_exists h perm_path then Ok v
      else case hs_read h perm_path of
        Err e \<Rightarrow> Err (LeIo perm_path e)
      | Ok body \<Rightarrow>
          map_ok (\<lambda>pv. case json_get pv ''permissions'' of Some perms \<Rightarrow> set_permissions perms v | None \<Rightarrow> v)
            (parse_body h perm_path body))"

(* map: src/crates/caliban-settings/src/loader.rs 519-636 read_scope *)
definition read_scope ::
  "('t, 'r) host \<Rightarrow> load_options \<Rightarrow> scope \<Rightarrow> ((json \<times> scope_source) option, load_error) result \<times> string list" where
  "read_scope h o1 sc =
     (case canonical_paths sc (lo_workspace_root o1) (lo_paths o1) of
        None \<Rightarrow> (Ok None, [])
      | Some (json_path, toml_path) \<Rightarrow>
          (let (chosen, warnings) = choose_file h sc json_path toml_path;
               perm_path = permissions_path toml_path
           in (case read_primary h chosen perm_path of
                 Err e \<Rightarrow> Err e
               | Ok None \<Rightarrow> Ok None
               | Ok (Some (v, p, format)) \<Rightarrow>
                   map_ok (\<lambda>v. Some (v, \<lparr>ss_scope = sc, ss_path = Some p, ss_format = Some format\<rparr>))
                     (override_permissions h perm_path v),
               warnings)))"

section \<open>All scopes\<close>

(* map: src/crates/caliban-settings/src/loader.rs 211-211 USER_MANAGED_ONLY_KEYS *)
definition user_managed_only_keys :: "string list" where
  "user_managed_only_keys = [''allowed_http_hook_urls'', ''http_hook_allowed_env_vars'']"

(* map: src/crates/caliban-settings/src/loader.rs 215-225 strip_user_managed_only_keys *)
fun strip_user_managed_only_keys :: "json \<Rightarrow> json \<times> string list" where
  "strip_user_managed_only_keys (JObject ms) =
     (JObject (foldl (\<lambda>ms k. btree_remove k ms) ms user_managed_only_keys),
      filter (\<lambda>k. map_of ms k \<noteq> None) user_managed_only_keys)"
| "strip_user_managed_only_keys v = (v, [])"

definition untrusted :: "scope \<Rightarrow> bool" where
  "untrusted sc \<longleftrightarrow> sc = ScProject \<or> sc = ScLocal"

fun is_parse_error :: "load_error \<Rightarrow> bool" where
  "is_parse_error (LeParseToml _ _) = True"
| "is_parse_error (LeParseJson _ _) = True"
| "is_parse_error _ = False"

fun parse_error_str :: "load_error \<Rightarrow> string" where
  "parse_error_str (LeParseJson p e) = ''settings: json parse error in '' @ show_path p @ '': '' @ e"
| "parse_error_str (LeParseToml p e) = ''settings: toml parse error in '' @ show_path p @ '': '' @ e"
| "parse_error_str _ = []"

definition skipped_msg :: "scope \<Rightarrow> load_error \<Rightarrow> string" where
  "skipped_msg sc e =
     scope_label sc @ '': ignored this scope '' @ em_dash @ '' '' @ parse_error_str e @
     ''. An untrusted (repo-controlled) config with a syntax error is skipped rather than failing startup (#670); fix or remove the file to re-enable it.''"

definition stripped_msg :: "scope \<Rightarrow> string \<Rightarrow> string" where
  "stripped_msg sc k =
     scope_label sc @ '': ignored `'' @ k @ ''` '' @ em_dash @
     '' only the user/managed scope may set HTTP-hook allowlists (#217)''"

type_synonym per_scope = "(scope \<times> json \<times> scope_source) list"

(* map: src/crates/caliban-settings/src/loader.rs 261-319 load_settings *)
fun read_scopes ::
  "('t, 'r) host \<Rightarrow> load_options \<Rightarrow> scope list \<Rightarrow> (per_scope \<times> string list, load_error) result" where
  "read_scopes h o1 [] = Ok ([], [])"
| "read_scopes h o1 (sc # scs) =
     (if (case lo_scope_filter o1 of Some f \<Rightarrow> sc \<notin> set f | None \<Rightarrow> False) then read_scopes h o1 scs
      else
        (let (r, ws) = read_scope h o1 sc
         in case r of
           Err e \<Rightarrow>
             if is_parse_error e \<and> untrusted sc
             then map_ok (\<lambda>(ps, ws'). (ps, ws @ [skipped_msg sc e] @ ws')) (read_scopes h o1 scs)
             else Err e
         | Ok None \<Rightarrow> map_ok (\<lambda>(ps, ws'). (ps, ws @ ws')) (read_scopes h o1 scs)
         | Ok (Some (v, src)) \<Rightarrow>
             (let (v', removed) = (if untrusted sc then strip_user_managed_only_keys v else (v, []))
              in map_ok (\<lambda>(ps, ws'). ((sc, v', src) # ps, ws @ map (stripped_msg sc) removed @ ws'))
                   (read_scopes h o1 scs))))"

definition value_of :: "per_scope \<Rightarrow> scope \<Rightarrow> json option" where
  "value_of ps sc = map_of (map (\<lambda>(sc, v, src). (sc, v)) ps) sc"

definition source_of :: "per_scope \<Rightarrow> scope \<Rightarrow> scope_source option" where
  "source_of ps sc = map_of (map (\<lambda>(sc, v, src). (sc, src)) ps) sc"

(* map: src/crates/caliban-settings/src/loader.rs 321-328 load_settings *)
definition managed_blocks :: "per_scope \<Rightarrow> bool" where
  "managed_blocks ps \<longleftrightarrow>
     (case value_of ps ScManaged of
        Some v \<Rightarrow> json_get_str v ''parent_settings_behavior'' = Some ''block''
      | None \<Rightarrow> False)"

(* map: src/crates/caliban-settings/src/loader.rs 330-338 load_settings *)
definition schema_warnings :: "('t, 'r) host \<Rightarrow> load_options \<Rightarrow> per_scope \<Rightarrow> string list" where
  "schema_warnings h o1 ps =
     (if lo_schema_validate o1
      then concat (map (\<lambda>(sc, v, src). map (\<lambda>e. scope_label sc @ '': '' @ e) (hs_validate h v)) ps)
      else [])"

(* map: src/crates/caliban-settings/src/loader.rs 340-349 load_settings *)
definition merge_order :: "bool \<Rightarrow> scope list" where
  "merge_order blocks =
     (let order = [ScManaged, ScUser, ScProject, ScLocal]
      in if blocks then filter (\<lambda>s. s \<noteq> ScManaged) order @ [ScManaged] else order)"

(* map: src/crates/caliban-settings/src/loader.rs 351-399 load_settings *)
definition accumulated :: "per_scope \<Rightarrow> json option \<Rightarrow> json" where
  "accumulated ps cli =
     (let order = merge_order (managed_blocks ps);
          acc = foldl merge_values (JObject []) (List.map_filter (value_of ps) order)
      in case cli of
        None \<Rightarrow> acc
      | Some c \<Rightarrow>
          if managed_blocks ps then
            (let redo = foldl merge_values (JObject [])
                   (List.map_filter (value_of ps) (filter (\<lambda>s. s \<noteq> ScManaged) order));
                 redo = merge_values redo c
             in case value_of ps ScManaged of Some mv \<Rightarrow> merge_values redo mv | None \<Rightarrow> redo)
          else merge_values acc c)"

(* map: src/crates/caliban-settings/src/loader.rs 351-405 load_settings *)
definition load_sources :: "per_scope \<Rightarrow> json option \<Rightarrow> scope_source list" where
  "load_sources ps cli =
     List.map_filter (source_of ps) (merge_order (managed_blocks ps)) @
     (if cli = None then [] else [\<lparr>ss_scope = ScCli, ss_path = None, ss_format = Some ''inline''\<rparr>])"

(* map: src/crates/caliban-settings/src/loader.rs 407-440 load_settings *)
definition prov_order :: "per_scope \<Rightarrow> json option \<Rightarrow> (scope \<times> json) list" where
  "prov_order ps cli =
     (let at = (\<lambda>sc. map_option (Pair sc) (value_of ps sc));
          over = (case cli of Some c \<Rightarrow> [(ScCli, c)] | None \<Rightarrow> [])
      in if managed_blocks ps
         then List.map_filter at [ScUser, ScProject, ScLocal] @ over @ List.map_filter at [ScManaged]
         else List.map_filter at [ScManaged, ScUser, ScProject, ScLocal] @ over)"

(* map: src/crates/caliban-settings/src/loader.rs 441-447 load_settings *)
definition provenance_of :: "(scope \<times> json) list \<Rightarrow> string \<Rightarrow> scope option" where
  "provenance_of order =
     foldl (\<lambda>m (sc, v). foldl (\<lambda>m k. m(k \<mapsto> sc)) m (map fst (object_members v))) Map.empty order"

section \<open>The load\<close>

text \<open>Steps 6 and 7: what follows the merge.\<close>

(* map: src/crates/caliban-settings/src/loader.rs 449-477 load_settings *)
definition finish_load ::
  "('t, 'r) host \<Rightarrow> path \<Rightarrow> json \<Rightarrow> ('r settings \<times> env_override list, load_error) result" where
  "finish_load h ws merged =
     (case settings_from_value (hs_time h) (hs_rest h) merged of
        None \<Rightarrow> Err (LeFinal merged)
      | Some s \<Rightarrow>
     (case apply_env_overrides (hs_env h) s of
        Err e \<Rightarrow> Err (LeEnvOverride e)
      | Ok (s, overrides) \<Rightarrow>
          (let s = s\<lparr>st_rest := hs_legacy_mcp h ws (st_rest s)\<rparr>;
               s = snd (maybe_load_legacy_permissions
                     (load_rules (hs_read h) (hs_rules_toml h) (hs_config_dir h) [] ws) s);
               s = snd (maybe_load_legacy_hooks
                     (hooks_load (hs_read h) (hs_hooks_toml h) (hs_config_dir h) ws)
                     (load_user_scope_hooks (hs_read h) (hs_hooks_toml h) (hs_config_dir h)) s)
           in Ok (s, overrides))))"

(* map: src/crates/caliban-settings/src/loader.rs 234-486 load_settings *)
definition load_settings :: "('t, 'r) host \<Rightarrow> load_options \<Rightarrow> ('r load_outcome, load_error) result" where
  "load_settings h o1 =
     (if lo_bare o1 then
        (case apply_env_overrides (hs_env h) (blank_settings (hs_rest_default h)) of
           Err e \<Rightarrow> Err (LeEnvOverride e)
         | Ok (s, overrides) \<Rightarrow>
             Ok \<lparr>ot_settings = s, ot_sources = [], ot_provenance = Map.empty,
                 ot_validation_warnings = [], ot_env_overrides = overrides\<rparr>)
      else case read_scopes h o1 [ScManaged, ScUser, ScProject, ScLocal] of
        Err e \<Rightarrow> Err e
      | Ok (ps, warnings) \<Rightarrow>
     (case finish_load h (lo_workspace_root o1) (accumulated ps (lo_cli_overlay o1)) of
        Err e \<Rightarrow> Err e
      | Ok (s, overrides) \<Rightarrow>
          Ok \<lparr>ot_settings = s, ot_sources = load_sources ps (lo_cli_overlay o1),
              ot_provenance = provenance_of (prov_order ps (lo_cli_overlay o1)),
              ot_validation_warnings = warnings @ schema_warnings h o1 ps, ot_env_overrides = overrides\<rparr>))"

section \<open>The order of the merge\<close>

text \<open>The values are merged in the order in which the provenance is recorded.\<close>

lemma accumulated_layers: "accumulated ps cli = merge_layers (map snd (prov_order ps cli))"
proof (cases "managed_blocks ps")
  case True
  then obtain mv where "value_of ps ScManaged = Some mv" by (auto simp: managed_blocks_def split: option.splits)
  then show ?thesis using True
    by (cases cli; cases "value_of ps ScUser"; cases "value_of ps ScProject"; cases "value_of ps ScLocal")
      (simp_all add: accumulated_def prov_order_def merge_layers_def merge_order_def)
next
  case False
  then show ?thesis
    by (cases cli; cases "value_of ps ScManaged"; cases "value_of ps ScUser"; cases "value_of ps ScProject";
        cases "value_of ps ScLocal")
      (simp_all add: accumulated_def prov_order_def merge_layers_def merge_order_def)
qed

lemma prov_order_values:
  assumes "(sc, v) \<in> set (prov_order ps cli)"
  shows "(sc = ScCli \<and> cli = Some v) \<or> value_of ps sc = Some v"
  using assms by (auto simp: prov_order_def Let_def List.map_filter_def split: if_splits option.splits)

section \<open>What reaches an allowlist\<close>

definition declares :: "string \<Rightarrow> json \<Rightarrow> json \<Rightarrow> bool" where
  "declares k v x \<longleftrightarrow> (\<exists>xs. (k, JArray xs) \<in> set (object_members v) \<and> x \<in> set xs)"

lemma not_declares_JNull [simp]: "\<not> declares k (JObject []) x"
  by (simp add: declares_def)

lemma merged_member_declared:
  assumes "k \<in> set dedupe_array_keys"
  shows "x \<in> set (listed (map_of (foldl (\<lambda>l (k, hv). merge_top_key l k hv) l h) k)) \<Longrightarrow>
    x \<in> set (listed (map_of l k)) \<or> declares k (JObject h) x"
proof (induction h arbitrary: l)
  case (Cons m h)
  obtain k' hv where m: "m = (k', hv)" by fastforce
  have "x \<in> set (listed (map_of (merge_top_key l k' hv) k)) \<Longrightarrow> x \<in> set (listed (map_of l k)) \<or> declares k (JObject [m]) x"
  proof (cases "k' = k")
    case True
    have "k \<noteq> ''permissions''" using assms by (auto simp: dedupe_array_keys_def)
    then show "x \<in> set (listed (map_of (merge_top_key l k' hv) k)) \<Longrightarrow> ?thesis"
      using assms True m
      by (cases "map_of l k"; cases hv)
        (auto simp: merge_top_key_def merge_top_value_def listed_def declares_def split: json.splits)
  qed (simp add: merge_top_key_def)
  moreover have "declares k (JObject [m]) x \<or> declares k (JObject h) x \<Longrightarrow> declares k (JObject (m # h)) x"
    by (auto simp: declares_def)
  ultimately show ?case using Cons.IH [of "merge_top_key l k' hv"] Cons.prems m by auto
qed simp

lemma merged_value_declared:
  assumes "k \<in> set dedupe_array_keys" "x \<in> set (listed (json_get (merge_values l h) k))"
  shows "x \<in> set (listed (json_get l k)) \<or> declares k h x"
proof (cases h)
  case (JObject hs)
  have "x \<in> set (listed (map_of hs k)) \<Longrightarrow> declares k h x"
    using JObject by (auto simp: listed_def declares_def split: option.splits json.splits dest: map_of_SomeD [OF sym])
  then show ?thesis using assms merged_member_declared [OF assms(1)] JObject by (cases l) auto
qed (use assms(2) in \<open>auto simp: listed_def\<close>)

lemma merged_layers_declared:
  assumes "k \<in> set dedupe_array_keys" "x \<in> set (listed (json_get (merge_layers vs) k))"
  shows "\<exists>v \<in> set vs. declares k v x"
proof -
  have "x \<in> set (listed (json_get a k)) \<or> (\<exists>v \<in> set vs. declares k v x)"
    if "x \<in> set (listed (json_get (foldl merge_values a vs) k))" for a
    using that
  proof (induction vs arbitrary: a)
    case (Cons v vs)
    then show ?case using Cons.IH [of "merge_values a v"] merged_value_declared [OF assms(1)] by auto
  qed simp
  from this [of "JObject []"] show ?thesis using assms(2) by (auto simp: merge_layers_def listed_def)
qed

lemma strip_removes:
  assumes "k \<in> set user_managed_only_keys"
  shows "\<not> declares k (fst (strip_user_managed_only_keys v)) x"
  using assms by (cases v) (auto simp: declares_def user_managed_only_keys_def btree_remove_def)

lemma strippedI: "strip_user_managed_only_keys v0 = (v, removed) \<Longrightarrow> \<exists>v0. v = fst (strip_user_managed_only_keys v0)"
  by (metis fst_conv)

lemma read_scopes_values:
  "read_scopes h o1 scs = Ok (ps, ws) \<Longrightarrow> (sc, v, src) \<in> set ps \<Longrightarrow>
   sc \<in> set scs \<and>
   (if untrusted sc then \<exists>v0. v = fst (strip_user_managed_only_keys v0)
    else \<exists>ws'. read_scope h o1 sc = (Ok (Some (v, src)), ws'))"
proof (induction scs arbitrary: ps ws)
  case (Cons s scs)
  obtain r ws1 where r: "read_scope h o1 s = (r, ws1)" by fastforce
  show ?case
  proof (cases "(sc, v, src) \<in> set (case read_scopes h o1 scs of Ok (ps, ws) \<Rightarrow> ps | Err _ \<Rightarrow> [])")
    case True
    then obtain ps' ws' where "read_scopes h o1 scs = Ok (ps', ws')" "(sc, v, src) \<in> set ps'"
      by (cases "read_scopes h o1 scs") auto
    then show ?thesis using Cons.IH by simp
  next
    case False
    then show ?thesis using Cons.prems r
      by (cases "read_scopes h o1 scs")
        (auto simp: Let_def split: if_splits result.splits option.splits prod.splits intro: strippedI)
  qed
qed simp

text \<open>The two allowlists of the typed settings are those of the merged document.\<close>

lemma all_de_strings: "all_de json_as_str vs = Some ss \<Longrightarrow> vs = map JString ss"
proof (induction vs arbitrary: ss)
  case (Cons v vs)
  then show ?case by (cases v; cases "all_de json_as_str vs") auto
qed simp

lemma de_strings_listed: "de_strings v = Some ss \<Longrightarrow> listed (Some v) = map JString ss"
  by (cases v) (auto simp: de_strings_def listed_def dest: all_de_strings)

lemma field_strings: "field ms k [] de_strings = Some ss \<Longrightarrow> listed (map_of ms k) = map JString ss"
  by (auto simp: field_def listed_def [of None] dest: de_strings_listed split: option.splits)

lemma settings_of_merged:
  assumes "settings_from_value time rest v = Some s"
  shows "listed (json_get v ''allowed_http_hook_urls'') = map JString (st_allowed_http_hook_urls s) \<and>
    listed (json_get v ''http_hook_allowed_env_vars'') = map JString (st_http_hook_allowed_env_vars s) \<and>
    (\<exists>ms. v = JObject ms \<and> field ms ''permissions'' permissions_default (de_permissions time) = Some (st_permissions s))"
proof -
  obtain ms where "v = JObject ms" using assms by (cases v) auto
  moreover have "field ms ''permissions'' permissions_default (de_permissions time) = Some (st_permissions s) \<and>
      field ms ''allowed_http_hook_urls'' [] de_strings = Some (st_allowed_http_hook_urls s) \<and>
      field ms ''http_hook_allowed_env_vars'' [] de_strings = Some (st_http_hook_allowed_env_vars s)"
    using assms \<open>v = JObject ms\<close> by (clarsimp split: option.split_asm prod.split_asm)
  ultimately show ?thesis using field_strings by auto
qed

lemma env_overrides_keep:
  assumes "apply_env_overrides lookup s = Ok (s', ovs)"
  shows "st_allowed_http_hook_urls s' = st_allowed_http_hook_urls s \<and>
    st_http_hook_allowed_env_vars s' = st_http_hook_allowed_env_vars s \<and>
    pm_allow (st_permissions s') = pm_allow (st_permissions s) \<and> pm_ask (st_permissions s') = pm_ask (st_permissions s) \<and>
    pm_deny (st_permissions s') = pm_deny (st_permissions s) \<and> pm_rules (st_permissions s') = pm_rules (st_permissions s)"
  using assms by (auto simp: apply_env_overrides_def Let_def split: result.splits prod.splits)

lemma legacy_permissions_keep:
  "st_allowed_http_hook_urls (snd (maybe_load_legacy_permissions l s)) = st_allowed_http_hook_urls s"
  "st_http_hook_allowed_env_vars (snd (maybe_load_legacy_permissions l s)) = st_http_hook_allowed_env_vars s"
  by (simp_all add: maybe_load_legacy_permissions_def Let_def split: result.splits)

lemma legacy_hooks_extend:
  "set (st_allowed_http_hook_urls (snd (maybe_load_legacy_hooks l u s))) \<subseteq>
     set (st_allowed_http_hook_urls s) \<union> set (hc_allowed_urls u)"
  "set (st_http_hook_allowed_env_vars (snd (maybe_load_legacy_hooks l u s))) \<subseteq>
     set (st_http_hook_allowed_env_vars s) \<union> set (hc_allowed_env u)"
  "st_permissions (snd (maybe_load_legacy_hooks l u s)) = st_permissions s"
  by (auto simp: maybe_load_legacy_hooks_def split: result.splits)

definition user_hooks :: "('t, 'r) host \<Rightarrow> hooks_config" where
  "user_hooks h = load_user_scope_hooks (hs_read h) (hs_hooks_toml h) (hs_config_dir h)"

lemma finished_allowlists:
  assumes "finish_load h ws merged = Ok (s, ovs)"
  shows "url \<in> set (st_allowed_http_hook_urls s) \<Longrightarrow>
      JString url \<in> set (listed (json_get merged ''allowed_http_hook_urls'')) \<or> url \<in> set (hc_allowed_urls (user_hooks h))"
    "var \<in> set (st_http_hook_allowed_env_vars s) \<Longrightarrow>
      JString var \<in> set (listed (json_get merged ''http_hook_allowed_env_vars'')) \<or> var \<in> set (hc_allowed_env (user_hooks h))"
proof -
  obtain s0 where s0: "settings_from_value (hs_time h) (hs_rest h) merged = Some s0"
    using assms by (auto simp: finish_load_def split: option.splits)
  obtain s1 where s1: "apply_env_overrides (hs_env h) s0 = Ok (s1, ovs)"
    "s = snd (maybe_load_legacy_hooks (hooks_load (hs_read h) (hs_hooks_toml h) (hs_config_dir h) ws) (user_hooks h)
       (snd (maybe_load_legacy_permissions (load_rules (hs_read h) (hs_rules_toml h) (hs_config_dir h) [] ws)
         (s1\<lparr>st_rest := hs_legacy_mcp h ws (st_rest s1)\<rparr>))))"
    using assms s0 by (auto simp: finish_load_def user_hooks_def Let_def split: result.splits prod.splits)
  then obtain s2 l where s2: "s = snd (maybe_load_legacy_hooks l (user_hooks h) s2)"
    "st_allowed_http_hook_urls s2 = st_allowed_http_hook_urls s0"
    "st_http_hook_allowed_env_vars s2 = st_http_hook_allowed_env_vars s0"
    using env_overrides_keep [OF s1(1)] by (simp add: legacy_permissions_keep)
  have "set (st_allowed_http_hook_urls s) \<subseteq> set (st_allowed_http_hook_urls s0) \<union> set (hc_allowed_urls (user_hooks h))"
    "set (st_http_hook_allowed_env_vars s) \<subseteq> set (st_http_hook_allowed_env_vars s0) \<union> set (hc_allowed_env (user_hooks h))"
    using legacy_hooks_extend [of l "user_hooks h" s2] s2 by simp_all
  moreover have "set (listed (json_get merged ''allowed_http_hook_urls'')) = JString ` set (st_allowed_http_hook_urls s0)"
    "set (listed (json_get merged ''http_hook_allowed_env_vars'')) = JString ` set (st_http_hook_allowed_env_vars s0)"
    using settings_of_merged [OF s0] by simp_all
  ultimately show "url \<in> set (st_allowed_http_hook_urls s) \<Longrightarrow>
      JString url \<in> set (listed (json_get merged ''allowed_http_hook_urls'')) \<or> url \<in> set (hc_allowed_urls (user_hooks h))"
    "var \<in> set (st_http_hook_allowed_env_vars s) \<Longrightarrow>
      JString var \<in> set (listed (json_get merged ''http_hook_allowed_env_vars'')) \<or> var \<in> set (hc_allowed_env (user_hooks h))"
    by blast+
qed

text \<open>Declared by the operator: in the managed or user scope, or on the command line.\<close>

definition granted :: "('t, 'r) host \<Rightarrow> load_options \<Rightarrow> string \<Rightarrow> string \<Rightarrow> bool" where
  "granted h o1 k x \<longleftrightarrow>
     (\<exists>sc v src ws. (sc = ScManaged \<or> sc = ScUser) \<and> read_scope h o1 sc = (Ok (Some (v, src)), ws) \<and>
        declares k v (JString x)) \<or>
     (\<exists>v. lo_cli_overlay o1 = Some v \<and> declares k v (JString x))"

lemma merged_granted:
  assumes "read_scopes h o1 [ScManaged, ScUser, ScProject, ScLocal] = Ok (ps, ws)" "k \<in> set user_managed_only_keys"
    "JString x \<in> set (listed (json_get (accumulated ps (lo_cli_overlay o1)) k))"
  shows "granted h o1 k x"
proof -
  have "k \<in> set dedupe_array_keys" using assms(2) by (auto simp: user_managed_only_keys_def dedupe_array_keys_def)
  then obtain v where "v \<in> set (map snd (prov_order ps (lo_cli_overlay o1)))" and d: "declares k v (JString x)"
    using merged_layers_declared assms(3) unfolding accumulated_layers by blast
  then obtain sc where "(sc, v) \<in> set (prov_order ps (lo_cli_overlay o1))" by auto
  then consider "lo_cli_overlay o1 = Some v" | "value_of ps sc = Some v" using prov_order_values by blast
  then show ?thesis
  proof cases
    case 2
    then obtain src where "(sc, v, src) \<in> set ps" by (auto simp: value_of_def dest!: map_of_SomeD)
    from read_scopes_values [OF assms(1) this] show ?thesis
      using d strip_removes [OF assms(2)] by (auto simp: granted_def untrusted_def split: if_splits)
  qed (use d in \<open>auto simp: granted_def\<close>)
qed

text \<open>
  (C13) No file of the repository reaches an allowlist of the HTTP hooks: whatever the project and the
  local scope hold, every URL and every variable that a load allows was declared by the managed
  or the user scope, on the command line, or by the user's own file of hooks.
\<close>

theorem allowlists_are_the_operators:
  assumes "load_settings h o1 = Ok out"
  shows "(url \<in> set (st_allowed_http_hook_urls (ot_settings out)) \<longrightarrow>
      granted h o1 ''allowed_http_hook_urls'' url \<or> url \<in> set (hc_allowed_urls (user_hooks h))) \<and>
    (var \<in> set (st_http_hook_allowed_env_vars (ot_settings out)) \<longrightarrow>
      granted h o1 ''http_hook_allowed_env_vars'' var \<or> var \<in> set (hc_allowed_env (user_hooks h)))"
proof (cases "lo_bare o1")
  case True
  then obtain ovs where "apply_env_overrides (hs_env h) (blank_settings (hs_rest_default h)) = Ok (ot_settings out, ovs)"
    using assms by (auto simp: load_settings_def split: result.splits)
  from env_overrides_keep [OF this] show ?thesis by (simp add: blank_settings_def)
next
  case False
  then obtain ps ws ovs where r: "read_scopes h o1 [ScManaged, ScUser, ScProject, ScLocal] = Ok (ps, ws)"
    "finish_load h (lo_workspace_root o1) (accumulated ps (lo_cli_overlay o1)) = Ok (ot_settings out, ovs)"
    using assms by (auto simp: load_settings_def simp del: read_scopes.simps split: result.splits prod.splits)
  have "''allowed_http_hook_urls'' \<in> set user_managed_only_keys" "''http_hook_allowed_env_vars'' \<in> set user_managed_only_keys"
    by (simp_all add: user_managed_only_keys_def)
  then show ?thesis using finished_allowlists [OF r(2)] merged_granted [OF r(1)] by blast
qed

definition sample_host :: "(string, nat) host" where
  "sample_host = \<lparr>
     hs_exists = (\<lambda>p. p = [''u'', ''caliban'', ''settings.toml''] \<or> p = [''w'', ''.caliban'', ''settings.toml'']),
     hs_read = (\<lambda>p. if p = [''u'', ''caliban'', ''settings.toml''] then Ok ''user''
                else if p = [''w'', ''.caliban'', ''settings.toml''] then Ok ''project'' else Err FileMissing),
     hs_json = (\<lambda>_. Err ''not json''),
     hs_toml = Ok,
     hs_toml_value = (\<lambda>t. Ok (JObject [(''allowed_http_hook_urls'', JArray [JString (''https://'' @ t)])])),
     hs_rules_toml = (\<lambda>_. Err ''no rules''),
     hs_hooks_toml = (\<lambda>_. Err ''no hooks''),
     hs_config_dir = Some [''u''],
     hs_env = (\<lambda>_. None),
     hs_validate = (\<lambda>_. []),
     hs_time = (\<lambda>_. None),
     hs_rest = (\<lambda>_. Some (\<lparr>sc_substrate = SubFs, sc_remote = None\<rparr>, 0)),
     hs_rest_default = 0,
     hs_legacy_mcp = (\<lambda>_ r. r)\<rparr>"

definition sample_options :: load_options where
  "sample_options = load_options_new [''w''] \<lparr>sp_managed_root = None, sp_user_config_dir = Some [''u'']\<rparr>"

lemma sample_load:
  "map_ok (\<lambda>x. st_allowed_http_hook_urls (ot_settings x)) (load_settings sample_host sample_options) = Ok [''https://user'']"
  by code_simp

theorem allowlists_are_the_operators_witness:
  "\<exists>out. load_settings sample_host sample_options = Ok out \<and>
     st_allowed_http_hook_urls (ot_settings out) = [''https://user''] \<and>
     granted sample_host sample_options ''allowed_http_hook_urls'' ''https://user''"
proof -
  obtain out where out: "load_settings sample_host sample_options = Ok out"
    "st_allowed_http_hook_urls (ot_settings out) = [''https://user'']"
    using sample_load by (cases "load_settings sample_host sample_options") simp_all
  have "hc_allowed_urls (user_hooks sample_host) = []"
    by (simp add: user_hooks_def load_user_scope_hooks_def hooks_load_one_def sample_host_def hooks_default_def)
  then show ?thesis using allowlists_are_the_operators [OF out(1), of "''https://user''" "[]"] out by auto
qed

section \<open>Provenance\<close>

lemma provenance_step:
  "foldl (\<lambda>m k. m(k \<mapsto> sc)) m ks k = (if k \<in> set ks then Some sc else m k)"
  by (induction ks arbitrary: m) auto

lemma provenance_snoc:
  "provenance_of (order @ [(sc, v)]) k =
     (if k \<in> set (map fst (object_members v)) then Some sc else provenance_of order k)"
  by (simp add: provenance_of_def provenance_step)

text \<open>A key whose values replace each other, unless both are objects.\<close>

definition plain_key :: "string \<Rightarrow> bool" where
  "plain_key k \<longleftrightarrow>
     k \<noteq> ''permissions'' \<and> k \<noteq> ''hooks'' \<and> k \<notin> set dedupe_array_keys \<and> k \<notin> set named_object_keys"

lemma merge_plain: "plain_key k \<Longrightarrow> \<not> is_object v \<Longrightarrow> merge_key k lv (Some v) = Some v"
  by (simp add: merge_key_def merge_top_value_def plain_key_def split: option.splits)

lemma json_get_members: "layer v \<Longrightarrow> json_get v k = map_of (object_members v) k"
  by (cases v) (simp_all add: layer_def)

lemma provenance_layers:
  "list_all layer (map snd order) \<Longrightarrow>
   (provenance_of order k = None \<longleftrightarrow> json_get (merge_layers (map snd order)) k = None) \<and>
   (\<forall>sc. provenance_of order k = Some sc \<longrightarrow>
      (\<exists>v x. (sc, v) \<in> set order \<and> json_get v k = Some x \<and>
         (plain_key k \<and> \<not> is_object x \<longrightarrow> json_get (merge_layers (map snd order)) k = Some x)))"
proof (induction order rule: rev_induct)
  case Nil
  then show ?case by (simp add: provenance_of_def merge_layers_def)
next
  case (snoc e order)
  obtain sc v where e: "e = (sc, v)" by fastforce
  have "layer v" "list_all layer (map snd order)" using snoc.prems e by auto
  moreover have m: "json_get (merge_layers (map snd (order @ [e]))) k =
      merge_key k (json_get (merge_layers (map snd order)) k) (json_get v k)"
    using snoc.prems e merged_key [of "map snd (order @ [e])" k] merged_key [of "map snd order" k] by simp
  ultimately show ?case
  proof (cases "json_get v k")
    case None
    then have "k \<notin> set (map fst (object_members v))"
      using \<open>layer v\<close> by (simp add: json_get_members map_of_eq_None_iff)
    then have "provenance_of (order @ [e]) k = provenance_of order k" by (simp add: e provenance_snoc)
    moreover have "json_get (merge_layers (map snd (order @ [e]))) k = json_get (merge_layers (map snd order)) k"
      using m None by (simp add: merge_key_def)
    ultimately show ?thesis using snoc.IH [OF \<open>list_all layer (map snd order)\<close>] by auto
  next
    case (Some x)
    then have "k \<in> set (map fst (object_members v))"
      using \<open>layer v\<close> map_of_eq_None_iff [of "object_members v" k] by (simp add: json_get_members)
    then have "provenance_of (order @ [e]) k = Some sc" by (simp add: e provenance_snoc)
    moreover have "json_get (merge_layers (map snd (order @ [e]))) k \<noteq> None"
      using m Some by (simp add: merge_key_def)
    moreover have "plain_key k \<Longrightarrow> \<not> is_object x \<Longrightarrow> json_get (merge_layers (map snd (order @ [e]))) k = Some x"
      using m Some merge_plain by simp
    ultimately show ?thesis using Some e by auto
  qed
qed


definition sample_scopes :: per_scope where
  "sample_scopes =
     [(ScManaged, JObject [(''model'', JString ''a''), (''parent_settings_behavior'', JString ''block'')],
       \<lparr>ss_scope = ScManaged, ss_path = None, ss_format = None\<rparr>),
      (ScProject, JObject [(''agent'', JString ''p''), (''model'', JString ''b'')],
       \<lparr>ss_scope = ScProject, ss_path = None, ss_format = None\<rparr>)]"

lemma sample_order:
  "prov_order sample_scopes (Some (JObject [(''agent'', JString ''c'')])) =
     [(ScProject, JObject [(''agent'', JString ''p''), (''model'', JString ''b'')]),
      (ScCli, JObject [(''agent'', JString ''c'')]),
      (ScManaged, JObject [(''model'', JString ''a''), (''parent_settings_behavior'', JString ''block'')])]"
  by (simp add: prov_order_def managed_blocks_def value_of_def sample_scopes_def)


end
