(* ===== verification/RuleChain.thy ===== *)
theory RuleChain
  imports SettingsLoad
begin

text \<open>
  From the settings to the list of rules that the permission layer decides by: the rules of the
  command line, of the merged settings and the built-in ones (\<open>build_permissions\<close> in
  \<open>caliban/src/startup/compose.rs\<close>), with the rules of the MCP servers folded in
  (\<open>caliban-mcp-client/src/permissions.rs\<close>), and the listing of the rules by their file
  (\<open>caliban-settings/src/provenance.rs\<close>).
\<close>

section \<open>Rules of the servers\<close>

definition is_ascii_lower :: "char \<Rightarrow> bool" where
  "is_ascii_lower c = (97 \<le> (of_char c :: nat) \<and> (of_char c :: nat) \<le> 122)"

definition is_ascii_upper :: "char \<Rightarrow> bool" where
  "is_ascii_upper c = (65 \<le> (of_char c :: nat) \<and> (of_char c :: nat) \<le> 90)"

text \<open>A character of more than one byte is not ASCII.\<close>

fun normalize_char :: "string \<Rightarrow> char" where
  "normalize_char [b] =
     (if is_ascii_lower b \<or> is_ascii_upper b \<or> is_ascii_digit b \<or> b = CHR ''_'' \<or> b = CHR ''-'' then b else CHR ''_'')"
| "normalize_char _ = CHR ''_''"

(* map: src/crates/caliban-mcp-client/src/tool.rs 17-30 normalize_tool_name *)
definition normalize_tool_name :: "string \<Rightarrow> string" where
  "normalize_tool_name raw = (if raw = [] then ''_'' else map normalize_char (utf8_chars raw))"

(* map: src/crates/caliban-mcp-client/src/tool.rs 35-37 full_tool_name *)
definition full_tool_name :: "string \<Rightarrow> string \<Rightarrow> string" where
  "full_tool_name server raw_tool = ''mcp__'' @ server @ ''__'' @ normalize_tool_name raw_tool"

(* map: src/crates/caliban-config-types/src/mcp.rs 76-86 ServerPermissions *)
record server_permissions =
  sv_allow :: "string list"
  sv_deny :: "string list"
  sv_ask :: "string list"

(* map: src/crates/caliban-config-types/src/mcp.rs 304-310 is_valid_server_name *)
definition is_valid_server_name :: "string \<Rightarrow> bool" where
  "is_valid_server_name name \<longleftrightarrow>
     name \<noteq> [] \<and> length name \<le> 32 \<and>
     list_all (\<lambda>c. is_ascii_lower c \<or> is_ascii_digit c \<or> c = CHR ''_'' \<or> c = CHR ''-'') name"

(* map: src/crates/caliban-mcp-client/src/permissions.rs 53-82 scoped_rule *)
definition scoped_rule :: "string \<Rightarrow> string \<Rightarrow> rule_action \<Rightarrow> rule" where
  "scoped_rule server raw_pattern action =
     \<lparr>rl_tool = ''mcp__'' @ server @ ''__'' @
        concat (map (\<lambda>c. if c = ''*'' \<or> c = ''?'' then c else normalize_tool_name c) (utf8_chars raw_pattern)),
      rl_action = action,
      rl_comment = Some (''server '' @ [CHR 0x27] @ server @ [CHR 0x27] @
        '' permission rule from mcp.toml ('' @ action_str action @ '')''),
      rl_reason = None,
      rl_expires_at = None\<rparr>"

(* map: src/crates/caliban-mcp-client/src/permissions.rs 29-48 compile_server_permission_rules *)
definition compile_server_permission_rules :: "(string \<times> server_permissions) list \<Rightarrow> rule list" where
  "compile_server_permission_rules servers =
     concat (map (\<lambda>(name, p). map (\<lambda>pat. scoped_rule name pat RDeny) (sv_deny p)) servers) @
     concat (map (\<lambda>(name, p). map (\<lambda>pat. scoped_rule name pat RAsk) (sv_ask p)) servers) @
     concat (map (\<lambda>(name, p). map (\<lambda>pat. scoped_rule name pat RAllow) (sv_allow p)) servers)"

(* map: src/crates/caliban-mcp-client/src/permissions.rs 95-124 merge_with_global *)
definition merge_with_global :: "rule list \<Rightarrow> (string \<times> server_permissions) list \<Rightarrow> rule list" where
  "merge_with_global global_rules servers =
     (let server_rules = compile_server_permission_rules servers
      in if server_rules = [] then global_rules
         else filter (\<lambda>r. rl_action r = RDeny) global_rules @ server_rules @
              filter (\<lambda>r. rl_action r \<noteq> RDeny) global_rules)"

section \<open>The chain\<close>

record rule_flags =
  rf_allow :: "string list"
  rf_deny :: "string list"
  rf_ask :: "string list"

(* map: src/caliban/src/startup/compose.rs 1210-1237 build_permissions *)
definition flag_rules :: "rule_flags \<Rightarrow> rule list" where
  "flag_rules flags =
     map (\<lambda>p. plain_rule p RAllow) (rf_allow flags) @
     map (\<lambda>p. plain_rule p RDeny) (rf_deny flags) @
     map (\<lambda>p. plain_rule p RAsk) (rf_ask flags)"

(* map: src/caliban/src/startup/compose.rs 1210-1261 build_permissions *)
definition rule_chain ::
  "rule_flags \<Rightarrow> 'r settings \<Rightarrow> (string \<times> server_permissions) list \<Rightarrow> rule list" where
  "rule_chain flags s servers =
     merge_with_global (flag_rules flags @ permission_rules s @ default_rules) servers"

section \<open>The listing by file\<close>

(* map: src/crates/caliban-settings/src/provenance.rs 17-26 RuleProvenance *)
record rule_provenance =
  rp_scope :: scope
  rp_path :: "path option"
  rp_index :: nat

(* map: src/crates/caliban-settings/src/provenance.rs 45-84 load_rules_with_provenance *)
definition scope_rules ::
  "('t, 'r) host \<Rightarrow> load_options \<Rightarrow> scope \<Rightarrow> ((rule \<times> rule_provenance) list, load_error) result" where
  "scope_rules h o1 sc =
     (if (case lo_scope_filter o1 of Some f \<Rightarrow> sc \<notin> set f | None \<Rightarrow> False) then Ok []
      else case load_settings h
             (o1\<lparr>lo_scope_filter := Some [sc], lo_cli_overlay := None, lo_schema_validate := False\<rparr>) of
        Err e \<Rightarrow> Err e
      | Ok out \<Rightarrow>
          (let p = Option.bind (find (\<lambda>s. ss_scope s = sc) (ot_sources out)) ss_path;
               rs = permission_rules (ot_settings out)
           in if p = None then Ok []
              else Ok (map (\<lambda>(i, r). (r, \<lparr>rp_scope = sc, rp_path = p, rp_index = i\<rparr>))
                     (zip [0..<length rs] rs))))"

(* map: src/crates/caliban-settings/src/provenance.rs 38-88 load_rules_with_provenance *)
definition load_rules_with_provenance ::
  "('t, 'r) host \<Rightarrow> load_options \<Rightarrow> ((rule \<times> rule_provenance) list, load_error) result" where
  "load_rules_with_provenance h o1 =
     map_ok concat (traverse_r (scope_rules h o1) [ScLocal, ScProject, ScUser, ScManaged])"

section \<open>Which rule decides\<close>

lemma evaluate_append:
  "evaluate_rules mt (xs @ ys) ctx = or_opt (evaluate_rules mt xs ctx) (evaluate_rules mt ys ctx)"
  unfolding evaluate_rules_def by (induction xs) auto

lemma evaluate_None: "evaluate_rules mt rs ctx = None \<longleftrightarrow> (\<forall>r \<in> set rs. \<not> rule_matches mt r ctx)"
  unfolding evaluate_rules_def by (auto simp: find_None_iff)

lemma evaluate_Some: "evaluate_rules mt rs ctx = Some r \<Longrightarrow> r \<in> set rs \<and> rule_matches mt r ctx"
  unfolding evaluate_rules_def by (auto simp: find_Some_iff)

text \<open>Matched by a list whose rules all have one action.\<close>

lemma evaluate_uniform:
  assumes "r \<in> set rs" "rule_matches mt r ctx" "\<And>r. r \<in> set rs \<Longrightarrow> rl_action r = a"
  shows "\<exists>r. evaluate_rules mt rs ctx = Some r \<and> rl_action r = a"
  using assms evaluate_None [of mt rs ctx] evaluate_Some [of mt rs ctx] by (cases "evaluate_rules mt rs ctx") auto

lemma evaluate_filter:
  "\<forall>r \<in> set rs. P r \<or> \<not> rule_matches mt r ctx \<Longrightarrow> evaluate_rules mt (filter P rs) ctx = evaluate_rules mt rs ctx"
  unfolding evaluate_rules_def by (induction rs) auto

text \<open>
  (C16) The rules of the servers never beat a global denial, wherever it stands in the list, and where
  no global denial applies they decide first and the global rules after them in their order.
\<close>

theorem global_denials_come_first:
  assumes "compile_server_permission_rules servers \<noteq> []"
  shows "((\<exists>d \<in> set global_rules. rl_action d = RDeny \<and> rule_matches mt d ctx) \<longrightarrow>
      (\<exists>r \<in> set global_rules. evaluate_rules mt (merge_with_global global_rules servers) ctx = Some r \<and> rl_action r = RDeny)) \<and>
    ((\<forall>d \<in> set global_rules. rl_action d = RDeny \<longrightarrow> \<not> rule_matches mt d ctx) \<longrightarrow>
      evaluate_rules mt (merge_with_global global_rules servers) ctx =
        or_opt (evaluate_rules mt (compile_server_permission_rules servers) ctx) (evaluate_rules mt global_rules ctx))"
proof (intro conjI impI)
  let ?d = "filter (\<lambda>r. rl_action r = RDeny) global_rules"
  have m: "evaluate_rules mt (merge_with_global global_rules servers) ctx =
      or_opt (evaluate_rules mt ?d ctx) (or_opt (evaluate_rules mt (compile_server_permission_rules servers) ctx)
        (evaluate_rules mt (filter (\<lambda>r. rl_action r \<noteq> RDeny) global_rules) ctx))"
    using assms by (simp add: merge_with_global_def evaluate_append)
  {
    assume "\<exists>d \<in> set global_rules. rl_action d = RDeny \<and> rule_matches mt d ctx"
    then obtain d where "d \<in> set ?d" "rule_matches mt d ctx" by auto
    then obtain r where "evaluate_rules mt ?d ctx = Some r" using evaluate_None [of mt ?d ctx] by auto
    moreover from this have "r \<in> set ?d" using evaluate_Some by blast
    ultimately show "\<exists>r \<in> set global_rules. evaluate_rules mt (merge_with_global global_rules servers) ctx = Some r \<and> rl_action r = RDeny"
      using m by auto
  }
  assume "\<forall>d \<in> set global_rules. rl_action d = RDeny \<longrightarrow> \<not> rule_matches mt d ctx"
  then have "evaluate_rules mt ?d ctx = None"
    "evaluate_rules mt (filter (\<lambda>r. rl_action r \<noteq> RDeny) global_rules) ctx = evaluate_rules mt global_rules ctx"
    by (auto simp: evaluate_None intro: evaluate_filter)
  then show "evaluate_rules mt (merge_with_global global_rules servers) ctx =
      or_opt (evaluate_rules mt (compile_server_permission_rules servers) ctx) (evaluate_rules mt global_rules ctx)"
    using m by simp
qed

definition sample_servers :: "(string \<times> server_permissions) list" where
  "sample_servers = [(''github'', \<lparr>sv_allow = [''*''], sv_deny = [], sv_ask = []\<rparr>)]"

abbreviation sample_matcher :: matcher where
  "sample_matcher \<equiv> ws_matcher sample_globset ''/w''"

definition call_of :: "string \<Rightarrow> tool_ctx" where
  "call_of tool = \<lparr>tc_session_id = ''s'', tc_turn_index = 0, tc_tool_use_id = ''t1'',
     tc_tool_name = tool, tc_input = JNull, tc_is_read_only = False\<rparr>"

lemma bare_pattern:
  assumes "CHR '':'' \<notin> set pat" "CHR ''('' \<notin> set pat"
  shows "split_pattern pat = (pat, None)"
proof -
  have "position (\<lambda>c. c = CHR ''('') pat = None" using assms(2) by (auto simp: position_None)
  moreover have "split_once (CHR '':'') pat = None" using assms(1) by (simp add: split_once_None)
  ultimately show ?thesis by (simp add: split_pattern_def paren_open_def split_colon_def)
qed

lemma sample_matcher_name:
  "CHR '':'' \<notin> set pat \<Longrightarrow> CHR ''('' \<notin> set pat \<Longrightarrow>
   sample_matcher pat ctx = (pat = ''*'' \<or> glob_spec pat (tc_tool_name ctx))"
  by (simp add: ws_matcher_def matches_with_workspace_def bare_pattern glob_match_def sample_globset_def)

lemma call_of_name [simp]: "tc_tool_name (call_of tool) = tool"
  by (simp add: call_of_def)

theorem global_denials_come_first_witness:
  "\<exists>r \<in> set [plain_rule ''mcp__*'' RAllow, plain_rule ''mcp__*'' RDeny].
     evaluate_rules sample_matcher (merge_with_global [plain_rule ''mcp__*'' RAllow, plain_rule ''mcp__*'' RDeny] sample_servers)
       (call_of ''mcp__github__x'') = Some r \<and> rl_action r = RDeny"
proof -
  let ?g = "[plain_rule ''mcp__*'' RAllow, plain_rule ''mcp__*'' RDeny]"
  have "compile_server_permission_rules sample_servers \<noteq> []"
    by (simp add: compile_server_permission_rules_def sample_servers_def)
  moreover have "\<exists>d \<in> set ?g. rl_action d = RDeny \<and> rule_matches sample_matcher d (call_of ''mcp__github__x'')"
    by (simp add: rule_matches_def sample_matcher_name)
  ultimately show ?thesis
    using global_denials_come_first [of sample_servers ?g sample_matcher "call_of ''mcp__github__x''"] by blast
qed

text \<open>
  The move of the denials also reorders what the operator wrote for other tools: an allowed
  exception before a denial decides until some server has a rule of its own.
\<close>

lemma server_rules_reorder_the_rest:
  assumes "mt p ctx" "mt q ctx"
  shows "evaluate_rules mt (merge_with_global [plain_rule p RAllow, plain_rule q RDeny] []) ctx = Some (plain_rule p RAllow)"
    "compile_server_permission_rules servers \<noteq> [] \<Longrightarrow>
     evaluate_rules mt (merge_with_global [plain_rule p RAllow, plain_rule q RDeny] servers) ctx = Some (plain_rule q RDeny)"
proof -
  show "evaluate_rules mt (merge_with_global [plain_rule p RAllow, plain_rule q RDeny] []) ctx = Some (plain_rule p RAllow)"
    using assms by (simp add: merge_with_global_def compile_server_permission_rules_def evaluate_rules_def rule_matches_def)
  show "compile_server_permission_rules servers \<noteq> [] \<Longrightarrow>
      evaluate_rules mt (merge_with_global [plain_rule p RAllow, plain_rule q RDeny] servers) ctx = Some (plain_rule q RDeny)"
    using assms by (simp add: merge_with_global_def evaluate_rules_def rule_matches_def)
qed

text \<open>
  Two underscores separate the server from its tool, and a server may have them in its name: the
  rules of one server then match the tools of another, and two tools can have one name.
\<close>

lemma server_names_collide:
  "is_valid_server_name ''a'' \<and> is_valid_server_name ''a__b'' \<and>
   full_tool_name ''a__b'' ''x'' = full_tool_name ''a'' ''b__x'' \<and>
   sample_matcher (rl_tool (scoped_rule ''a'' ''*'' RAllow)) (call_of (full_tool_name ''a__b'' ''x''))"
proof -
  have "rl_tool (scoped_rule ''a'' ''*'' RAllow) = ''mcp__a__*''" "full_tool_name ''a__b'' ''x'' = ''mcp__a__b__x''"
    "full_tool_name ''a'' ''b__x'' = ''mcp__a__b__x''"
    by (simp_all add: scoped_rule_def full_tool_name_def normalize_tool_name_def is_ascii_lower_def is_ascii_upper_def
        is_ascii_digit_def is_continuation_def)
  then show ?thesis
    by (simp add: sample_matcher_name is_valid_server_name_def is_ascii_lower_def is_ascii_digit_def)
qed

section \<open>The denials of the scopes\<close>

definition no_flag_matches :: "matcher \<Rightarrow> rule_flags \<Rightarrow> tool_ctx \<Rightarrow> bool" where
  "no_flag_matches mt flags ctx \<longleftrightarrow> (\<forall>q \<in> set (rf_allow flags @ rf_deny flags @ rf_ask flags). \<not> mt q ctx)"

lemma no_flag_decides: "no_flag_matches mt flags ctx \<Longrightarrow> evaluate_rules mt (flag_rules flags) ctx = None"
  by (auto simp: evaluate_None rule_matches_def no_flag_matches_def flag_rules_def)

lemma denied_by_a_list:
  assumes "pm_rules (st_permissions s) = []" "p \<in> set (pm_deny (st_permissions s))" "mt p ctx" "no_flag_matches mt flags ctx"
  shows "\<exists>r. evaluate_rules mt (rule_chain flags s servers) ctx = Some r \<and> rl_action r = RDeny"
proof -
  let ?g = "flag_rules flags @ permission_rules s @ default_rules"
  have "evaluate_rules mt (flag_rules flags) ctx = None" using assms(4) by (rule no_flag_decides)
  moreover have "\<exists>r. evaluate_rules mt (map (\<lambda>t. plain_rule t RDeny) (pm_deny (st_permissions s))) ctx = Some r \<and> rl_action r = RDeny"
    using assms(2,3) by (intro evaluate_uniform [of "plain_rule p RDeny"]) (auto simp: rule_matches_def)
  ultimately have g: "\<exists>r. evaluate_rules mt ?g ctx = Some r \<and> rl_action r = RDeny"
    using assms(1) by (auto simp: permission_rules_def evaluate_append Let_def)
  have "\<exists>d \<in> set ?g. rl_action d = RDeny \<and> rule_matches mt d ctx"
    using g evaluate_Some by blast
  then show ?thesis
    using g global_denials_come_first [of servers ?g mt ctx]
    by (cases "compile_server_permission_rules servers = []") (auto simp: rule_chain_def merge_with_global_def)
qed

text \<open>What a load leaves of the lists.\<close>

definition no_lists :: "'r settings \<Rightarrow> bool" where
  "no_lists s \<longleftrightarrow> pm_allow (st_permissions s) = [] \<and> pm_ask (st_permissions s) = [] \<and>
     pm_deny (st_permissions s) = [] \<and> pm_rules (st_permissions s) = []"

lemma finished_permissions:
  fixes h :: "('t, 'r) host"
  assumes "finish_load h ws merged = Ok (s, ovs)"
  shows "\<exists>s0 (s1 :: 'r settings). settings_from_value (hs_time h) (hs_rest h) merged = Some s0 \<and>
    pm_allow (st_permissions s1) = pm_allow (st_permissions s0) \<and> pm_ask (st_permissions s1) = pm_ask (st_permissions s0) \<and>
    pm_deny (st_permissions s1) = pm_deny (st_permissions s0) \<and> pm_rules (st_permissions s1) = pm_rules (st_permissions s0) \<and>
    st_permissions s = st_permissions (snd (maybe_load_legacy_permissions
      (load_rules (hs_read h) (hs_rules_toml h) (hs_config_dir h) [] ws) s1))"
proof -
  obtain s0 where s0: "settings_from_value (hs_time h) (hs_rest h) merged = Some s0"
    using assms by (auto simp: finish_load_def split: option.splits)
  obtain s1 where s1: "apply_env_overrides (hs_env h) s0 = Ok (s1, ovs)"
    "st_permissions s = st_permissions (snd (maybe_load_legacy_permissions
       (load_rules (hs_read h) (hs_rules_toml h) (hs_config_dir h) [] ws)
       (s1\<lparr>st_rest := hs_legacy_mcp h ws (st_rest s1)\<rparr>)))"
    using assms s0 by (auto simp: finish_load_def Let_def legacy_hooks_extend(3) split: result.splits prod.splits)
  define s2 where "s2 = s1\<lparr>st_rest := hs_legacy_mcp h ws (st_rest s1)\<rparr>"
  have "pm_allow (st_permissions s2) = pm_allow (st_permissions s0)" "pm_ask (st_permissions s2) = pm_ask (st_permissions s0)"
    "pm_deny (st_permissions s2) = pm_deny (st_permissions s0)" "pm_rules (st_permissions s2) = pm_rules (st_permissions s0)"
    using env_overrides_keep [OF s1(1)] by (simp_all add: s2_def)
  then show ?thesis using s0 s1(2) [folded s2_def] by (intro exI [of _ s0] exI [of _ s2] conjI) assumption+
qed

lemma listed_settings_keep:
  "\<not> no_lists s \<Longrightarrow> snd (maybe_load_legacy_permissions l s) = s"
  by (auto simp: no_lists_def maybe_load_legacy_permissions_def Let_def)

lemma de_permissions_lists:
  assumes "de_permissions time v = Some pm"
  shows "listed (json_get v ''deny'') = map JString (pm_deny pm)"
    "listed (json_get v ''allow'') = map JString (pm_allow pm)" "listed (json_get v ''ask'') = map JString (pm_ask pm)"
    "length (listed (json_get v ''rules'')) = length (pm_rules pm)"
proof -
  obtain ms where v: "v = JObject ms" using assms by (cases v) auto
  then have f: "field ms ''deny'' [] de_strings = Some (pm_deny pm) \<and> field ms ''allow'' [] de_strings = Some (pm_allow pm) \<and>
      field ms ''ask'' [] de_strings = Some (pm_ask pm) \<and>
      field ms ''rules'' [] (de_list (de_rule_spec time)) = Some (pm_rules pm)"
    using assms by (clarsimp simp: permissions_of_members_def split: option.split_asm prod.split_asm)
  then show "listed (json_get v ''deny'') = map JString (pm_deny pm)"
    "listed (json_get v ''allow'') = map JString (pm_allow pm)" "listed (json_get v ''ask'') = map JString (pm_ask pm)"
    using v field_strings by auto
  have len: "all_de f vs = Some xs \<Longrightarrow> length vs = length xs" for f :: "json \<Rightarrow> rule_spec option" and vs xs
    by (induction vs arbitrary: xs) (auto split: option.splits)
  show "length (listed (json_get v ''rules'')) = length (pm_rules pm)"
  proof (cases "map_of ms ''rules''")
    case (Some r)
    then show ?thesis using f v len by (cases r) (auto simp: field_def listed_def)
  qed (use f v in \<open>auto simp: field_def listed_def\<close>)
qed

lemma merged_lists:
  assumes "settings_from_value time rest v = Some s"
  shows "list_in ''deny'' v = map JString (pm_deny (st_permissions s))"
    "list_in ''allow'' v = map JString (pm_allow (st_permissions s))"
    "list_in ''ask'' v = map JString (pm_ask (st_permissions s))"
    "length (list_in ''rules'' v) = length (pm_rules (st_permissions s))"
proof -
  obtain ms where v: "v = JObject ms"
    and f: "field ms ''permissions'' permissions_default (de_permissions time) = Some (st_permissions s)"
    using settings_of_merged [OF assms] by blast
  have b: "list_in c v = block_lists (map_of ms ''permissions'') c" for c using v by (simp add: list_in_block)
  have "list_in ''deny'' v = map JString (pm_deny (st_permissions s)) \<and>
    list_in ''allow'' v = map JString (pm_allow (st_permissions s)) \<and>
    list_in ''ask'' v = map JString (pm_ask (st_permissions s)) \<and>
    length (list_in ''rules'' v) = length (pm_rules (st_permissions s))"
  proof (cases "map_of ms ''permissions''")
    case None
    then have "st_permissions s = permissions_default" using f by (simp add: field_def)
    then show ?thesis by (simp add: b None block_lists_def permissions_default_def)
  next
    case (Some pv)
    then have "de_permissions time pv = Some (st_permissions s)" using f by (simp add: field_def)
    from de_permissions_lists [OF this] show ?thesis by (simp add: b Some block_lists_def)
  qed
  then show "list_in ''deny'' v = map JString (pm_deny (st_permissions s))"
    "list_in ''allow'' v = map JString (pm_allow (st_permissions s))"
    "list_in ''ask'' v = map JString (pm_ask (st_permissions s))"
    "length (list_in ''rules'' v) = length (pm_rules (st_permissions s))" by simp_all
qed

lemma load_finishes:
  assumes "load_settings h o1 = Ok out" "\<not> lo_bare o1"
    "read_scopes h o1 [ScManaged, ScUser, ScProject, ScLocal] = Ok (ps, ws)"
  shows "\<exists>ovs. finish_load h (lo_workspace_root o1) (accumulated ps (lo_cli_overlay o1)) = Ok (ot_settings out, ovs)"
  using assms by (auto simp: load_settings_def simp del: read_scopes.simps split: result.splits prod.splits)

text \<open>A denial on a list of any scope cannot be lifted by another scope.\<close>

lemma denied_by_a_scope:
  fixes h :: "('t, 'r) host"
  assumes load: "load_settings h o1 = Ok out" "\<not> lo_bare o1"
      "read_scopes h o1 [ScManaged, ScUser, ScProject, ScLocal] = Ok (ps, ws)"
    and lists: "list_all (\<lambda>(sc, v). permission_layer v \<and> list_in ''rules'' v = []) (prov_order ps (lo_cli_overlay o1))"
    and deny: "(sc, v) \<in> set (prov_order ps (lo_cli_overlay o1))" "JString p \<in> set (list_in ''deny'' v)"
    and m: "mt p ctx" "no_flag_matches mt flags ctx"
  shows "\<exists>r. evaluate_rules mt (rule_chain flags (ot_settings out) servers) ctx = Some r \<and> rl_action r = RDeny"
proof -
  let ?vs = "map snd (prov_order ps (lo_cli_overlay o1))"
  have layers: "list_all permission_layer ?vs" "\<forall>v \<in> set ?vs. list_in ''rules'' v = []"
    using lists by (auto simp: list_all_iff)
  have "list_in c (accumulated ps (lo_cli_overlay o1)) = concat (map (list_in c) ?vs)"
    if "c \<in> set permission_list_keys" for c
    using permission_lists_concatenate [OF layers(1) that] by (simp add: accumulated_layers)
  then have merged: "list_in ''deny'' (accumulated ps (lo_cli_overlay o1)) = concat (map (list_in ''deny'') ?vs)"
    "list_in ''rules'' (accumulated ps (lo_cli_overlay o1)) = concat (map (list_in ''rules'') ?vs)"
    by (simp_all add: permission_list_keys_def)
  obtain ovs where f: "finish_load h (lo_workspace_root o1) (accumulated ps (lo_cli_overlay o1)) = Ok (ot_settings out, ovs)"
    using load_finishes [OF load] by blast
  obtain s0 s1 :: "'r settings" where s: "settings_from_value (hs_time h) (hs_rest h) (accumulated ps (lo_cli_overlay o1)) = Some s0"
    "pm_deny (st_permissions s1) = pm_deny (st_permissions s0)" "pm_rules (st_permissions s1) = pm_rules (st_permissions s0)"
    "st_permissions (ot_settings out) = st_permissions (snd (maybe_load_legacy_permissions
       (load_rules (hs_read h) (hs_rules_toml h) (hs_config_dir h) [] (lo_workspace_root o1)) s1))"
    using finished_permissions [OF f] by blast
  have "JString p \<in> set (concat (map (list_in ''deny'') ?vs))" using deny by force
  then have "JString p \<in> set (map JString (pm_deny (st_permissions s0)))"
    by (simp only: merged_lists(1) [OF s(1), symmetric] merged(1))
  then have p: "p \<in> set (pm_deny (st_permissions s1))" using s(2) by auto
  then have "\<not> no_lists s1" by (auto simp: no_lists_def)
  then have "st_permissions (ot_settings out) = st_permissions s1" using s(4) by (simp add: listed_settings_keep)
  moreover have "concat (map (list_in ''rules'') ?vs) = []" unfolding concat_eq_Nil_conv using layers(2) by auto
  then have "list_in ''rules'' (accumulated ps (lo_cli_overlay o1)) = []" by (rule trans [OF merged(2)])
  then have "pm_rules (st_permissions s1) = []" using merged_lists(4) [OF s(1)] s(3) by simp
  ultimately show ?thesis using denied_by_a_list [of "ot_settings out" p mt ctx flags servers] p m by simp
qed

definition chain_host :: "(string \<Rightarrow> json) \<Rightarrow> path list \<Rightarrow> (string, nat) host" where
  "chain_host doc files = sample_host
     \<lparr>hs_exists := (\<lambda>p. p \<in> set files),
      hs_read := (\<lambda>p. if p \<in> set files then Ok (hd p) else Err FileMissing),
      hs_toml_value := (\<lambda>t. Ok (doc t))\<rparr>"

definition user_and_project :: "path list" where
  "user_and_project = [[''u'', ''caliban'', ''settings.toml''], [''w'', ''.caliban'', ''settings.toml'']]"

definition lists_doc :: "string \<Rightarrow> json" where
  "lists_doc t = JObject [(''permissions'', JObject
     (if t = ''u'' then [(''deny'', JArray [JString ''Read''])] else [(''allow'', JArray [JString ''Read''])]))]"

lemma lists_load:
  "map_ok (\<lambda>_. ()) (load_settings (chain_host lists_doc user_and_project) sample_options) = Ok ()"
  "map_ok (\<lambda>(ps, ws). prov_order ps None)
     (read_scopes (chain_host lists_doc user_and_project) sample_options [ScManaged, ScUser, ScProject, ScLocal]) =
   Ok [(ScUser, lists_doc ''u''), (ScProject, lists_doc ''w'')]"
  by code_simp+

definition no_flags :: rule_flags where
  "no_flags = \<lparr>rf_allow = [], rf_deny = [], rf_ask = []\<rparr>"

lemma lists_layers:
  obtains out ps ws where "load_settings (chain_host lists_doc user_and_project) sample_options = Ok out"
    "\<not> lo_bare sample_options"
    "read_scopes (chain_host lists_doc user_and_project) sample_options [ScManaged, ScUser, ScProject, ScLocal] = Ok (ps, ws)"
    "list_all (\<lambda>(sc, v). permission_layer v \<and> list_in ''rules'' v = []) (prov_order ps (lo_cli_overlay sample_options))"
    "(ScUser, lists_doc ''u'') \<in> set (prov_order ps (lo_cli_overlay sample_options))"
    "JString ''Read'' \<in> set (list_in ''deny'' (lists_doc ''u''))"
proof -
  let ?h = "chain_host lists_doc user_and_project"
  obtain out where out: "load_settings ?h sample_options = Ok out"
    using lists_load(1) by (cases "load_settings ?h sample_options") auto
  obtain ps ws where ps: "read_scopes ?h sample_options [ScManaged, ScUser, ScProject, ScLocal] = Ok (ps, ws)"
    "prov_order ps None = [(ScUser, lists_doc ''u''), (ScProject, lists_doc ''w'')]"
    using lists_load(2) by (cases "read_scopes ?h sample_options [ScManaged, ScUser, ScProject, ScLocal]") auto
  have o1: "\<not> lo_bare sample_options" "lo_cli_overlay sample_options = None"
    by (simp_all add: sample_options_def load_options_new_def)
  show ?thesis
    by (rule that [OF out o1(1) ps(1)])
      (simp_all add: o1 ps lists_doc_def permission_layer_def layer_def permission_block_def permission_list_keys_def list_in_def)
qed

text \<open>
  A single rule in the newer form anywhere lifts them all: here the rule of a cloned repository
  for another tool, after which the user's denial of the same name is not consulted.
\<close>

definition rules_doc :: "string \<Rightarrow> json" where
  "rules_doc t = JObject [(''permissions'', JObject
     (if t = ''u'' then [(''deny'', JArray [JString ''Bash''])]
      else [(''rules'', JArray [JObject [(''pattern'', JString ''Grep''), (''action'', JString ''allow'')]])]))]"

lemma project_rule_lifts_user_denial:
  "map_ok (\<lambda>out. (pm_deny (st_permissions (ot_settings out)), map rl_tool (permission_rules (ot_settings out))))
     (load_settings (chain_host rules_doc user_and_project) sample_options) = Ok ([''Bash''], [''Grep''])"
  by code_simp

section \<open>Without a configuration\<close>

lemma folded_never_allows:
  assumes "no_lists s" "mt ''*'' ctx"
  shows "\<exists>r. evaluate_rules mt (permission_rules (snd (maybe_load_legacy_permissions (Ok (rs @ default_rules)) s))) ctx = Some r \<and>
    rl_action r \<noteq> RAllow"
proof -
  let ?den = "map (\<lambda>t. plain_rule t RDeny) (tools_with RDeny (rs @ default_rules))"
  let ?ask = "map (\<lambda>t. plain_rule t RAsk) (tools_with RAsk (rs @ default_rules))"
  have p: "permission_rules (snd (maybe_load_legacy_permissions (Ok (rs @ default_rules)) s)) =
      ?den @ ?ask @ map (\<lambda>t. plain_rule t RAllow) (tools_with RAllow (rs @ default_rules))"
    using assms(1) by (simp add: permission_rules_def maybe_load_legacy_permissions_def no_lists_def Let_def)
  have "plain_rule ''*'' RAsk \<in> set ?ask" by (simp add: tools_with_def default_rules_def)
  then have "\<exists>r. evaluate_rules mt ?ask ctx = Some r \<and> rl_action r = RAsk"
    using assms(2) by (intro evaluate_uniform [of "plain_rule ''*'' RAsk"]) (auto simp: rule_matches_def)
  moreover have "evaluate_rules mt ?den ctx = Some r \<Longrightarrow> rl_action r = RDeny" for r
    using evaluate_Some [of mt ?den ctx r] by auto
  ultimately show ?thesis unfolding p evaluate_append
    by (cases "evaluate_rules mt ?den ctx") auto
qed


lemma fresh_load:
  "map_ok (\<lambda>_. ()) (load_settings (chain_host lists_doc []) sample_options) = Ok ()"
  "read_scopes (chain_host lists_doc []) sample_options [ScManaged, ScUser, ScProject, ScLocal] = Ok ([], [])"
  "load_rules (hs_read (chain_host lists_doc [])) (hs_rules_toml (chain_host lists_doc []))
     (hs_config_dir (chain_host lists_doc [])) [] (lo_workspace_root sample_options) = Ok default_rules"
  by code_simp+


text \<open>The listing shows the built-in rules as if they stood in the user's file.\<close>

lemma listing_attributes_builtin_rules:
  "map_ok (map (\<lambda>(r, p). (rl_tool r, rp_scope p)))
     (load_rules_with_provenance (chain_host (\<lambda>_. JObject [(''model'', JString ''m'')]) [[''u'', ''caliban'', ''settings.toml'']])
        sample_options) =
   Ok (map (\<lambda>t. (t, ScUser))
     [''WebFetch'', ''Bash'', ''Write'', ''Edit'', ''*'', ''Read'', ''Grep'', ''Glob'', ''TodoWrite'', ''EnterPlanMode'', ''ExitPlanMode''])"
  by code_simp

end
