(* ===== verification/Spec2Isabelle.thy ===== *)
theory Spec2Isabelle
  imports Daemon AgentGate AgentBounds FsTools OpenAiStream Anthropic RuleChain
begin

text \<open>
  A verification library for caliban, an agent harness written in Rust (\<open>src/\<close>).

  \<^bold>\<open>The program.\<close> An agent loop asks a language model for a turn, gates the tool calls that
  the model makes, runs the allowed ones, feeds the results back and goes on until the model has
  answered (\<open>caliban-agent-core\<close>). The model is reached through a router that picks a
  provider, falls back and hedges, with a circuit breaker for each route
  (\<open>caliban-model-router\<close>), over a provider-neutral representation of messages and streams
  (\<open>caliban-provider\<close>). The gate is a stack of callbacks: a filter for the permission mode
  over the permission rules, with a classifier for auto mode. A daemon runs agents in the
  background, as worker processes that it launches, signals and waits for
  (\<open>caliban-supervisor\<close>).

  \<^bold>\<open>The theories\<close>, in the order of their imports:

  \<^item> \<open>Prelude\<close>: results, UTF-8 text as bytes, saturating and wrapping arithmetic, lists,
    the collections of simplification rules, and the contract of a bounded cache.
  \<^item> \<open>Json\<close>, \<open>Messages\<close>: JSON values; roles, blocks, messages, usage, errors,
    stream events and requests with their validation (\<open>message.rs\<close>, \<open>request.rs\<close>,
    \<open>error.rs\<close>, \<open>stream.rs\<close>).
  \<^item> \<open>Glob\<close>: the greedy matcher (\<open>glob_match.rs\<close>) against the language of globs.
  \<^item> \<open>Hooks\<close>: the callbacks, as functions that pass the world on, and their composition
    (\<open>hooks.rs\<close>).
  \<^item> \<open>Matcher\<close>, \<open>Permissions\<close>, \<open>AutoMode\<close>, \<open>ModeFilter\<close>: the
    permission layer (\<open>permissions_matcher.rs\<close>, \<open>permissions.rs\<close>,
    \<open>permission_mode.rs\<close>, \<open>auto_mode.rs\<close>, \<open>mode_filter.rs\<close>): which calls
    a rule matches, which rule decides, what a mode makes of the decision, and that a denial is
    final outside of two modes.
  \<^item> \<open>Breaker\<close>, \<open>Router\<close>, \<open>Dispatch\<close>: the circuit breaker as a step
    relation with its reachable states, the resolution of a purpose to candidates, sequential and
    hedged dispatch (\<open>breaker.rs\<close>, \<open>resolver.rs\<close>, \<open>config.rs\<close>,
    \<open>dispatch.rs\<close>, \<open>hedging.rs\<close>).
  \<^item> \<open>Compact\<close>: well-formed histories, the pairing of calls and results, and the four
    compactors (\<open>compact.rs\<close>), with the contract that the loop relies on
    (\<open>history_compactor\<close>) and an instance for each of them.
  \<^item> \<open>TurnStream\<close>: retries, the stream watchdog on arrival times, and the two assemblers of
    a streamed message, which agree (\<open>retry.rs\<close>, \<open>stream.rs\<close>,
    \<open>stream/turn.rs\<close>).
  \<^item> \<open>ToolSurface\<close>: the registry, what rides the wire, the activation set as a
    least-recently-used cache, prompt-cache markers and the cap on results.
  \<^item> \<open>Recovery\<close>: configuration, stop conditions, the recovery state machine
    (\<open>agent.rs\<close>, \<open>stream/recovery.rs\<close>).
  \<^item> \<open>AgentLoop\<close>: one attempt at a turn, phase by phase (\<open>stream/mod.rs\<close>,
    \<open>stream/hook_dispatch.rs\<close>, \<open>stream/parallel.rs\<close>). The loop's variables are the
    record \<open>loop_state\<close>; \<open>continue 'inner\<close>, \<open>break 'inner\<close> and
    \<open>break 'outer\<close> are the constructors of \<open>flow\<close>.
  \<^item> \<open>AgentRun\<close>: the two loops, the run and its wrappers (\<open>turn.rs\<close>). The inner
    loop terminates because every retry spends a budget; \<open>turn_invariant\<close> turns an
    invariant of the attempts into one of the run, and is used for the reports of a run and for
    the growth of its log. Every run ends when the timeouts are not zero.
  \<^item> \<open>AgentHistory\<close>: concurrent calls run once and in order where they conflict; every
    call is answered in its place; a provider is only sent well-formed histories.
    \<open>same_attempts\<close> extends the contract to two agents that attempt every turn alike.
  \<^item> \<open>AgentGate\<close>: what a call needs to be planned, and that a tool that the rules deny
    never runs: the permission layer and the loop together.
  \<^item> \<open>AgentBounds\<close>: the caps of the recovery over a whole run.
  \<^item> \<open>EditMatch\<close>: where the text of an edit is in a file (\<open>fs/match_old.rs\<close>).
    A verbatim edit is a replacement of every occurrence, the distance of the near-miss report is
    the edit distance; three ways to panic or to duplicate a line are recorded.
  \<^item> \<open>Workspace\<close>: the fence of the built-in tools and the confined atomic write under
    it, call by call (\<open>workspace.rs\<close>, \<open>caliban-common/src/fs.rs\<close>). The system is a
    record of calls on a world that anyone may change in between; \<open>traced\<close> adds a log of the
    effects, and \<open>confined_calls\<close> is the contract that carries an invariant of the calls over
    to a whole write.
  \<^item> \<open>FsTools\<close>: Read, Write, Edit and MultiEdit (\<open>fs/\<close>) over both: atomic, fenced,
    and edits in sequence.
  \<^item> \<open>Transport\<close>, \<open>StreamShape\<close>: what the provider adapters share: failed transfers
    and statuses (\<open>transport.rs\<close>), and the contract of a stream parser (\<open>event_source\<close>),
    under which the two assemblers can only part on a tool input that does not parse.
  \<^item> \<open>OpenAi\<close>, \<open>OpenAiStream\<close>: the adapter for OpenAI-compatible servers
    (\<open>caliban-provider-openai\<close>): conversion of requests and responses, models, errors, and
    the parser of the stream as a state machine of emitters. Requests pair calls and results as
    the service demands, responses survive the next request, and the stream delivers the text,
    the reasoning and the usage that the chunks carry.
  \<^item> \<open>Anthropic\<close>: the adapter for the Messages API (\<open>caliban-provider-anthropic\<close>).
    Blocks survive the wire in both directions, a request that validates is converted without a
    panic, and a stream that keeps the protocol is assembled, and charged, as the same turn
    without streaming.
  \<^item> \<open>HookConfig\<close>, \<open>SettingsMerge\<close>, \<open>Settings\<close>,
    \<open>SettingsLoad\<close>: the configuration (\<open>caliban-config-types\<close>,
    \<open>caliban-settings\<close>): the files of hook handlers, the merge of two layers key by key, the
    typed settings with the rules they stand for, and the load of all scopes with its errors. The
    merge keeps documents well formed, the provenance names the scope whose value counts, and no
    file of a repository reaches an allowlist of the HTTP hooks.
  \<^item> \<open>RuleChain\<close>: the list of rules that start-up hands to the permission layer, with
    those of the MCP servers (\<open>caliban-mcp-client/src/permissions.rs\<close>,
    \<open>startup/compose.rs\<close>). Denials of a scope hold; without a configuration the built-in
    rules that allow are never reached.
  \<^item> \<open>AgentStore\<close>, \<open>AgentRegistry\<close>, \<open>Supervisor\<close>: the records of the agents with
    their wire types, the manifests on a disk whose every call may fail, the registry over both,
    and the daemon's handlers (\<open>caliban-contract/src/wire.rs\<close>, \<open>store.rs\<close>,
    \<open>registry.rs\<close>, \<open>sources.rs\<close>, \<open>server.rs\<close>). What a handler does under one hold of
    the registry's lock is one step; what it has left to do is a task of the state.
  \<^item> \<open>SupervisorRuns\<close>, \<open>SupervisorLife\<close>, \<open>SupervisorProps\<close>,
    \<open>SupervisorDisk\<close>: the step relation \<open>sup_step\<close>, in which requests and tasks interleave
    in any order, with what a step can do to a record; the invariant that ties pids, records and
    tasks together; what follows for statuses, signals, worktrees and failed requests; and the
    manifests as a mirror of the records.
  \<^item> \<open>Daemon\<close>: the claims on the daemon, a concrete one to apply them to, and what it
    misses (a kill during a launch, an idle agent at a restart, ports after the counter wraps).
  \<^item> \<open>Spec2Isabelle\<close>: the load, the chain, the gate and the loop together, from a denial
    in a file to a tool that never runs.

  \<^bold>\<open>How the code is read.\<close> Strings are lists of bytes in UTF-8, so that a cut inside a
  character is visible. Token counts that the source keeps at a width are words; sizes and
  counters that cannot reach their width are natural numbers, with the bound proved or the
  saturation written out. Durations are milliseconds. Floating-point settings are bit patterns
  and what is computed with them is a parameter. Everything outside of a function's own data is a
  world that callbacks, tools, providers and the clock take and return; the cancellation token is
  read from it. \<^const>\<open>None\<close> of a whole operation is a panic or a wait that never ends, as
  its theory says. Errors are values of \<open>result\<close>. Code that is not in the repository (JSON
  printing and parsing, glob sets, hashing, network, file system, random jitter) is a parameter;
  the witnesses instantiate it with concrete functions.

  \<^bold>\<open>Bounds.\<close> No fuel is used: loops are structural recursions over what is left (turns,
  items of a stream, plans) or have a measure (the retry budget of a turn, the attempts of a
  retry, the length of a pattern). A wait without a timeout is \<^const>\<open>None\<close>. A breaker's
  operation, a tool call and a critical section of the daemon are atomic steps; the order of
  concurrent calls, the schedule of a hedged race, the arrival times of a stream and the
  interleaving of the daemon's requests and tasks are arbitrary. The claims on the daemon
  assume that its random ids differ from each other and from the stored ones
  (\<open>fresh_draws\<close>), and the one on a restart that the disk works and that a record is read back
  as it was printed (\<open>json_faithful\<close>).

  \<^bold>\<open>Not modelled.\<close> The terminal interface, the headless and server front ends, most of
  start-up and the command line, plugins, sessions, memory, skills, images, the sandbox,
  telemetry and the MCP client are file, process or network I/O around the core.
  Of the modelled crates, tracing, the announcement events of the callbacks, the transports of
  the adapters, the sockets and handshakes of the daemon, the command line of its workers and the
  blocks of the settings that neither the permission layer nor the hooks read are left out. The
  Google adapter and the pruning of checkpoints hold pure logic that is worth a theory each.
\<close>

text \<open>
  (C1) From the files to the run: a tool that a denial of any scope names, for every input, is
  never invoked in the course of a run of the agent whose callback is the mode filter over the
  rules of that load, whatever the other scopes, the servers and the model say, as long as every
  scope writes its rules as lists, no flag of the command line and no rule added in the session
  matches, and the mode is not auto mode or the confirmed bypass.
\<close>

theorem tools_denied_by_a_scope_never_run:
  assumes load: "load_settings h o1 = Ok out" "\<not> lo_bare o1"
      "read_scopes h o1 [ScManaged, ScUser, ScProject, ScLocal] = Ok (ps, ws)"
    and lists: "list_all (\<lambda>(sc, v). permission_layer v \<and> list_in ''rules'' v = []) (prov_order ps (lo_cli_overlay o1))"
    and deny: "(sc, v) \<in> set (prov_order ps (lo_cli_overlay o1))" "JString p \<in> set (list_in ''deny'' v)"
    and m: "\<And>ctx. tc_tool_name ctx = name \<Longrightarrow> mt p ctx \<and> no_flag_matches mt flags ctx"
    and gate: "gated_by mf ag" "gated mt ph mf" "ph_rules ph = rule_chain flags (ot_settings out) servers"
      "\<And>w. ph_runtime ph w = []"
    and mode: "\<And>w. mf_mode mf w \<noteq> Auto \<and> \<not> (mf_mode mf w = BypassPermissions \<and> mf_bypass_latch mf)"
  shows "stream_until_done_with_settings (ag\<lparr>ag_tools := rearm name g (ag_tools ag)\<rparr>) messages st w =
         stream_until_done_with_settings ag messages st w"
proof (rule rule_denied_tool_unused [OF gate(1,2) _ mode])
  fix ctx :: tool_ctx and w
  assume "tc_tool_name ctx = name"
  then obtain r where "evaluate_rules mt (rule_chain flags (ot_settings out) servers) ctx = Some r" "rl_action r = RDeny"
    using denied_by_a_scope [OF load lists deny] m by blast
  then show "perm_evaluate mt ph ctx w = RDeny"
    by (simp add: perm_evaluate_effective effective_rules_def gate(3,4))
qed

lemma default_gate:
  "gated_by (sample_filter Default rules) (demo_agent (filter_hooks (sample_filter Default rules)))"
proof -
  have "mode_before_tool (sample_filter Default rules) ctx w =
      Some (unwrap_or (Ok Allow, w) (mode_before_tool (sample_filter Default rules) ctx w))" for ctx :: tool_ctx and w :: bool
    by (simp add: mode_before_tool_def mode_branch_def sample_filter_def)
  then show ?thesis by (simp add: gated_by_def demo_agent_def filter_hooks_def)
qed

theorem tools_denied_by_a_scope_never_run_witness:
  "\<exists>out. load_settings (chain_host lists_doc user_and_project) sample_options = Ok out \<and>
     (let ag = demo_agent (filter_hooks (sample_filter Default (rule_chain no_flags (ot_settings out) sample_servers)))
      in stream_until_done_with_settings (ag\<lparr>ag_tools := rearm ''Read'' (\<lambda>_ _ _ _. (Ok [], True)) (ag_tools ag)\<rparr>)
           [msg_user_text ''hi''] (settings_default quiet_run_hooks) False =
         stream_until_done_with_settings ag [msg_user_text ''hi''] (settings_default quiet_run_hooks) False)"
proof -
  obtain out ps ws where load: "load_settings (chain_host lists_doc user_and_project) sample_options = Ok out"
      "\<not> lo_bare sample_options"
      "read_scopes (chain_host lists_doc user_and_project) sample_options [ScManaged, ScUser, ScProject, ScLocal] = Ok (ps, ws)"
    and lists: "list_all (\<lambda>(sc, v). permission_layer v \<and> list_in ''rules'' v = []) (prov_order ps (lo_cli_overlay sample_options))"
    and deny: "(ScUser, lists_doc ''u'') \<in> set (prov_order ps (lo_cli_overlay sample_options))"
      "JString ''Read'' \<in> set (list_in ''deny'' (lists_doc ''u''))"
    by (rule lists_layers)
  have m: "sample_matcher ''Read'' ctx \<and> no_flag_matches sample_matcher no_flags ctx" if "tc_tool_name ctx = ''Read''" for ctx
    using that by (simp add: sample_matcher_name no_flag_matches_def no_flags_def)
  let ?rules = "rule_chain no_flags (ot_settings out) sample_servers"
  have r: "ph_rules (sample_rules ?rules) = ?rules" "ph_runtime (sample_rules ?rules) w = []" for w :: bool
    by (simp_all add: sample_rules_def)
  have mode: "mf_mode (sample_filter Default ?rules) w \<noteq> Auto \<and>
      \<not> (mf_mode (sample_filter Default ?rules) w = BypassPermissions \<and> mf_bypass_latch (sample_filter Default ?rules))"
    for w :: bool by (simp add: sample_filter_def)
  from tools_denied_by_a_scope_never_run [OF load lists deny m default_gate sample_gated r mode]
  show ?thesis unfolding Let_def using load(1) by blast
qed

end
